(* ===== verification/Prelude.thy ===== *)
theory Prelude
  imports Main "HOL-Library.Word" "HOL-Library.AList"
begin

text \<open>
  Shared ground of the development: the result and error types of the framework, the
  C++ standard containers the sources use, \<open>std::to_string\<close> on unsigned integers, and
  the generic machine contract that every component with a state interprets.

  \<^item> \<open>Result.hpp\<close> only re-exports the result and error types of the
    third-party library \<open>bbt::infra\<close>. Of that library the model takes what the
    sources under \<open>framework/\<close> rely on: \<open>MakeError (code, message)\<close> stores its two
    arguments and attaches no details. The domain and domain code it assigns are not
    known here, so \<open>None\<close> in \<open>err_domain\<close> and \<open>err_domain_code\<close> stands for
    ``as \<open>MakeError\<close> left it'' and \<open>Some d\<close> for a value the framework assigned.
  \<^item> \<open>std::map\<close> and \<open>std::unordered_map\<close> are association lists with distinct
    keys: \<open>emplace\<close> does nothing on a present key, \<open>erase\<close> removes the key,
    \<open>size\<close> is the length.
  \<^item> \<open>std::uint64_t\<close> is \<open>64 word\<close>; \<open>std::size_t\<close> counters that only count
    objects in memory are \<open>nat\<close>.
  \<^item> A critical section (a \<open>lock_guard\<close> scope) is one atomic step of the model.
\<close>

named_theorems model_defs \<open>definitions of the model to unfold\<close>
named_theorems inv_intros \<open>invariant preservation, one rule per operation\<close>
named_theorems size_simps \<open>sizes of the containers after an operation\<close>

subsection \<open>Errors and results\<close>

datatype error_code =
    InvalidArgument | InternalError | RuntimeUnavailable | TimedOut | NotFound
  | Overloaded | Closed | RemoteError | ProtocolError | Unavailable | InvalidContext
  | Cancelled | OutcomeUnknown | TypeMismatch | UnsupportedRoute | TransportError

record error =
  err_code :: error_code
  err_domain :: "string option"
  err_domain_code :: "string option"
  err_message :: string
  err_details :: "(string \<times> string) list"

type_synonym 'a result = "error + 'a"
type_synonym u64 = "64 word"

definition MakeError :: "error_code \<Rightarrow> string \<Rightarrow> error" where
  "MakeError c m =
     \<lparr>err_code = c, err_domain = None, err_domain_code = None, err_message = m,
      err_details = []\<rparr>"

definition fail :: "error_code \<Rightarrow> string \<Rightarrow> 'a result" where
  "fail c m = Inl (MakeError c m)"

lemma MakeError_simps [simp]:
  "err_code (MakeError c m) = c"
  "err_domain (MakeError c m) = None"
  "err_domain_code (MakeError c m) = None"
  "err_message (MakeError c m) = m"
  "err_details (MakeError c m) = []"
  by (simp_all add: MakeError_def)

lemma fail_ne_Inr [simp]: "fail c m \<noteq> Inr x" "Inr x \<noteq> fail c m"
  by (simp_all add: fail_def)

lemma fail_eq_Inl [simp]: "fail c m = Inl e \<longleftrightarrow> e = MakeError c m"
  by (auto simp: fail_def)

lemma case_fail [simp]:
  "(case fail c m of Inl x \<Rightarrow> f x | Inr y \<Rightarrow> g y) = f (MakeError c m)"
  by (simp add: fail_def)

definition is_ok :: "'a result \<Rightarrow> bool" where
  "is_ok r = (case r of Inl _ \<Rightarrow> False | Inr _ \<Rightarrow> True)"

lemma is_ok_simps [simp]: "is_ok (Inr x)" "\<not> is_ok (Inl e)" "\<not> is_ok (fail c m)"
  by (simp_all add: is_ok_def fail_def)

text \<open>The code of a failed result; \<open>None\<close> when it is a success.\<close>

definition code_of :: "'a result \<Rightarrow> error_code option" where
  "code_of r = (case r of Inl e \<Rightarrow> Some (err_code e) | Inr _ \<Rightarrow> None)"

lemma code_of_simps [simp]:
  "code_of (Inl e) = Some (err_code e)"
  "code_of (Inr x) = None"
  "code_of (fail c m) = Some c"
  by (simp_all add: code_of_def fail_def)

text \<open>A name in single quotes, as the messages of the sources print it.\<close>

definition quoted :: "string \<Rightarrow> string" where
  "quoted s = CHR 0x27 # s @ [CHR 0x27]"

subsection \<open>Standard containers as association lists\<close>

definition emplace :: "'k \<Rightarrow> 'v \<Rightarrow> ('k \<times> 'v) list \<Rightarrow> ('k \<times> 'v) list" where
  "emplace k v m = (case map_of m k of None \<Rightarrow> m @ [(k, v)] | Some _ \<Rightarrow> m)"

definition keys_distinct :: "('k \<times> 'v) list \<Rightarrow> bool" where
  "keys_distinct m = distinct (map fst m)"

lemma keys_distinct_Nil [simp]: "keys_distinct []"
  by (simp add: keys_distinct_def)

lemma map_of_append_None:
  "map_of (xs @ ys) k = (case map_of xs k of None \<Rightarrow> map_of ys k | Some v \<Rightarrow> Some v)"
  by (induction xs) auto

lemma map_of_emplace:
  "map_of (emplace k v m) k' =
     (if k' = k \<and> map_of m k = None then Some v else map_of m k')"
  by (auto simp: emplace_def map_of_append_None simp del: map_of_append split: option.splits)

lemma keys_distinct_emplace [simp]: "keys_distinct m \<Longrightarrow> keys_distinct (emplace k v m)"
  by (auto simp: keys_distinct_def emplace_def map_of_eq_None_iff split: option.splits)

lemma keys_distinct_delete [simp]: "keys_distinct m \<Longrightarrow> keys_distinct (AList.delete k m)"
  by (simp add: keys_distinct_def distinct_delete)

lemma keys_distinct_update [simp]: "keys_distinct m \<Longrightarrow> keys_distinct (AList.update k v m)"
  by (simp add: keys_distinct_def distinct_update)

lemma map_of_delete:
  "map_of (AList.delete k m) k' = (if k' = k then None else map_of m k')"
  by (simp add: delete_conv')

lemma map_of_update:
  "map_of (AList.update k v m) k' = (if k' = k then Some v else map_of m k')"
  by (simp add: update_conv')

lemma length_emplace:
  "length (emplace k v m) = (if map_of m k = None then Suc (length m) else length m)"
  by (auto simp: emplace_def split: option.splits)

lemma map_of_Some_in_set: "map_of m k = Some v \<Longrightarrow> (k, v) \<in> set m"
  by (rule map_of_SomeD)

lemma map_of_eq_Some_distinct:
  "keys_distinct m \<Longrightarrow> map_of m k = Some v \<longleftrightarrow> (k, v) \<in> set m"
  by (simp add: keys_distinct_def)

lemma set_delete: "set (AList.delete k m) = {p \<in> set m. fst p \<noteq> k}"
  by (auto simp: AList.delete_eq)

lemma keys_delete: "fst ` set (AList.delete k m) = fst ` set m - {k}"
  by (auto simp: set_delete)

lemma length_delete_present:
  assumes "keys_distinct m" and "map_of m k = Some v"
  shows "Suc (length (AList.delete k m)) = length m"
  using assms
proof (induction m)
  case Nil
  then show ?case by simp
next
  case (Cons p m)
  show ?case
  proof (cases "fst p = k")
    case True
    with Cons.prems have "k \<notin> fst ` set m"
      by (auto simp: keys_distinct_def)
    with True show ?thesis by (cases p) (simp add: delete_idem)
  next
    case False
    with Cons show ?thesis by (cases p) (auto simp: keys_distinct_def)
  qed
qed

lemma delete_absent: "map_of m k = None \<Longrightarrow> AList.delete k m = m"
  by (simp add: delete_idem map_of_eq_None_iff)

lemma sum_list_delete:
  fixes f :: "'k \<times> 'v \<Rightarrow> nat"
  assumes "keys_distinct m" and "map_of m k = Some v"
  shows "sum_list (map f m) = f (k, v) + sum_list (map f (AList.delete k m))"
  using assms
proof (induction m)
  case Nil
  then show ?case by simp
next
  case (Cons p m)
  show ?case
  proof (cases "fst p = k")
    case True
    with Cons.prems have "map_of m k = None" and "p = (k, v)"
      by (cases p; auto simp: keys_distinct_def map_of_eq_None_iff)+
    then show ?thesis by (simp add: delete_absent)
  next
    case False
    with Cons show ?thesis by (cases p) (auto simp: keys_distinct_def)
  qed
qed

lemma dom_map_of_fst: "map_of m k \<noteq> None \<longleftrightarrow> k \<in> fst ` set m"
  by (simp add: map_of_eq_None_iff)

lemma length_keys:
  "keys_distinct m \<Longrightarrow> distinct ks \<Longrightarrow> set ks = fst ` set m \<Longrightarrow> length ks = length m"
  by (metis distinct_card keys_distinct_def length_map list.set_map)

text \<open>\<open>std::remove\<close> of the first occurrence, as the erase loops of the sources do it.\<close>

lemma remove1_idem_notin: "x \<notin> set xs \<Longrightarrow> remove1 x xs = xs"
  by (rule remove1_idem)

lemma sum_list_remove1_map:
  "x \<in> set xs \<Longrightarrow> sum_list (map f xs) = f x + (sum_list (map f (remove1 x xs)) :: nat)"
  by (rule sum_list_map_remove1)

subsection \<open>Unsigned decimals: \<open>std::to_string\<close> on unsigned integers\<close>

definition digit_char :: "nat \<Rightarrow> char" where
  "digit_char d = char_of (48 + d)"

fun to_string :: "nat \<Rightarrow> string" where
  "to_string n =
     (if n < 10 then [digit_char n]
      else to_string (n div 10) @ [digit_char (n mod 10)])"

declare to_string.simps [simp del]

definition is_digit :: "char \<Rightarrow> bool" where
  "is_digit c = (48 \<le> (of_char c :: nat) \<and> (of_char c :: nat) \<le> 57)"

definition digit_val :: "char \<Rightarrow> nat" where
  "digit_val c = of_char c - 48"

text \<open>The value of a decimal string, most significant digit first.\<close>

definition dec_val :: "string \<Rightarrow> nat" where
  "dec_val s = foldl (\<lambda>v c. v * 10 + digit_val c) 0 s"

lemma of_char_digit_char: "d < 10 \<Longrightarrow> of_char (digit_char d) = (48 + d :: nat)"
  by (simp add: digit_char_def of_char_of)

lemma is_digit_digit_char [simp]: "d < 10 \<Longrightarrow> is_digit (digit_char d)"
  by (simp add: is_digit_def of_char_digit_char)

lemma digit_val_digit_char [simp]: "d < 10 \<Longrightarrow> digit_val (digit_char d) = d"
  by (simp add: digit_val_def of_char_digit_char)

lemma digit_val_less: "is_digit c \<Longrightarrow> digit_val c < 10"
  by (auto simp: is_digit_def digit_val_def)

lemma to_string_nonempty [simp]: "to_string n \<noteq> []"
  by (subst to_string.simps) simp

lemma to_string_digits: "\<forall>c \<in> set (to_string n). is_digit c"
proof (induction n rule: to_string.induct)
  case (1 n)
  show ?case
    by (subst to_string.simps) (use 1 in \<open>auto\<close>)
qed

lemma dec_val_append: "dec_val (s @ [c]) = dec_val s * 10 + digit_val c"
  by (simp add: dec_val_def)

lemma dec_val_to_string [simp]: "dec_val (to_string n) = n"
proof (induction n rule: to_string.induct)
  case (1 n)
  show ?case
  proof (cases "n < 10")
    case True
    then show ?thesis by (subst to_string.simps) (simp add: dec_val_def)
  next
    case False
    then show ?thesis using 1 by (subst to_string.simps) (simp add: dec_val_append)
  qed
qed

lemma to_string_inj: "to_string a = to_string b \<longleftrightarrow> a = b"
  by (metis dec_val_to_string)

definition int_to_string :: "int \<Rightarrow> string" where
  "int_to_string n = (if n < 0 then CHR ''-'' # to_string (nat (- n)) else to_string (nat n))"

text \<open>A digit string is separated from what follows by any character that is no digit.\<close>

lemma digits_split_unique:
  assumes "xs @ c # r = ys @ d # s"
    and "\<forall>x \<in> set xs. P x" and "\<forall>y \<in> set ys. P y" and "\<not> P c" and "\<not> P d"
  shows "xs = ys \<and> c = d \<and> r = s"
  using assms
proof (induction xs arbitrary: ys)
  case Nil
  then show ?case by (cases ys) auto
next
  case (Cons x xs)
  then show ?case by (cases ys) auto
qed

subsection \<open>Sequence numbers on 64 bits\<close>

lemma u64_unat_Suc: "n \<noteq> - 1 \<Longrightarrow> unat (n + 1) = Suc (unat n)" for n :: u64
  using unatSuc [of n] by (metis add.commute eq_neg_iff_add_eq_0)

lemma u64_less_Suc: "n \<noteq> - 1 \<Longrightarrow> q < n + 1 \<longleftrightarrow> q \<le> n" for n q :: u64
  by (simp add: word_less_nat_alt word_le_nat_alt u64_unat_Suc less_Suc_eq_le)

lemma u64_Suc_ne_0: "n \<noteq> - 1 \<Longrightarrow> n + 1 \<noteq> 0" for n :: u64
  by (metis eq_neg_iff_add_eq_0)

lemma u64_le_Suc: "n \<noteq> - 1 \<Longrightarrow> q \<le> n + 1 \<longleftrightarrow> q \<le> n \<or> q = n + 1" for n q :: u64
  by (auto simp: word_le_nat_alt u64_unat_Suc le_Suc_eq)
     (simp add: word_unat_eq_iff u64_unat_Suc)

lemma u64_ne_max: "q < n \<Longrightarrow> q \<noteq> - 1" for n q :: u64
  using word_n1_ge [of n] by (auto simp: not_le [symmetric])

subsection \<open>Machines with an invariant\<close>

text \<open>
  Every stateful component of the framework is a state, an initial value and a
  deterministic reaction to one operation. The contract that the components share: the
  invariant holds initially and every operation keeps it. The client's conclusion is
  about arbitrary histories of operations.
\<close>

fun run_ops :: "('s \<Rightarrow> 'op \<Rightarrow> 's) \<Rightarrow> 's \<Rightarrow> 'op list \<Rightarrow> 's" where
  "run_ops step s [] = s"
| "run_ops step s (x # xs) = run_ops step (step s x) xs"

lemma run_ops_append: "run_ops step s (xs @ ys) = run_ops step (run_ops step s xs) ys"
  by (induction xs arbitrary: s) auto

lemma upt_join: "i \<le> j \<Longrightarrow> j \<le> k \<Longrightarrow> [i ..< j] @ [j ..< k] = [i ..< k]"
  by (metis le_Suc_ex upt_add_eq_append)

text \<open>What a history lets an observer see: the outputs of its operations, in order.\<close>

fun run_out :: "('s \<Rightarrow> 'op \<Rightarrow> 's) \<Rightarrow> ('s \<Rightarrow> 'op \<Rightarrow> 'o list) \<Rightarrow> 's \<Rightarrow> 'op list \<Rightarrow> 'o list" where
  "run_out step out s [] = []"
| "run_out step out s (x # xs) = out s x @ run_out step out (step s x) xs"

lemma run_out_append:
  "run_out step out s (xs @ ys) =
   run_out step out s xs @ run_out step out (run_ops step s xs) ys"
  by (induction xs arbitrary: s) auto

locale machine =
  fixes init :: 's
    and step :: "'s \<Rightarrow> 'op \<Rightarrow> 's"
    and inv :: "'s \<Rightarrow> bool"
  assumes inv_init: "inv init"
    and inv_step: "inv s \<Longrightarrow> inv (step s x)"
begin

lemma inv_run_from: "inv s \<Longrightarrow> inv (run_ops step s xs)"
  by (induction xs arbitrary: s) (auto intro: inv_step)

lemma inv_run: "inv (run_ops step init xs)"
  by (rule inv_run_from [OF inv_init])

lemma run_induct:
  assumes "P init" and "\<And>s x. inv s \<Longrightarrow> P s \<Longrightarrow> P (step s x)"
  shows "P (run_ops step init xs)"
proof (induction xs rule: rev_induct)
  case Nil
  then show ?case by (simp add: assms(1))
next
  case (snoc x xs)
  then show ?case by (simp add: run_ops_append assms(2) inv_run)
qed

text \<open>The same induction for a relation between the outputs so far and the state reached.\<close>

lemma run_out_induct:
  assumes "P [] init" and "\<And>s x os. inv s \<Longrightarrow> P os s \<Longrightarrow> P (os @ out s x) (step s x)"
  shows "P (run_out step out init xs) (run_ops step init xs)"
proof (induction xs rule: rev_induct)
  case Nil
  then show ?case by (simp add: assms(1))
next
  case (snoc x xs)
  then show ?case by (simp add: run_ops_append run_out_append assms(2) inv_run)
qed

end

text \<open>
  A machine with a measure that no operation decreases (a next sequence number, a
  generation counter): the measure never decreases along a history.
\<close>

locale monotone_machine = machine init step inv
  for init :: 's and step :: "'s \<Rightarrow> 'op \<Rightarrow> 's" and inv :: "'s \<Rightarrow> bool" +
  fixes level :: "'s \<Rightarrow> nat"
  assumes level_step: "inv s \<Longrightarrow> level s \<le> level (step s x)"
begin

lemma level_run_from: "inv s \<Longrightarrow> level s \<le> level (run_ops step s xs)"
proof (induction xs arbitrary: s)
  case Nil
  then show ?case by simp
next
  case (Cons x xs)
  then have "level (step s x) \<le> level (run_ops step (step s x) xs)"
    by (auto intro: inv_step)
  then show ?case using level_step [OF Cons.prems, of x] by simp
qed

lemma level_run_mono:
  "level (run_ops step init xs) \<le> level (run_ops step init (xs @ ys))"
  by (simp add: run_ops_append level_run_from inv_run)

end

subsection \<open>Systems of interleaved steps\<close>

text \<open>
  Components whose steps interleave are a step relation over labelled steps. A state is
  reachable when a sequence of steps leads to it from an initial state; an invariant is a
  property that holds initially and that every step keeps.
\<close>

inductive reachable :: "('s \<Rightarrow> bool) \<Rightarrow> ('s \<Rightarrow> 'l \<Rightarrow> 's \<Rightarrow> bool) \<Rightarrow> 's \<Rightarrow> bool"
  for start step where
  reach_start: "start s \<Longrightarrow> reachable start step s"
| reach_step: "reachable start step s \<Longrightarrow> step s l t \<Longrightarrow> reachable start step t"

inductive steps_by :: "('s \<Rightarrow> 'l \<Rightarrow> 's \<Rightarrow> bool) \<Rightarrow> ('l \<Rightarrow> bool) \<Rightarrow> 's \<Rightarrow> 's \<Rightarrow> bool"
  for step allowed where
  steps_refl: "steps_by step allowed s s"
| steps_trans: "step s l t \<Longrightarrow> allowed l \<Longrightarrow> steps_by step allowed t u \<Longrightarrow> steps_by step allowed s u"

locale interleaving =
  fixes start :: "'s \<Rightarrow> bool"
    and step :: "'s \<Rightarrow> 'l \<Rightarrow> 's \<Rightarrow> bool"
    and inv :: "'s \<Rightarrow> bool"
  assumes start_inv: "start s \<Longrightarrow> inv s"
    and step_inv: "inv s \<Longrightarrow> step s l t \<Longrightarrow> inv t"
begin

lemma reachable_inv: "reachable start step s \<Longrightarrow> inv s"
  by (induction rule: reachable.induct) (auto intro: start_inv step_inv)

lemma steps_inv: "steps_by step allowed s t \<Longrightarrow> inv s \<Longrightarrow> inv t"
  by (induction rule: steps_by.induct) (auto intro: step_inv)

end

text \<open>
  A system in which some steps are the component's own duty: as long as work is left, one
  of them is enabled, and each of them leaves less work. Then the work gets done by duty
  steps alone, whatever state the others left behind.
\<close>

locale dutiful = interleaving start step inv
  for start :: "'s \<Rightarrow> bool" and step :: "'s \<Rightarrow> 'l \<Rightarrow> 's \<Rightarrow> bool" and inv :: "'s \<Rightarrow> bool" +
  fixes duty :: "'l \<Rightarrow> bool"
    and work :: "'s \<Rightarrow> nat"
  assumes duty_enabled: "inv s \<Longrightarrow> work s \<noteq> 0 \<Longrightarrow> \<exists>l t. duty l \<and> step s l t"
    and duty_decreases: "inv s \<Longrightarrow> duty l \<Longrightarrow> step s l t \<Longrightarrow> work t < work s"
begin

lemma duty_finishes: "inv s \<Longrightarrow> \<exists>t. steps_by step duty s t \<and> work t = 0"
proof (induction "work s" arbitrary: s rule: less_induct)
  case less
  show ?case
  proof (cases "work s = 0")
    case True
    then show ?thesis by (auto intro: steps_refl)
  next
    case False
    then obtain l t where "duty l" "step s l t" "work t < work s"
      using duty_enabled [OF less.prems] duty_decreases [OF less.prems] by blast
    with less.hyps [of t] step_inv [OF less.prems] show ?thesis
      by (blast intro: steps_trans)
  qed
qed

end

end
