(* ===== verification/ErrorDomain.thy ===== *)
theory ErrorDomain
  imports Prelude
begin

text \<open>
  \<open>internal/ErrorDomainRule.hpp\<close>: the semantic check of errors in the domain
  \<open>framework.actor\<close>, applied on top of the structural check of the infra library
  (\<open>bbt::infra::ValidateErrorDetails\<close>), which is the parameter \<open>VD\<close> of every
  definition below. The file also models the two copies of \<open>SafeBoundaryError\<close> that
  components use when an error leaves them.
\<close>

definition kErrorDomainFrameworkActor :: string where
  "kErrorDomainFrameworkActor = ''framework.actor''"

definition kErrorDetailExpectedSequence :: string where
  "kErrorDetailExpectedSequence = ''expected_sequence''"

definition IsUnsignedDecimal :: "string \<Rightarrow> bool" where
  "IsUnsignedDecimal s = (s \<noteq> [] \<and> list_all is_digit s)"

record reserved_key_rule =
  rk_key :: string
  rk_domain :: string
  rk_value_ok :: "string \<Rightarrow> bool"

definition kReservedKeyRules :: "reserved_key_rule list" where
  "kReservedKeyRules =
     [\<lparr>rk_key = kErrorDetailExpectedSequence, rk_domain = kErrorDomainFrameworkActor,
       rk_value_ok = IsUnsignedDecimal\<rparr>]"

text \<open>The inner loop over the rule table for one detail, then the loop over the details.\<close>

fun check_rules :: "error \<Rightarrow> string \<Rightarrow> string \<Rightarrow> reserved_key_rule list \<Rightarrow> unit result" where
  "check_rules e k v [] = Inr ()"
| "check_rules e k v (r # rs) =
     (if k \<noteq> rk_key r then check_rules e k v rs
      else if err_domain e \<noteq> Some (rk_domain r)
        then fail ProtocolError ''reserved key outside its owning domain''
      else if \<not> rk_value_ok r v
        then fail ProtocolError ''reserved key value has invalid format''
      else check_rules e k v rs)"

fun check_details :: "error \<Rightarrow> (string \<times> string) list \<Rightarrow> unit result" where
  "check_details e [] = Inr ()"
| "check_details e ((k, v) # ds) =
     (case check_rules e k v kReservedKeyRules of
        Inl x \<Rightarrow> Inl x
      | Inr _ \<Rightarrow> check_details e ds)"

definition ValidateErrorDomainRules :: "error \<Rightarrow> unit result" where
  "ValidateErrorDomainRules e = check_details e (err_details e)"

type_synonym details_check = "error \<Rightarrow> unit result"

definition ValidateErrorAtBoundary :: "details_check \<Rightarrow> error \<Rightarrow> unit result" where
  "ValidateErrorAtBoundary VD e =
     (case VD e of Inl x \<Rightarrow> Inl x | Inr _ \<Rightarrow> ValidateErrorDomainRules e)"

text \<open>\<open>RpcWireBridge.cc\<close>: replace a violating error by the validator's own error.\<close>

definition SafeBoundaryError :: "details_check \<Rightarrow> error \<Rightarrow> error" where
  "SafeBoundaryError VD e =
     (case ValidateErrorAtBoundary VD e of Inl x \<Rightarrow> x | Inr _ \<Rightarrow> e)"

text \<open>
  What the sources rely on in the infra check (it only looks at the details: entry, key
  and value limits, UTF-8, duplicate keys): an error without details passes, and the
  error it reports carries no details itself.
\<close>

definition checks_details_only :: "details_check \<Rightarrow> bool" where
  "checks_details_only VD \<longleftrightarrow>
     (\<forall>e. err_details e = [] \<longrightarrow> VD e = Inr ()) \<and>
     (\<forall>e x. VD e = Inl x \<longrightarrow> err_details x = [])"

lemma checks_details_onlyD:
  assumes "checks_details_only VD"
  shows "err_details e = [] \<Longrightarrow> VD e = Inr ()"
    and "VD e = Inl x \<Longrightarrow> err_details x = []"
  using assms by (auto simp: checks_details_only_def)

text \<open>The domain and domain code texts of an error; infra's \<open>MakeError\<close> chooses them per code.\<close>

type_synonym infra_domains = "error_code \<Rightarrow> string \<times> string"

definition domain_text :: "infra_domains \<Rightarrow> error \<Rightarrow> string" where
  "domain_text D e = (case err_domain e of Some d \<Rightarrow> d | None \<Rightarrow> fst (D (err_code e)))"

definition domain_code_text_of :: "infra_domains \<Rightarrow> error \<Rightarrow> string" where
  "domain_code_text_of D e =
     (case err_domain_code e of Some d \<Rightarrow> d | None \<Rightarrow> snd (D (err_code e)))"

subsection \<open>Lemmas\<close>

lemma IsUnsignedDecimal_to_string [simp]: "IsUnsignedDecimal (to_string n)"
  using to_string_digits by (auto simp: IsUnsignedDecimal_def list_all_iff)

lemma check_rules_table:
  "check_rules e k v kReservedKeyRules =
     (if k \<noteq> kErrorDetailExpectedSequence then Inr ()
      else if err_domain e \<noteq> Some kErrorDomainFrameworkActor
        then fail ProtocolError ''reserved key outside its owning domain''
      else if \<not> IsUnsignedDecimal v
        then fail ProtocolError ''reserved key value has invalid format''
      else Inr ())"
  by (simp add: kReservedKeyRules_def)

lemma check_details_ok_iff:
  "check_details e ds = Inr () \<longleftrightarrow>
     (\<forall>(k, v) \<in> set ds. k = kErrorDetailExpectedSequence \<longrightarrow>
        err_domain e = Some kErrorDomainFrameworkActor \<and> IsUnsignedDecimal v)"
  by (induction ds) (auto simp: check_rules_table split: if_splits)

lemma check_details_err: "check_details e ds = Inl x \<Longrightarrow>
    err_code x = ProtocolError \<and> err_details x = []"
  by (induction ds) (auto simp: check_rules_table split: if_splits)

text \<open>The specification of the rule check: what it accepts, and what it reports.\<close>

lemma ValidateErrorDomainRules_ok_iff:
  "ValidateErrorDomainRules e = Inr () \<longleftrightarrow>
     (\<forall>(k, v) \<in> set (err_details e). k = kErrorDetailExpectedSequence \<longrightarrow>
        err_domain e = Some kErrorDomainFrameworkActor \<and> IsUnsignedDecimal v)"
  by (simp add: ValidateErrorDomainRules_def check_details_ok_iff)

lemma ValidateErrorDomainRules_err:
  "ValidateErrorDomainRules e = Inl x \<Longrightarrow> err_code x = ProtocolError \<and> err_details x = []"
  by (simp add: ValidateErrorDomainRules_def check_details_err)

lemma ValidateErrorAtBoundary_no_details:
  "checks_details_only VD \<Longrightarrow> err_details e = [] \<Longrightarrow> ValidateErrorAtBoundary VD e = Inr ()"
  by (simp add: ValidateErrorAtBoundary_def checks_details_onlyD
      ValidateErrorDomainRules_ok_iff)

lemma ValidateErrorAtBoundary_err_details:
  assumes "checks_details_only VD" and "ValidateErrorAtBoundary VD e = Inl x"
  shows "err_details x = []"
  using assms
  by (auto simp: ValidateErrorAtBoundary_def dest: checks_details_onlyD(2)
      ValidateErrorDomainRules_err split: sum.splits)

lemma SafeBoundaryError_cases:
  "SafeBoundaryError VD e = e \<or> ValidateErrorAtBoundary VD e = Inl (SafeBoundaryError VD e)"
  by (simp add: SafeBoundaryError_def split: sum.splits)

text \<open>After the boundary every error satisfies the boundary check, and a second pass is the identity.\<close>

lemma SafeBoundaryError_valid:
  assumes "checks_details_only VD"
  shows "ValidateErrorAtBoundary VD (SafeBoundaryError VD e) = Inr ()"
proof (cases "ValidateErrorAtBoundary VD e")
  case (Inl x)
  with assms show ?thesis
    by (simp add: SafeBoundaryError_def ValidateErrorAtBoundary_no_details
        ValidateErrorAtBoundary_err_details)
next
  case (Inr u)
  then show ?thesis by (simp add: SafeBoundaryError_def)
qed

lemma SafeBoundaryError_idem:
  "checks_details_only VD \<Longrightarrow>
   SafeBoundaryError VD (SafeBoundaryError VD e) = SafeBoundaryError VD e"
  using SafeBoundaryError_valid [of VD e]
  by (subst SafeBoundaryError_def) simp

end
