(* ===== verification/OrderedSend.thy ===== *)
theory OrderedSend
  imports ErrorDomain
begin

text \<open>
  The sending side of ordered streams: \<open>OrderedTypes.hpp\<close>, \<open>OrderedSession.hpp\<close>,
  \<open>src/actor/OrderedSession.cc\<close> and the stamp of \<open>CallOptions.hpp\<close>.

  A ticket is shared between the session that issued it and every copy of its stamp; only
  its bound content is mutable. The session's ticket table therefore owns the ticket, and
  a stamp refers to it by the address of the issuing session and the request id, together
  with its two constant fields. The stamp without a state is \<open>None\<close>.
\<close>

subsection \<open>Grants, bound content, tickets\<close>

record OrderedGrant =
  g_service :: string
  g_actor_key :: string
  g_producer_id :: string
  g_producer_epoch :: string
  g_receiver_epoch :: string
  g_peer_principal :: string

definition SameOrderedStreamId :: "OrderedGrant \<Rightarrow> OrderedGrant \<Rightarrow> bool" where
  "SameOrderedStreamId a b \<longleftrightarrow>
     g_service a = g_service b \<and> g_actor_key a = g_actor_key b \<and>
     g_producer_id a = g_producer_id b \<and> g_producer_epoch a = g_producer_epoch b \<and>
     g_receiver_epoch a = g_receiver_epoch b"

definition kOrderedErrorDomain :: string where
  "kOrderedErrorDomain = ''framework.actor''"

datatype ordered_domain_code =
    SequenceGap | InProgress | SequenceConflict | ResultExpired
  | OrderedStampRequired | StreamRejected

fun domain_code_text :: "ordered_domain_code \<Rightarrow> string" where
  "domain_code_text SequenceGap = ''SequenceGap''"
| "domain_code_text InProgress = ''InProgress''"
| "domain_code_text SequenceConflict = ''SequenceConflict''"
| "domain_code_text ResultExpired = ''ResultExpired''"
| "domain_code_text OrderedStampRequired = ''OrderedStampRequired''"
| "domain_code_text StreamRejected = ''StreamRejected''"

record BoundContent =
  bc_service :: string
  bc_method :: string
  bc_actor_key :: string
  bc_custom :: string
  bc_request_bytes :: string

record OrderedTicket =
  t_sequence :: u64
  t_request_id :: string
  t_bound :: "BoundContent option"

definition IsSent :: "OrderedTicket \<Rightarrow> bool" where
  "IsSent t = (t_bound t \<noteq> None)"

definition BindOrCheck :: "BoundContent \<Rightarrow> OrderedTicket \<Rightarrow> bool \<times> OrderedTicket" where
  "BindOrCheck c t =
     (case t_bound t of
        None \<Rightarrow> (True, t\<lparr>t_bound := Some c\<rparr>)
      | Some b \<Rightarrow> (bc_service b = bc_service c \<and> bc_method b = bc_method c \<and>
                  bc_actor_key b = bc_actor_key c \<and> bc_custom b = bc_custom c \<and>
                  bc_request_bytes b = bc_request_bytes c, t))"

lemma BindOrCheck_bound:
  "t_bound t = Some b \<Longrightarrow> BindOrCheck c t = (b = c, t)"
  by (auto simp: BindOrCheck_def)

record ticket_ref =
  tr_session :: nat
  tr_request_id :: string
  tr_sequence :: u64

type_synonym OrderedStamp = "ticket_ref option"

definition stamp_request_id :: "OrderedStamp \<Rightarrow> string" where
  "stamp_request_id st = (case st of None \<Rightarrow> '''' | Some r \<Rightarrow> tr_request_id r)"

definition stamp_sequence :: "OrderedStamp \<Rightarrow> u64" where
  "stamp_sequence st = (case st of None \<Rightarrow> 0 | Some r \<Rightarrow> tr_sequence r)"

subsection \<open>Errors of the ordered domain\<close>

definition OrderedDomainError :: "ordered_domain_code \<Rightarrow> string \<Rightarrow> error" where
  "OrderedDomainError dc m =
     (MakeError RemoteError m)\<lparr>err_domain := Some kOrderedErrorDomain,
        err_domain_code := Some (domain_code_text dc)\<rparr>"

definition OrderedDomainErrorWithDetails ::
  "details_check \<Rightarrow> ordered_domain_code \<Rightarrow> string \<Rightarrow> (string \<times> string) list \<Rightarrow> error" where
  "OrderedDomainErrorWithDetails VD dc m ds =
     (let e = (OrderedDomainError dc m)\<lparr>err_details := ds\<rparr>
      in case ValidateErrorAtBoundary VD e of Inl x \<Rightarrow> x | Inr _ \<Rightarrow> e)"

lemma OrderedDomainError_simps [simp]:
  "err_code (OrderedDomainError dc m) = RemoteError"
  "err_domain (OrderedDomainError dc m) = Some kErrorDomainFrameworkActor"
  "err_domain_code (OrderedDomainError dc m) = Some (domain_code_text dc)"
  "err_details (OrderedDomainError dc m) = []"
  by (simp_all add: OrderedDomainError_def kOrderedErrorDomain_def
      kErrorDomainFrameworkActor_def)

lemma domain_code_text_inj [simp]: "domain_code_text a = domain_code_text b \<longleftrightarrow> a = b"
  by (cases a; cases b) simp_all

subsection \<open>The session\<close>

record OrderedSession =
  s_grant :: OrderedGrant
  s_instance_id :: u64
  s_next_sequence :: u64
  s_exhausted :: bool
  s_bind_watermark :: u64
  s_tickets :: "(string \<times> OrderedTicket) list"

definition u64_max :: u64 where
  "u64_max = - 1"

definition new_session :: "OrderedGrant \<Rightarrow> u64 \<Rightarrow> u64 \<Rightarrow> OrderedSession" where
  "new_session g i first =
     \<lparr>s_grant = g, s_instance_id = i, s_next_sequence = first, s_exhausted = False,
      s_bind_watermark = 0, s_tickets = []\<rparr>"

definition MakeRequestId :: "OrderedGrant \<Rightarrow> u64 \<Rightarrow> u64 \<Rightarrow> string" where
  "MakeRequestId g i q =
     g_producer_id g @ ''/'' @ g_producer_epoch g @ ''/'' @ g_receiver_epoch g @ ''/'' @
     to_string (unat i) @ ''/'' @ to_string (unat q)"

definition prepare :: "nat \<Rightarrow> OrderedSession \<Rightarrow> OrderedStamp result \<times> OrderedSession" where
  "prepare self s =
     (if s_exhausted s
      then (fail InternalError ''ordered sequence space exhausted; refusing to wrap'', s)
      else
        let q = s_next_sequence s;
            s1 = (if s_next_sequence s = u64_max then s\<lparr>s_exhausted := True\<rparr>
                  else s\<lparr>s_next_sequence := s_next_sequence s + 1\<rparr>);
            rid = MakeRequestId (s_grant s) (s_instance_id s) q;
            t = \<lparr>t_sequence = q, t_request_id = rid, t_bound = None\<rparr>
        in (Inr (Some \<lparr>tr_session = self, tr_request_id = rid, tr_sequence = q\<rparr>),
            s1\<lparr>s_tickets := emplace rid t (s_tickets s1)\<rparr>))"

text \<open>
  \<open>BindForSend\<close>: look the ticket up and compare the object (here: the issuing session),
  then either the resend check or the ordered first send.
\<close>

definition own_ticket :: "nat \<Rightarrow> ticket_ref \<Rightarrow> OrderedSession \<Rightarrow> OrderedTicket option" where
  "own_ticket self r s =
     (if tr_session r = self then map_of (s_tickets s) (tr_request_id r) else None)"

definition BindForSend ::
  "details_check \<Rightarrow> nat \<Rightarrow> OrderedStamp \<Rightarrow> BoundContent \<Rightarrow> OrderedSession
     \<Rightarrow> unit result \<times> OrderedSession" where
  "BindForSend VD self stamp c s =
     (case stamp of
        None \<Rightarrow> (fail InvalidArgument ''empty ordered stamp'', s)
      | Some r \<Rightarrow>
          (case own_ticket self r s of
             None \<Rightarrow> (fail InvalidArgument ''ordered stamp not issued by this session'', s)
           | Some t \<Rightarrow>
               if IsSent t then
                 if fst (BindOrCheck c t) then (Inr (), s)
                 else (Inl (OrderedDomainError SequenceConflict
                        ''ordered ticket already bound to a different request''), s)
               else if t_sequence t \<noteq> s_bind_watermark s + 1 then
                 (Inl (OrderedDomainErrorWithDetails VD SequenceGap
                    ''first send would skip an unsent ticket''
                    [(kErrorDetailExpectedSequence,
                      to_string (unat (s_bind_watermark s + 1)))]), s)
               else
                 (Inr (), s\<lparr>s_tickets := AList.update (tr_request_id r)
                                (snd (BindOrCheck c t)) (s_tickets s),
                            s_bind_watermark := s_bind_watermark s + 1\<rparr>)))"

definition IsTicketSent :: "nat \<Rightarrow> OrderedStamp \<Rightarrow> OrderedSession \<Rightarrow> bool" where
  "IsTicketSent self stamp s =
     (case stamp of
        None \<Rightarrow> False
      | Some r \<Rightarrow> (case own_ticket self r s of None \<Rightarrow> False | Some t \<Rightarrow> IsSent t))"

subsection \<open>The process-wide session registry\<close>

record SessionTable =
  live :: "(nat \<times> OrderedSession) list"
  s_registry :: "(OrderedGrant \<times> nat) list"
  g_session_instance :: u64
  next_addr :: nat

definition no_sessions :: SessionTable where
  "no_sessions = \<lparr>live = [], s_registry = [], g_session_instance = 0, next_addr = 0\<rparr>"

definition alive :: "SessionTable \<Rightarrow> nat \<Rightarrow> bool" where
  "alive w a = (map_of (live w) a \<noteq> None)"

text \<open>
  The scan of \<open>OpenImpl\<close>: a dead entry is erased, a live entry of the same stream
  decides the result, and what the scan erased before that stays erased.
\<close>

datatype open_scan = Shared nat | Conflict | Absent

fun scan_registry ::
  "SessionTable \<Rightarrow> OrderedGrant \<Rightarrow> (OrderedGrant \<times> nat) list
     \<Rightarrow> open_scan \<times> (OrderedGrant \<times> nat) list" where
  "scan_registry w g [] = (Absent, [])"
| "scan_registry w g ((h, a) # es) =
     (if alive w a then
        if SameOrderedStreamId h g then
          (if h = g then Shared a else Conflict, (h, a) # es)
        else (let (r, es') = scan_registry w g es in (r, (h, a) # es'))
      else scan_registry w g es)"

definition OpenImpl :: "OrderedGrant \<Rightarrow> u64 \<Rightarrow> SessionTable \<Rightarrow> nat result \<times> SessionTable" where
  "OpenImpl g first w =
     (let (r, es) = scan_registry w g (s_registry w);
          w1 = w\<lparr>s_registry := es\<rparr>
      in case r of
           Shared a \<Rightarrow> (Inr a, w1)
         | Conflict \<Rightarrow> (Inl (OrderedDomainError StreamRejected
                         ''ordered stream grant conflicts with a live session''), w1)
         | Absent \<Rightarrow>
             let a = next_addr w1; i = g_session_instance w1 + 1
             in (Inr a, w1\<lparr>live := (a, new_session g i first) # live w1,
                           s_registry := s_registry w1 @ [(g, a)],
                           g_session_instance := i, next_addr := Suc a\<rparr>))"

definition session_Open :: "OrderedGrant \<Rightarrow> SessionTable \<Rightarrow> nat result \<times> SessionTable" where
  "session_Open g w = OpenImpl g 1 w"

definition OpenForTest :: "OrderedGrant \<Rightarrow> u64 \<Rightarrow> SessionTable \<Rightarrow> nat result \<times> SessionTable" where
  "OpenForTest g first w =
     (if first = 0 then (fail InvalidArgument ''ordered first_sequence must be >= 1'', w)
      else OpenImpl g first w)"

text \<open>The destructor: the session dies and every expired entry is swept.\<close>

definition session_destroy :: "nat \<Rightarrow> SessionTable \<Rightarrow> SessionTable" where
  "session_destroy a w =
     (let w1 = w\<lparr>live := AList.delete a (live w)\<rparr>
      in w1\<lparr>s_registry := filter (\<lambda>(h, b). alive w1 b) (s_registry w1)\<rparr>)"

subsection \<open>Request ids are unique\<close>

lemma digit_not_slash: "is_digit c \<Longrightarrow> c \<noteq> CHR ''/''"
  by (auto simp: is_digit_def)

text \<open>
  The last two components of a request id are decimals, so it determines the session
  instance and the sequence, whatever characters the grant's own strings hold.
\<close>

lemma MakeRequestId_inj:
  assumes "MakeRequestId g i q = MakeRequestId h j p"
  shows "i = j \<and> q = p"
proof -
  let ?D = "\<lambda>n. rev (to_string n)"
  have dig: "\<forall>c \<in> set (?D n). is_digit c" for n
    using to_string_digits [of n] by simp
  have sl: "\<not> is_digit (CHR ''/'')" by (auto dest: digit_not_slash)
  obtain P where P: "rev (MakeRequestId g i q) = ?D (unat q) @ CHR ''/'' # (?D (unat i) @ CHR ''/'' # P)"
    by (simp add: MakeRequestId_def)
  obtain R where R: "rev (MakeRequestId h j p) = ?D (unat p) @ CHR ''/'' # (?D (unat j) @ CHR ''/'' # R)"
    by (simp add: MakeRequestId_def)
  from assms P R have eq: "?D (unat q) @ CHR ''/'' # (?D (unat i) @ CHR ''/'' # P) =
      ?D (unat p) @ CHR ''/'' # (?D (unat j) @ CHR ''/'' # R)"
    by simp
  note outer = digits_split_unique [OF eq dig dig sl sl]
  note inner = digits_split_unique [OF outer [THEN conjunct2, THEN conjunct2] dig dig sl sl]
  from outer inner show ?thesis
    by (simp add: to_string_inj word_unat_eq_iff)
qed

subsection \<open>The session invariant\<close>

definition issued :: "u64 \<Rightarrow> OrderedSession \<Rightarrow> u64 \<Rightarrow> bool" where
  "issued first s q \<longleftrightarrow> first \<le> q \<and> (s_exhausted s \<or> q < s_next_sequence s)"

definition request_id_of :: "OrderedSession \<Rightarrow> u64 \<Rightarrow> string" where
  "request_id_of s q = MakeRequestId (s_grant s) (s_instance_id s) q"

definition sess_inv :: "u64 \<Rightarrow> OrderedSession \<Rightarrow> bool" where
  "sess_inv first s \<longleftrightarrow>
     first \<noteq> 0 \<and> first \<le> s_next_sequence s \<and>
     (s_exhausted s \<longrightarrow> s_next_sequence s = u64_max) \<and>
     keys_distinct (s_tickets s) \<and>
     (\<forall>rid t. map_of (s_tickets s) rid = Some t \<longrightarrow>
        rid = request_id_of s (t_sequence t) \<and> t_request_id t = rid \<and>
        issued first s (t_sequence t) \<and>
        (IsSent t \<longleftrightarrow> t_sequence t \<le> s_bind_watermark s)) \<and>
     (\<forall>q. issued first s q \<longrightarrow> map_of (s_tickets s) (request_id_of s q) \<noteq> None) \<and>
     (s_bind_watermark s = 0 \<or> issued first s (s_bind_watermark s))"

lemma request_id_of_inj: "request_id_of s p = request_id_of s q \<longleftrightarrow> p = q"
  by (auto simp: request_id_of_def dest: MakeRequestId_inj)

lemma sess_invD:
  assumes "sess_inv first s" and "map_of (s_tickets s) rid = Some t"
  shows "rid = request_id_of s (t_sequence t)" and "t_request_id t = rid"
    and "issued first s (t_sequence t)"
    and "IsSent t \<longleftrightarrow> t_sequence t \<le> s_bind_watermark s"
  using assms by (auto simp: sess_inv_def)

lemma sess_inv_new: "first \<noteq> 0 \<Longrightarrow> sess_inv first (new_session g i first)"
  by (auto simp: sess_inv_def new_session_def issued_def)

text \<open>What \<open>prepare\<close> adds to the set of issued sequences is exactly the old \<open>next\<close>.\<close>

lemma issued_prepare:
  assumes "sess_inv first s" and "\<not> s_exhausted s" and "prepare self s = (r, s')"
  shows "issued first s' q \<longleftrightarrow> issued first s q \<or> q = s_next_sequence s"
proof (cases "s_next_sequence s = u64_max")
  case True
  with assms show ?thesis
    by (auto simp: prepare_def Let_def issued_def u64_max_def sess_inv_def order.not_eq_order_implies_strict)
next
  case False
  with assms show ?thesis
    by (auto simp: prepare_def Let_def issued_def u64_max_def sess_inv_def u64_less_Suc
        order.order_iff_strict)
qed

lemma prepare_frame:
  assumes "prepare self s = (r, s')"
  shows "s_grant s' = s_grant s" and "s_instance_id s' = s_instance_id s"
    and "s_bind_watermark s' = s_bind_watermark s" and "request_id_of s' = request_id_of s"
  using assms by (auto simp: prepare_def Let_def request_id_of_def fun_eq_iff split: if_splits)

lemma prepare_sess_inv [inv_intros]:
  assumes inv: "sess_inv first s" and p: "prepare self s = (r, s')"
  shows "sess_inv first s'"
proof (cases "s_exhausted s")
  case True
  with assms show ?thesis by (simp add: prepare_def)
next
  case False
  let ?q = "s_next_sequence s" and ?rid = "request_id_of s (s_next_sequence s)"
  let ?t = "\<lparr>t_sequence = ?q, t_request_id = ?rid, t_bound = None\<rparr>"
  note iss = issued_prepare [OF inv False p]
  have q_new: "\<not> issued first s ?q" using False by (simp add: issued_def)
  have fresh: "map_of (s_tickets s) ?rid = None"
    using sess_invD(1,3) [OF inv, of ?rid] q_new
    by (cases "map_of (s_tickets s) ?rid") (auto simp: request_id_of_inj)
  have tk: "s_tickets s' = emplace ?rid ?t (s_tickets s)"
    using p False by (auto simp: prepare_def Let_def request_id_of_def)
  have nx: "first \<le> s_next_sequence s'" "s_exhausted s' \<longrightarrow> s_next_sequence s' = u64_max"
    using p False inv
    by (cases "s_next_sequence s = - 1";
        auto simp: prepare_def Let_def sess_inv_def u64_max_def u64_le_Suc)+
  have unsent: "\<not> ?q \<le> s_bind_watermark s"
    using inv False by (auto simp: sess_inv_def issued_def dest: leD)
  show ?thesis
    unfolding sess_inv_def prepare_frame [OF p] iss tk
    using inv nx fresh unsent q_new
    by (auto simp: sess_inv_def map_of_emplace IsSent_def request_id_of_inj)
qed


subsection \<open>Binding for a send\<close>

lemma own_ticket_SomeD:
  "own_ticket self r s = Some t \<Longrightarrow>
   tr_session r = self \<and> map_of (s_tickets s) (tr_request_id r) = Some t"
  by (auto simp: own_ticket_def split: if_splits)

text \<open>A successful bind is a resend of the bound content or the next first send.\<close>

lemma BindForSend_ok_iff:
  "fst (BindForSend VD self stamp c s) = Inr () \<longleftrightarrow>
     (\<exists>r t. stamp = Some r \<and> own_ticket self r s = Some t \<and>
        (t_bound t = Some c \<or>
         t_bound t = None \<and> t_sequence t = s_bind_watermark s + 1))"
  by (auto simp: BindForSend_def IsSent_def BindOrCheck_bound
      split: option.splits if_splits)

lemma BindForSend_state:
  assumes "BindForSend VD self stamp c s = (res, s')"
  shows "s' = s \<or>
     (\<exists>r t. stamp = Some r \<and> own_ticket self r s = Some t \<and> t_bound t = None \<and>
        t_sequence t = s_bind_watermark s + 1 \<and> res = Inr () \<and>
        s' = s\<lparr>s_tickets := AList.update (tr_request_id r) (t\<lparr>t_bound := Some c\<rparr>) (s_tickets s),
               s_bind_watermark := s_bind_watermark s + 1\<rparr>)"
  using assms
  by (auto simp: BindForSend_def IsSent_def BindOrCheck_def split: option.splits if_splits)

lemma BindForSend_frame:
  assumes "BindForSend VD self stamp c s = (res, s')"
  shows "s_grant s' = s_grant s" and "s_instance_id s' = s_instance_id s"
    and "s_next_sequence s' = s_next_sequence s" and "s_exhausted s' = s_exhausted s"
    and "issued first s' = issued first s" and "request_id_of s' = request_id_of s"
  using BindForSend_state [OF assms]
  by (auto simp: issued_def request_id_of_def fun_eq_iff)

lemma watermark_not_max:
  assumes "sess_inv first s" and "map_of (s_tickets s) rid = Some t"
    and "t_sequence t = s_bind_watermark s + 1"
  shows "s_bind_watermark s \<noteq> - 1"
proof
  assume "s_bind_watermark s = - 1"
  with assms(3) have "t_sequence t = 0" by simp
  with sess_invD(3) [OF assms(1,2)] assms(1) show False
    by (auto simp: issued_def sess_inv_def)
qed

lemma BindForSend_sess_inv [inv_intros]:
  assumes inv: "sess_inv first s" and b: "BindForSend VD self stamp c s = (res, s')"
  shows "sess_inv first s'"
  using BindForSend_state [OF b]
proof (elim disjE exE conjE)
  fix r t
  assume own: "own_ticket self r s = Some t" and un: "t_bound t = None"
    and sq: "t_sequence t = s_bind_watermark s + 1"
    and s': "s' = s\<lparr>s_tickets := AList.update (tr_request_id r) (t\<lparr>t_bound := Some c\<rparr>) (s_tickets s),
               s_bind_watermark := s_bind_watermark s + 1\<rparr>"
  from own have m: "map_of (s_tickets s) (tr_request_id r) = Some t"
    by (simp add: own_ticket_SomeD)
  note wm = watermark_not_max [OF inv m sq] and D = sess_invD [OF inv m]
  have other: "t_sequence u \<noteq> t_sequence t"
    if "map_of (s_tickets s) k = Some u" "k \<noteq> tr_request_id r" for k u
    using that sess_invD(1) [OF inv that(1)] D(1) by auto
  show ?thesis
    unfolding sess_inv_def BindForSend_frame [OF b]
    using inv D wm sq other
    by (auto simp: sess_inv_def s' map_of_update IsSent_def u64_le_Suc
        dest: other)
qed (simp add: inv)


subsection \<open>Histories of one session\<close>

datatype sess_op = Prepare | Bind OrderedStamp BoundContent

fun sess_step :: "details_check \<Rightarrow> nat \<Rightarrow> OrderedSession \<Rightarrow> sess_op \<Rightarrow> OrderedSession" where
  "sess_step VD self s Prepare = snd (prepare self s)"
| "sess_step VD self s (Bind st c) = snd (BindForSend VD self st c s)"

text \<open>The sequences \<open>prepare\<close> hands out, and those that leave in a first send.\<close>

fun issued_out :: "nat \<Rightarrow> OrderedSession \<Rightarrow> sess_op \<Rightarrow> u64 list" where
  "issued_out self s Prepare =
     (case fst (prepare self s) of Inr (Some r) \<Rightarrow> [tr_sequence r] | _ \<Rightarrow> [])"
| "issued_out self s (Bind st c) = []"

fun first_send_out :: "details_check \<Rightarrow> nat \<Rightarrow> OrderedSession \<Rightarrow> sess_op \<Rightarrow> u64 list" where
  "first_send_out VD self s Prepare = []"
| "first_send_out VD self s (Bind st c) =
     (if \<not> IsTicketSent self st s \<and> fst (BindForSend VD self st c s) = Inr ()
      then (case st of None \<Rightarrow> []
            | Some r \<Rightarrow> (case own_ticket self r s of None \<Rightarrow> [] | Some t \<Rightarrow> [t_sequence t]))
      else [])"

lemma sess_step_inv: "sess_inv first s \<Longrightarrow> sess_inv first (sess_step VD self s x)"
  by (cases x) (auto intro: inv_intros simp: prod_eq_iff)

lemma sess_step_level:
  "sess_inv first s \<Longrightarrow>
   unat (s_bind_watermark s) \<le> unat (s_bind_watermark (sess_step VD self s x))"
proof (cases x)
  case Prepare
  then show ?thesis using prepare_frame(3) [of self s] by (simp add: prod_eq_iff)
next
  case (Bind st c)
  assume inv: "sess_inv first s"
  obtain res s' where b: "BindForSend VD self st c s = (res, s')" by (cases "BindForSend VD self st c s")
  from BindForSend_state [OF b] watermark_not_max [OF inv] show ?thesis
    by (auto simp: Bind b u64_unat_Suc dest!: own_ticket_SomeD)
qed

interpretation sess: monotone_machine "new_session g i 1" "sess_step VD self" "sess_inv 1"
    "\<lambda>s. unat (s_bind_watermark s)"
  for g i VD self
  by unfold_locales (auto intro: sess_inv_new sess_step_inv sess_step_level)

text \<open>The sequences issued so far, as numbers: the interval from 1 to the last one.\<close>

definition issued_upto :: "OrderedSession \<Rightarrow> nat" where
  "issued_upto s = (if s_exhausted s then 2 ^ 64 else unat (s_next_sequence s))"

lemma u64_max_unat: "unat (- 1 :: u64) = 2 ^ 64 - 1"
  by (simp add: unsigned_minus_1_eq_mask mask_eq_exp_minus_1)

lemma issued_out_step:
  assumes "sess_inv 1 s"
  shows "map unat (issued_out self s x) =
           [issued_upto s ..< issued_upto (sess_step VD self s x)]"
proof (cases x)
  case Prepare
  with assms show ?thesis
    by (cases "s_next_sequence s = - 1")
       (auto simp: prepare_def Let_def issued_upto_def u64_max_def u64_unat_Suc u64_max_unat)
next
  case (Bind st c)
  obtain res s' where "BindForSend VD self st c s = (res, s')" by (cases "BindForSend VD self st c s")
  with BindForSend_frame [OF this] Bind show ?thesis by (simp add: issued_upto_def)
qed

lemma issued_upto_mono: "issued_upto s \<le> issued_upto (sess_step VD self s x)" if "sess_inv 1 s"
proof (cases x)
  case Prepare
  have "unat (s_next_sequence s) < 2 ^ 64" using unsigned_less [of "s_next_sequence s"] by simp
  with Prepare show ?thesis
    by (auto simp: prepare_def Let_def issued_upto_def u64_max_def u64_unat_Suc)
next
  case (Bind st c)
  obtain res s' where "BindForSend VD self st c s = (res, s')" by (cases "BindForSend VD self st c s")
  with BindForSend_frame [OF this] Bind show ?thesis by (simp add: issued_upto_def)
qed

lemma first_send_out_step:
  assumes "sess_inv 1 s"
  shows "map unat (first_send_out VD self s x) =
           [Suc (unat (s_bind_watermark s)) ..< Suc (unat (s_bind_watermark (sess_step VD self s x)))]"
proof (cases x)
  case Prepare
  then show ?thesis using prepare_frame(3) [of self s] by (simp add: prod_eq_iff)
next
  case (Bind st c)
  obtain res s' where b: "BindForSend VD self st c s = (res, s')" by (cases "BindForSend VD self st c s")
  show ?thesis
  proof (cases "s_bind_watermark s' = s_bind_watermark s")
    case True
    have "IsTicketSent self st s" if "res = Inr ()"
    proof -
      from that b BindForSend_ok_iff [of VD self st c s] obtain r t where
        "st = Some r" "own_ticket self r s = Some t"
        "t_bound t = Some c \<or> t_bound t = None \<and> t_sequence t = s_bind_watermark s + 1"
        by auto
      with b True show ?thesis
        by (auto simp: IsTicketSent_def IsSent_def BindForSend_def BindOrCheck_def)
    qed
    with True b Bind show ?thesis by auto
  next
    case False
    with BindForSend_state [OF b] obtain r t where
      "st = Some r" and own: "own_ticket self r s = Some t" and "t_bound t = None"
      and sq: "t_sequence t = s_bind_watermark s + 1" and "res = Inr ()"
      and "s_bind_watermark s' = s_bind_watermark s + 1"
      by auto
    moreover have "s_bind_watermark s \<noteq> - 1"
      by (rule watermark_not_max [OF assms own_ticket_SomeD [OF own, THEN conjunct2] sq])
    ultimately show ?thesis using b Bind
      by (auto simp: IsTicketSent_def IsSent_def u64_unat_Suc)
  qed
qed

lemma issued_history:
  "map unat (run_out (sess_step VD self) (issued_out self) (new_session g i 1) ops) =
     [1 ..< issued_upto (run_ops (sess_step VD self) (new_session g i 1) ops)]"
proof (rule sess.run_out_induct [where P = "\<lambda>(os :: u64 list) s. map unat os = [1 ..< issued_upto s] \<and> 1 \<le> issued_upto s", THEN conjunct1])
  show "map unat [] = [1 ..< issued_upto (new_session g i 1)] \<and> 1 \<le> issued_upto (new_session g i 1)"
    by (simp add: issued_upto_def new_session_def)
next
  fix s x and os :: "u64 list"
  assume "sess_inv 1 s" and "map unat os = [1 ..< issued_upto s] \<and> 1 \<le> issued_upto s"
  then show "map unat (os @ issued_out self s x) = [1 ..< issued_upto (sess_step VD self s x)] \<and>
      1 \<le> issued_upto (sess_step VD self s x)"
    using issued_upto_mono [of s VD self x]
    by (auto simp: issued_out_step [where VD = VD] upt_join intro: le_trans)
qed

lemma first_send_history:
  "map unat (run_out (sess_step VD self) (first_send_out VD self) (new_session g i 1) ops) =
     [1 ..< Suc (unat (s_bind_watermark (run_ops (sess_step VD self) (new_session g i 1) ops)))]"
proof (rule sess.run_out_induct [where P = "\<lambda>(os :: u64 list) s. map unat os = [1 ..< Suc (unat (s_bind_watermark s))]"])
  show "map unat [] = [1 ..< Suc (unat (s_bind_watermark (new_session g i 1)))]"
    by (simp add: new_session_def)
next
  fix s x and os :: "u64 list"
  assume inv: "sess_inv 1 s" and "map unat os = [1 ..< Suc (unat (s_bind_watermark s))]"
  then show "map unat (os @ first_send_out VD self s x) =
      [1 ..< Suc (unat (s_bind_watermark (sess_step VD self s x)))]"
    using sess_step_level [OF inv, of VD self x]
    by (simp add: first_send_out_step upt_join del: upt_Suc)
qed


text \<open>
  Progress: the smallest ticket that is issued and not yet sent exists, and its first
  send is accepted whatever its content.
\<close>

lemma next_ticket_bindable:
  assumes inv: "sess_inv first s" and iss: "issued first s (s_bind_watermark s + 1)"
    and wm: "s_bind_watermark s \<noteq> - 1"
  defines "q \<equiv> s_bind_watermark s + 1"
  shows "fst (BindForSend VD self (Some \<lparr>tr_session = self, tr_request_id = request_id_of s q,
           tr_sequence = q\<rparr>) c s) = Inr ()"
proof -
  from inv iss obtain t where t: "map_of (s_tickets s) (request_id_of s q) = Some t"
    unfolding q_def sess_inv_def by blast
  with sess_invD [OF inv t] have "t_sequence t = q" by (simp add: request_id_of_inj)
  moreover have "t_bound t = None"
    using sess_invD(4) [OF inv t] calculation wm
    by (auto simp: IsSent_def q_def word_le_nat_alt u64_unat_Suc)
  ultimately show ?thesis
    using t by (simp add: BindForSend_ok_iff own_ticket_def q_def)
qed

text \<open>
  \<open>OpenForTest\<close> with a first sequence above 1 starts the watermark at 0 all the same, so
  no first send of such a session is ever accepted.
\<close>

definition stuck :: "u64 \<Rightarrow> OrderedSession \<Rightarrow> bool" where
  "stuck first s \<longleftrightarrow> sess_inv first s \<and> s_bind_watermark s = 0"

lemma stuck_no_send:
  assumes "stuck first s" and "1 < first"
  shows "fst (BindForSend VD self st c s) \<noteq> Inr ()"
proof
  assume "fst (BindForSend VD self st c s) = Inr ()"
  then obtain r t where t: "own_ticket self r s = Some t"
    and "t_bound t = Some c \<or> t_bound t = None \<and> t_sequence t = s_bind_watermark s + 1"
    by (auto simp: BindForSend_ok_iff)
  moreover from assms t have "1 < t_sequence t" "\<not> IsSent t"
    using sess_invD(3,4) [of first s "tr_request_id r" t]
    by (auto simp: stuck_def issued_def own_ticket_SomeD)
  ultimately show False using assms(1) by (auto simp: stuck_def IsSent_def)
qed

lemma stuck_step:
  assumes "stuck first s" and "1 < first"
  shows "stuck first (sess_step VD self s x)"
proof (cases x)
  case Prepare
  then show ?thesis using assms(1) prepare_frame(3) [of self s] sess_step_inv [of first s VD self x]
    by (simp add: stuck_def prod_eq_iff)
next
  case (Bind st c)
  obtain res s' where b: "BindForSend VD self st c s = (res, s')" by (cases "BindForSend VD self st c s")
  from stuck_no_send [OF assms, of VD self st c] BindForSend_state [OF b] b have "s' = s" by auto
  with assms(1) Bind b show ?thesis by simp
qed

lemma stuck_new: "first \<noteq> 0 \<Longrightarrow> stuck first (new_session g i first)"
  by (simp add: stuck_def sess_inv_new) (simp add: new_session_def)

lemma stuck_history:
  "stuck first s \<Longrightarrow> 1 < first \<Longrightarrow> stuck first (run_ops (sess_step VD self) s ops)"
  by (induction ops arbitrary: s) (auto intro: stuck_step)

subsection \<open>The table of live sessions\<close>

datatype table_op =
    OpOpen OrderedGrant | OpOpenForTest OrderedGrant u64 | OpDestroy nat | OpSession nat sess_op

fun table_step :: "details_check \<Rightarrow> SessionTable \<Rightarrow> table_op \<Rightarrow> SessionTable" where
  "table_step VD w (OpOpen g) = snd (session_Open g w)"
| "table_step VD w (OpOpenForTest g q) = snd (OpenForTest g q w)"
| "table_step VD w (OpDestroy a) = session_destroy a w"
| "table_step VD w (OpSession a x) =
     (case map_of (live w) a of
        None \<Rightarrow> w
      | Some s \<Rightarrow> w\<lparr>live := AList.update a (sess_step VD a s x) (live w)\<rparr>)"

text \<open>
  The table invariant: every live session is registered under its own grant, two live
  entries of the registry are the same session or different streams, and the instance
  number of a session is determined by its address.
\<close>

definition table_inv :: "SessionTable \<Rightarrow> bool" where
  "table_inv w \<longleftrightarrow>
     keys_distinct (live w) \<and> g_session_instance w = of_nat (next_addr w) \<and>
     (\<forall>a s. map_of (live w) a = Some s \<longrightarrow>
        a < next_addr w \<and> (s_grant s, a) \<in> set (s_registry w) \<and>
        s_instance_id s = of_nat (Suc a) \<and> (\<exists>first. sess_inv first s)) \<and>
     (\<forall>h a. (h, a) \<in> set (s_registry w) \<longrightarrow> a < next_addr w) \<and>
     (\<forall>h a h' b. (h, a) \<in> set (s_registry w) \<longrightarrow> (h', b) \<in> set (s_registry w) \<longrightarrow>
        alive w a \<longrightarrow> alive w b \<longrightarrow> SameOrderedStreamId h h' \<longrightarrow> a = b \<and> h = h')"

lemma scan_subset: "scan_registry w g es = (r, es') \<Longrightarrow> set es' \<subseteq> set es"
  by (induction w g es arbitrary: r es' rule: scan_registry.induct)
     (fastforce split: if_splits prod.splits)+

lemma scan_keeps_live:
  "scan_registry w g es = (r, es') \<Longrightarrow> (h, a) \<in> set es \<Longrightarrow> alive w a \<Longrightarrow> (h, a) \<in> set es'"
  by (induction w g es arbitrary: r es' rule: scan_registry.induct)
     (fastforce split: if_splits prod.splits)+

lemma scan_Shared:
  "scan_registry w g es = (Shared b, es') \<Longrightarrow> alive w b \<and> (g, b) \<in> set es'"
  by (induction w g es arbitrary: es' rule: scan_registry.induct)
     (fastforce split: if_splits prod.splits)+

lemma scan_Conflict:
  "scan_registry w g es = (Conflict, es') \<Longrightarrow>
   \<exists>h b. (h, b) \<in> set es' \<and> alive w b \<and> SameOrderedStreamId h g \<and> h \<noteq> g"
  by (induction w g es arbitrary: es' rule: scan_registry.induct)
     (fastforce split: if_splits prod.splits)+

lemma scan_Absent:
  "scan_registry w g es = (Absent, es') \<Longrightarrow> (h, a) \<in> set es' \<Longrightarrow>
   alive w a \<and> \<not> SameOrderedStreamId h g"
  by (induction w g es arbitrary: es' rule: scan_registry.induct)
     (fastforce split: if_splits prod.splits)+

lemma SameOrderedStreamId_sym: "SameOrderedStreamId a b \<longleftrightarrow> SameOrderedStreamId b a"
  by (auto simp: SameOrderedStreamId_def)

lemma SameOrderedStreamId_refl [simp]: "SameOrderedStreamId a a"
  by (simp add: SameOrderedStreamId_def)

lemma table_inv_unique:
  assumes "table_inv w" and "(h, a) \<in> set (s_registry w)" and "(h', b) \<in> set (s_registry w)"
    and "alive w a" and "alive w b" and "SameOrderedStreamId h h'"
  shows "a = b \<and> h = h'"
  using assms unfolding table_inv_def by blast

lemma table_inv_live:
  assumes "table_inv w" and "map_of (live w) a = Some s"
  shows "a < next_addr w" and "(s_grant s, a) \<in> set (s_registry w)"
    and "s_instance_id s = of_nat (Suc a)" and "\<exists>first. sess_inv first s" and "alive w a"
  using assms unfolding table_inv_def alive_def by auto

text \<open>Dropping entries of dead sessions, and nothing else, keeps the invariant.\<close>

lemma table_inv_prune:
  assumes "table_inv w" and "set es \<subseteq> set (s_registry w)"
    and "\<And>h a. (h, a) \<in> set (s_registry w) \<Longrightarrow> alive w a \<Longrightarrow> (h, a) \<in> set es"
  shows "table_inv (w\<lparr>s_registry := es\<rparr>)"
proof -
  have [simp]: "alive (w\<lparr>s_registry := es\<rparr>) = alive w" by (simp add: alive_def fun_eq_iff)
  from assms show ?thesis unfolding table_inv_def by (auto simp: alive_def) (blast+)?
qed


lemma OpenImpl_table_inv [inv_intros]:
  assumes inv: "table_inv w" and "first \<noteq> 0" and o: "OpenImpl g first w = (r, w')"
  shows "table_inv w'"
proof -
  obtain d es where sc: "scan_registry w g (s_registry w) = (d, es)"
    by (cases "scan_registry w g (s_registry w)")
  let ?w1 = "w\<lparr>s_registry := es\<rparr>" and ?a = "next_addr w"
  have inv1: "table_inv ?w1"
    by (rule table_inv_prune [OF inv scan_subset [OF sc]]) (rule scan_keeps_live [OF sc])
  show ?thesis
  proof (cases d)
    case Absent
    let ?s = "new_session g (g_session_instance w + 1) first"
    have w': "w' = ?w1\<lparr>live := (?a, ?s) # live w, s_registry := es @ [(g, ?a)],
        g_session_instance := g_session_instance w + 1, next_addr := Suc ?a\<rparr>"
      using o sc Absent by (simp add: OpenImpl_def Let_def)
    have fresh: "map_of (live w) ?a = None" and fresh2: "(h, ?a) \<notin> set es" for h
      using inv1 by (auto simp: table_inv_def) (metis less_irrefl not_None_eq)
    have al: "alive w' b \<longleftrightarrow> b = ?a \<or> alive ?w1 b" for b
      by (simp add: alive_def w')
    have new: "b = ?a" if "(h, b) \<in> set (es @ [(g, ?a)])" "SameOrderedStreamId h g" for h b
      using that scan_Absent [OF sc [unfolded Absent]] by auto
    have kd: "keys_distinct (live w')"
      using inv1 fresh by (auto simp: table_inv_def keys_distinct_def w' map_of_eq_None_iff)
    have inst: "g_session_instance w' = of_nat (next_addr w')"
      using inv1 by (simp add: table_inv_def w')
    have lv: "a < next_addr w' \<and> (s_grant s, a) \<in> set (s_registry w') \<and>
        s_instance_id s = of_nat (Suc a) \<and> (\<exists>first. sess_inv first s)"
      if "map_of (live w') a = Some s" for a s
      using that inv1 sess_inv_new [OF assms(2)]
      by (auto simp: table_inv_def w' new_session_def less_Suc_eq split: if_splits)
    have bd: "a < next_addr w'" if "(h, a) \<in> set (s_registry w')" for h a
      using that inv1 by (auto simp: table_inv_def w' less_Suc_eq)
    have un: "a = b \<and> h = h'"
      if "(h, a) \<in> set (s_registry w')" "(h', b) \<in> set (s_registry w')" "alive w' a" "alive w' b"
        "SameOrderedStreamId h h'" for h a h' b
    proof (cases "a = ?a \<or> b = ?a")
      case True
      then show ?thesis
        using that fresh2 new [of h a] new [of h' b]
        by (auto simp: w' SameOrderedStreamId_sym [of g])
    next
      case False
      with that(1-4) have "(h, a) \<in> set (s_registry ?w1)" "(h', b) \<in> set (s_registry ?w1)"
        "alive ?w1 a" "alive ?w1 b"
        by (auto simp: al) (simp_all add: w')
      then show ?thesis by (rule table_inv_unique [OF inv1]) (rule that(5))
    qed
    show ?thesis unfolding table_inv_def using kd inst lv bd un by blast
  qed (use o sc inv1 in \<open>simp_all add: OpenImpl_def Let_def\<close>)
qed

lemma session_destroy_table_inv [inv_intros]:
  assumes "table_inv w" shows "table_inv (session_destroy a w)"
proof -
  let ?w1 = "w\<lparr>live := AList.delete a (live w)\<rparr>"
  have "alive ?w1 b \<longleftrightarrow> alive w b \<and> b \<noteq> a" for b by (simp add: alive_def map_of_delete)
  with assms have "table_inv ?w1"
    unfolding table_inv_def by (auto simp: map_of_delete split: if_splits)
  then show ?thesis
    unfolding session_destroy_def Let_def by (rule table_inv_prune) auto
qed

lemma sess_step_frame:
  "s_grant (sess_step VD self s x) = s_grant s"
  "s_instance_id (sess_step VD self s x) = s_instance_id s"
proof -
  have "s_grant (sess_step VD self s x) = s_grant s \<and>
      s_instance_id (sess_step VD self s x) = s_instance_id s"
  proof (cases x)
    case Prepare
    then show ?thesis using prepare_frame(1,2) [OF surjective_pairing] by simp
  next
    case (Bind st c)
    then show ?thesis using BindForSend_frame(1,2) [OF surjective_pairing] by simp
  qed
  then show "s_grant (sess_step VD self s x) = s_grant s"
    "s_instance_id (sess_step VD self s x) = s_instance_id s" by simp_all
qed

lemma table_step_inv: "table_inv w \<Longrightarrow> table_inv (table_step VD w x)"
proof (cases x)
  case (OpOpen g)
  then show "table_inv w \<Longrightarrow> ?thesis"
    by (simp add: session_Open_def OpenImpl_table_inv [OF _ _ surjective_pairing])
next
  case (OpOpenForTest g q)
  then show "table_inv w \<Longrightarrow> ?thesis"
    by (simp add: OpenForTest_def OpenImpl_table_inv [OF _ _ surjective_pairing])
next
  case (OpDestroy a)
  then show "table_inv w \<Longrightarrow> ?thesis" by (simp add: session_destroy_table_inv)
next
  case (OpSession a y)
  assume inv: "table_inv w"
  show ?thesis
  proof (cases "map_of (live w) a")
    case None
    with inv OpSession show ?thesis by simp
  next
    case (Some s)
    let ?w = "w\<lparr>live := AList.update a (sess_step VD a s y) (live w)\<rparr>"
    have "alive ?w = alive w" using Some by (auto simp: alive_def map_of_update fun_eq_iff)
    moreover have "\<exists>first. sess_inv first (sess_step VD a s y)"
      using table_inv_live(4) [OF inv Some] by (auto intro: sess_step_inv)
    ultimately have "table_inv ?w"
      using inv Some unfolding table_inv_def
      by (auto simp: map_of_update sess_step_frame split: if_splits)
    with Some OpSession show ?thesis by simp
  qed
qed

lemma table_inv_init: "table_inv no_sessions"
  by (simp add: table_inv_def no_sessions_def)

interpretation sessions: machine no_sessions "table_step VD" table_inv for VD
  by unfold_locales (auto intro: table_inv_init table_step_inv)

end
