(* ===== verification/OrderedRecv.thy ===== *)
theory OrderedRecv
  imports OrderedSend "HOL-Library.Multiset"
begin

text \<open>
  The receiving side of ordered streams: \<open>internal/OrderedIngress.hpp\<close> and
  \<open>src/actor/OrderedIngress.cc\<close>. One record holds the fields of \<open>OrderedIngress\<close>;
  each public member is one atomic step (it holds \<open>m_mtx\<close> for its whole body).

  \<open>streams_\<close>, \<open>in_flight\<close> and \<open>cached_\<close> are hash maps and become association
  lists; \<open>cached_seqs\<close> is a hash map to a dummy character and becomes the list of its
  keys. The eviction loop is a \<^theory_text>\<open>partial_function\<close>: \<open>None\<close> is ``does not
  return'', and \<open>EvictToLimits_total\<close> shows that it returns under the invariant.
  The parameter \<open>D\<close> gives the domain and domain code that infra's \<open>MakeError\<close>
  assigns for a code, \<open>VD\<close> is infra's structural check of error details.
\<close>

subsection \<open>Data\<close>

record OrderedTerminalReply =
  rp_is_ok :: bool
  rp_payload :: string
  rp_error :: error

record OrderedIngressRequest =
  q_method :: string
  q_actor_key :: string
  q_peer_principal :: string
  q_has_ordered_stamp :: bool
  q_producer_id :: string
  q_producer_epoch :: string
  q_receiver_epoch :: string
  q_sequence :: u64
  q_request_id :: string
  q_request_digest :: string

record OrderedIngressConfig =
  c_service :: string
  c_max_ordered_streams :: nat
  c_max_cached_results :: nat
  c_max_cached_result_bytes :: nat

record StreamKey =
  sk_actor_key :: string
  sk_producer_id :: string
  sk_producer_epoch :: string

record InFlight =
  fl_request_id :: string
  fl_digest :: string

type_synonym CachedKey = "StreamKey \<times> u64"

record CachedResult =
  cr_request_id :: string
  cr_digest :: string
  cr_reply :: OrderedTerminalReply
  cr_bytes :: nat

record StreamState =
  next_sequence :: u64
  in_flight :: "(u64 \<times> InFlight) list"
  cached_seqs :: "u64 list"

record OrderedIngress =
  config :: OrderedIngressConfig
  grants :: "OrderedGrant list"
  streams :: "(StreamKey \<times> StreamState) list"
  cached :: "(CachedKey \<times> CachedResult) list"
  cached_order :: "CachedKey list"
  cached_bytes :: nat

datatype DecisionKind = Execute | Replay

record Admission =
  a_kind :: DecisionKind
  a_sequence :: u64
  a_actor_key :: string
  a_producer_id :: string
  a_producer_epoch :: string
  a_replay :: "OrderedTerminalReply option"

definition key_of_grant :: "OrderedGrant \<Rightarrow> StreamKey" where
  "key_of_grant g = \<lparr>sk_actor_key = g_actor_key g, sk_producer_id = g_producer_id g,
     sk_producer_epoch = g_producer_epoch g\<rparr>"

definition key_of_request :: "OrderedIngressRequest \<Rightarrow> StreamKey" where
  "key_of_request q = \<lparr>sk_actor_key = q_actor_key q, sk_producer_id = q_producer_id q,
     sk_producer_epoch = q_producer_epoch q\<rparr>"

definition key_of_admission :: "Admission \<Rightarrow> StreamKey" where
  "key_of_admission a = \<lparr>sk_actor_key = a_actor_key a, sk_producer_id = a_producer_id a,
     sk_producer_epoch = a_producer_epoch a\<rparr>"

definition fresh_stream :: StreamState where
  "fresh_stream = \<lparr>next_sequence = 1, in_flight = [], cached_seqs = []\<rparr>"

subsection \<open>Construction and grants\<close>

definition ingress_Create :: "OrderedIngressConfig \<Rightarrow> OrderedIngress result" where
  "ingress_Create c =
     (if c_service c = '''' then fail InvalidArgument ''ordered ingress: empty service name''
      else if c_max_ordered_streams c = 0 \<or> c_max_cached_results c = 0 \<or>
              c_max_cached_result_bytes c = 0
        then fail InvalidArgument
          ''ordered ingress: max_ordered_streams, max_cached_results and max_cached_result_bytes must all be > 0''
      else Inr \<lparr>config = c, grants = [], streams = [], cached = [], cached_order = [],
                cached_bytes = 0\<rparr>)"

definition SameProducerStream :: "OrderedGrant \<Rightarrow> OrderedGrant \<Rightarrow> bool" where
  "SameProducerStream a b \<longleftrightarrow>
     g_actor_key a = g_actor_key b \<and> g_producer_id a = g_producer_id b \<and>
     g_producer_epoch a = g_producer_epoch b"

definition ReplyBytes :: "infra_domains \<Rightarrow> OrderedTerminalReply \<Rightarrow> nat" where
  "ReplyBytes D r =
     (if rp_is_ok r then length (rp_payload r)
      else length (rp_payload r) + length (domain_text D (rp_error r)) +
        length (domain_code_text_of D (rp_error r)) + length (err_message (rp_error r)) +
        sum_list (map (\<lambda>(k, v). length k + length v) (err_details (rp_error r))))"

definition GapError :: "details_check \<Rightarrow> u64 \<Rightarrow> error" where
  "GapError VD n =
     (let e = (OrderedDomainError SequenceGap
                 ''ordered sequence gap: future sequence not buffered'')
              \<lparr>err_details := [(kErrorDetailExpectedSequence, to_string (unat n))]\<rparr>
      in case ValidateErrorAtBoundary VD e of Inl x \<Rightarrow> x | Inr _ \<Rightarrow> e)"

definition drop_cached_seq :: "CachedKey \<Rightarrow> (StreamKey \<times> StreamState) list
    \<Rightarrow> (StreamKey \<times> StreamState) list" where
  "drop_cached_seq ck ss =
     (case map_of ss (fst ck) of
        None \<Rightarrow> ss
      | Some st \<Rightarrow> AList.update (fst ck)
          (st\<lparr>cached_seqs := remove1 (snd ck) (cached_seqs st)\<rparr>) ss)"

definition RemoveCached :: "CachedKey \<Rightarrow> OrderedIngress \<Rightarrow> OrderedIngress" where
  "RemoveCached ck s =
     (case map_of (cached s) ck of
        None \<Rightarrow> s
      | Some c \<Rightarrow> s\<lparr>cached_bytes := cached_bytes s - cr_bytes c,
                    cached := AList.delete ck (cached s),
                    cached_order := remove1 ck (cached_order s),
                    streams := drop_cached_seq ck (streams s)\<rparr>)"

definition DropStreamCache :: "StreamKey \<Rightarrow> OrderedIngress \<Rightarrow> OrderedIngress" where
  "DropStreamCache k s =
     (case map_of (streams s) k of
        None \<Rightarrow> s
      | Some st \<Rightarrow> fold (\<lambda>q. RemoveCached (k, q)) (cached_seqs st) s)"

text \<open>The revocation loop of \<open>GrantStream\<close>, over the grants in order.\<close>

fun revoke_old :: "OrderedGrant \<Rightarrow> OrderedGrant list \<Rightarrow> OrderedIngress
    \<Rightarrow> OrderedGrant list \<times> OrderedIngress" where
  "revoke_old g [] s = ([], s)"
| "revoke_old g (h # hs) s =
     (if SameProducerStream h g \<and> g_receiver_epoch h \<noteq> g_receiver_epoch g then
        let s1 = DropStreamCache (key_of_grant h) s
        in revoke_old g hs (s1\<lparr>streams := AList.delete (key_of_grant h) (streams s1)\<rparr>)
      else let (hs', s') = revoke_old g hs s in (h # hs', s'))"

fun find_stream_grant :: "OrderedGrant \<Rightarrow> OrderedGrant list \<Rightarrow> OrderedGrant option" where
  "find_stream_grant g [] = None"
| "find_stream_grant g (h # hs) =
     (if SameOrderedStreamId h g then Some h else find_stream_grant g hs)"

definition GrantStream :: "OrderedGrant \<Rightarrow> OrderedIngress \<Rightarrow> unit result \<times> OrderedIngress" where
  "GrantStream g s =
     (if g_service g \<noteq> c_service (config s) then
        (fail InvalidArgument ''ordered ingress: grant service does not match this ingress'', s)
      else if g_service g = '''' \<or> g_actor_key g = '''' \<or> g_producer_id g = '''' \<or>
              g_producer_epoch g = '''' \<or> g_receiver_epoch g = '''' then
        (fail InvalidArgument ''ordered ingress: grant has empty field; refusing to install'', s)
      else case find_stream_grant g (grants s) of
          Some h \<Rightarrow>
            if h = g then (Inr (), s)
            else (Inl (OrderedDomainError StreamRejected
                    ''ordered stream grant conflicts with the installed grant''), s)
        | None \<Rightarrow>
            let (gs, s1) = revoke_old g (grants s) s; s2 = s1\<lparr>grants := gs\<rparr>
            in if c_max_ordered_streams (config s2) \<le> length (grants s2) then
                 (fail Overloaded ''ordered ingress: max_ordered_streams reached'', s2)
               else
                 let k = key_of_grant g;
                     st = (case map_of (streams s2) k of None \<Rightarrow> fresh_stream | Some st \<Rightarrow> st)
                 in (Inr (), s2\<lparr>grants := grants s2 @ [g],
                        streams := AList.update k (st\<lparr>next_sequence := 1\<rparr>) (streams s2)\<rparr>))"

subsection \<open>Admission\<close>

fun authorized :: "OrderedGrant list \<Rightarrow> OrderedIngressRequest \<Rightarrow> bool" where
  "authorized [] q = False"
| "authorized (h # hs) q =
     (if g_actor_key h \<noteq> q_actor_key q \<or> g_producer_id h \<noteq> q_producer_id q
      then authorized hs q
      else if g_producer_epoch h \<noteq> q_producer_epoch q then authorized hs q
      else if g_receiver_epoch h \<noteq> q_receiver_epoch q then False
      else g_peer_principal h = q_peer_principal q)"

definition admission_for :: "DecisionKind \<Rightarrow> OrderedIngressRequest
    \<Rightarrow> OrderedTerminalReply option \<Rightarrow> Admission" where
  "admission_for kd q rep =
     \<lparr>a_kind = kd, a_sequence = q_sequence q, a_actor_key = q_actor_key q,
      a_producer_id = q_producer_id q, a_producer_epoch = q_producer_epoch q, a_replay = rep\<rparr>"

definition Admit :: "details_check \<Rightarrow> OrderedIngressRequest \<Rightarrow> OrderedIngress
    \<Rightarrow> Admission result \<times> OrderedIngress" where
  "Admit VD q s =
     (if \<not> q_has_ordered_stamp q then
        (Inl (OrderedDomainError OrderedStampRequired
           ''ordered ingress requires an ordered stamp on this target''), s)
      else if q_producer_id q = '''' \<or> q_producer_epoch q = '''' \<or> q_receiver_epoch q = '''' then
        (Inl (OrderedDomainError StreamRejected ''ordered stamp fields incomplete''), s)
      else if \<not> authorized (grants s) q then
        (Inl (OrderedDomainError StreamRejected
           ''ordered stream not authorized for this actor/producer/epoch/peer''), s)
      else
        let k = key_of_request q;
            st = (case map_of (streams s) k of None \<Rightarrow> fresh_stream | Some st \<Rightarrow> st);
            s1 = (case map_of (streams s) k of
                    None \<Rightarrow> s\<lparr>streams := AList.update k st (streams s)\<rparr> | Some _ \<Rightarrow> s)
        in
        if q_sequence q = 0 then (Inl (GapError VD (next_sequence st)), s1)
        else if next_sequence st < q_sequence q then (Inl (GapError VD (next_sequence st)), s1)
        else if q_sequence q < next_sequence st then
          (case map_of (in_flight st) (q_sequence q) of
             Some f \<Rightarrow>
               if fl_request_id f = q_request_id q \<and> fl_digest f = q_request_digest q then
                 (Inl (OrderedDomainError InProgress
                    ''ordered request of this sequence is still in progress''), s1)
               else (Inl (OrderedDomainError SequenceConflict
                    ''ordered sequence already bound to a different request''), s1)
           | None \<Rightarrow>
               (case map_of (cached s1) (k, q_sequence q) of
                  Some c \<Rightarrow>
                    if cr_request_id c \<noteq> q_request_id q \<or> cr_digest c \<noteq> q_request_digest q then
                      (Inl (OrderedDomainError SequenceConflict
                         ''ordered sequence already bound to a different request''), s1)
                    else (Inr (admission_for Replay q (Some (cr_reply c))), s1)
                | None \<Rightarrow>
                    (Inl (OrderedDomainError ResultExpired
                       ''ordered result of this sequence was evicted from the cache''), s1)))
        else
          (Inr (admission_for Execute q None),
           s1\<lparr>streams := AList.update k
                (st\<lparr>in_flight := emplace (q_sequence q)
                      \<lparr>fl_request_id = q_request_id q, fl_digest = q_request_digest q\<rparr>
                      (in_flight st),
                    next_sequence := next_sequence st + 1\<rparr>) (streams s1)\<rparr>))"

subsection \<open>Completion and eviction\<close>

definition over_limits :: "OrderedIngress \<Rightarrow> bool" where
  "over_limits s \<longleftrightarrow>
     c_max_cached_results (config s) < length (cached s) \<or>
     c_max_cached_result_bytes (config s) < cached_bytes s"

partial_function (option) EvictToLimits :: "OrderedIngress \<Rightarrow> OrderedIngress option" where
  "EvictToLimits s =
     (if cached_order s \<noteq> [] \<and> over_limits s
      then EvictToLimits (RemoveCached (hd (cached_order s)) s)
      else Some s)"

declare EvictToLimits.simps [code]

text \<open>The reply that is kept: an error passes the domain boundary first.\<close>

definition normalise_reply :: "details_check \<Rightarrow> OrderedTerminalReply \<Rightarrow> OrderedTerminalReply" where
  "normalise_reply VD r =
     (if rp_is_ok r then r
      else case ValidateErrorAtBoundary VD (rp_error r) of
          Inl x \<Rightarrow> r\<lparr>rp_error := x\<lparr>err_details := []\<rparr>\<rparr>
        | Inr _ \<Rightarrow> r)"

definition Complete :: "details_check \<Rightarrow> infra_domains \<Rightarrow> Admission \<Rightarrow> OrderedTerminalReply
    \<Rightarrow> OrderedIngress \<Rightarrow> (unit result \<times> OrderedIngress) option" where
  "Complete VD D a r s =
     (if a_kind a \<noteq> Execute then
        Some (fail InvalidArgument ''ordered ingress: complete requires an execute admission'', s)
      else case map_of (streams s) (key_of_admission a) of
          None \<Rightarrow>
            Some (fail InvalidArgument
              ''ordered ingress: admission does not reference a live stream'', s)
        | Some st \<Rightarrow>
            (case map_of (in_flight st) (a_sequence a) of
               None \<Rightarrow>
                 Some (fail InvalidArgument
                   ''ordered ingress: admission is not in flight (already completed or not issued by this ingress)'', s)
             | Some f \<Rightarrow>
                 let k = key_of_admission a;
                     st1 = st\<lparr>in_flight := AList.delete (a_sequence a) (in_flight st)\<rparr>;
                     s1 = s\<lparr>streams := AList.update k st1 (streams s)\<rparr>;
                     r' = normalise_reply VD r;
                     n = ReplyBytes D r'
                 in if c_max_cached_result_bytes (config s1) < n then Some (Inr (), s1)
                    else
                      let ck = (k, a_sequence a);
                          s2 = s1\<lparr>cached := emplace ck
                                   \<lparr>cr_request_id = fl_request_id f, cr_digest = fl_digest f,
                                    cr_reply = r', cr_bytes = n\<rparr> (cached s1),
                                 cached_order := cached_order s1 @ [ck],
                                 cached_bytes := cached_bytes s1 + n,
                                 streams := AList.update k
                                   (st1\<lparr>cached_seqs := List.insert (a_sequence a) (cached_seqs st1)\<rparr>)
                                   (streams s1)\<rparr>
                      in map_option (\<lambda>s3. (Inr (), s3)) (EvictToLimits s2)))"

subsection \<open>Observation\<close>

record OrderedStreamObservation =
  ob_next_sequence :: u64
  ob_in_flight :: nat
  ob_cached :: nat

definition StreamCount :: "OrderedIngress \<Rightarrow> nat" where
  "StreamCount s = length (grants s)"

definition CachedResultCount :: "OrderedIngress \<Rightarrow> nat" where
  "CachedResultCount s = length (cached s)"

definition CachedResultBytes :: "OrderedIngress \<Rightarrow> nat" where
  "CachedResultBytes s = cached_bytes s"

definition ObserveStream :: "StreamKey \<Rightarrow> OrderedIngress \<Rightarrow> OrderedStreamObservation result" where
  "ObserveStream k s =
     (case map_of (streams s) k of
        None \<Rightarrow> fail NotFound ''ordered stream not installed''
      | Some st \<Rightarrow> Inr \<lparr>ob_next_sequence = next_sequence st,
                       ob_in_flight = length (in_flight st),
                       ob_cached = length (cached_seqs st)\<rparr>)"


subsection \<open>The invariant\<close>

text \<open>
  A sequence of a stream is consumed once it was admitted. \<open>next_sequence\<close> is 0 after
  the last 64-bit sequence was admitted: then every sequence but 0 is consumed.
\<close>

definition consumed :: "StreamState \<Rightarrow> u64 \<Rightarrow> bool" where
  "consumed st q \<longleftrightarrow> q \<noteq> 0 \<and> (next_sequence st = 0 \<or> q < next_sequence st)"

definition stream_ok :: "StreamState \<Rightarrow> bool" where
  "stream_ok st \<longleftrightarrow>
     keys_distinct (in_flight st) \<and> distinct (cached_seqs st) \<and>
     (\<forall>q. map_of (in_flight st) q \<noteq> None \<longrightarrow> consumed st q \<and> q \<notin> set (cached_seqs st)) \<and>
     (\<forall>q \<in> set (cached_seqs st). consumed st q)"

definition cache_ok :: "OrderedIngress \<Rightarrow> bool" where
  "cache_ok s \<longleftrightarrow>
     keys_distinct (streams s) \<and> keys_distinct (cached s) \<and> distinct (cached_order s) \<and>
     set (cached_order s) = fst ` set (cached s) \<and>
     cached_bytes s = sum_list (map (cr_bytes \<circ> snd) (cached s)) \<and>
     (\<forall>k st. map_of (streams s) k = Some st \<longrightarrow> stream_ok st) \<and>
     (\<forall>k q. map_of (cached s) (k, q) \<noteq> None \<longleftrightarrow>
        (\<exists>st. map_of (streams s) k = Some st \<and> q \<in> set (cached_seqs st)))"

definition grants_ok :: "OrderedIngress \<Rightarrow> bool" where
  "grants_ok s \<longleftrightarrow>
     length (grants s) \<le> c_max_ordered_streams (config s) \<and>
     distinct (map key_of_grant (grants s)) \<and>
     (\<forall>k. map_of (streams s) k \<noteq> None \<longleftrightarrow> k \<in> key_of_grant ` set (grants s)) \<and>
     (\<forall>g \<in> set (grants s). g_service g = c_service (config s))"

definition ing_inv :: "OrderedIngress \<Rightarrow> bool" where
  "ing_inv s \<longleftrightarrow>
     cache_ok s \<and> grants_ok s \<and> \<not> over_limits s \<and>
     0 < c_max_ordered_streams (config s)"

lemma stream_okD:
  assumes "stream_ok st"
  shows "keys_distinct (in_flight st)" and "distinct (cached_seqs st)"
    and "map_of (in_flight st) q \<noteq> None \<Longrightarrow> consumed st q \<and> q \<notin> set (cached_seqs st)"
    and "q \<in> set (cached_seqs st) \<Longrightarrow> consumed st q"
  using assms by (auto simp: stream_ok_def)

lemma cache_okD:
  assumes "cache_ok s"
  shows "keys_distinct (streams s)" and "keys_distinct (cached s)" and "distinct (cached_order s)"
    and "set (cached_order s) = fst ` set (cached s)"
    and "cached_bytes s = sum_list (map (cr_bytes \<circ> snd) (cached s))"
    and "map_of (streams s) k = Some st \<Longrightarrow> stream_ok st"
    and "map_of (cached s) (k, q) \<noteq> None \<longleftrightarrow>
        (\<exists>st. map_of (streams s) k = Some st \<and> q \<in> set (cached_seqs st))"
  using assms by (auto simp: cache_ok_def)

lemma fresh_stream_ok [simp]: "stream_ok fresh_stream"
  by (simp add: stream_ok_def fresh_stream_def)

lemma fresh_stream_simps [simp]:
  "next_sequence fresh_stream = 1" "in_flight fresh_stream = []" "cached_seqs fresh_stream = []"
  "fresh_stream\<lparr>next_sequence := 1\<rparr> = fresh_stream"
  by (simp_all add: fresh_stream_def)

subsection \<open>Removing one cached result\<close>

definition without_seq :: "u64 \<Rightarrow> StreamState \<Rightarrow> StreamState" where
  "without_seq q st = st\<lparr>cached_seqs := remove1 q (cached_seqs st)\<rparr>"

lemma without_seq_simps [simp]:
  "next_sequence (without_seq q st) = next_sequence st"
  "in_flight (without_seq q st) = in_flight st"
  "cached_seqs (without_seq q st) = remove1 q (cached_seqs st)"
  "consumed (without_seq q st) = consumed st"
  by (auto simp: without_seq_def consumed_def fun_eq_iff)

lemma stream_ok_without_seq: "stream_ok st \<Longrightarrow> stream_ok (without_seq q st)"
  by (auto simp: stream_ok_def dest: notin_set_remove1)

lemma map_of_drop_cached_seq:
  "map_of (drop_cached_seq ck ss) k =
     (if k = fst ck then map_option (without_seq (snd ck)) (map_of ss k) else map_of ss k)"
  by (auto simp: drop_cached_seq_def without_seq_def map_of_update split: option.splits)

lemma keys_distinct_drop_cached_seq [simp]:
  "keys_distinct ss \<Longrightarrow> keys_distinct (drop_cached_seq ck ss)"
  by (auto simp: drop_cached_seq_def split: option.splits)

lemma RemoveCached_frame [simp]:
  "config (RemoveCached ck s) = config s"
  "grants (RemoveCached ck s) = grants s"
  by (simp_all add: RemoveCached_def split: option.splits)

lemma RemoveCached_streams:
  "map_of (streams (RemoveCached ck s)) k =
     (if k = fst ck \<and> map_of (cached s) ck \<noteq> None
      then map_option (without_seq (snd ck)) (map_of (streams s) k) else map_of (streams s) k)"
  by (auto simp: RemoveCached_def map_of_drop_cached_seq split: option.splits)

lemma RemoveCached_cached:
  "map_of (cached (RemoveCached ck s)) ck' = (if ck' = ck then None else map_of (cached s) ck')"
  by (auto simp: RemoveCached_def map_of_delete split: option.splits)

lemma RemoveCached_order:
  "cache_ok s \<Longrightarrow> cached_order (RemoveCached ck s) = remove1 ck (cached_order s)"
  using cache_okD(4) [of s]
  by (auto simp: RemoveCached_def map_of_eq_None_iff remove1_idem split: option.splits)

lemma RemoveCached_length:
  "cache_ok s \<Longrightarrow> ck \<in> set (cached_order s) \<Longrightarrow>
   Suc (length (cached (RemoveCached ck s))) = length (cached s)"
  using cache_okD(4) [of s] length_delete_present [OF cache_okD(2), of s ck]
  by (auto simp: RemoveCached_def map_of_eq_None_iff split: option.splits)

lemma RemoveCached_bytes:
  assumes "cache_ok s" and "map_of (cached s) ck = Some c"
  shows "cached_bytes s = cr_bytes c + cached_bytes (RemoveCached ck s)"
  using assms sum_list_delete [OF cache_okD(2) [OF assms(1)] assms(2), of "cr_bytes \<circ> snd"]
  by (simp add: RemoveCached_def cache_okD(5))

lemma RemoveCached_cache_ok [inv_intros]:
  assumes ok: "cache_ok s" shows "cache_ok (RemoveCached ck s)"
proof (cases "map_of (cached s) ck")
  case None
  then show ?thesis using ok by (simp add: RemoveCached_def)
next
  case (Some c)
  note D = cache_okD [OF ok]
  let ?s = "RemoveCached ck s"
  have keys: "keys_distinct (streams ?s)" "keys_distinct (cached ?s)"
    using D(1,2) Some by (simp_all add: RemoveCached_def)
  have order: "distinct (cached_order ?s)" "set (cached_order ?s) = fst ` set (cached ?s)"
    using D(3,4) by (simp_all add: RemoveCached_order [OF ok]) (simp add: RemoveCached_def Some keys_delete)
  have bytes: "cached_bytes ?s = sum_list (map (cr_bytes \<circ> snd) (cached ?s))"
    using RemoveCached_bytes [OF ok Some] D(5) sum_list_delete [OF D(2) Some, of "cr_bytes \<circ> snd"]
    by (simp add: RemoveCached_def Some)
  have st: "stream_ok st" if "map_of (streams ?s) k = Some st" for k st
    using that D(6) by (auto simp: RemoveCached_streams split: if_splits intro: stream_ok_without_seq)
  have sync: "map_of (cached ?s) (k, q) \<noteq> None \<longleftrightarrow>
      (\<exists>st. map_of (streams ?s) k = Some st \<and> q \<in> set (cached_seqs st))" for k q
  proof (cases "k = fst ck")
    case True
    with Some D(7) [of "fst ck" "snd ck"] obtain st where st: "map_of (streams s) k = Some st"
      by auto
    with D(6) have "distinct (cached_seqs st)" by (auto simp: stream_okD)
    with True st show ?thesis
      using D(7) [of k q]
      by (auto simp: RemoveCached_streams RemoveCached_cached Some prod_eq_iff)
  next
    case False
    then show ?thesis using D(7) [of k q]
      by (auto simp: RemoveCached_streams RemoveCached_cached)
  qed
  show ?thesis unfolding cache_ok_def using keys order bytes st sync by blast
qed


subsection \<open>Eviction: it returns, and drops the shortest sufficient prefix\<close>

text \<open>What eviction never touches: the sequence state of the streams.\<close>

definition stream_view :: "OrderedIngress \<Rightarrow> StreamKey \<Rightarrow> (u64 \<times> (u64 \<times> InFlight) list) option" where
  "stream_view s k = map_option (\<lambda>st. (next_sequence st, in_flight st)) (map_of (streams s) k)"

definition entry_bytes :: "OrderedIngress \<Rightarrow> CachedKey \<Rightarrow> nat" where
  "entry_bytes s ck = (case map_of (cached s) ck of None \<Rightarrow> 0 | Some c \<Rightarrow> cr_bytes c)"

definition fits :: "OrderedIngressConfig \<Rightarrow> nat list \<Rightarrow> bool" where
  "fits c ns \<longleftrightarrow>
     length ns \<le> c_max_cached_results c \<and> sum_list ns \<le> c_max_cached_result_bytes c"

lemma stream_view_Remove [simp]: "stream_view (RemoveCached ck s) = stream_view s"
  by (auto simp: stream_view_def RemoveCached_streams fun_eq_iff option.map_comp comp_def)

lemma entry_bytes_sum:
  assumes "cache_ok s"
  shows "cached_bytes s = sum_list (map (entry_bytes s) (cached_order s))"
    and "length (cached s) = length (cached_order s)"
proof -
  note D = cache_okD [OF assms]
  show len: "length (cached s) = length (cached_order s)"
    by (rule length_keys [OF D(2,3,4), symmetric])
  have "mset (cached_order s) = mset (map fst (cached s))"
    using D(2,3,4) set_eq_iff_mset_eq_distinct [of "cached_order s" "map fst (cached s)"]
    by (simp add: keys_distinct_def)
  then have "mset (map (entry_bytes s) (cached_order s)) = mset (map (entry_bytes s) (map fst (cached s)))"
    by (simp only: mset_map)
  then have "sum_list (map (entry_bytes s) (cached_order s)) =
      sum_list (map (entry_bytes s) (map fst (cached s)))"
    by (metis sum_mset_sum_list)
  also have "map (entry_bytes s) (map fst (cached s)) = map (cr_bytes \<circ> snd) (cached s)"
    using D(2) by (auto simp: entry_bytes_def map_of_eq_Some_distinct keys_distinct_def)
  finally show "cached_bytes s = sum_list (map (entry_bytes s) (cached_order s))"
    using D(5) by simp
qed

lemma over_limits_fits:
  "cache_ok s \<Longrightarrow> over_limits s \<longleftrightarrow> \<not> fits (config s) (map (entry_bytes s) (cached_order s))"
  by (auto simp: over_limits_def fits_def entry_bytes_sum)

lemma EvictToLimits_total:
  assumes "cache_ok s"
  shows "\<exists>n s'. EvictToLimits s = Some s' \<and> cache_ok s' \<and> \<not> over_limits s' \<and>
    config s' = config s \<and> grants s' = grants s \<and> stream_view s' = stream_view s \<and>
    cached_order s' = drop n (cached_order s) \<and>
    (\<forall>ck \<in> set (cached_order s'). map_of (cached s') ck = map_of (cached s) ck) \<and>
    (\<forall>m < n. \<not> fits (config s) (map (entry_bytes s) (drop m (cached_order s))))"
  using assms
proof (induction "length (cached_order s)" arbitrary: s rule: less_induct)
  case less
  show ?case
  proof (cases "cached_order s \<noteq> [] \<and> over_limits s")
    case False
    have "\<not> over_limits s"
      using False entry_bytes_sum [OF less.prems] by (auto simp: over_limits_def)
    with False less.prems show ?thesis
      by (intro exI [of _ 0] exI [of _ s]) (auto simp: EvictToLimits.simps [of s])
  next
    case True
    then obtain ck cks where o: "cached_order s = ck # cks" by (cases "cached_order s") auto
    let ?t = "RemoveCached ck s"
    have ok: "cache_ok ?t" by (rule RemoveCached_cache_ok [OF less.prems])
    have od: "cached_order ?t = cks" by (simp add: RemoveCached_order [OF less.prems] o)
    have nin: "ck \<notin> set cks" using cache_okD(3) [OF less.prems] o by simp
    obtain n s' where IH: "EvictToLimits ?t = Some s'" "cache_ok s'" "\<not> over_limits s'"
      "config s' = config s" "grants s' = grants s" "stream_view s' = stream_view s"
      "cached_order s' = drop n cks"
      "\<forall>c \<in> set (drop n cks). map_of (cached s') c = map_of (cached ?t) c"
      "\<forall>m < n. \<not> fits (config s) (map (entry_bytes ?t) (drop m cks))"
      using less.hyps [of ?t] ok od o by auto
    have eb: "map (entry_bytes ?t) (drop m cks) = map (entry_bytes s) (drop m cks)" for m
      using nin by (auto simp: entry_bytes_def RemoveCached_cached dest: in_set_dropD)
    have "\<not> fits (config s) (map (entry_bytes s) (drop m (cached_order s)))" if "m < Suc n" for m
      using that True IH(9) over_limits_fits [OF less.prems] by (cases m) (auto simp: o eb)
    moreover have "map_of (cached s') c = map_of (cached s) c" if "c \<in> set (drop n cks)" for c
      using that nin IH(8) in_set_dropD by (fastforce simp: RemoveCached_cached)
    moreover have "EvictToLimits s = Some s'"
      using True o IH(1) by (simp add: EvictToLimits.simps [of s])
    ultimately show ?thesis
      using IH by (intro exI [of _ "Suc n"] exI [of _ s']) (auto simp: o)
  qed
qed


subsection \<open>Revoking a stream\<close>

lemma RemoveCached_not_over [inv_intros]:
  assumes "cache_ok s" and "\<not> over_limits s" shows "\<not> over_limits (RemoveCached ck s)"
proof (cases "map_of (cached s) ck")
  case None
  then show ?thesis using assms by (simp add: RemoveCached_def)
next
  case (Some c)
  then have "ck \<in> set (cached_order s)"
    using cache_okD(4) [OF assms(1)] by (metis dom_map_of_fst not_None_eq)
  with assms Some show ?thesis
    using RemoveCached_length [OF assms(1), of ck] RemoveCached_bytes [OF assms(1) Some]
    by (auto simp: over_limits_def)
qed

lemma fold_RemoveCached:
  fixes k :: StreamKey and qs :: "u64 list"
  assumes "cache_ok s" and "\<not> over_limits s"
  defines "s' \<equiv> fold (\<lambda>q. RemoveCached (k, q)) qs s"
  shows "cache_ok s' \<and> \<not> over_limits s' \<and> config s' = config s \<and> grants s' = grants s \<and>
    stream_view s' = stream_view s \<and>
    map_of (cached s') = (\<lambda>ck. if fst ck = k \<and> snd ck \<in> set qs then None else map_of (cached s) ck)"
  using assms(1,2) unfolding s'_def
proof (induction qs arbitrary: s)
  case Nil
  then show ?case by auto
next
  case (Cons q qs)
  let ?t = "RemoveCached (k, q) s"
  have "cache_ok ?t" and "\<not> over_limits ?t"
    using Cons.prems by (simp_all add: inv_intros)
  from Cons.IH [OF this] show ?case
    by (simp add: RemoveCached_cached fun_eq_iff)
qed

lemma DropStreamCache_spec:
  fixes k :: StreamKey
  assumes "cache_ok s" and "\<not> over_limits s"
  defines "s' \<equiv> DropStreamCache k s"
  shows "cache_ok s'" and "\<not> over_limits s'" and "config s' = config s" and "grants s' = grants s"
    and "stream_view s' = stream_view s"
    and "map_of (cached s') = (\<lambda>ck. if fst ck = k then None else map_of (cached s) ck)"
proof -
  have "cache_ok s' \<and> \<not> over_limits s' \<and> config s' = config s \<and> grants s' = grants s \<and>
      stream_view s' = stream_view s \<and>
      map_of (cached s') = (\<lambda>ck. if fst ck = k then None else map_of (cached s) ck)"
  proof (cases "map_of (streams s) k")
    case None
    then show ?thesis using assms cache_okD(7) [OF assms(1), of k]
      by (auto simp: s'_def DropStreamCache_def fun_eq_iff)
  next
    case (Some st)
    have "map_of (cached s) (k, q) = None" if "q \<notin> set (cached_seqs st)" for q
      using that cache_okD(7) [OF assms(1), of k q] Some by auto
    then show ?thesis using fold_RemoveCached [OF assms(1,2), of k "cached_seqs st"] Some
      by (auto simp: s'_def DropStreamCache_def fun_eq_iff)
  qed
  then show "cache_ok s'" "\<not> over_limits s'" "config s' = config s" "grants s' = grants s"
    "stream_view s' = stream_view s"
    "map_of (cached s') = (\<lambda>ck. if fst ck = k then None else map_of (cached s) ck)"
    by auto
qed

definition drop_stream :: "StreamKey \<Rightarrow> OrderedIngress \<Rightarrow> OrderedIngress" where
  "drop_stream k s = (let s1 = DropStreamCache k s in s1\<lparr>streams := AList.delete k (streams s1)\<rparr>)"

lemma drop_stream_spec:
  assumes "cache_ok s" and "\<not> over_limits s"
  shows "cache_ok (drop_stream k s)" and "\<not> over_limits (drop_stream k s)"
    and "config (drop_stream k s) = config s" and "grants (drop_stream k s) = grants s"
    and "stream_view (drop_stream k s) = (stream_view s)(k := None)"
    and "map_of (cached (drop_stream k s)) =
           (\<lambda>ck. if fst ck = k then None else map_of (cached s) ck)"
proof -
  note S = DropStreamCache_spec [OF assms, of k]
  let ?t = "DropStreamCache k s"
  have "cached_seqs st = []" if "map_of (streams ?t) k = Some st" for st
    using that cache_okD(7) [OF S(1), of k] S(6) by (cases "cached_seqs st") auto
  then show "cache_ok (drop_stream k s)"
    unfolding cache_ok_def drop_stream_def Let_def
    using cache_okD [OF S(1)] S(6) by (auto simp: map_of_delete split: if_splits)
  show "\<not> over_limits (drop_stream k s)" "config (drop_stream k s) = config s"
    "grants (drop_stream k s) = grants s"
    "map_of (cached (drop_stream k s)) = (\<lambda>ck. if fst ck = k then None else map_of (cached s) ck)"
    using S by (simp_all add: drop_stream_def over_limits_def Let_def)
  show "stream_view (drop_stream k s) = (stream_view s)(k := None)"
    using S(5) by (auto simp: drop_stream_def stream_view_def map_of_delete fun_eq_iff Let_def)
qed

definition revokes :: "OrderedGrant \<Rightarrow> OrderedGrant \<Rightarrow> bool" where
  "revokes g h \<longleftrightarrow> SameProducerStream h g \<and> g_receiver_epoch h \<noteq> g_receiver_epoch g"

lemma revoke_old_step:
  "revoke_old g (h # hs) s =
     (if revokes g h then revoke_old g hs (drop_stream (key_of_grant h) s)
      else (h # fst (revoke_old g hs s), snd (revoke_old g hs s)))"
  by (simp add: revokes_def drop_stream_def Let_def case_prod_beta)

lemma revoke_old_spec:
  assumes "cache_ok s" and "\<not> over_limits s" and "revoke_old g hs s = (hs', s')"
  shows "hs' = filter (\<lambda>h. \<not> revokes g h) hs \<and> cache_ok s' \<and> \<not> over_limits s' \<and>
    config s' = config s \<and> grants s' = grants s \<and>
    stream_view s' = (\<lambda>k. if k \<in> key_of_grant ` set (filter (revokes g) hs) then None else stream_view s k) \<and>
    map_of (cached s') =
      (\<lambda>ck. if fst ck \<in> key_of_grant ` set (filter (revokes g) hs) then None else map_of (cached s) ck)"
  using assms
proof (induction hs arbitrary: s hs' s')
  case Nil
  then show ?case by (auto simp: fun_eq_iff)
next
  case (Cons h hs)
  show ?case
  proof (cases "revokes g h")
    case True
    note D = drop_stream_spec [OF Cons.prems(1,2), of "key_of_grant h"]
    from True Cons.prems(3) have "revoke_old g hs (drop_stream (key_of_grant h) s) = (hs', s')"
      by (simp add: revoke_old_step del: revoke_old.simps)
    from Cons.IH [OF D(1,2) this] True D show ?thesis
      by (auto simp: fun_eq_iff)
  next
    case False
    obtain hs1 s1 where r: "revoke_old g hs s = (hs1, s1)" by (cases "revoke_old g hs s")
    with False Cons.prems(3) have "hs' = h # hs1" "s' = s1"
      by (simp_all add: revoke_old_step del: revoke_old.simps)
    with Cons.IH [OF Cons.prems(1,2) r] False show ?thesis by simp
  qed
qed

subsection \<open>Grants keep the invariant\<close>

lemma find_stream_grant_None: "find_stream_grant g hs = None \<longleftrightarrow> (\<forall>h \<in> set hs. \<not> SameOrderedStreamId h g)"
  by (induction hs) auto

lemma find_stream_grant_Some:
  "find_stream_grant g hs = Some h \<Longrightarrow> h \<in> set hs \<and> SameOrderedStreamId h g"
  by (induction hs) (auto split: if_splits)

lemma key_of_grant_eq: "key_of_grant h = key_of_grant g \<longleftrightarrow> SameProducerStream h g"
  by (auto simp: key_of_grant_def SameProducerStream_def)

lemma SameOrderedStreamId_producer:
  "SameOrderedStreamId h g \<longleftrightarrow>
   g_service h = g_service g \<and> SameProducerStream h g \<and> g_receiver_epoch h = g_receiver_epoch g"
  by (auto simp: SameOrderedStreamId_def SameProducerStream_def)

lemma stream_view_None: "stream_view s k = None \<longleftrightarrow> map_of (streams s) k = None"
  by (simp add: stream_view_def)

text \<open>The state after the revocation loop, with the surviving grants installed.\<close>

definition revoked :: "OrderedGrant \<Rightarrow> OrderedIngress \<Rightarrow> OrderedIngress" where
  "revoked g s = (let (gs, s1) = revoke_old g (grants s) s in s1\<lparr>grants := gs\<rparr>)"

lemma revoked_spec:
  assumes inv: "ing_inv s"
  shows "ing_inv (revoked g s)" and "config (revoked g s) = config s"
    and "grants (revoked g s) = filter (\<lambda>h. \<not> revokes g h) (grants s)"
    and "stream_view (revoked g s) =
      (\<lambda>k. if k \<in> key_of_grant ` set (filter (revokes g) (grants s)) then None else stream_view s k)"
    and "map_of (cached (revoked g s)) =
      (\<lambda>ck. if fst ck \<in> key_of_grant ` set (filter (revokes g) (grants s)) then None
            else map_of (cached s) ck)"
proof -
  obtain gs s1 where r: "revoke_old g (grants s) s = (gs, s1)" by (cases "revoke_old g (grants s) s")
  have c: "cache_ok s" "\<not> over_limits s" "grants_ok s" using inv by (simp_all add: ing_inv_def)
  note S = revoke_old_spec [OF c(1,2) r]
  have e: "revoked g s = s1\<lparr>grants := gs\<rparr>" by (simp add: revoked_def r)
  have v: "stream_view (s1\<lparr>grants := gs\<rparr>) = stream_view s1" for gs
    by (simp add: stream_view_def fun_eq_iff)
  show "config (revoked g s) = config s"
    "grants (revoked g s) = filter (\<lambda>h. \<not> revokes g h) (grants s)"
    "stream_view (revoked g s) =
      (\<lambda>k. if k \<in> key_of_grant ` set (filter (revokes g) (grants s)) then None else stream_view s k)"
    "map_of (cached (revoked g s)) =
      (\<lambda>ck. if fst ck \<in> key_of_grant ` set (filter (revokes g) (grants s)) then None
            else map_of (cached s) ck)"
    using S by (simp_all add: e v)
  have "cache_ok s1" "\<not> over_limits s1" "config s1 = config s" using S by simp_all
  then have "cache_ok (revoked g s)" "\<not> over_limits (revoked g s)"
    by (simp_all add: e cache_ok_def over_limits_def)
  moreover have "grants_ok (revoked g s)"
  proof -
    have "inj_on key_of_grant (set (grants s))"
      using c(3) by (simp add: grants_ok_def distinct_map)
    then have dis: "key_of_grant h \<noteq> key_of_grant h'"
      if "h \<in> set (grants s)" "h' \<in> set (grants s)" "revokes g h" "\<not> revokes g h'" for h h'
      using that by (auto dest: inj_onD)
    have "map_of (streams (revoked g s)) k \<noteq> None \<longleftrightarrow> k \<in> key_of_grant ` set gs" for k
    proof -
      have "map_of (streams (revoked g s)) k \<noteq> None \<longleftrightarrow> stream_view s1 k \<noteq> None"
        by (simp add: e stream_view_None)
      also have "\<dots> \<longleftrightarrow> k \<notin> key_of_grant ` set (filter (revokes g) (grants s)) \<and>
          map_of (streams s) k \<noteq> None"
        using S by (auto simp: stream_view_None simp del: not_None_eq)
      also have "\<dots> \<longleftrightarrow> k \<in> key_of_grant ` set gs"
        using c(3) S dis dis [THEN not_sym] unfolding grants_ok_def by (auto simp: image_iff)
      finally show ?thesis .
    qed
    then show ?thesis
      using c(3) S unfolding grants_ok_def
      by (auto simp: e distinct_map inj_on_def intro: order_trans [OF length_filter_le])
  qed
  ultimately show "ing_inv (revoked g s)" using inv S by (simp add: ing_inv_def e)
qed

lemma GrantStream_unfold:
  "GrantStream g s =
     (if g_service g \<noteq> c_service (config s) then
        (fail InvalidArgument ''ordered ingress: grant service does not match this ingress'', s)
      else if g_service g = '''' \<or> g_actor_key g = '''' \<or> g_producer_id g = '''' \<or>
              g_producer_epoch g = '''' \<or> g_receiver_epoch g = '''' then
        (fail InvalidArgument ''ordered ingress: grant has empty field; refusing to install'', s)
      else case find_stream_grant g (grants s) of
          Some h \<Rightarrow> if h = g then (Inr (), s)
            else (Inl (OrderedDomainError StreamRejected
                    ''ordered stream grant conflicts with the installed grant''), s)
        | None \<Rightarrow>
            (if c_max_ordered_streams (config (revoked g s)) \<le> length (grants (revoked g s)) then
               (fail Overloaded ''ordered ingress: max_ordered_streams reached'', revoked g s)
             else (Inr (), (revoked g s)\<lparr>grants := grants (revoked g s) @ [g],
                    streams := AList.update (key_of_grant g)
                      ((case map_of (streams (revoked g s)) (key_of_grant g) of
                          None \<Rightarrow> fresh_stream | Some st \<Rightarrow> st)\<lparr>next_sequence := 1\<rparr>)
                      (streams (revoked g s))\<rparr>)))"
  by (simp add: GrantStream_def revoked_def Let_def case_prod_beta split: option.splits)

lemma new_grant_key_free:
  assumes inv: "ing_inv s" and sv: "g_service g = c_service (config s)"
    and none: "find_stream_grant g (grants s) = None"
  shows "map_of (streams (revoked g s)) (key_of_grant g) = None"
    and "key_of_grant g \<notin> key_of_grant ` set (grants (revoked g s))"
proof -
  have "\<not> (h \<in> set (grants s) \<and> \<not> revokes g h \<and> SameProducerStream h g)" for h
    using none sv inv
    by (auto simp: find_stream_grant_None SameOrderedStreamId_producer revokes_def ing_inv_def grants_ok_def)
  note no = this
  show n: "key_of_grant g \<notin> key_of_grant ` set (grants (revoked g s))"
  proof
    assume "key_of_grant g \<in> key_of_grant ` set (grants (revoked g s))"
    then obtain h where "h \<in> set (grants s)" "\<not> revokes g h" "key_of_grant h = key_of_grant g"
      by (auto simp: revoked_spec(3) [OF inv])
    with no [of h] show False by (simp add: key_of_grant_eq)
  qed
  from n revoked_spec(1) [OF inv, of g]
  show "map_of (streams (revoked g s)) (key_of_grant g) = None"
    by (auto simp: ing_inv_def grants_ok_def)
qed

lemma cache_ok_update_stream:
  assumes ok: "cache_ok s" and st: "stream_ok st"
    and same: "case map_of (streams s) k of None \<Rightarrow> cached_seqs st = []
                 | Some st0 \<Rightarrow> set (cached_seqs st) = set (cached_seqs st0)"
  shows "cache_ok (s\<lparr>streams := AList.update k st (streams s)\<rparr>)"
  unfolding cache_ok_def
  using cache_okD [OF ok] st same
  by (auto simp: map_of_update split: option.splits)

lemma GrantStream_ing_inv [inv_intros]:
  assumes inv: "ing_inv s" shows "ing_inv (snd (GrantStream g s))"
proof (cases "g_service g = c_service (config s) \<and> find_stream_grant g (grants s) = None \<and>
      length (grants (revoked g s)) < c_max_ordered_streams (config (revoked g s))")
  case False
  then show ?thesis using inv revoked_spec(1) [OF inv, of g]
    by (auto simp: GrantStream_unfold split: option.splits)
next
  case True
  let ?r = "revoked g s" and ?k = "key_of_grant g"
  let ?s = "?r\<lparr>grants := grants ?r @ [g], streams := AList.update ?k fresh_stream (streams ?r)\<rparr>"
  note R = revoked_spec(1) [OF inv, of g]
  have free: "map_of (streams ?r) ?k = None" "?k \<notin> key_of_grant ` set (grants ?r)"
    using new_grant_key_free [OF inv] True by auto
  have upd: "cache_ok (?r\<lparr>streams := AList.update ?k fresh_stream (streams ?r)\<rparr>)"
    using R free by (intro cache_ok_update_stream) (auto simp: ing_inv_def)
  then have "cache_ok ?s" by (simp add: cache_ok_def)
  moreover have "grants_ok ?s"
    using R free True unfolding grants_ok_def ing_inv_def
    by (auto simp: map_of_update revoked_spec(2) [OF inv] image_iff)
  ultimately have "ing_inv ?s" using R by (simp add: ing_inv_def over_limits_def)
  then show ?thesis
    using inv R True free by (simp add: GrantStream_unfold)
qed

subsection \<open>Admission under the invariant\<close>

lemma authorized_iff:
  assumes "distinct (map key_of_grant gs)"
  shows "authorized gs q \<longleftrightarrow>
    (\<exists>g \<in> set gs. key_of_grant g = key_of_request q \<and>
       g_receiver_epoch g = q_receiver_epoch q \<and> g_peer_principal g = q_peer_principal q)"
  using assms
  by (induction gs) (auto simp: key_of_grant_def key_of_request_def image_iff)

lemma authorized_stream:
  assumes "ing_inv s" and "authorized (grants s) q"
  shows "\<exists>st. map_of (streams s) (key_of_request q) = Some st"
proof -
  from assms obtain g where "g \<in> set (grants s)" "key_of_grant g = key_of_request q"
    by (auto simp: ing_inv_def grants_ok_def authorized_iff)
  then have "key_of_request q \<in> key_of_grant ` set (grants s)" by force
  with assms(1) show ?thesis by (simp add: ing_inv_def grants_ok_def)
qed

definition well_stamped :: "OrderedIngress \<Rightarrow> OrderedIngressRequest \<Rightarrow> bool" where
  "well_stamped s q \<longleftrightarrow>
     q_has_ordered_stamp q \<and> q_producer_id q \<noteq> '''' \<and> q_producer_epoch q \<noteq> '''' \<and>
     q_receiver_epoch q \<noteq> '''' \<and> authorized (grants s) q"

text \<open>The decision on an authorised request, as a function of the stream and the cache.\<close>

definition decide :: "details_check \<Rightarrow> StreamState \<Rightarrow> CachedResult option
    \<Rightarrow> OrderedIngressRequest \<Rightarrow> Admission result" where
  "decide VD st cr q =
     (if q_sequence q = 0 \<or> next_sequence st < q_sequence q
        then Inl (GapError VD (next_sequence st))
      else if q_sequence q = next_sequence st then Inr (admission_for Execute q None)
      else case map_of (in_flight st) (q_sequence q) of
          Some f \<Rightarrow>
            Inl (if fl_request_id f = q_request_id q \<and> fl_digest f = q_request_digest q
                 then OrderedDomainError InProgress
                   ''ordered request of this sequence is still in progress''
                 else OrderedDomainError SequenceConflict
                   ''ordered sequence already bound to a different request'')
        | None \<Rightarrow>
            (case cr of
               Some c \<Rightarrow>
                 if cr_request_id c = q_request_id q \<and> cr_digest c = q_request_digest q
                 then Inr (admission_for Replay q (Some (cr_reply c)))
                 else Inl (OrderedDomainError SequenceConflict
                   ''ordered sequence already bound to a different request'')
             | None \<Rightarrow>
                 Inl (OrderedDomainError ResultExpired
                   ''ordered result of this sequence was evicted from the cache'')))"

definition admit_stream :: "OrderedIngressRequest \<Rightarrow> StreamState \<Rightarrow> StreamState" where
  "admit_stream q st =
     st\<lparr>in_flight := emplace (q_sequence q)
          \<lparr>fl_request_id = q_request_id q, fl_digest = q_request_digest q\<rparr> (in_flight st),
        next_sequence := next_sequence st + 1\<rparr>"

lemma Admit_authorized:
  assumes inv: "ing_inv s" and ws: "well_stamped s q"
    and st: "map_of (streams s) (key_of_request q) = Some st"
  shows "Admit VD q s =
     (decide VD st (map_of (cached s) (key_of_request q, q_sequence q)) q,
      if q_sequence q \<noteq> 0 \<and> q_sequence q = next_sequence st
      then s\<lparr>streams := AList.update (key_of_request q) (admit_stream q st) (streams s)\<rparr> else s)"
proof -
  consider "q_sequence q = 0" | "q_sequence q \<noteq> 0" "next_sequence st < q_sequence q"
    | "q_sequence q \<noteq> 0" "q_sequence q < next_sequence st"
    | "q_sequence q \<noteq> 0" "q_sequence q = next_sequence st"
    by (meson linorder_cases)
  then show ?thesis
    using ws st
    by cases (auto simp: Admit_def well_stamped_def decide_def admit_stream_def Let_def
        split: option.splits)
qed

lemma Admit_rejected:
  assumes "\<not> well_stamped s q"
  shows "\<exists>dc m. Admit VD q s = (Inl (OrderedDomainError dc m), s) \<and>
    dc = (if q_has_ordered_stamp q then StreamRejected else OrderedStampRequired)"
  using assms by (auto simp: Admit_def well_stamped_def)

end
