(* ===== verification/OrderedExec.thy ===== *)
theory OrderedExec
  imports OrderedRecv
begin

text \<open>
  Histories of an ordered ingress: completion under the invariant, the machine whose
  operations are \<open>GrantStream\<close>, \<open>Admit\<close> and \<open>Complete\<close>, the abstract status of one
  sequence that these operations implement, and what a history of them guarantees:
  execution in order and at most once per installed stream, replay of exactly the
  completed reply, bounded retention with first-in first-out eviction.
\<close>

subsection \<open>Completion under the invariant\<close>

definition finish_stream :: "u64 \<Rightarrow> StreamState \<Rightarrow> StreamState" where
  "finish_stream q st = st\<lparr>in_flight := AList.delete q (in_flight st)\<rparr>"

definition retain_stream :: "u64 \<Rightarrow> StreamState \<Rightarrow> StreamState" where
  "retain_stream q st = (finish_stream q st)\<lparr>cached_seqs := List.insert q (cached_seqs st)\<rparr>"

lemma finish_stream_simps [simp]:
  "next_sequence (finish_stream q st) = next_sequence st"
  "in_flight (finish_stream q st) = AList.delete q (in_flight st)"
  "cached_seqs (finish_stream q st) = cached_seqs st"
  "next_sequence (retain_stream q st) = next_sequence st"
  "in_flight (retain_stream q st) = AList.delete q (in_flight st)"
  "cached_seqs (retain_stream q st) = List.insert q (cached_seqs st)"
  by (simp_all add: finish_stream_def retain_stream_def)

lemma finish_stream_ok: "stream_ok st \<Longrightarrow> stream_ok (finish_stream q st)"
  by (auto simp: stream_ok_def consumed_def map_of_delete split: if_splits)

lemma retain_stream_ok:
  "stream_ok st \<Longrightarrow> map_of (in_flight st) q \<noteq> None \<Longrightarrow> stream_ok (retain_stream q st)"
  by (auto simp: stream_ok_def consumed_def map_of_delete split: if_splits)

text \<open>The state before eviction, when the reply is retained.\<close>

definition retain :: "StreamKey \<Rightarrow> u64 \<Rightarrow> StreamState \<Rightarrow> CachedResult \<Rightarrow> OrderedIngress
    \<Rightarrow> OrderedIngress" where
  "retain k q st c s =
     s\<lparr>cached := cached s @ [((k, q), c)],
       cached_order := cached_order s @ [(k, q)],
       cached_bytes := cached_bytes s + cr_bytes c,
       streams := AList.update k (retain_stream q st) (streams s)\<rparr>"

lemma update_twice: "AList.update k v (AList.update k w m) = AList.update k v m"
  by (induction m) auto

lemma in_flight_not_cached:
  assumes ok: "cache_ok s" and st: "map_of (streams s) k = Some st"
    and f: "map_of (in_flight st) q = Some f"
  shows "map_of (cached s) (k, q) = None"
  using cache_okD(7) [OF ok, of k q] stream_okD(3) [OF cache_okD(6) [OF ok st], of q] st f
  by auto

lemma retain_cache_ok:
  assumes ok: "cache_ok s" and st: "map_of (streams s) k = Some st"
    and f: "map_of (in_flight st) q = Some f"
  shows "cache_ok (retain k q st c s)"
proof -
  note D = cache_okD [OF ok]
  let ?s = "retain k q st c s"
  have new: "map_of (cached s) (k, q) = None" by (rule in_flight_not_cached [OF ok st f])
  then have nin: "(k, q) \<notin> fst ` set (cached s)" by (simp add: map_of_eq_None_iff)
  have "keys_distinct (cached ?s)"
    using D(2) nin by (auto simp: keys_distinct_def retain_def)
  moreover have "distinct (cached_order ?s)" "set (cached_order ?s) = fst ` set (cached ?s)"
    using D(3,4) nin by (auto simp: retain_def)
  moreover have "stream_ok st'" if "map_of (streams ?s) k' = Some st'" for k' st'
    using that D(6) retain_stream_ok [OF D(6) [OF st]] f
    by (auto simp: retain_def map_of_update split: if_splits)
  moreover have "map_of (cached ?s) (k', q') \<noteq> None \<longleftrightarrow>
      (\<exists>st. map_of (streams ?s) k' = Some st \<and> q' \<in> set (cached_seqs st))" for k' q'
    using D(7) [of k' q'] st new
    by (auto simp: retain_def map_of_append_None map_of_update simp del: map_of_append
        split: option.splits)
  ultimately show ?thesis
    unfolding cache_ok_def using D(1,5) by (simp add: retain_def)
qed

lemma finish_cache_ok:
  assumes ok: "cache_ok s" and st: "map_of (streams s) k = Some st"
  shows "cache_ok (s\<lparr>streams := AList.update k (finish_stream q st) (streams s)\<rparr>)"
  using cache_ok_update_stream [OF ok finish_stream_ok [OF cache_okD(6) [OF ok st]]] st by simp

lemma Complete_unfold:
  assumes "a_kind a = Execute" and "map_of (streams s) (key_of_admission a) = Some st"
    and "map_of (in_flight st) (a_sequence a) = Some f"
    and "map_of (cached s) (key_of_admission a, a_sequence a) = None"
  shows "Complete VD D a r s =
    (let k = key_of_admission a; r' = normalise_reply VD r; n = ReplyBytes D r' in
     if c_max_cached_result_bytes (config s) < n
     then Some (Inr (), s\<lparr>streams := AList.update k (finish_stream (a_sequence a) st) (streams s)\<rparr>)
     else map_option (Pair (Inr ()))
       (EvictToLimits (retain k (a_sequence a) st
          \<lparr>cr_request_id = fl_request_id f, cr_digest = fl_digest f, cr_reply = r', cr_bytes = n\<rparr> s)))"
  using assms
  by (simp add: Complete_def Let_def update_twice retain_def retain_stream_def finish_stream_def
      emplace_def)

lemma Complete_rejected:
  assumes "a_kind a \<noteq> Execute \<or>
    (\<forall>st. map_of (streams s) (key_of_admission a) = Some st \<longrightarrow> map_of (in_flight st) (a_sequence a) = None)"
  shows "\<exists>m. Complete VD D a r s = Some (fail InvalidArgument m, s)"
  using assms by (auto simp: Complete_def split: option.splits)

text \<open>
  What a completion does: the sequence leaves \<open>in_flight\<close>; its normalised reply enters the
  cache unless it alone exceeds the byte limit; the oldest entries leave, as few as needed.
\<close>

definition cached_after :: "OrderedIngress \<Rightarrow> CachedKey \<Rightarrow> CachedResult \<Rightarrow> OrderedIngress \<Rightarrow> bool" where
  "cached_after s ck c s' \<longleftrightarrow>
     (if c_max_cached_result_bytes (config s) < cr_bytes c
      then cached s' = cached s \<and> cached_order s' = cached_order s
      else (\<exists>n. cached_order s' = drop n (cached_order s @ [ck]) \<and>
        (\<forall>x \<in> set (cached_order s'). map_of (cached s') x = ((map_of (cached s))(ck \<mapsto> c)) x) \<and>
        (\<forall>m < n. \<not> fits (config s)
           (map (entry_bytes s) (drop m (cached_order s)) @ [cr_bytes c]))))"

lemma entry_bytes_retain:
  assumes "map_of (cached s) (k, q) = None" and "x \<noteq> (k, q)"
  shows "entry_bytes (retain k q st c s) x = entry_bytes s x"
  using assms by (auto simp: entry_bytes_def retain_def map_of_append_None simp del: map_of_append
      split: option.splits)

lemma Complete_spec:
  assumes inv: "ing_inv s" and a: "a_kind a = Execute"
    and st: "map_of (streams s) (key_of_admission a) = Some st"
    and f: "map_of (in_flight st) (a_sequence a) = Some f"
  shows "\<exists>s'. Complete VD D a r s = Some (Inr (), s') \<and> ing_inv s' \<and>
    config s' = config s \<and> grants s' = grants s \<and>
    stream_view s' = (stream_view s)(key_of_admission a \<mapsto>
       (next_sequence st, AList.delete (a_sequence a) (in_flight st))) \<and>
    cached_after s (key_of_admission a, a_sequence a)
      \<lparr>cr_request_id = fl_request_id f, cr_digest = fl_digest f,
       cr_reply = normalise_reply VD r, cr_bytes = ReplyBytes D (normalise_reply VD r)\<rparr> s'"
proof -
  let ?k = "key_of_admission a" and ?q = "a_sequence a"
  let ?c = "\<lparr>cr_request_id = fl_request_id f, cr_digest = fl_digest f,
       cr_reply = normalise_reply VD r, cr_bytes = ReplyBytes D (normalise_reply VD r)\<rparr>"
  have ok: "cache_ok s" and nov: "\<not> over_limits s" and gr: "grants_ok s"
    and mx: "0 < c_max_ordered_streams (config s)"
    using inv by (simp_all add: ing_inv_def)
  have new: "map_of (cached s) (?k, ?q) = None" by (rule in_flight_not_cached [OF ok st f])
  note U = Complete_unfold [OF a st f new, of VD D r]
  have live: "(\<forall>k. map_of ss k \<noteq> None \<longleftrightarrow> k \<in> key_of_grant ` set (grants s)) \<longleftrightarrow>
      (\<forall>k. (map_of (streams s) k \<noteq> None \<longleftrightarrow> map_of ss k \<noteq> None))" for ss :: "(StreamKey \<times> StreamState) list"
    using gr unfolding grants_ok_def by metis
  show ?thesis
  proof (cases "c_max_cached_result_bytes (config s) < cr_bytes ?c")
    case True
    let ?s = "s\<lparr>streams := AList.update ?k (finish_stream ?q st) (streams s)\<rparr>"
    have "cache_ok ?s" by (rule finish_cache_ok [OF ok st])
    moreover have "grants_ok ?s" using gr live [of "streams ?s"] st
      by (auto simp: grants_ok_def map_of_update)
    ultimately have "ing_inv ?s" using nov mx by (simp add: ing_inv_def over_limits_def)
    moreover have "stream_view ?s = (stream_view s)(?k \<mapsto> (next_sequence st, AList.delete ?q (in_flight st)))"
      by (auto simp: stream_view_def fun_eq_iff map_of_update)
    ultimately show ?thesis using True U by (simp add: cached_after_def)
  next
    case False
    let ?s = "retain ?k ?q st ?c s"
    have oks: "cache_ok ?s" by (rule retain_cache_ok [OF ok st f])
    obtain n s' where E: "EvictToLimits ?s = Some s'" "cache_ok s'" "\<not> over_limits s'"
      "config s' = config ?s" "grants s' = grants ?s" "stream_view s' = stream_view ?s"
      "cached_order s' = drop n (cached_order ?s)"
      "\<forall>x \<in> set (cached_order s'). map_of (cached s') x = map_of (cached ?s) x"
      "\<forall>m < n. \<not> fits (config ?s) (map (entry_bytes ?s) (drop m (cached_order ?s)))"
      using EvictToLimits_total [OF oks] by blast
    have fr: "config ?s = config s" "grants ?s = grants s"
      "cached_order ?s = cached_order s @ [(?k, ?q)]" by (simp_all add: retain_def)
    have sv: "stream_view ?s = (stream_view s)(?k \<mapsto> (next_sequence st, AList.delete ?q (in_flight st)))"
      by (auto simp: stream_view_def fun_eq_iff map_of_update retain_def)
    have "map_of (streams s') k \<noteq> None \<longleftrightarrow> map_of (streams s) k \<noteq> None" for k
      using E(6) st by (metis fun_upd_apply option.distinct(1) stream_view_None sv)
    then have "grants_ok s'" using gr E(4,5) fr unfolding grants_ok_def by simp
    then have "ing_inv s'" using E(2,3,4) fr mx by (simp add: ing_inv_def)
    moreover have "cached_after s (?k, ?q) ?c s'"
    proof -
      have nin: "(?k, ?q) \<notin> set (cached_order s)"
        using cache_okD(4) [OF ok] new by (simp add: map_of_eq_None_iff)
      have mp: "map_of (cached ?s) = (map_of (cached s))((?k, ?q) \<mapsto> ?c)"
        using new by (auto simp: retain_def fun_eq_iff map_of_append_None simp del: map_of_append
            split: option.splits)
      have nf: "\<not> fits (config s) (map (entry_bytes s) (drop m (cached_order s)) @ [cr_bytes ?c])"
        if "m < n" for m
      proof (cases "m \<le> length (cached_order s)")
        case True
        have "map (entry_bytes ?s) (drop m (cached_order s)) = map (entry_bytes s) (drop m (cached_order s))"
          using nin by (auto intro!: entry_bytes_retain [OF new] dest: in_set_dropD)
        moreover have "entry_bytes ?s (?k, ?q) = cr_bytes ?c"
          by (simp add: entry_bytes_def mp)
        ultimately have "map (entry_bytes ?s) (drop m (cached_order ?s)) =
            map (entry_bytes s) (drop m (cached_order s)) @ [cr_bytes ?c]"
          using True fr by simp
        then show ?thesis using E(9) that fr by metis
      next
        case False
        then have "fits (config ?s) (map (entry_bytes ?s) (drop m (cached_order ?s)))"
          using fr by (simp add: fits_def)
        with that E(9) show ?thesis by blast
      qed
      show ?thesis using False E(7,8) fr mp nf by (auto simp: cached_after_def)
    qed
    ultimately show ?thesis using False U E sv fr by (intro exI [of _ s']) simp
  qed
qed

lemma Complete_total: "ing_inv s \<Longrightarrow> \<exists>x s'. Complete VD D a r s = Some (x, s') \<and> ing_inv s'"
proof (cases "a_kind a \<noteq> Execute \<or>
    (\<forall>st. map_of (streams s) (key_of_admission a) = Some st \<longrightarrow> map_of (in_flight st) (a_sequence a) = None)")
  case True
  then show "ing_inv s \<Longrightarrow> ?thesis" using Complete_rejected [OF True, of VD D r] by auto
next
  case False
  then obtain st f where "a_kind a = Execute" "map_of (streams s) (key_of_admission a) = Some st"
    "map_of (in_flight st) (a_sequence a) = Some f" by auto
  then show "ing_inv s \<Longrightarrow> ?thesis" using Complete_spec [of s a st f VD D r] by blast
qed

subsection \<open>The abstract contract: the status of one sequence\<close>

text \<open>
  What a producer may rely on for one sequence of its stream, without the containers that
  implement it: it is not yet due, it runs on behalf of one request, its reply is kept, or
  its reply is no longer available.
\<close>

datatype seq_status =
    Unseen
  | Running string string
  | Kept string string OrderedTerminalReply
  | Lost

datatype answer =
    Run
  | Replayed OrderedTerminalReply
  | Refused ordered_domain_code

definition seq_status :: "OrderedIngress \<Rightarrow> StreamKey \<Rightarrow> u64 \<Rightarrow> seq_status" where
  "seq_status s k q =
     (case map_of (streams s) k of
        None \<Rightarrow> Unseen
      | Some st \<Rightarrow>
          if \<not> consumed st q then Unseen
          else case map_of (in_flight st) q of
              Some f \<Rightarrow> Running (fl_request_id f) (fl_digest f)
            | None \<Rightarrow>
                (case map_of (cached s) (k, q) of
                   Some c \<Rightarrow> Kept (cr_request_id c) (cr_digest c) (cr_reply c)
                 | None \<Rightarrow> Lost))"

text \<open>The contract of admission, on the status of the sequence and the next sequence due.\<close>

definition spec_answer :: "u64 \<Rightarrow> seq_status \<Rightarrow> OrderedIngressRequest \<Rightarrow> answer" where
  "spec_answer next x q =
     (case x of
        Unseen \<Rightarrow> if q_sequence q = next then Run else Refused SequenceGap
      | Running i d \<Rightarrow>
          Refused (if i = q_request_id q \<and> d = q_request_digest q
                   then InProgress else SequenceConflict)
      | Kept i d rep \<Rightarrow>
          if i = q_request_id q \<and> d = q_request_digest q then Replayed rep
          else Refused SequenceConflict
      | Lost \<Rightarrow> Refused ResultExpired)"

definition answers :: "Admission result \<Rightarrow> OrderedIngressRequest \<Rightarrow> answer \<Rightarrow> bool" where
  "answers r q x =
     (case x of
        Run \<Rightarrow> r = Inr (admission_for Execute q None)
      | Replayed rep \<Rightarrow> r = Inr (admission_for Replay q (Some rep))
      | Refused dc \<Rightarrow>
          (case r of
             Inr _ \<Rightarrow> False
           | Inl e \<Rightarrow> err_code e = RemoteError \<and> err_domain e = Some kErrorDomainFrameworkActor \<and>
               err_domain_code e = Some (domain_code_text dc)))"

text \<open>
  What the sources rely on in infra's check of details: one detail that is the reserved
  key with a 64-bit decimal is within its limits.
\<close>

definition passes_expected :: "details_check \<Rightarrow> bool" where
  "passes_expected VD \<longleftrightarrow>
     (\<forall>e n. err_details e = [(kErrorDetailExpectedSequence, to_string (unat (n :: u64)))] \<longrightarrow>
        VD e = Inr ())"

lemma GapError_eq:
  assumes "passes_expected VD"
  shows "GapError VD n = (OrderedDomainError SequenceGap
      ''ordered sequence gap: future sequence not buffered'')
     \<lparr>err_details := [(kErrorDetailExpectedSequence, to_string (unat n))]\<rparr>"
proof -
  let ?e = "(OrderedDomainError SequenceGap
      ''ordered sequence gap: future sequence not buffered'')
     \<lparr>err_details := [(kErrorDetailExpectedSequence, to_string (unat n))]\<rparr>"
  have "VD ?e = Inr ()"
    by (rule assms [unfolded passes_expected_def, rule_format, of _ n]) simp
  moreover have "ValidateErrorDomainRules ?e = Inr ()"
    by (simp add: ValidateErrorDomainRules_ok_iff)
  ultimately show ?thesis by (simp add: GapError_def ValidateErrorAtBoundary_def Let_def)
qed

lemma consumed_less: "next_sequence st \<noteq> 0 \<Longrightarrow> consumed st q \<longleftrightarrow> q \<noteq> 0 \<and> q < next_sequence st"
  by (simp add: consumed_def)

lemma decide_answers:
  assumes "passes_expected VD" and "next_sequence st \<noteq> 0"
    and "map_of (streams s) (key_of_request q) = Some st"
  shows "answers (decide VD st (map_of (cached s) (key_of_request q, q_sequence q)) q) q
    (spec_answer (next_sequence st) (seq_status s (key_of_request q) (q_sequence q)) q)"
proof -
  let ?n = "next_sequence st" and ?q = "q_sequence q"
  consider "?q = 0" | "?q \<noteq> 0" "?n < ?q" | "?q \<noteq> 0" "?q = ?n" | "?q \<noteq> 0" "?q < ?n"
    by (meson linorder_cases)
  then show ?thesis
  proof cases
    case 2
    then have "\<not> ?q < ?n" by (simp add: not_less)
    with 2 assms show ?thesis
      by (auto simp: answers_def decide_def spec_answer_def seq_status_def consumed_less GapError_eq)
  next
    case 4
    then have "\<not> ?n < ?q" "?q \<noteq> ?n" by auto
    with 4 assms show ?thesis
      by (simp add: answers_def decide_def spec_answer_def seq_status_def consumed_less
          split: option.splits)
  qed (use assms in \<open>auto simp: answers_def decide_def spec_answer_def seq_status_def
         consumed_less GapError_eq\<close>)
qed

lemma consumed_admit_stream:
  assumes "next_sequence st \<noteq> 0"
  shows "consumed (admit_stream r st) q \<longleftrightarrow> consumed st q \<or> q = next_sequence st"
proof (cases "next_sequence st = - 1")
  case True
  then show ?thesis using assms word_n1_ge [of q]
    by (auto simp: consumed_def admit_stream_def less_le)
next
  case False
  then show ?thesis using assms u64_less_Suc [OF False, of q] u64_Suc_ne_0 [OF False]
    by (auto simp: consumed_def admit_stream_def le_less)
qed

lemma admit_stream_simps [simp]:
  "next_sequence (admit_stream q st) = next_sequence st + 1"
  "in_flight (admit_stream q st) = emplace (q_sequence q)
     \<lparr>fl_request_id = q_request_id q, fl_digest = q_request_digest q\<rparr> (in_flight st)"
  "cached_seqs (admit_stream q st) = cached_seqs st"
  by (simp_all add: admit_stream_def)

lemma not_consumed_next: "next_sequence st \<noteq> 0 \<Longrightarrow> \<not> consumed st (next_sequence st)"
  by (simp add: consumed_def)

lemma admit_stream_ok:
  assumes ok: "stream_ok st" and n: "next_sequence st \<noteq> 0" and q: "q_sequence q = next_sequence st"
  shows "stream_ok (admit_stream q st)"
proof -
  have free: "next_sequence st \<notin> set (cached_seqs st)" "map_of (in_flight st) (next_sequence st) = None"
    using stream_okD(3,4) [OF ok, of "next_sequence st"] not_consumed_next [OF n] by blast+
  show ?thesis
    unfolding stream_ok_def
    using stream_okD [OF ok] free q
    by (auto simp: consumed_admit_stream [OF n] map_of_emplace split: if_splits)
qed

lemma Admit_ing_inv [inv_intros]:
  assumes inv: "ing_inv s" shows "ing_inv (snd (Admit VD q s))"
proof (cases "well_stamped s q")
  case False
  then show ?thesis using Admit_rejected [OF False, of VD] inv by auto
next
  case True
  then obtain st where st: "map_of (streams s) (key_of_request q) = Some st"
    using authorized_stream [OF inv] by (auto simp: well_stamped_def)
  have c: "cache_ok s" "\<not> over_limits s" "grants_ok s" using inv by (simp_all add: ing_inv_def)
  let ?s = "s\<lparr>streams := AList.update (key_of_request q) (admit_stream q st) (streams s)\<rparr>"
  have "ing_inv ?s" if n: "q_sequence q \<noteq> 0" "q_sequence q = next_sequence st"
  proof -
    have "stream_ok (admit_stream q st)"
      using n by (intro admit_stream_ok cache_okD(6) [OF c(1) st]) auto
    then have "cache_ok ?s" using st by (intro cache_ok_update_stream [OF c(1)]) auto
    moreover have "grants_ok ?s" using c(3) st unfolding grants_ok_def
      by (auto simp: map_of_update)
    ultimately show ?thesis using inv by (simp add: ing_inv_def over_limits_def)
  qed
  then show ?thesis using inv Admit_authorized [OF inv True st, of VD] by auto
qed

subsection \<open>Grants, as a whole\<close>

lemma revoke_old_none: "\<forall>h \<in> set hs. \<not> revokes g h \<Longrightarrow> revoke_old g hs s = (hs, s)"
  by (induction hs) (simp_all add: revoke_old_step del: revoke_old.simps(2))

lemma revoked_none: "\<forall>h \<in> set (grants s). \<not> revokes g h \<Longrightarrow> revoked g s = s"
  by (simp add: revoked_def revoke_old_none)

text \<open>A grant that would be refused for capacity revokes nothing: revoking frees a place.\<close>

lemma revoked_full:
  assumes inv: "ing_inv s"
    and full: "c_max_ordered_streams (config s) \<le> length (grants (revoked g s))"
  shows "revoked g s = s"
proof (rule revoked_none, rule ccontr)
  assume "\<not> (\<forall>h \<in> set (grants s). \<not> revokes g h)"
  then have "length (filter (\<lambda>h. \<not> revokes g h) (grants s)) < length (grants s)"
    by (auto simp: length_filter_less)
  with full inv show False
    by (simp add: revoked_spec(3) [OF inv] ing_inv_def grants_ok_def)
qed

lemma revokes_key:
  assumes "find_stream_grant g (grants s) = None" and "ing_inv s"
    and "g_service g = c_service (config s)" and "h \<in> set (grants s)"
  shows "revokes g h \<longleftrightarrow> key_of_grant h = key_of_grant g"
  using assms
  by (auto simp: revokes_def key_of_grant_eq find_stream_grant_None SameOrderedStreamId_producer
      ing_inv_def grants_ok_def)

definition installs :: "OrderedGrant \<Rightarrow> OrderedIngress \<Rightarrow> bool" where
  "installs g s \<longleftrightarrow> is_ok (fst (GrantStream g s)) \<and> find_stream_grant g (grants s) = None"

lemma GrantStream_not_installing:
  assumes inv: "ing_inv s" and "\<not> installs g s"
  shows "snd (GrantStream g s) = s"
  using assms revoked_full [OF inv, of g] revoked_spec(2) [OF inv, of g]
  by (auto simp: installs_def GrantStream_unfold split: option.splits if_splits)

lemma GrantStream_installing:
  assumes inv: "ing_inv s" and inst: "installs g s"
  defines "s' \<equiv> snd (GrantStream g s)" and "k \<equiv> key_of_grant g"
  shows "config s' = config s"
    and "grants s' = filter (\<lambda>h. key_of_grant h \<noteq> k) (grants s) @ [g]"
    and "stream_view s' = (stream_view s)(k \<mapsto> (1, []))"
    and "map_of (cached s') = (\<lambda>ck. if fst ck = k then None else map_of (cached s) ck)"
proof -
  from inst have sv: "g_service g = c_service (config s)" and none: "find_stream_grant g (grants s) = None"
    and eq: "s' = (revoked g s)\<lparr>grants := grants (revoked g s) @ [g],
        streams := AList.update k ((case map_of (streams (revoked g s)) k of
             None \<Rightarrow> fresh_stream | Some st \<Rightarrow> st)\<lparr>next_sequence := 1\<rparr>) (streams (revoked g s))\<rparr>"
    by (auto simp: installs_def GrantStream_unfold s'_def k_def split: if_splits option.splits)
  note free = new_grant_key_free [OF inv sv none]
  note R = revoked_spec [OF inv, of g]
  have rk: "revokes g h \<longleftrightarrow> key_of_grant h = k" if "h \<in> set (grants s)" for h
    unfolding k_def by (rule revokes_key [OF none inv sv that])
  have e: "s' = (revoked g s)\<lparr>grants := grants (revoked g s) @ [g],
        streams := AList.update k fresh_stream (streams (revoked g s))\<rparr>"
    using eq free(1) by (simp add: k_def)
  show "config s' = config s" by (simp add: e R)
  show "grants s' = filter (\<lambda>h. key_of_grant h \<noteq> k) (grants s) @ [g]"
    using rk by (simp add: e R cong: filter_cong)
  have keys: "key_of_grant ` set (filter (revokes g) (grants s)) \<subseteq> {k}" using rk by auto
  have gone: "map_of (streams s) k = None" if "k \<notin> key_of_grant ` set (filter (revokes g) (grants s))"
  proof -
    have "k \<notin> key_of_grant ` set (grants s)" using that rk by auto
    then show ?thesis using inv by (auto simp: ing_inv_def grants_ok_def)
  qed
  have upd: "stream_view (s\<lparr>grants := gs, streams := AList.update k st (streams s)\<rparr>) =
      (stream_view s)(k \<mapsto> (next_sequence st, in_flight st))" for s :: OrderedIngress and gs st
    by (auto simp: stream_view_def map_of_update fun_eq_iff)
  show "stream_view s' = (stream_view s)(k \<mapsto> (1, []))"
    using keys by (auto simp: e upd R fun_eq_iff)
  have "map_of (cached s) (k, q) = None" if "k \<notin> key_of_grant ` set (filter (revokes g) (grants s))" for q
    using gone [OF that] inv cache_okD(7) [of s k q] by (auto simp: ing_inv_def)
  then show "map_of (cached s') = (\<lambda>ck. if fst ck = k then None else map_of (cached s) ck)"
    using keys by (auto simp: e R fun_eq_iff)
qed

subsection \<open>Histories\<close>

datatype ing_op =
    OpGrant OrderedGrant
  | OpAdmit OrderedIngressRequest
  | OpComplete Admission OrderedTerminalReply

definition ing_step :: "details_check \<Rightarrow> infra_domains \<Rightarrow> OrderedIngress \<Rightarrow> ing_op \<Rightarrow> OrderedIngress" where
  "ing_step VD D s x =
     (case x of
        OpGrant g \<Rightarrow> snd (GrantStream g s)
      | OpAdmit q \<Rightarrow> snd (Admit VD q s)
      | OpComplete a r \<Rightarrow> (case Complete VD D a r s of None \<Rightarrow> s | Some (_, s') \<Rightarrow> s'))"

text \<open>What an observer of the ingress sees.\<close>

datatype ing_event =
    Installed StreamKey
  | Executed StreamKey u64 string string
  | Completed StreamKey u64 OrderedTerminalReply

definition ing_events :: "details_check \<Rightarrow> infra_domains \<Rightarrow> OrderedIngress \<Rightarrow> ing_op \<Rightarrow> ing_event list" where
  "ing_events VD D s x =
     (case x of
        OpGrant g \<Rightarrow> if installs g s then [Installed (key_of_grant g)] else []
      | OpAdmit q \<Rightarrow>
          (case fst (Admit VD q s) of
             Inl _ \<Rightarrow> []
           | Inr a \<Rightarrow> if a_kind a = Execute
               then [Executed (key_of_request q) (a_sequence a) (q_request_id q) (q_request_digest q)]
               else [])
      | OpComplete a r \<Rightarrow>
          (case Complete VD D a r s of
             Some (Inr _, _) \<Rightarrow> [Completed (key_of_admission a) (a_sequence a) (normalise_reply VD r)]
           | _ \<Rightarrow> []))"

text \<open>The events of a stream since it was last installed.\<close>

definition session_of :: "StreamKey \<Rightarrow> ing_event list \<Rightarrow> ing_event list" where
  "session_of k es = fold (\<lambda>e acc. if e = Installed k then [] else acc @ [e]) es []"

lemma session_of_simps [simp]:
  "session_of k [] = []"
  "session_of k (es @ [e]) = (if e = Installed k then [] else session_of k es @ [e])"
  by (simp_all add: session_of_def)

fun executions :: "StreamKey \<Rightarrow> ing_event list \<Rightarrow> u64 list" where
  "executions k [] = []"
| "executions k (Executed k' q i d # es) = (if k' = k then q # executions k es else executions k es)"
| "executions k (Installed _ # es) = executions k es"
| "executions k (Completed _ _ _ # es) = executions k es"

lemma executions_append [simp]: "executions k (xs @ ys) = executions k xs @ executions k ys"
proof (induction xs)
  case Nil
  then show ?case by simp
next
  case (Cons e xs)
  then show ?case by (cases e) auto
qed

lemma executions_set: "q \<in> set (executions k es) \<longleftrightarrow> (\<exists>i d. Executed k q i d \<in> set es)"
proof (induction es)
  case Nil
  then show ?case by simp
next
  case (Cons e es)
  then show ?case by (cases e) auto
qed

lemma ing_step_ing_inv: "ing_inv s \<Longrightarrow> ing_inv (ing_step VD D s x)"
proof (cases x)
  case (OpComplete a r)
  show "ing_inv s \<Longrightarrow> ?thesis" using Complete_total [of s VD D a r] OpComplete
    by (auto simp: ing_step_def)
qed (simp_all add: ing_step_def inv_intros)

definition empty_ingress :: "OrderedIngressConfig \<Rightarrow> OrderedIngress" where
  "empty_ingress c = \<lparr>config = c, grants = [], streams = [], cached = [], cached_order = [],
     cached_bytes = 0\<rparr>"

definition creatable :: "OrderedIngressConfig \<Rightarrow> bool" where
  "creatable c \<longleftrightarrow> c_service c \<noteq> '''' \<and> 0 < c_max_ordered_streams c \<and>
     0 < c_max_cached_results c \<and> 0 < c_max_cached_result_bytes c"

lemma ingress_Create_iff: "ingress_Create c = Inr s \<longleftrightarrow> creatable c \<and> s = empty_ingress c"
  by (auto simp: ingress_Create_def creatable_def empty_ingress_def)

lemma empty_ingress_inv: "creatable c \<Longrightarrow> ing_inv (empty_ingress c)"
  by (simp add: ing_inv_def cache_ok_def grants_ok_def over_limits_def empty_ingress_def creatable_def)

text \<open>
  The machine of one ingress. A configuration \<open>Create\<close> refuses gives no ingress; it is
  replaced by a fixed valid one so that the initial state is total.
\<close>

definition some_config :: OrderedIngressConfig where
  "some_config = \<lparr>c_service = ''s'', c_max_ordered_streams = 1, c_max_cached_results = 1,
     c_max_cached_result_bytes = 1\<rparr>"

definition initial_ingress :: "OrderedIngressConfig \<Rightarrow> OrderedIngress" where
  "initial_ingress c = (case ingress_Create c of Inl _ \<Rightarrow> empty_ingress some_config | Inr s \<Rightarrow> s)"

lemma initial_ingress_inv: "ing_inv (initial_ingress c)"
proof -
  have "creatable some_config" by (simp add: creatable_def some_config_def)
  then show ?thesis
    by (auto simp: initial_ingress_def ingress_Create_iff empty_ingress_inv split: sum.splits)
qed

lemma initial_ingress_streams [simp]:
  "streams (initial_ingress c) = []" "cached (initial_ingress c) = []"
  by (auto simp: initial_ingress_def ingress_Create_def empty_ingress_def fail_def)

interpretation ingress: machine "initial_ingress c" "ing_step VD D" ing_inv for c VD D
  by unfold_locales (simp_all add: initial_ingress_inv ing_step_ing_inv)

subsection \<open>What a history guarantees for one stream\<close>

definition next_val :: "u64 \<Rightarrow> nat" where
  "next_val n = (if n = 0 then 2 ^ 64 else unat n)"

definition history_ok :: "StreamKey \<Rightarrow> ing_event list \<Rightarrow> OrderedIngress \<Rightarrow> bool" where
  "history_ok k es s \<longleftrightarrow>
     (case stream_view s k of
        None \<Rightarrow> executions k es = []
      | Some (n, fl) \<Rightarrow>
          map unat (executions k (session_of k es)) = [1 ..< next_val n] \<and>
          (\<forall>q f. map_of fl q = Some f \<longrightarrow>
             Executed k q (fl_request_id f) (fl_digest f) \<in> set (session_of k es))) \<and>
     (\<forall>q c. map_of (cached s) (k, q) = Some c \<longrightarrow>
        Executed k q (cr_request_id c) (cr_digest c) \<in> set (session_of k es) \<and>
        Completed k q (cr_reply c) \<in> set (session_of k es))"

lemma history_ok_frame:
  assumes "history_ok k es s" and "stream_view s' k = stream_view s k"
    and "\<forall>q. map_of (cached s') (k, q) = None \<or> map_of (cached s') (k, q) = map_of (cached s) (k, q)"
    and "executions k es' = []" and "Installed k \<notin> set es'"
  shows "history_ok k (es @ es') s'"
proof -
  have ses: "session_of k (es @ xs) = session_of k es @ xs" if "Installed k \<notin> set xs" for xs
    using that
  proof (induction xs rule: rev_induct)
    case Nil
    then show ?case by simp
  next
    case (snoc x xs)
    then have "session_of k ((es @ xs) @ [x]) = session_of k es @ (xs @ [x])"
      by (subst session_of_simps) auto
    then show ?case by simp
  qed
  show ?thesis
    using assms unfolding history_ok_def
    by (auto simp: ses split: option.splits) (metis option.distinct(1))+
qed

lemma next_val_step:
  assumes "n \<noteq> 0" shows "[1 ..< next_val (n + 1)] = [1 ..< next_val n] @ [unat n]"
proof -
  have pos: "1 \<le> unat n" using assms by (simp add: unat_gt_0 Suc_le_eq)
  have "next_val (n + 1) = Suc (unat n)"
  proof (cases "n = - 1")
    case True
    then show ?thesis by (simp add: next_val_def unsigned_minus_1_eq_mask mask_eq_exp_minus_1)
  next
    case False
    then show ?thesis using u64_Suc_ne_0 [OF False] by (simp add: next_val_def u64_unat_Suc)
  qed
  moreover have "next_val n = unat n" using assms by (simp add: next_val_def)
  ultimately show ?thesis using pos by simp
qed

lemma history_ok_grant:
  assumes inv: "ing_inv s" and h: "history_ok k es s" and inst: "installs g s"
  shows "history_ok k (es @ [Installed (key_of_grant g)]) (snd (GrantStream g s))"
proof (cases "key_of_grant g = k")
  case True
  note G = GrantStream_installing [OF inv inst, unfolded True]
  show ?thesis unfolding history_ok_def G by (simp add: True next_val_def)
next
  case False
  then show ?thesis
    using h GrantStream_installing [OF inv inst] by (intro history_ok_frame) auto
qed

lemma Admit_Execute_iff:
  assumes inv: "ing_inv s"
  shows "(\<exists>a. fst (Admit VD q s) = Inr a \<and> a_kind a = Execute) \<longleftrightarrow>
    well_stamped s q \<and> q_sequence q \<noteq> 0 \<and>
    (\<exists>st. map_of (streams s) (key_of_request q) = Some st \<and> q_sequence q = next_sequence st)"
proof (cases "well_stamped s q")
  case False
  then show ?thesis using Admit_rejected [OF False, of VD] by auto
next
  case True
  then obtain st where st: "map_of (streams s) (key_of_request q) = Some st"
    using authorized_stream [OF inv] by (auto simp: well_stamped_def)
  show ?thesis
    using True st Admit_authorized [OF inv True st, of VD]
    by (auto simp: decide_def admission_for_def split: option.splits if_splits)
qed

lemma Admit_executes:
  assumes inv: "ing_inv s" and ex: "fst (Admit VD q s) = Inr a" "a_kind a = Execute"
  obtains st where "map_of (streams s) (key_of_request q) = Some st"
    and "q_sequence q \<noteq> 0" and "q_sequence q = next_sequence st"
    and "a = admission_for Execute q None"
    and "snd (Admit VD q s) =
      s\<lparr>streams := AList.update (key_of_request q) (admit_stream q st) (streams s)\<rparr>"
proof -
  from ex inv have "well_stamped s q" and q: "q_sequence q \<noteq> 0"
    and "\<exists>st. map_of (streams s) (key_of_request q) = Some st \<and> q_sequence q = next_sequence st"
    using Admit_Execute_iff [OF inv, of VD q] by auto
  then obtain st where st: "map_of (streams s) (key_of_request q) = Some st" "q_sequence q = next_sequence st"
    by auto
  with ex q Admit_authorized [OF inv \<open>well_stamped s q\<close> st(1), of VD] show ?thesis
    by (intro that [OF st(1) q st(2)]) (auto simp: decide_def)
qed

lemma Admit_no_execute:
  assumes inv: "ing_inv s" and no: "\<not> (\<exists>a. fst (Admit VD q s) = Inr a \<and> a_kind a = Execute)"
  shows "snd (Admit VD q s) = s"
proof (cases "well_stamped s q")
  case False
  then show ?thesis using Admit_rejected [OF False, of VD] by auto
next
  case True
  then obtain st where st: "map_of (streams s) (key_of_request q) = Some st"
    using authorized_stream [OF inv] by (auto simp: well_stamped_def)
  show ?thesis
    using no True st Admit_authorized [OF inv True st, of VD] unfolding Admit_Execute_iff [OF inv]
    by auto
qed

lemma history_ok_execute:
  assumes inv: "ing_inv s" and h: "history_ok k es s"
    and ex: "fst (Admit VD q s) = Inr a" "a_kind a = Execute"
  shows "history_ok k (es @ [Executed (key_of_request q) (a_sequence a) (q_request_id q) (q_request_digest q)])
    (snd (Admit VD q s))"
proof -
  obtain st where st: "map_of (streams s) (key_of_request q) = Some st"
    and q: "q_sequence q \<noteq> 0" "q_sequence q = next_sequence st"
    and a: "a = admission_for Execute q None"
    and S: "snd (Admit VD q s) =
      s\<lparr>streams := AList.update (key_of_request q) (admit_stream q st) (streams s)\<rparr>"
    by (rule Admit_executes [OF inv ex])
  have seq: "a_sequence a = next_sequence st" by (simp add: a admission_for_def q)
  have view: "stream_view (snd (Admit VD q s)) = (stream_view s)(key_of_request q \<mapsto>
      (next_sequence st + 1, emplace (next_sequence st)
        \<lparr>fl_request_id = q_request_id q, fl_digest = q_request_digest q\<rparr> (in_flight st)))"
    by (auto simp: S stream_view_def map_of_update fun_eq_iff q)
  have ch: "cached (snd (Admit VD q s)) = cached s" by (simp add: S)
  show ?thesis
  proof (cases "key_of_request q = k")
    case False
    then show ?thesis using h by (intro history_ok_frame) (auto simp: view ch)
  next
    case True
    with st have v: "stream_view s k = Some (next_sequence st, in_flight st)"
      by (simp add: stream_view_def)
    show ?thesis
      using h q next_val_step [of "next_sequence st"] unfolding history_ok_def v view ch
      by (auto simp: True seq map_of_emplace split: if_splits)
  qed
qed

lemma history_ok_complete:
  assumes inv: "ing_inv s" and h: "history_ok k es s"
    and C: "Complete VD D a r s = Some (Inr x, s')"
  shows "history_ok k (es @ [Completed (key_of_admission a) (a_sequence a) (normalise_reply VD r)]) s'"
proof -
  let ?k = "key_of_admission a" and ?q = "a_sequence a"
  have "\<not> (a_kind a \<noteq> Execute \<or> (\<forall>st. map_of (streams s) ?k = Some st \<longrightarrow> map_of (in_flight st) ?q = None))"
    using C Complete_rejected [of a s VD D r] by fastforce
  then obtain st f where a: "a_kind a = Execute" and st: "map_of (streams s) ?k = Some st"
    and f: "map_of (in_flight st) ?q = Some f" by auto
  let ?c = "\<lparr>cr_request_id = fl_request_id f, cr_digest = fl_digest f,
       cr_reply = normalise_reply VD r, cr_bytes = ReplyBytes D (normalise_reply VD r)\<rparr>"
  have V: "stream_view s' = (stream_view s)(?k \<mapsto> (next_sequence st, AList.delete ?q (in_flight st)))"
    and A: "cached_after s (?k, ?q) ?c s'" and inv': "ing_inv s'"
    using Complete_spec [OF inv a st f, of VD D r] C by auto
  have here: "ck \<in> set (cached_order s')" if "map_of (cached s') ck \<noteq> None" for ck
    using that inv' by (auto simp: ing_inv_def cache_ok_def map_of_eq_None_iff)
  have old: "map_of (cached s') ck = None \<or> map_of (cached s') ck = map_of (cached s) ck"
    if "ck \<noteq> (?k, ?q)" for ck
    using A here [of ck] that unfolding cached_after_def by (auto split: if_splits)
  show ?thesis
  proof (cases "?k = k")
    case False
    then have "\<forall>q. map_of (cached s') (k, q) = None \<or> map_of (cached s') (k, q) = map_of (cached s) (k, q)"
      using old by (intro allI old) auto
    with False h show ?thesis by (intro history_ok_frame) (auto simp: V)
  next
    case True
    with st have v: "stream_view s k = Some (next_sequence st, in_flight st)"
      by (simp add: stream_view_def)
    have new: "map_of (cached s') (k, ?q) = None \<or> map_of (cached s') (k, ?q) = Some ?c"
      using A here [of "(k, ?q)"] in_flight_not_cached [OF _ st f] inv True
      unfolding cached_after_def by (auto simp: ing_inv_def split: if_splits)
    have "Executed k q' (cr_request_id c) (cr_digest c) \<in> set (session_of k es) \<and>
        (Completed k q' (cr_reply c) \<in> set (session_of k es) \<or>
         q' = ?q \<and> cr_reply c = normalise_reply VD r)"
      if "map_of (cached s') (k, q') = Some c" for q' c
    proof (cases "q' = ?q")
      case True
      with new that have "c = ?c" by simp
      then show ?thesis using h f True by (auto simp: history_ok_def v)
    next
      case False
      with old [of "(k, q')"] that have "map_of (cached s) (k, q') = Some c" by simp
      then show ?thesis using h by (auto simp: history_ok_def)
    qed
    with h show ?thesis unfolding history_ok_def V v
      by (fastforce simp: True v map_of_delete split: if_splits)
  qed
qed

lemma history_ok_step:
  assumes inv: "ing_inv s" and h: "history_ok k es s"
  shows "history_ok k (es @ ing_events VD D s x) (ing_step VD D s x)"
proof (cases x)
  case (OpGrant g)
  show ?thesis
  proof (cases "installs g s")
    case True
    then show ?thesis using history_ok_grant [OF inv h True] by (simp add: OpGrant ing_events_def ing_step_def)
  next
    case False
    then show ?thesis using h GrantStream_not_installing [OF inv False]
      by (simp add: OpGrant ing_events_def ing_step_def)
  qed
next
  case (OpAdmit q)
  show ?thesis
  proof (cases "\<exists>a. fst (Admit VD q s) = Inr a \<and> a_kind a = Execute")
    case True
    then show ?thesis using history_ok_execute [OF inv h]
      by (auto simp: OpAdmit ing_events_def ing_step_def)
  next
    case False
    then have "ing_events VD D s x = []" by (auto simp: OpAdmit ing_events_def split: sum.splits)
    then show ?thesis using h Admit_no_execute [OF inv False] by (simp add: OpAdmit ing_step_def)
  qed
next
  case (OpComplete a r)
  obtain y s' where C: "Complete VD D a r s = Some (y, s')" using Complete_total [OF inv] by blast
  show ?thesis
  proof (cases y)
    case (Inr u)
    then show ?thesis using history_ok_complete [OF inv h, of VD D a r u s'] C
      by (simp add: OpComplete ing_events_def ing_step_def)
  next
    case (Inl e)
    have "s' = s"
    proof (rule ccontr)
      assume "s' \<noteq> s"
      then show False using C Inl Complete_rejected [of a s VD D r] Complete_spec [OF inv, of a _ _ VD D r]
        by fastforce
    qed
    then show ?thesis using C Inl h by (simp add: OpComplete ing_events_def ing_step_def)
  qed
qed

lemma ing_config_step: "ing_inv s \<Longrightarrow> config (ing_step VD D s x) = config s"
proof (cases x)
  case (OpGrant g)
  then show "ing_inv s \<Longrightarrow> ?thesis"
    using GrantStream_installing(1) [of s g] GrantStream_not_installing [of s g]
    by (cases "installs g s") (auto simp: ing_step_def)
next
  case (OpAdmit q)
  then show "ing_inv s \<Longrightarrow> ?thesis"
    using Admit_no_execute [of s VD q]
    by (cases "\<exists>a. fst (Admit VD q s) = Inr a \<and> a_kind a = Execute")
       (auto simp: ing_step_def elim: Admit_executes)
next
  case (OpComplete a r)
  assume inv: "ing_inv s"
  show ?thesis
    using OpComplete Complete_rejected [of a s VD D r] Complete_spec [OF inv, of a _ _ VD D r]
    by (fastforce simp: ing_step_def)
qed

lemma ing_config_run: "ing_inv s \<Longrightarrow> config (run_ops (ing_step VD D) s ops) = config s"
  by (induction ops arbitrary: s) (simp_all add: ing_config_step ing_step_ing_inv)

end
