(* ===== verification/OrderedProps.thy ===== *)
theory OrderedProps
  imports OrderedExec
begin

text \<open>
  The promises of ordered streams, stated for arbitrary histories: what leaves a session
  (\<open>OrderedSend\<close>), what the ingress executes, replays, refuses and retains
  (\<open>OrderedRecv\<close>, \<open>OrderedExec\<close>), each with a concrete instance.
\<close>

subsection \<open>Concrete data for the instances\<close>

definition demo_check :: details_check where
  "demo_check e = Inr ()"

definition demo_domains :: infra_domains where
  "demo_domains c = (''infra'', ''Code'')"

definition demo_config :: OrderedIngressConfig where
  "demo_config = \<lparr>c_service = ''Svc'', c_max_ordered_streams = 2, c_max_cached_results = 1,
     c_max_cached_result_bytes = 8\<rparr>"

definition demo_grant :: "string \<Rightarrow> OrderedGrant" where
  "demo_grant re = \<lparr>g_service = ''Svc'', g_actor_key = ''k'', g_producer_id = ''p'',
     g_producer_epoch = ''e'', g_receiver_epoch = re, g_peer_principal = ''peer''\<rparr>"

definition demo_request :: "string \<Rightarrow> u64 \<Rightarrow> string \<Rightarrow> OrderedIngressRequest" where
  "demo_request re q i = \<lparr>q_method = ''m'', q_actor_key = ''k'', q_peer_principal = ''peer'',
     q_has_ordered_stamp = True, q_producer_id = ''p'', q_producer_epoch = ''e'',
     q_receiver_epoch = re, q_sequence = q, q_request_id = i, q_request_digest = ''d''\<rparr>"

definition demo_reply :: "string \<Rightarrow> OrderedTerminalReply" where
  "demo_reply b = \<lparr>rp_is_ok = True, rp_payload = b, rp_error = MakeError InternalError ''''\<rparr>"

definition demo_key :: StreamKey where
  "demo_key = \<lparr>sk_actor_key = ''k'', sk_producer_id = ''p'', sk_producer_epoch = ''e''\<rparr>"

definition demo_admission :: "u64 \<Rightarrow> Admission" where
  "demo_admission q = \<lparr>a_kind = Execute, a_sequence = q, a_actor_key = ''k'', a_producer_id = ''p'',
     a_producer_epoch = ''e'', a_replay = None\<rparr>"

definition demo_ops :: "ing_op list" where
  "demo_ops = [OpGrant (demo_grant ''r1''), OpAdmit (demo_request ''r1'' 2 ''b''),
     OpAdmit (demo_request ''r1'' 1 ''a''), OpAdmit (demo_request ''r1'' 2 ''b''),
     OpComplete (demo_admission 1) (demo_reply ''ok'')]"

lemma demo_check_props: "passes_expected demo_check" "checks_details_only demo_check"
  by (simp_all add: passes_expected_def checks_details_only_def demo_check_def)

lemma EvictToLimits_id: "\<not> over_limits s \<Longrightarrow> EvictToLimits s = Some s"
  by (simp add: EvictToLimits.simps [of s])

definition demo_state :: OrderedIngress where
  "demo_state = run_ops (ing_step demo_check demo_domains) (empty_ingress demo_config) demo_ops"

lemma demo_created: "ingress_Create demo_config = Inr (empty_ingress demo_config)"
  by (simp add: ingress_Create_iff creatable_def demo_config_def)

definition demo_events :: "ing_event list" where
  "demo_events = run_out (ing_step demo_check demo_domains) (ing_events demo_check demo_domains)
     (empty_ingress demo_config) demo_ops"

lemma demo_state_stream:
  "map_of (streams demo_state) demo_key = Some \<lparr>next_sequence = 3,
     in_flight = [(2, \<lparr>fl_request_id = ''b'', fl_digest = ''d''\<rparr>)], cached_seqs = [1]\<rparr>"
  unfolding demo_state_def by code_simp

subsection \<open>The receiving side\<close>

lemma ingress_history:
  assumes "ingress_Create c = Inr s0"
  shows "ing_inv (run_ops (ing_step VD D) s0 ops) \<and>
    history_ok k (run_out (ing_step VD D) (ing_events VD D) s0 ops) (run_ops (ing_step VD D) s0 ops)"
proof -
  have s0: "s0 = initial_ingress c" using assms by (simp add: initial_ingress_def)
  have "history_ok k (run_out (ing_step VD D) (ing_events VD D) (initial_ingress c) ops)
      (run_ops (ing_step VD D) (initial_ingress c) ops)"
    by (rule ingress.run_out_induct [where P = "history_ok k"])
       (simp add: history_ok_def stream_view_def, rule history_ok_step)
  then show ?thesis by (simp add: s0 ingress.inv_run)
qed

lemma history_ok_cached:
  assumes "history_ok k es s" and "map_of (cached s) (k, q) = Some c"
  shows "Executed k q (cr_request_id c) (cr_digest c) \<in> set (session_of k es)"
    and "Completed k q (cr_reply c) \<in> set (session_of k es)"
  using assms by (auto simp: history_ok_def)

text \<open>C1: Execution is in order and exactly once: after any history of grants, admissions and
  completions on an ingress that \<open>Create\<close> accepted, the sequences executed for a live stream
  since it was last installed are 1, 2, 3, ... up to the one before \<open>next_sequence\<close>, each once
  and in this order (also when the 64-bit counter has wrapped to 0).\<close>

theorem ingress_executes_in_order_once:
  assumes "ingress_Create c = Inr s0"
    and "map_of (streams (run_ops (ing_step VD D) s0 ops)) k = Some st"
  shows "map unat (executions k (session_of k (run_out (ing_step VD D) (ing_events VD D) s0 ops))) =
    [1 ..< next_val (next_sequence st)]"
  using ingress_history [OF assms(1), of VD D ops k] assms(2)
  by (auto simp: history_ok_def stream_view_def)

theorem ingress_executes_in_order_once_witness:
  "map unat (executions demo_key (session_of demo_key demo_events)) = [1 ..< next_val 3]"
  using ingress_executes_in_order_once [OF demo_created demo_state_stream [unfolded demo_state_def]]
  by (simp add: demo_events_def)

text \<open>C2: A replay is faithful: when, after any history, \<open>Admit\<close> answers a request with
  \<open>Replay\<close>, the reply is one that \<open>Complete\<close> stored (normalised) for the same stream and
  sequence since the stream was installed, and that sequence was executed for the same
  request id and the same digest.\<close>

theorem ingress_replay_faithful:
  assumes "ingress_Create c = Inr s0"
    and "fst (Admit VD q (run_ops (ing_step VD D) s0 ops)) = Inr a" and "a_kind a = Replay"
  shows "\<exists>rep. a_replay a = Some rep \<and>
    {Executed (key_of_request q) (q_sequence q) (q_request_id q) (q_request_digest q),
     Completed (key_of_request q) (q_sequence q) rep}
    \<subseteq> set (session_of (key_of_request q) (run_out (ing_step VD D) (ing_events VD D) s0 ops))"
proof -
  let ?s = "run_ops (ing_step VD D) s0 ops"
  note H = ingress_history [OF assms(1), of VD D ops "key_of_request q"]
  have ws: "well_stamped ?s q" using assms(2) Admit_rejected [of ?s q VD] by fastforce
  then obtain st where st: "map_of (streams ?s) (key_of_request q) = Some st"
    using authorized_stream [of ?s q] H by (auto simp: well_stamped_def)
  from assms(2,3) H Admit_authorized [OF _ ws st, of VD] obtain cr where
    cr: "map_of (cached ?s) (key_of_request q, q_sequence q) = Some cr"
    and "cr_request_id cr = q_request_id q" "cr_digest cr = q_request_digest q"
    and "a_replay a = Some (cr_reply cr)"
    by (auto simp: decide_def admission_for_def split: if_splits option.splits)
  with history_ok_cached [OF H [THEN conjunct2] cr] show ?thesis by simp
qed

definition demo_replay :: Admission where
  "demo_replay = admission_for Replay (demo_request ''r1'' 1 ''a'') (Some (demo_reply ''ok''))"

theorem ingress_replay_faithful_witness:
  "\<exists>rep. a_replay demo_replay = Some rep \<and>
    {Executed demo_key 1 ''a'' ''d'', Completed demo_key 1 rep}
    \<subseteq> set (session_of demo_key demo_events)"
proof -
  have "fst (Admit demo_check (demo_request ''r1'' 1 ''a'') demo_state) = Inr demo_replay"
    unfolding demo_state_def by code_simp
  from ingress_replay_faithful [OF demo_created this [unfolded demo_state_def]] show ?thesis
    by (simp add: demo_replay_def admission_for_def demo_events_def demo_request_def
        key_of_request_def demo_key_def)
qed

lemma seq_status_admit:
  assumes "map_of (streams s) k0 = Some st" and "next_sequence st \<noteq> 0"
    and "q_sequence q = next_sequence st" and "map_of (in_flight st) (next_sequence st) = None"
  shows "seq_status (s\<lparr>streams := AList.update k0 (admit_stream q st) (streams s)\<rparr>) k p =
    (if k = k0 \<and> p = next_sequence st then Running (q_request_id q) (q_request_digest q)
     else seq_status s k p)"
proof (cases "k = k0")
  case False
  then show ?thesis by (simp add: seq_status_def map_of_update split: option.split)
next
  case True
  then show ?thesis using assms
    by (auto simp: seq_status_def map_of_update consumed_admit_stream map_of_emplace
        split: option.splits)
qed

text \<open>C3: Admission implements the contract of one sequence: on an authorised request
  \<open>Admit\<close> answers as \<open>spec_answer\<close> says for the status of the sequence (run it when it is the
  next one, refuse a future one as a gap, a running one as in progress or conflicting, replay
  a kept one for the same request, refuse a lost one as expired), and the only status it
  changes is the one of the sequence it starts.\<close>

theorem Admit_implements_contract:
  assumes inv: "ing_inv s" and ws: "well_stamped s q" and VD: "passes_expected VD"
    and st: "map_of (streams s) (key_of_request q) = Some st" and n: "next_sequence st \<noteq> 0"
  defines "x \<equiv> spec_answer (next_sequence st) (seq_status s (key_of_request q) (q_sequence q)) q"
  shows "answers (fst (Admit VD q s)) q x \<and>
    (\<forall>k p. seq_status (snd (Admit VD q s)) k p =
      (if x = Run \<and> k = key_of_request q \<and> p = q_sequence q
       then Running (q_request_id q) (q_request_digest q) else seq_status s k p))"
proof -
  let ?k = "key_of_request q" and ?n = "next_sequence st"
  note A = Admit_authorized [OF inv ws st, of VD]
  have ok: "stream_ok st" using inv st by (auto simp: ing_inv_def cache_ok_def)
  have free: "map_of (in_flight st) ?n = None"
    using stream_okD(3) [OF ok, of ?n] not_consumed_next [OF n] by blast
  have x: "x = Run \<longleftrightarrow> q_sequence q \<noteq> 0 \<and> q_sequence q = ?n"
    using n not_consumed_next [OF n]
    by (auto simp: x_def spec_answer_def seq_status_def st consumed_def split: option.splits)
  have "seq_status (snd (Admit VD q s)) k p =
      (if x = Run \<and> k = ?k \<and> p = q_sequence q
       then Running (q_request_id q) (q_request_digest q) else seq_status s k p)" for k p
    using x n seq_status_admit [OF st n _ free, of q k p] by (cases "x = Run") (auto simp: A)
  then show ?thesis
    using decide_answers [OF VD n st] by (simp add: A x_def)
qed

lemma demo_state_inv: "ing_inv demo_state"
  unfolding demo_state_def using ingress_history [OF demo_created] by blast

theorem Admit_implements_contract_witness:
  "answers (fst (Admit demo_check (demo_request ''r1'' 3 ''c'') demo_state))
     (demo_request ''r1'' 3 ''c'') Run"
proof -
  have "map_of (streams demo_state) (key_of_request (demo_request ''r1'' 3 ''c'')) =
      Some \<lparr>next_sequence = 3, in_flight = [(2, \<lparr>fl_request_id = ''b'', fl_digest = ''d''\<rparr>)],
        cached_seqs = [1]\<rparr>"
    using demo_state_stream by (simp add: key_of_request_def demo_request_def demo_key_def)
  moreover have "well_stamped demo_state (demo_request ''r1'' 3 ''c'')"
    unfolding demo_state_def by code_simp
  moreover have "seq_status demo_state (key_of_request (demo_request ''r1'' 3 ''c'')) 3 = Unseen"
    unfolding demo_state_def by code_simp
  ultimately show ?thesis
    using Admit_implements_contract [OF demo_state_inv _ demo_check_props(1), of "demo_request ''r1'' 3 ''c''"]
    by (simp add: spec_answer_def demo_request_def)
qed



text \<open>C5: Retention is bounded: after any history the number of cached replies, their total
  size and the number of installed streams stay within the configured limits, \<open>cached_bytes\<close>
  is exactly the sum of the sizes of the cached replies, and the eviction order lists every
  cached reply once.\<close>

theorem ingress_retention_bounded:
  assumes "ingress_Create c = Inr s0"
  defines "s \<equiv> \<lambda>VD D ops. run_ops (ing_step VD D) s0 ops"
  shows "CachedResultCount (s VD D ops) \<le> c_max_cached_results c \<and>
    CachedResultBytes (s VD D ops) \<le> c_max_cached_result_bytes c \<and>
    StreamCount (s VD D ops) \<le> c_max_ordered_streams c \<and>
    CachedResultBytes (s VD D ops) = sum_list (map (cr_bytes \<circ> snd) (cached (s VD D ops))) \<and>
    distinct (cached_order (s VD D ops)) \<and>
    set (cached_order (s VD D ops)) = fst ` set (cached (s VD D ops))"
proof -
  have "config (s VD D ops) = c \<and> ing_inv (s VD D ops)"
    using ingress_history [OF assms(1), of VD D ops] ing_config_run [of s0 VD D ops] assms(1)
      empty_ingress_inv [of c]
    by (auto simp: s_def ingress_Create_iff empty_ingress_def)
  then show ?thesis
    by (auto simp: ing_inv_def over_limits_def grants_ok_def cache_ok_def StreamCount_def
        CachedResultCount_def CachedResultBytes_def)
qed

theorem ingress_retention_bounded_witness:
  "CachedResultCount demo_state \<le> 1 \<and> CachedResultBytes demo_state \<le> 8 \<and> StreamCount demo_state \<le> 2"
  using ingress_retention_bounded [OF demo_created, of demo_check demo_domains demo_ops]
  by (simp add: demo_state_def demo_config_def)

text \<open>C6: \<open>GrantStream\<close> is all or nothing: either it leaves the ingress exactly as it was (it
  refused, or this very grant is already installed), or it installs the grant: every grant of
  the same actor, producer and producer epoch (and only those) is replaced by it, the stream
  starts again at sequence 1 with nothing in flight and nothing cached, and no other stream's
  state or cached reply is touched. A grant that revokes is never refused for capacity.\<close>

theorem GrantStream_all_or_nothing:
  assumes inv: "ing_inv s"
  shows "if installs g s
    then grants (snd (GrantStream g s)) =
           filter (\<lambda>h. key_of_grant h \<noteq> key_of_grant g) (grants s) @ [g] \<and>
         stream_view (snd (GrantStream g s)) = (stream_view s)(key_of_grant g \<mapsto> (1, [])) \<and>
         (\<forall>k q. map_of (cached (snd (GrantStream g s))) (k, q) =
           (if k = key_of_grant g then None else map_of (cached s) (k, q)))
    else snd (GrantStream g s) = s"
  using GrantStream_installing [OF inv] GrantStream_not_installing [OF inv] by auto

theorem GrantStream_all_or_nothing_witness:
  "stream_view (snd (GrantStream (demo_grant ''r2'') demo_state)) demo_key = Some (1, [])"
proof -
  have "installs (demo_grant ''r2'') demo_state" unfolding demo_state_def by code_simp
  with GrantStream_all_or_nothing [OF demo_state_inv, of "demo_grant ''r2''"] show ?thesis
    by (simp add: key_of_grant_def demo_grant_def demo_key_def)
qed

definition stale_ops :: "ing_op list" where
  "stale_ops = [OpGrant (demo_grant ''r1''), OpAdmit (demo_request ''r1'' 1 ''old''),
     OpGrant (demo_grant ''r2''), OpAdmit (demo_request ''r2'' 1 ''new''),
     OpComplete (demo_admission 1) (demo_reply ''old'')]"

text \<open>A late completion crosses sessions: an admission carries no receiver epoch, so when a
  stream is installed again while a request of the previous session still executes, the late
  completion of that request is accepted for the request of the new session that has the same
  sequence. Its reply is then replayed to the new producer, and the real completion is refused.\<close>

lemma stale_completion_replayed:
  "(let s = run_ops (ing_step demo_check demo_domains) (empty_ingress demo_config) stale_ops
    in fst (Admit demo_check (demo_request ''r2'' 1 ''new'') s) =
         Inr (admission_for Replay (demo_request ''r2'' 1 ''new'') (Some (demo_reply ''old''))) \<and>
       map_option (is_ok \<circ> fst) (Complete demo_check demo_domains (demo_admission 1) (demo_reply ''new'') s)
         = Some False)"
  by code_simp

subsection \<open>The sending side\<close>

text \<open>C7: Issue and first-send order: over any history of \<open>prepare\<close> and \<open>BindForSend\<close> calls on
  a session opened by \<open>Open\<close>, the sequences handed out are 1, 2, 3, ... without gap or repetition
  (up to the end of the 64-bit space, where \<open>prepare\<close> refuses), and the sequences that leave in a
  first send are 1, 2, 3, ... up to the watermark, in this order, each once.\<close>

theorem session_issues_and_sends_in_order:
  "map unat (run_out (sess_step VD self) (issued_out self) (new_session g i 1) ops) =
     [1 ..< issued_upto (run_ops (sess_step VD self) (new_session g i 1) ops)] \<and>
   map unat (run_out (sess_step VD self) (first_send_out VD self) (new_session g i 1) ops) =
     [1 ..< Suc (unat (s_bind_watermark (run_ops (sess_step VD self) (new_session g i 1) ops)))]"
  using issued_history first_send_history by blast

text \<open>A bind decides as the contract of a ticket demands: it succeeds exactly for a ticket
  of this session that is already bound to the same content (a resend) or that is unsent and
  next in order; a first send binds exactly this ticket to exactly this content and moves the
  watermark to it; every refusal and every resend leaves the session unchanged.\<close>

lemma BindForSend_contract:
  "(is_ok (fst (BindForSend VD self stamp c s)) \<longleftrightarrow>
     (\<exists>r t. stamp = Some r \<and> own_ticket self r s = Some t \<and>
        (t_bound t = Some c \<or> t_bound t = None \<and> t_sequence t = s_bind_watermark s + 1))) \<and>
   snd (BindForSend VD self stamp c s) =
     (case stamp of None \<Rightarrow> s | Some r \<Rightarrow>
       (case own_ticket self r s of None \<Rightarrow> s | Some t \<Rightarrow>
         if t_bound t = None \<and> t_sequence t = s_bind_watermark s + 1
         then s\<lparr>s_tickets := AList.update (tr_request_id r) (t\<lparr>t_bound := Some c\<rparr>) (s_tickets s),
                s_bind_watermark := s_bind_watermark s + 1\<rparr>
         else s))"
proof -
  have "is_ok x \<longleftrightarrow> x = Inr ()" for x :: "unit result" by (cases x) auto
  then show ?thesis
    by (simp only: BindForSend_ok_iff)
       (auto simp: BindForSend_def IsSent_def BindOrCheck_def split: option.splits)
qed

text \<open>Progress of the sender: as long as the session has issued a ticket beyond the
  watermark, the smallest such ticket is accepted for its first send, whatever its content.\<close>

lemma session_next_ticket_accepted:
  fixes VD self g i ops
  defines "s \<equiv> run_ops (sess_step VD self) (new_session g i 1) ops"
  assumes lt: "Suc (unat (s_bind_watermark s)) < issued_upto s"
  shows "is_ok (fst (BindForSend VD self
    (Some \<lparr>tr_session = self, tr_request_id = request_id_of s (s_bind_watermark s + 1),
           tr_sequence = s_bind_watermark s + 1\<rparr>) c s))"
proof -
  have inv: "sess_inv 1 s" unfolding s_def by (rule sess.inv_run)
  note lt
  also have "issued_upto s \<le> 2 ^ 64"
    using unsigned_less [of "s_next_sequence s", where ?'a = nat]
    by (simp add: issued_upto_def less_imp_le)
  finally have wm: "s_bind_watermark s \<noteq> - 1" by (auto simp: u64_max_unat)
  have "issued 1 s (s_bind_watermark s + 1)"
    using lt wm by (auto simp: issued_def issued_upto_def word_le_nat_alt word_less_nat_alt
        u64_unat_Suc split: if_splits)
  from next_ticket_bindable [OF inv this wm] show ?thesis by simp
qed

definition demo_sends :: "sess_op list" where
  "demo_sends = [Prepare, Prepare]"

lemma session_next_ticket_accepted_witness:
  "is_ok (fst (BindForSend demo_check 0
    (Some \<lparr>tr_session = 0,
       tr_request_id = request_id_of (run_ops (sess_step demo_check 0) (new_session (demo_grant ''r1'') 1 1) demo_sends) 1,
       tr_sequence = 1\<rparr>)
    \<lparr>bc_service = ''Svc'', bc_method = ''m'', bc_actor_key = ''k'', bc_custom = '''', bc_request_bytes = ''b''\<rparr>
    (run_ops (sess_step demo_check 0) (new_session (demo_grant ''r1'') 1 1) demo_sends)))"
proof -
  let ?s = "run_ops (sess_step demo_check 0) (new_session (demo_grant ''r1'') 1 1) demo_sends"
  have "issued_upto ?s = 3 \<and> s_bind_watermark ?s = 0" by code_simp
  then show ?thesis
    using session_next_ticket_accepted [of demo_check 0 "demo_grant ''r1''" 1 demo_sends] by simp
qed

text \<open>C8: Request ids are unique in the process: after any history of opening, using and
  destroying sessions (fewer than 2^64 of them), at most one live session exists per stream,
  and a request id belongs to at most one ticket of one live session.\<close>

theorem live_sessions_unique:
  fixes ops VD
  defines "w \<equiv> run_ops (table_step VD) no_sessions ops"
  assumes few: "next_addr w < 2 ^ 64"
    and s: "map_of (live w) a = Some s" and s': "map_of (live w) b = Some s'"
  shows "(SameOrderedStreamId (s_grant s) (s_grant s') \<longrightarrow> a = b) \<and>
    (\<forall>rid t t'. map_of (s_tickets s) rid = Some t \<and> map_of (s_tickets s') rid = Some t' \<longrightarrow>
       a = b \<and> t_sequence t = t_sequence t')"
proof -
  have inv: "table_inv w" unfolding w_def by (rule sessions.inv_run)
  note A = table_inv_live [OF inv s] and B = table_inv_live [OF inv s']
  have "a = b" if "SameOrderedStreamId (s_grant s) (s_grant s')"
    using table_inv_unique [OF inv A(2) B(2) A(5) B(5) that] by simp
  moreover have "a = b \<and> t_sequence t = t_sequence t'"
    if t: "map_of (s_tickets s) rid = Some t" and t': "map_of (s_tickets s') rid = Some t'" for rid t t'
  proof -
    obtain f f' where "sess_inv f s" "sess_inv f' s'" using A(4) B(4) by blast
    then have "rid = request_id_of s (t_sequence t)" "rid = request_id_of s' (t_sequence t')"
      using sess_invD(1) t t' by blast+
    then have e: "s_instance_id s = s_instance_id s'" "t_sequence t = t_sequence t'"
      unfolding request_id_of_def using MakeRequestId_inj by metis+
    then have "(of_nat (Suc a) :: u64) = of_nat (Suc b)" using A(3) B(3) by simp
    moreover have "Suc a < 2 ^ 64" "Suc b < 2 ^ 64" using A(1) B(1) few by simp_all
    ultimately have "a = b"
      by (simp only: word_of_nat_eq_iff) (simp add: take_bit_nat_eq_self)
    with e show ?thesis by simp
  qed
  ultimately show ?thesis by blast
qed

definition demo_table :: SessionTable where
  "demo_table = run_ops (table_step demo_check) no_sessions
     [OpOpen (demo_grant ''r1''), OpOpen (demo_grant ''r2''), OpSession 0 Prepare, OpSession 1 Prepare]"

definition demo_session :: "nat \<Rightarrow> OrderedSession" where
  "demo_session a = (case map_of (live demo_table) a of None \<Rightarrow> new_session (demo_grant '''') 0 1 | Some s \<Rightarrow> s)"

theorem live_sessions_unique_witness:
  "\<not> SameOrderedStreamId (s_grant (demo_session 0)) (s_grant (demo_session 1))"
proof -
  have "next_addr demo_table = 2" by code_simp
  then have few: "next_addr demo_table < 2 ^ 64" by simp
  have "alive demo_table 0" "alive demo_table 1" by code_simp+
  then have l: "map_of (live demo_table) 0 = Some (demo_session 0)"
    "map_of (live demo_table) 1 = Some (demo_session 1)"
    by (auto simp: alive_def demo_session_def)
  from live_sessions_unique [OF few [unfolded demo_table_def] l [unfolded demo_table_def]]
  show ?thesis by simp
qed

text \<open>A session \<open>OpenForTest\<close> opens with a first sequence above 1 can never send: the bind
  watermark starts at 0 all the same, so whatever is prepared and bound, no first send of the
  session is ever accepted.\<close>

lemma open_for_test_never_sends:
  assumes "1 < first"
  shows "fst (BindForSend VD self stamp c
    (run_ops (sess_step VD self) (new_session g i first) ops)) \<noteq> Inr ()"
proof -
  have "first \<noteq> 0" using assms by auto
  then show ?thesis
    using assms by (intro stuck_no_send [OF stuck_history]) (auto intro: stuck_new)
qed

lemma open_for_test_never_sends_witness:
  "fst (BindForSend demo_check 0 (Some \<lparr>tr_session = 0, tr_request_id = ''x'', tr_sequence = 5\<rparr>)
     \<lparr>bc_service = ''Svc'', bc_method = ''m'', bc_actor_key = ''k'', bc_custom = '''', bc_request_bytes = ''b''\<rparr>
     (run_ops (sess_step demo_check 0) (new_session (demo_grant ''r1'') 1 5) [Prepare])) \<noteq> Inr ()"
  by (rule open_for_test_never_sends) simp

end
