(* ===== verification/ServiceConfig.thy ===== *)
theory ServiceConfig
  imports Prelude
begin

text \<open>
  Assembly-time configuration: \<open>ExecutionPolicy.hpp\<close> / \<open>ExecutionPolicy.cc\<close>
  (the service options and their validation), the method table of
  \<open>internal/MethodTable.hpp\<close> and \<open>MethodTable.cc\<close>. A handler closure is a function of
  the payload and of the business state \<open>'w\<close>, which it may change; byte vectors are
  \<open>string\<close> (a HOL \<open>char\<close> is exactly eight bits).
\<close>

subsection \<open>Service options\<close>

datatype ExecutionPolicy = Concurrent | ActorSerial

record ServiceOptions =
  execution :: ExecutionPolicy
  max_inflight :: nat
  mailbox_capacity :: nat
  max_actors :: nat
  ordered_ingress :: bool
  max_ordered_streams :: nat
  max_cached_results :: nat
  max_cached_result_bytes :: nat

definition FailField :: "string \<Rightarrow> string \<Rightarrow> unit result" where
  "FailField field why = fail InvalidArgument (''ServiceOptions.'' @ field @ '': '' @ why)"

definition validate_execution :: "ServiceOptions \<Rightarrow> unit result" where
  "validate_execution opt =
     (case execution opt of
        ActorSerial \<Rightarrow>
          if mailbox_capacity opt = 0
            then FailField ''mailbox_capacity'' ''ActorSerial requires mailbox_capacity > 0''
          else if max_actors opt = 0
            then FailField ''max_actors'' ''ActorSerial requires max_actors > 0''
          else Inr ()
      | Concurrent \<Rightarrow>
          if mailbox_capacity opt \<noteq> 0
            then FailField ''mailbox_capacity'' ''Concurrent requires mailbox_capacity == 0''
          else if max_actors opt \<noteq> 0
            then FailField ''max_actors'' ''Concurrent requires max_actors == 0''
          else if ordered_ingress opt
            then FailField ''ordered_ingress'' ''ordered_ingress is only allowed for ActorSerial''
          else Inr ())"

definition validate_ordered :: "ServiceOptions \<Rightarrow> unit result" where
  "validate_ordered opt =
     (if ordered_ingress opt then
        if max_ordered_streams opt = 0
          then FailField ''max_ordered_streams'' ''ordered_ingress requires > 0''
        else if max_cached_results opt = 0
          then FailField ''max_cached_results'' ''ordered_ingress requires > 0''
        else if max_cached_result_bytes opt = 0
          then FailField ''max_cached_result_bytes'' ''ordered_ingress requires > 0''
        else Inr ()
      else
        if max_ordered_streams opt \<noteq> 0
          then FailField ''max_ordered_streams'' ''must be 0 when ordered_ingress is disabled''
        else if max_cached_results opt \<noteq> 0
          then FailField ''max_cached_results'' ''must be 0 when ordered_ingress is disabled''
        else if max_cached_result_bytes opt \<noteq> 0
          then FailField ''max_cached_result_bytes'' ''must be 0 when ordered_ingress is disabled''
        else Inr ())"

definition ValidateServiceOptions :: "ServiceOptions \<Rightarrow> unit result" where
  "ValidateServiceOptions opt =
     (if max_inflight opt = 0 then FailField ''max_inflight'' ''must be > 0''
      else case validate_execution opt of
          Inl e \<Rightarrow> Inl e
        | Inr _ \<Rightarrow> validate_ordered opt)"

lemmas service_options_defs =
  ValidateServiceOptions_def validate_execution_def validate_ordered_def FailField_def

text \<open>The documented assembly rules, as one predicate.\<close>

definition service_options_wf :: "ServiceOptions \<Rightarrow> bool" where
  "service_options_wf opt \<longleftrightarrow>
     0 < max_inflight opt \<and>
     (execution opt = ActorSerial \<longleftrightarrow> 0 < mailbox_capacity opt) \<and>
     (execution opt = ActorSerial \<longleftrightarrow> 0 < max_actors opt) \<and>
     (ordered_ingress opt \<longrightarrow> execution opt = ActorSerial) \<and>
     (ordered_ingress opt \<longleftrightarrow> 0 < max_ordered_streams opt) \<and>
     (ordered_ingress opt \<longleftrightarrow> 0 < max_cached_results opt) \<and>
     (ordered_ingress opt \<longleftrightarrow> 0 < max_cached_result_bytes opt)"

lemma ValidateServiceOptions_ok_iff:
  "ValidateServiceOptions opt = Inr () \<longleftrightarrow> service_options_wf opt"
  by (cases "execution opt")
     (simp_all add: service_options_defs service_options_wf_def)

lemma ValidateServiceOptions_err_code:
  "ValidateServiceOptions opt = Inl e \<Longrightarrow> err_code e = InvalidArgument"
  by (auto simp: service_options_defs split: if_splits ExecutionPolicy.splits sum.splits)

subsection \<open>Method tables\<close>

record 'w RpcMethod =
  m_name :: string
  request_schema :: string
  response_schema :: string
  actor_keyed :: bool
  invoke :: "'w \<Rightarrow> string \<Rightarrow> string result \<times> 'w"
  extract_key :: "string \<Rightarrow> string result"

type_synonym 'w RpcMethodTable = "'w RpcMethod list"

fun table_find :: "'w RpcMethodTable \<Rightarrow> string \<Rightarrow> 'w RpcMethod option" where
  "table_find [] n = None"
| "table_find (m # ms) n = (if m_name m = n then Some m else table_find ms n)"

text \<open>\<open>Add\<close> throws \<open>std::invalid_argument\<close>: the exception is the left of the sum.\<close>

datatype invalid_argument = EmptyMethodName | DuplicateMethod string

definition table_Add :: "'w RpcMethodTable \<Rightarrow> 'w RpcMethod \<Rightarrow> invalid_argument + 'w RpcMethodTable" where
  "table_Add t m =
     (if m_name m = '''' then Inl EmptyMethodName
      else if table_find t (m_name m) \<noteq> None then Inl (DuplicateMethod (m_name m))
      else Inr (t @ [m]))"

text \<open>\<open>BuildMethodTable\<close>: the declared entries are added in order; the first throw escapes.\<close>

fun build_from :: "'w RpcMethodTable \<Rightarrow> 'w RpcMethod list \<Rightarrow> invalid_argument + 'w RpcMethodTable" where
  "build_from t [] = Inr t"
| "build_from t (m # ms) =
     (case table_Add t m of Inl e \<Rightarrow> Inl e | Inr t' \<Rightarrow> build_from t' ms)"

definition BuildMethodTable :: "'w RpcMethod list \<Rightarrow> invalid_argument + 'w RpcMethodTable" where
  "BuildMethodTable ms = build_from [] ms"

fun check_keying :: "'w RpcMethodTable \<Rightarrow> unit result" where
  "check_keying [] = Inr ()"
| "check_keying (m # ms) =
     (if \<not> actor_keyed m
      then fail InvalidArgument
             (''ActorSerial method '' @ quoted (m_name m)
              @ '' has no key extractor; declare via fw::ActorMethod'')
      else check_keying ms)"

definition ValidateActorKeying :: "'w RpcMethodTable \<Rightarrow> ExecutionPolicy \<Rightarrow> unit result" where
  "ValidateActorKeying t p = (if p \<noteq> ActorSerial then Inr () else check_keying t)"

text \<open>\<open>ActorKeyToString\<close> on the string and on the unsigned integer instances.\<close>

definition actor_key_of_string :: "string \<Rightarrow> string result" where
  "actor_key_of_string s =
     (if s = '''' then fail InvalidArgument ''actor key field is empty'' else Inr s)"

definition actor_key_of_unsigned :: "nat \<Rightarrow> string result" where
  "actor_key_of_unsigned n = actor_key_of_string (to_string n)"

definition table_wf :: "'w RpcMethodTable \<Rightarrow> bool" where
  "table_wf t \<longleftrightarrow> distinct (map m_name t) \<and> '''' \<notin> m_name ` set t"

lemma table_find_None_iff: "table_find t n = None \<longleftrightarrow> n \<notin> m_name ` set t"
  by (induction t) auto

lemma table_find_append:
  "table_find (s @ t) n = (case table_find s n of None \<Rightarrow> table_find t n | Some m \<Rightarrow> Some m)"
  by (induction s) auto

lemma table_find_Some_name: "table_find t n = Some m \<Longrightarrow> m_name m = n \<and> m \<in> set t"
  by (induction t) (auto split: if_splits)

lemma table_Add_wf: "table_wf t \<Longrightarrow> table_Add t m = Inr t' \<Longrightarrow> table_wf t'"
  by (auto simp: table_Add_def table_wf_def table_find_None_iff split: if_splits)

lemma build_from_ok_iff:
  "table_wf t \<Longrightarrow> build_from t ms = Inr t' \<longleftrightarrow> t' = t @ ms \<and> table_wf (t @ ms)"
proof (induction ms arbitrary: t)
  case Nil
  then show ?case by auto
next
  case (Cons m ms)
  show ?case
  proof (cases "table_Add t m")
    case (Inl e)
    then have "\<not> table_wf (t @ m # ms)"
      by (auto simp: table_Add_def table_wf_def table_find_None_iff split: if_splits)
    with Inl show ?thesis by simp
  next
    case (Inr u)
    then have "u = t @ [m]" by (auto simp: table_Add_def split: if_splits)
    with Inr table_Add_wf [OF Cons.prems Inr] Cons.IH [of u] show ?thesis by simp
  qed
qed

lemma BuildMethodTable_ok_iff:
  "BuildMethodTable ms = Inr t \<longleftrightarrow> t = ms \<and> table_wf ms"
  unfolding BuildMethodTable_def
  using build_from_ok_iff [of "[]" ms t] by (simp add: table_wf_def)

lemma table_find_wf: "table_wf t \<Longrightarrow> m \<in> set t \<Longrightarrow> table_find t (m_name m) = Some m"
  by (induction t) (auto simp: table_wf_def)

lemma check_keying_ok_iff: "check_keying t = Inr () \<longleftrightarrow> (\<forall>m \<in> set t. actor_keyed m)"
  by (induction t) auto

subsection \<open>Properties\<close>

text \<open>Assembly accepts exactly what is documented: \<open>ValidateServiceOptions\<close> succeeds exactly
  for options that follow the documented rules (and otherwise reports \<open>InvalidArgument\<close>);
  \<open>BuildMethodTable\<close> succeeds exactly when all method names are non-empty and distinct, keeps
  the declared order, and every declared method is then found under its name and nothing else
  is; \<open>ValidateActorKeying\<close> succeeds exactly when an \<open>ActorSerial\<close> service has a key extractor
  on every method.\<close>

lemma service_assembly_exact:
  "(if service_options_wf opt then ValidateServiceOptions opt = Inr ()
    else code_of (ValidateServiceOptions opt) = Some InvalidArgument) \<and>
   (case BuildMethodTable ms of
      Inl x \<Rightarrow> \<not> table_wf ms
    | Inr t \<Rightarrow> t = ms \<and> table_wf ms \<and>
        (\<forall>n. table_find t n = (if n \<in> m_name ` set ms
           then Some (the_elem {m \<in> set ms. m_name m = n}) else None))) \<and>
   (ValidateActorKeying ms p = Inr () \<longleftrightarrow> (p = ActorSerial \<longrightarrow> (\<forall>m \<in> set ms. actor_keyed m)))"
proof (intro conjI)
  show "if service_options_wf opt then ValidateServiceOptions opt = Inr ()
    else code_of (ValidateServiceOptions opt) = Some InvalidArgument"
    using ValidateServiceOptions_ok_iff [of opt] ValidateServiceOptions_err_code [of opt]
    by (cases "ValidateServiceOptions opt") auto
  have found: "table_find ms n = Some (the_elem {m \<in> set ms. m_name m = n})"
    if wf: "table_wf ms" and n: "n \<in> m_name ` set ms" for n
  proof -
    from n obtain m where m: "m \<in> set ms" "m_name m = n" by auto
    have "m' = m" if "m' \<in> set ms" "m_name m' = n" for m'
      using table_find_wf [OF wf that(1)] table_find_wf [OF wf m(1)] that(2) m(2) by simp
    with m have "{m \<in> set ms. m_name m = n} = {m}" by blast
    with table_find_wf [OF wf m(1)] m(2) show ?thesis by simp
  qed
  show "case BuildMethodTable ms of Inl x \<Rightarrow> \<not> table_wf ms
    | Inr t \<Rightarrow> t = ms \<and> table_wf ms \<and>
        (\<forall>n. table_find t n = (if n \<in> m_name ` set ms
           then Some (the_elem {m \<in> set ms. m_name m = n}) else None))"
  proof (cases "BuildMethodTable ms")
    case (Inl x)
    then show ?thesis using BuildMethodTable_ok_iff [of ms ms] by simp
  next
    case (Inr t)
    then show ?thesis using BuildMethodTable_ok_iff [of ms t] found by (simp add: table_find_None_iff)
  qed
  show "ValidateActorKeying ms p = Inr () \<longleftrightarrow> (p = ActorSerial \<longrightarrow> (\<forall>m \<in> set ms. actor_keyed m))"
    by (auto simp: ValidateActorKeying_def check_keying_ok_iff)
qed

definition demo_options :: ServiceOptions where
  "demo_options = \<lparr>execution = ActorSerial, max_inflight = 4, mailbox_capacity = 2, max_actors = 3,
     ordered_ingress = True, max_ordered_streams = 2, max_cached_results = 1,
     max_cached_result_bytes = 8\<rparr>"

lemma service_assembly_exact_witness:
  "ValidateServiceOptions demo_options = Inr () \<and>
   ValidateActorKeying ([] :: nat RpcMethodTable) ActorSerial = Inr ()"
proof -
  have "service_options_wf demo_options" by (simp add: service_options_wf_def demo_options_def)
  with service_assembly_exact [of demo_options "[] :: nat RpcMethodTable" ActorSerial]
  show ?thesis by simp
qed

end
