(* ===== verification/Mailbox.thy ===== *)
theory Mailbox
  imports Prelude
begin

text \<open>
  The actor mailbox: \<open>internal/ActorMailbox.hpp\<close> and \<open>src/actor/ActorMailbox.cc\<close>. A
  mailbox is a record of its fields. Tasks are numbered; an empty \<open>std::function\<close> is
  \<open>None\<close>. \<open>TryEnqueue\<close> and \<open>Close\<close> hold \<open>m_mtx\<close> for their whole body and are one step; the
  loop of \<open>_Drain\<close> releases the lock between taking a task and running it, so each drain
  coroutine is a program counter of its own and its steps interleave with everything else.
  Nothing in the model limits the number of drain coroutines: that there is at most one is
  a theorem.
\<close>

subsection \<open>The mailbox and its operations\<close>

record ActorMailbox =
  m_queue :: "nat list"
  m_draining :: bool
  m_closed :: bool
  m_capacity :: nat

definition mailbox_Create :: "nat \<Rightarrow> ActorMailbox" where
  "mailbox_Create n = \<lparr>m_queue = [], m_draining = False, m_closed = False, m_capacity = n\<rparr>"

text \<open>
  \<open>TryEnqueue\<close>; \<open>ok\<close> is what the scheduler reports when a drain coroutine is registered. The
  result says whether a coroutine was registered.
\<close>

definition TryEnqueue :: "nat option \<Rightarrow> bool \<Rightarrow> ActorMailbox \<Rightarrow> unit result \<times> bool \<times> ActorMailbox" where
  "TryEnqueue task ok m =
     (case task of
        None \<Rightarrow> (fail InvalidArgument ''ActorMailbox::TryEnqueue: empty task'', False, m)
      | Some t \<Rightarrow>
          if m_closed m then (fail Closed ''ActorMailbox is closed'', False, m)
          else if m_capacity m \<le> length (m_queue m) then
            (fail Overloaded ''ActorMailbox waiting queue full (mailbox_capacity)'', False, m)
          else
            let m1 = m\<lparr>m_queue := m_queue m @ [t]\<rparr>
            in if m_draining m1 then (Inr (), False, m1)
               else if \<not> ok then
                 (fail RuntimeUnavailable ''ActorMailbox: coroutine scheduler unavailable'', False,
                  m1\<lparr>m_queue := butlast (m_queue m1)\<rparr>)
               else (Inr (), True, m1\<lparr>m_draining := True\<rparr>))"

definition mailbox_Close :: "ActorMailbox \<Rightarrow> ActorMailbox" where
  "mailbox_Close m = m\<lparr>m_closed := True\<rparr>"

definition Pending :: "ActorMailbox \<Rightarrow> nat" where
  "Pending m = length (m_queue m)"

definition Capacity :: "ActorMailbox \<Rightarrow> nat" where
  "Capacity m = m_capacity m"

definition IsClosed :: "ActorMailbox \<Rightarrow> bool" where
  "IsClosed m = m_closed m"

definition IsDraining :: "ActorMailbox \<Rightarrow> bool" where
  "IsDraining m = m_draining m"

text \<open>
  The locked part of one round of \<open>_Drain\<close>: take the front task, or give the right to
  execute back and return.
\<close>

definition drain_take :: "ActorMailbox \<Rightarrow> nat option \<times> ActorMailbox" where
  "drain_take m =
     (case m_queue m of
        [] \<Rightarrow> (None, m\<lparr>m_draining := False\<rparr>)
      | t # ts \<Rightarrow> (Some t, m\<lparr>m_queue := ts\<rparr>))"

subsection \<open>Interleaved steps\<close>

datatype drain_pc = AtLoop | InTask nat

text \<open>
  The mailbox, its drain coroutines, and what an observer has seen: the accepted tasks, the
  started ones and the finished ones, each in order.
\<close>

record mailbox_world =
  box :: ActorMailbox
  drains :: "drain_pc list"
  accepted :: "nat list"
  started :: "nat list"
  finished :: "nat list"

datatype mailbox_label =
    LEnqueue "nat option" bool
  | LClose
  | LTake nat
  | LFinish nat bool

inductive mailbox_step :: "mailbox_world \<Rightarrow> mailbox_label \<Rightarrow> mailbox_world \<Rightarrow> bool" where
  enqueue:
    "TryEnqueue task ok (box w) = (r, reg, m) \<Longrightarrow>
     mailbox_step w (LEnqueue task ok)
       (w\<lparr>box := m, drains := drains w @ (if reg then [AtLoop] else []),
          accepted := accepted w @ (case (task, r) of (Some t, Inr _) \<Rightarrow> [t] | _ \<Rightarrow> [])\<rparr>)"
| close:
    "mailbox_step w LClose (w\<lparr>box := mailbox_Close (box w)\<rparr>)"
| take_task:
    "i < length (drains w) \<Longrightarrow> drains w ! i = AtLoop \<Longrightarrow> drain_take (box w) = (Some t, m) \<Longrightarrow>
     mailbox_step w (LTake i)
       (w\<lparr>box := m, drains := (drains w)[i := InTask t], started := started w @ [t]\<rparr>)"
| take_none:
    "i < length (drains w) \<Longrightarrow> drains w ! i = AtLoop \<Longrightarrow> drain_take (box w) = (None, m) \<Longrightarrow>
     mailbox_step w (LTake i)
       (w\<lparr>box := m, drains := take i (drains w) @ drop (Suc i) (drains w)\<rparr>)"
| finish:
    "i < length (drains w) \<Longrightarrow> drains w ! i = InTask t \<Longrightarrow>
     mailbox_step w (LFinish i threw)
       (w\<lparr>drains := (drains w)[i := AtLoop], finished := finished w @ [t]\<rparr>)"

definition fresh_mailbox :: "nat \<Rightarrow> mailbox_world" where
  "fresh_mailbox n = \<lparr>box = mailbox_Create n, drains = [], accepted = [], started = [], finished = []\<rparr>"

definition mailbox_start :: "nat \<Rightarrow> mailbox_world \<Rightarrow> bool" where
  "mailbox_start n w \<longleftrightarrow> w = fresh_mailbox n"

subsection \<open>The invariant\<close>

fun in_task :: "drain_pc \<Rightarrow> nat list" where
  "in_task AtLoop = []"
| "in_task (InTask t) = [t]"

definition mailbox_inv :: "nat \<Rightarrow> mailbox_world \<Rightarrow> bool" where
  "mailbox_inv n w \<longleftrightarrow>
     m_capacity (box w) = n \<and> length (m_queue (box w)) \<le> n \<and>
     length (drains w) = (if m_draining (box w) then 1 else 0) \<and>
     (m_draining (box w) \<or> m_queue (box w) = []) \<and>
     accepted w = started w @ m_queue (box w) \<and>
     started w = finished w @ concat (map in_task (drains w))"

lemma TryEnqueue_cases:
  assumes "TryEnqueue task ok m = (r, reg, m')"
  obtains (refused) e where "r = Inl e" "\<not> reg" "m' = m"
  | (queued) t where "task = Some t" "r = Inr ()" "\<not> m_closed m" "length (m_queue m) < m_capacity m"
      "reg = (\<not> m_draining m)" "m' = m\<lparr>m_queue := m_queue m @ [t], m_draining := True\<rparr>"
  using assms
  by (auto simp: TryEnqueue_def Let_def fail_def split: option.splits if_splits)

lemma single_drain:
  "length ds = (if b then 1 else 0) \<Longrightarrow> i < length ds \<Longrightarrow> b \<and> ds = [ds ! i] \<and> i = 0"
  by (cases ds) (auto split: if_splits)

lemma mailbox_step_inv:
  assumes inv: "mailbox_inv n w" and st: "mailbox_step w l w'"
  shows "mailbox_inv n w'"
  using st
proof (cases rule: mailbox_step.cases)
  case (enqueue task ok r reg m)
  from enqueue(3) show ?thesis
  proof (cases rule: TryEnqueue_cases)
    case (refused e)
    then show ?thesis using enqueue inv by (auto simp: mailbox_inv_def split: option.splits)
  next
    case (queued t)
    then show ?thesis using enqueue inv by (auto simp: mailbox_inv_def)
  qed
next
  case (take_task i t m)
  then have "drains w = [AtLoop]" "m_draining (box w)" "i = 0"
    using single_drain [of "drains w" "m_draining (box w)" i] inv by (auto simp: mailbox_inv_def)
  with take_task inv show ?thesis
    by (auto simp: mailbox_inv_def drain_take_def split: list.splits)
next
  case (take_none i m)
  then have "drains w = [AtLoop]" "m_draining (box w)" "i = 0"
    using single_drain [of "drains w" "m_draining (box w)" i] inv by (auto simp: mailbox_inv_def)
  with take_none inv show ?thesis
    by (auto simp: mailbox_inv_def drain_take_def split: list.splits)
next
  case (finish i t threw)
  then have "drains w = [InTask t]" "m_draining (box w)" "i = 0"
    using single_drain [of "drains w" "m_draining (box w)" i] inv by (auto simp: mailbox_inv_def)
  with finish inv show ?thesis by (auto simp: mailbox_inv_def)
qed (use inv in \<open>auto simp: mailbox_inv_def mailbox_Close_def\<close>)

text \<open>The drain's duty: what is queued or running is brought to its end.\<close>

fun drain_label :: "mailbox_label \<Rightarrow> bool" where
  "drain_label (LTake i) = True"
| "drain_label (LFinish i threw) = True"
| "drain_label _ = False"

definition drain_work :: "mailbox_world \<Rightarrow> nat" where
  "drain_work w = 3 * length (m_queue (box w)) + 2 * length (concat (map in_task (drains w)))
     + length (drains w)"

lemma drain_enabled:
  assumes inv: "mailbox_inv n w" and work: "drain_work w \<noteq> 0"
  shows "\<exists>l w'. drain_label l \<and> mailbox_step w l w'"
proof -
  have "drains w \<noteq> []"
    using inv work by (auto simp: mailbox_inv_def drain_work_def split: if_splits)
  then have i: "0 < length (drains w)" by simp
  show ?thesis
  proof (cases "drains w ! 0")
    case (InTask t)
    show ?thesis using mailbox_step.finish [OF i InTask] drain_label.simps(2) by blast
  next
    case AtLoop
    obtain x m where x: "drain_take (box w) = (x, m)" by (cases "drain_take (box w)")
    show ?thesis
    proof (cases x)
      case None
      show ?thesis using mailbox_step.take_none [OF i AtLoop] x None drain_label.simps(1) by blast
    next
      case (Some t)
      show ?thesis using mailbox_step.take_task [OF i AtLoop] x Some drain_label.simps(1) by blast
    qed
  qed
qed

lemma drain_decreases:
  assumes inv: "mailbox_inv n w" and l: "drain_label l" and st: "mailbox_step w l w'"
  shows "drain_work w' < drain_work w"
  using st
proof (cases rule: mailbox_step.cases)
  case (take_task i t m)
  then have "drains w = [AtLoop]" "i = 0"
    using single_drain [of "drains w" "m_draining (box w)" i] inv by (auto simp: mailbox_inv_def)
  with take_task show ?thesis by (auto simp: drain_work_def drain_take_def split: list.splits)
next
  case (take_none i m)
  then have "drains w = [AtLoop]" "i = 0"
    using single_drain [of "drains w" "m_draining (box w)" i] inv by (auto simp: mailbox_inv_def)
  with take_none show ?thesis by (auto simp: drain_work_def drain_take_def split: list.splits)
next
  case (finish i t threw)
  then have "drains w = [InTask t]" "i = 0"
    using single_drain [of "drains w" "m_draining (box w)" i] inv by (auto simp: mailbox_inv_def)
  with finish show ?thesis by (auto simp: drain_work_def)
qed (use l in auto)

interpretation mailbox: dutiful "mailbox_start n" mailbox_step "mailbox_inv n" drain_label drain_work
  for n
proof unfold_locales
  show "mailbox_start n s \<Longrightarrow> mailbox_inv n s" for s
    by (simp add: mailbox_start_def fresh_mailbox_def mailbox_inv_def mailbox_Create_def)
qed (blast intro: mailbox_step_inv drain_decreases dest: drain_enabled)+

lemma drain_keeps_accepted:
  "steps_by mailbox_step drain_label w w' \<Longrightarrow> accepted w' = accepted w"
proof (induction rule: steps_by.induct)
  case (steps_trans w l w1 w2)
  from steps_trans.hyps(1,2) have "accepted w1 = accepted w"
    by (cases rule: mailbox_step.cases) auto
  with steps_trans.IH show ?case by simp
qed simp

lemma drain_work_0: "drain_work w = 0 \<longleftrightarrow> m_queue (box w) = [] \<and> drains w = []"
  by (auto simp: drain_work_def)

subsection \<open>Properties\<close>

text \<open>C14: A mailbox runs its tasks one at a time and first-in first-out: in every reachable
  state, however enqueues, closes and drain steps interleave, the started tasks are a prefix of
  the accepted ones in acceptance order and the rest waits in the queue; all started tasks but
  at most one are finished; at most one drain coroutine exists, exactly while \<open>m_draining\<close>
  holds; and the waiting tasks never exceed the capacity.\<close>

theorem mailbox_serial_fifo:
  assumes "reachable (mailbox_start n) mailbox_step w"
  shows "accepted w = started w @ m_queue (box w) \<and>
    started w = finished w @ concat (map in_task (drains w)) \<and>
    length (concat (map in_task (drains w))) \<le> 1 \<and>
    length (drains w) = (if IsDraining (box w) then 1 else 0) \<and>
    Pending (box w) \<le> n \<and> Capacity (box w) = n"
proof -
  have inv: "mailbox_inv n w" by (rule mailbox.reachable_inv [OF assms])
  have "length (in_task d) \<le> 1" for d by (cases d) auto
  then have "length (concat (map in_task (drains w))) \<le> 1"
    using inv by (cases "drains w") (auto simp: mailbox_inv_def split: if_splits)
  with inv show ?thesis
    by (simp add: mailbox_inv_def IsDraining_def Pending_def Capacity_def)
qed

definition demo_mailbox :: mailbox_world where
  "demo_mailbox = \<lparr>box = \<lparr>m_queue = [8], m_draining = True, m_closed = False, m_capacity = 2\<rparr>,
     drains = [InTask 7], accepted = [7, 8], started = [7], finished = []\<rparr>"

lemma demo_mailbox_reachable: "reachable (mailbox_start 2) mailbox_step demo_mailbox"
proof -
  let ?w0 = "fresh_mailbox 2"
  let ?w1 = "?w0\<lparr>box := \<lparr>m_queue = [7], m_draining = True, m_closed = False, m_capacity = 2\<rparr>,
      drains := [AtLoop], accepted := [7]\<rparr>"
  let ?w2 = "?w1\<lparr>box := \<lparr>m_queue = [], m_draining = True, m_closed = False, m_capacity = 2\<rparr>,
      drains := [InTask 7], started := [7]\<rparr>"
  have "reachable (mailbox_start 2) mailbox_step ?w0"
    by (rule reach_start) (simp add: mailbox_start_def)
  moreover have "mailbox_step ?w0 (LEnqueue (Some 7) True) ?w1"
    using mailbox_step.enqueue [of "Some 7" True ?w0 "Inr ()" True]
    by (simp add: fresh_mailbox_def mailbox_Create_def TryEnqueue_def)
  moreover have "mailbox_step ?w1 (LTake 0) ?w2"
    using mailbox_step.take_task [of 0 ?w1 7]
    by (simp add: fresh_mailbox_def drain_take_def)
  moreover have "mailbox_step ?w2 (LEnqueue (Some 8) True) demo_mailbox"
    using mailbox_step.enqueue [of "Some 8" True ?w2 "Inr ()" False]
    by (simp add: fresh_mailbox_def TryEnqueue_def demo_mailbox_def)
  ultimately show ?thesis by (meson reach_step)
qed

theorem mailbox_serial_fifo_witness:
  "accepted demo_mailbox = started demo_mailbox @ m_queue (box demo_mailbox)"
  using mailbox_serial_fifo [OF demo_mailbox_reachable] by blast

text \<open>C15: A mailbox drains: from every reachable state, as long as a task is queued or running
  or a drain coroutine exists, a drain step is enabled, and every drain step brings the drain
  closer to its end; so the drain alone (no further enqueue needed, the mailbox closed or not)
  reaches a state in which the queue is empty, every accepted task has finished in acceptance
  order, and the mailbox is idle again. \<open>Close\<close> loses nothing that was accepted.\<close>

theorem mailbox_drains:
  assumes "reachable (mailbox_start n) mailbox_step w"
  shows "(drain_work w \<noteq> 0 \<longrightarrow> (\<exists>l w'. drain_label l \<and> mailbox_step w l w')) \<and>
    (\<forall>l w'. drain_label l \<and> mailbox_step w l w' \<longrightarrow> drain_work w' < drain_work w) \<and>
    (\<exists>w'. steps_by mailbox_step drain_label w w' \<and> m_queue (box w') = [] \<and>
      finished w' = accepted w \<and> \<not> IsDraining (box w') \<and> drains w' = [])"
proof -
  have inv: "mailbox_inv n w" by (rule mailbox.reachable_inv [OF assms])
  obtain w' where w': "steps_by mailbox_step drain_label w w'" "drain_work w' = 0"
    using mailbox.duty_finishes [OF inv] by blast
  moreover have "mailbox_inv n w'" by (rule mailbox.steps_inv [OF w'(1) inv])
  ultimately have "m_queue (box w') = [] \<and> finished w' = accepted w \<and> \<not> IsDraining (box w') \<and>
      drains w' = []"
    using drain_keeps_accepted [OF w'(1)]
    by (auto simp: drain_work_0 mailbox_inv_def IsDraining_def split: if_splits)
  with w'(1) show ?thesis using drain_enabled [OF inv] drain_decreases [OF inv] by blast
qed

theorem mailbox_drains_witness:
  "\<exists>w'. steps_by mailbox_step drain_label demo_mailbox w' \<and> finished w' = [7, 8]"
  using mailbox_drains [OF demo_mailbox_reachable] by (auto simp: demo_mailbox_def)

text \<open>\<open>TryEnqueue\<close> decides by its guards in order (empty task, closed, full, scheduler
  unavailable), each with its own code and none with an effect: a failed registration takes the
  task back out and leaves the mailbox as it was. Otherwise exactly the task is appended, and a
  drain coroutine is registered exactly when none was active.\<close>

theorem TryEnqueue_exact:
  "TryEnqueue task ok m =
     (case task of
        None \<Rightarrow> (fst (TryEnqueue task ok m), False, m)
      | Some t \<Rightarrow>
          if m_closed m \<or> m_capacity m \<le> length (m_queue m) \<or> \<not> m_draining m \<and> \<not> ok
          then (fst (TryEnqueue task ok m), False, m)
          else (Inr (), \<not> m_draining m, m\<lparr>m_queue := m_queue m @ [t], m_draining := True\<rparr>)) \<and>
   code_of (fst (TryEnqueue task ok m)) =
     (if task = None then Some InvalidArgument
      else if m_closed m then Some error_code.Closed
      else if m_capacity m \<le> length (m_queue m) then Some Overloaded
      else if \<not> m_draining m \<and> \<not> ok then Some RuntimeUnavailable
      else None)"
  by (cases task) (auto simp: TryEnqueue_def Let_def)

end
