(* ===== verification/Actors.thy ===== *)
theory Actors
  imports Prelude
begin

text \<open>
  The registry of actor instances: \<open>internal/ActorRegistry.hpp\<close> and
  \<open>src/actor/ActorRegistry.cc\<close>. Every entry point holds \<open>m_mtx\<close> for its whole body and is
  one step. A factory is business code: what one call of it does is the parameter \<open>made\<close> of
  the step that calls it (it throws, returns null, or returns an instance, numbered here);
  \<open>_bind_actor_key\<close> is the record of which key each instance was bound to.
\<close>

subsection \<open>State and operations\<close>

record ServiceEntry =
  e_max_actors :: nat
  e_live_actors :: nat

type_synonym actor_id = "string \<times> string"

record ActorRegistry =
  m_services :: "(string \<times> ServiceEntry) list"
  m_actors :: "(actor_id \<times> nat) list"
  bound_keys :: "(nat \<times> string) list"

definition empty_registry :: ActorRegistry where
  "empty_registry = \<lparr>m_services = [], m_actors = [], bound_keys = []\<rparr>"

definition RegisterFactory :: "string \<Rightarrow> bool \<Rightarrow> nat \<Rightarrow> ActorRegistry \<Rightarrow> unit result \<times> ActorRegistry" where
  "RegisterFactory name has_factory mx r =
     (if name = '''' then (fail InvalidArgument ''ActorRegistry: empty service_name'', r)
      else if \<not> has_factory then (fail InvalidArgument ''ActorRegistry: empty factory'', r)
      else if mx = 0 then (fail InvalidArgument ''ActorRegistry: max_actors must be > 0'', r)
      else if map_of (m_services r) name \<noteq> None then
        (fail InvalidArgument (''ActorRegistry: duplicate service '' @ quoted name), r)
      else (Inr (), r\<lparr>m_services := emplace name \<lparr>e_max_actors = mx, e_live_actors = 0\<rparr> (m_services r)\<rparr>))"

datatype factory_outcome = Throws | Null | Made nat

definition GetOrCreate :: "string \<Rightarrow> string \<Rightarrow> factory_outcome \<Rightarrow> ActorRegistry
    \<Rightarrow> nat result \<times> ActorRegistry" where
  "GetOrCreate service key made r =
     (if key = '''' then (fail InvalidArgument ''ActorRegistry: empty actor_key'', r)
      else case map_of (m_actors r) (service, key) of
          Some i \<Rightarrow> (Inr i, r)
        | None \<Rightarrow>
            (case map_of (m_services r) service of
               None \<Rightarrow> (fail NotFound (''ActorRegistry: service '' @ quoted service @ '' not registered''), r)
             | Some e \<Rightarrow>
                 if e_max_actors e \<le> e_live_actors e then
                   (fail Overloaded (''ActorRegistry: service '' @ quoted service @ '' reached max_actors limit''), r)
                 else
                   (case made of
                      Throws \<Rightarrow> (fail InternalError (''ActorRegistry: factory threw while activating actor '' @ quoted key), r)
                    | Null \<Rightarrow> (fail InternalError (''ActorRegistry: factory returned null for actor '' @ quoted key), r)
                    | Made i \<Rightarrow>
                        (Inr i,
                         r\<lparr>m_actors := emplace (service, key) i (m_actors r),
                           bound_keys := AList.update i key (bound_keys r),
                           m_services := AList.update service
                             (e\<lparr>e_live_actors := e_live_actors e + 1\<rparr>) (m_services r)\<rparr>))))"

definition ActorCount :: "string \<Rightarrow> ActorRegistry \<Rightarrow> nat" where
  "ActorCount service r =
     (case map_of (m_services r) service of None \<Rightarrow> 0 | Some e \<Rightarrow> e_live_actors e)"

subsection \<open>The invariant\<close>

definition actors_of :: "string \<Rightarrow> ActorRegistry \<Rightarrow> (actor_id \<times> nat) list" where
  "actors_of service r = filter (\<lambda>p. fst (fst p) = service) (m_actors r)"

definition actors_inv :: "ActorRegistry \<Rightarrow> bool" where
  "actors_inv r \<longleftrightarrow>
     keys_distinct (m_services r) \<and> keys_distinct (m_actors r) \<and>
     (\<forall>service. length (actors_of service r) = ActorCount service r) \<and>
     (\<forall>service e. map_of (m_services r) service = Some e \<longrightarrow>
        0 < e_max_actors e \<and> e_live_actors e \<le> e_max_actors e) \<and>
     (\<forall>p \<in> set (m_actors r). map_of (m_services r) (fst (fst p)) \<noteq> None \<and> snd (fst p) \<noteq> '''')"

datatype actor_op = ORegister string bool nat | OGet string string factory_outcome

definition actor_step :: "ActorRegistry \<Rightarrow> actor_op \<Rightarrow> ActorRegistry" where
  "actor_step r x =
     (case x of
        ORegister name f mx \<Rightarrow> snd (RegisterFactory name f mx r)
      | OGet service key made \<Rightarrow> snd (GetOrCreate service key made r))"

lemma RegisterFactory_state:
  "snd (RegisterFactory name f mx r) = r \<or>
   map_of (m_services r) name = None \<and> 0 < mx \<and> fst (RegisterFactory name f mx r) = Inr () \<and>
   snd (RegisterFactory name f mx r) =
     r\<lparr>m_services := emplace name \<lparr>e_max_actors = mx, e_live_actors = 0\<rparr> (m_services r)\<rparr>"
  by (simp add: RegisterFactory_def)

lemma GetOrCreate_state:
  "snd (GetOrCreate service key made r) = r \<or>
   (\<exists>i e. made = Made i \<and> key \<noteq> '''' \<and> map_of (m_actors r) (service, key) = None \<and>
      map_of (m_services r) service = Some e \<and> e_live_actors e < e_max_actors e \<and>
      fst (GetOrCreate service key made r) = Inr i \<and>
      snd (GetOrCreate service key made r) =
        r\<lparr>m_actors := m_actors r @ [((service, key), i)],
          bound_keys := AList.update i key (bound_keys r),
          m_services := AList.update service (e\<lparr>e_live_actors := e_live_actors e + 1\<rparr>) (m_services r)\<rparr>)"
  by (auto simp: GetOrCreate_def emplace_def split: option.splits factory_outcome.splits)

lemma RegisterFactory_inv:
  assumes "actors_inv r" shows "actors_inv (snd (RegisterFactory name f mx r))"
  using RegisterFactory_state [of name f mx r]
proof (elim disjE conjE)
  assume new: "map_of (m_services r) name = None" and mx: "0 < mx"
    and s: "snd (RegisterFactory name f mx r) =
      r\<lparr>m_services := emplace name \<lparr>e_max_actors = mx, e_live_actors = 0\<rparr> (m_services r)\<rparr>"
  have "ActorCount service (snd (RegisterFactory name f mx r)) = ActorCount service r" for service
    using new by (auto simp: s ActorCount_def map_of_emplace)
  then show ?thesis using assms mx new
    by (auto simp: s actors_inv_def actors_of_def map_of_emplace split: if_splits)
qed (simp add: assms)

lemma GetOrCreate_inv:
  assumes "actors_inv r" shows "actors_inv (snd (GetOrCreate service key made r))"
  using GetOrCreate_state [of service key made r]
proof (elim disjE exE conjE)
  fix i e
  assume key: "key \<noteq> ''''" and new: "map_of (m_actors r) (service, key) = None"
    and e: "map_of (m_services r) service = Some e" and room: "e_live_actors e < e_max_actors e"
    and s: "snd (GetOrCreate service key made r) =
        r\<lparr>m_actors := m_actors r @ [((service, key), i)],
          bound_keys := AList.update i key (bound_keys r),
          m_services := AList.update service (e\<lparr>e_live_actors := e_live_actors e + 1\<rparr>) (m_services r)\<rparr>"
  have "keys_distinct (m_actors r @ [((service, key), i)])"
    using assms new by (auto simp: actors_inv_def keys_distinct_def map_of_eq_None_iff)
  then show ?thesis using assms e room key
    by (auto simp: s actors_inv_def actors_of_def ActorCount_def map_of_update)
qed (simp add: assms)

interpretation actors: machine empty_registry actor_step actors_inv
proof unfold_locales
  show "actors_inv empty_registry"
    by (simp add: actors_inv_def empty_registry_def actors_of_def ActorCount_def)
next
  fix r x
  assume "actors_inv r"
  then show "actors_inv (actor_step r x)"
    by (cases x) (simp_all add: actor_step_def RegisterFactory_inv GetOrCreate_inv)
qed

text \<open>Once activated, an actor stays what it is.\<close>

lemma actor_step_keeps:
  assumes "map_of (m_actors r) aid = Some i"
  shows "map_of (m_actors (actor_step r x)) aid = Some i"
proof (cases x)
  case (ORegister name f mx)
  then show ?thesis using assms RegisterFactory_state [of name f mx r] by (auto simp: actor_step_def)
next
  case (OGet service key made)
  then show ?thesis using assms GetOrCreate_state [of service key made r]
    by (auto simp: actor_step_def map_of_append_None)
qed

lemma actor_run_keeps:
  "map_of (m_actors r) aid = Some i \<Longrightarrow> map_of (m_actors (run_ops actor_step r xs)) aid = Some i"
  by (induction xs arbitrary: r) (simp_all add: actor_step_keeps)

lemma GetOrCreate_ok_present:
  assumes "fst (GetOrCreate service key made r) = Inr i"
  shows "map_of (m_actors (snd (GetOrCreate service key made r))) (service, key) = Some i \<and> key \<noteq> ''''"
  using assms
  by (auto simp: GetOrCreate_def map_of_emplace split: option.splits factory_outcome.splits if_splits)

lemma GetOrCreate_found:
  "map_of (m_actors r) (service, key) = Some i \<Longrightarrow> key \<noteq> '''' \<Longrightarrow>
   GetOrCreate service key made r = (Inr i, r)"
  by (simp add: GetOrCreate_def)

subsection \<open>Properties\<close>

text \<open>At most one activation per actor: once \<open>GetOrCreate\<close> has returned an instance for a
  service and a key, every later call for them, after any further operations and whatever a
  factory would do then, returns the same instance and changes nothing.\<close>

lemma actor_activated_once:
  assumes "fst (GetOrCreate service key made r) = Inr i"
  shows "GetOrCreate service key made' (run_ops actor_step (snd (GetOrCreate service key made r)) ops) =
    (Inr i, run_ops actor_step (snd (GetOrCreate service key made r)) ops)"
  using GetOrCreate_ok_present [OF assms] by (simp add: GetOrCreate_found actor_run_keeps)

definition demo_actors :: ActorRegistry where
  "demo_actors = run_ops actor_step empty_registry [ORegister ''s'' True 2, OGet ''s'' ''a'' Throws]"

lemma actor_activated_once_witness:
  "fst (GetOrCreate ''s'' ''a'' (Made 9)
     (run_ops actor_step (snd (GetOrCreate ''s'' ''a'' (Made 4) demo_actors)) [OGet ''s'' ''b'' (Made 5)])) = Inr 4"
proof -
  have "fst (GetOrCreate ''s'' ''a'' (Made 4) demo_actors) = Inr 4" by code_simp
  from actor_activated_once [OF this, of "Made 9" "[OGet ''s'' ''b'' (Made 5)]"] show ?thesis by simp
qed

text \<open>Activation is bounded and exact: after any history, the live-actor counter of every
  service is exactly the number of its registered actors and never exceeds the \<open>max_actors\<close> it
  was registered with; every failing \<open>GetOrCreate\<close> or \<open>RegisterFactory\<close> (bad key, unknown
  service, limit reached, factory threw or returned null) leaves the registry as it was, and a
  new activation fails with \<open>Overloaded\<close> exactly when the service is full.\<close>

lemma actors_bounded:
  fixes ops
  defines "r \<equiv> run_ops actor_step empty_registry ops"
  shows "ActorCount service r = length (actors_of service r) \<and>
    (case map_of (m_services r) service of None \<Rightarrow> ActorCount service r = 0
     | Some e \<Rightarrow> ActorCount service r \<le> e_max_actors e) \<and>
    (\<not> is_ok (fst (GetOrCreate service key made r)) \<longrightarrow> snd (GetOrCreate service key made r) = r) \<and>
    (\<not> is_ok (fst (RegisterFactory service f mx r)) \<longrightarrow> snd (RegisterFactory service f mx r) = r) \<and>
    (code_of (fst (GetOrCreate service key made r)) = Some Overloaded \<longleftrightarrow>
       key \<noteq> '''' \<and> map_of (m_actors r) (service, key) = None \<and>
       (\<exists>e. map_of (m_services r) service = Some e \<and> ActorCount service r = e_max_actors e))"
proof -
  have inv: "actors_inv r" unfolding r_def by (rule actors.inv_run)
  have full: "e_max_actors e \<le> e_live_actors e \<longleftrightarrow> e_live_actors e = e_max_actors e"
    if "map_of (m_services r) service = Some e" for e
    using that inv unfolding actors_inv_def by (metis le_antisym order_refl)
  have "ActorCount service r = length (actors_of service r)"
    and "case map_of (m_services r) service of None \<Rightarrow> ActorCount service r = 0
     | Some e \<Rightarrow> ActorCount service r \<le> e_max_actors e"
    using inv by (auto simp: actors_inv_def ActorCount_def split: option.split)
  moreover have "\<not> is_ok (fst (GetOrCreate service key made r)) \<longrightarrow> snd (GetOrCreate service key made r) = r"
    using GetOrCreate_state [of service key made r] by auto
  moreover have "\<not> is_ok (fst (RegisterFactory service f mx r)) \<longrightarrow> snd (RegisterFactory service f mx r) = r"
    using RegisterFactory_state [of service f mx r] by auto
  moreover have "code_of (fst (GetOrCreate service key made r)) = Some Overloaded \<longleftrightarrow>
       key \<noteq> '''' \<and> map_of (m_actors r) (service, key) = None \<and>
       (\<exists>e. map_of (m_services r) service = Some e \<and> ActorCount service r = e_max_actors e)"
    using full by (auto simp: GetOrCreate_def ActorCount_def split: option.splits factory_outcome.splits)
  ultimately show ?thesis by blast
qed

lemma actors_bounded_witness:
  "ActorCount ''s'' demo_actors = length (actors_of ''s'' demo_actors)"
  unfolding demo_actors_def
  using actors_bounded [of "''s''" "[ORegister ''s'' True 2, OGet ''s'' ''a'' Throws]"] by blast

end
