(* ===== verification/Routes.thy ===== *)
theory Routes
  imports Prelude "HOL-Library.Multiset"
begin

text \<open>
  The dynamic route table: \<open>DynamicRouteTable.hpp\<close> and \<open>src/host/DynamicRouteTable.cc\<close>. Every
  member holds \<open>m_mtx\<close> while it touches the table. The steady clock is the argument \<open>now\<close>, in
  nanoseconds; the stale limit is in milliseconds, as in the sources. The round-robin cursor
  is a \<open>size_t\<close>, here a 64-bit word that wraps. \<open>RpcAddress\<close> is infra's value type; the sources
  use its two strings.
\<close>

subsection \<open>State and operations\<close>

record RpcAddress =
  transport :: string
  endpoint :: string

record DynamicRouteSnapshot =
  revision :: u64
  observed_at :: int
  endpoints :: "RpcAddress list"

record RouteEntry =
  snapshot :: DynamicRouteSnapshot
  next_index :: u64
  unavailable :: bool

record DynamicRouteTable =
  m_stale_limit :: int
  m_entries :: "(string \<times> RouteEntry) list"

definition new_routes :: "int \<Rightarrow> DynamicRouteTable" where
  "new_routes ms = \<lparr>m_stale_limit = ms, m_entries = []\<rparr>"

definition SameEndpoint :: "RpcAddress \<Rightarrow> RpcAddress \<Rightarrow> bool" where
  "SameEndpoint a b \<longleftrightarrow> transport a = transport b \<and> endpoint a = endpoint b"

fun first_empty_endpoint :: "RpcAddress list \<Rightarrow> bool" where
  "first_empty_endpoint [] = False"
| "first_empty_endpoint (e # es) =
     (if transport e = '''' \<or> endpoint e = '''' then True else first_empty_endpoint es)"

text \<open>The deduplication loop, with the list built so far.\<close>

fun dedup :: "RpcAddress list \<Rightarrow> RpcAddress list \<Rightarrow> RpcAddress list" where
  "dedup acc [] = acc"
| "dedup acc (e # es) =
     (if list_ex (\<lambda>known. SameEndpoint known e) acc then dedup acc es else dedup (acc @ [e]) es)"

definition same_view :: "RpcAddress list \<Rightarrow> RpcAddress list \<Rightarrow> bool" where
  "same_view xs ys \<longleftrightarrow> length xs = length ys \<and> list_all2 SameEndpoint xs ys"

definition empty_entry :: RouteEntry where
  "empty_entry = \<lparr>snapshot = \<lparr>revision = 0, observed_at = 0, endpoints = []\<rparr>, next_index = 0,
     unavailable = False\<rparr>"

definition Replace :: "int \<Rightarrow> string \<Rightarrow> u64 \<Rightarrow> RpcAddress list \<Rightarrow> DynamicRouteTable
    \<Rightarrow> unit result \<times> DynamicRouteTable" where
  "Replace now service rv eps t =
     (if service = '''' then
        (fail InvalidArgument ''DynamicRouteTable::Replace: empty service name'', t)
      else if first_empty_endpoint eps then
        (fail InvalidArgument (''DynamicRouteTable::Replace: service '' @ quoted service @
           '' has endpoint with empty transport/endpoint''), t)
      else
        let unique = dedup [] eps;
            entry = (case map_of (m_entries t) service of None \<Rightarrow> empty_entry | Some e \<Rightarrow> e);
            same = same_view (endpoints (snapshot entry)) unique;
            fresh = \<lparr>revision = rv, observed_at = now, endpoints = unique\<rparr>
        in (Inr (), t\<lparr>m_entries := AList.update service
              \<lparr>snapshot = fresh, next_index = (if same then next_index entry else 0),
               unavailable = False\<rparr> (m_entries t)\<rparr>))"

definition Resolve :: "int \<Rightarrow> string \<Rightarrow> DynamicRouteTable \<Rightarrow> RpcAddress result \<times> DynamicRouteTable" where
  "Resolve now service t =
     (case map_of (m_entries t) service of
        None \<Rightarrow> (fail NotFound (''DynamicRouteTable::Resolve: service '' @ quoted service @
                   '' is not published by any provider''), t)
      | Some e \<Rightarrow>
          if unavailable e then
            (fail RuntimeUnavailable (''DynamicRouteTable::Resolve: service '' @ quoted service @
               '' view was marked unavailable''), t)
          else if endpoints (snapshot e) = [] then
            (fail NotFound (''DynamicRouteTable::Resolve: service '' @ quoted service @
               '' currently has no healthy instance''), t)
          else if m_stale_limit t * 1000000 < now - observed_at (snapshot e) then
            (fail RuntimeUnavailable (''DynamicRouteTable::Resolve: service '' @ quoted service @
               '' view is stale (no successful discovery within '' @
               int_to_string (m_stale_limit t) @ ''ms)''), t)
          else
            (Inr (endpoints (snapshot e) ! (unat (next_index e) mod length (endpoints (snapshot e)))),
             t\<lparr>m_entries := AList.update service (e\<lparr>next_index := next_index e + 1\<rparr>) (m_entries t)\<rparr>))"

definition MarkUnavailable :: "string \<Rightarrow> DynamicRouteTable \<Rightarrow> DynamicRouteTable" where
  "MarkUnavailable service t =
     (case map_of (m_entries t) service of
        None \<Rightarrow> t
      | Some e \<Rightarrow> t\<lparr>m_entries := AList.update service
          (e\<lparr>unavailable := True, snapshot := (snapshot e)\<lparr>endpoints := []\<rparr>\<rparr>) (m_entries t)\<rparr>)"

definition HasService :: "string \<Rightarrow> DynamicRouteTable \<Rightarrow> bool" where
  "HasService service t = (map_of (m_entries t) service \<noteq> None)"

subsection \<open>Deduplication and the invariant\<close>

lemma SameEndpoint_eq [simp]: "SameEndpoint a b \<longleftrightarrow> a = b"
  by (cases a; cases b) (auto simp: SameEndpoint_def)

lemma first_empty_iff: "first_empty_endpoint es \<longleftrightarrow> (\<exists>e \<in> set es. transport e = '''' \<or> endpoint e = '''')"
  by (induction es) auto

lemma dedup_spec:
  "distinct acc \<Longrightarrow> distinct (dedup acc es) \<and> set (dedup acc es) = set acc \<union> set es"
  by (induction acc es rule: dedup.induct) (auto simp: list_ex_iff)

text \<open>The specification of the loop: the first occurrence of every endpoint, in order.\<close>

fun first_occurrences :: "'a list \<Rightarrow> 'a list" where
  "first_occurrences [] = []"
| "first_occurrences (x # xs) = x # filter (\<lambda>y. y \<noteq> x) (first_occurrences xs)"

lemma dedup_first_occurrences: "dedup acc es = acc @ filter (\<lambda>e. e \<notin> set acc) (first_occurrences es)"
proof (induction acc es rule: dedup.induct)
  case (1 acc)
  then show ?case by simp
next
  case (2 acc e es)
  show ?case
  proof (cases "e \<in> set acc")
    case True
    then have "filter (\<lambda>x. x \<notin> set acc) (filter (\<lambda>y. y \<noteq> e) (first_occurrences es)) =
        filter (\<lambda>x. x \<notin> set acc) (first_occurrences es)"
      by (auto simp: filter_filter intro: filter_cong)
    with True 2 show ?thesis by (simp add: list_ex_iff)
  next
    case False
    then show ?thesis using 2 by (auto simp: list_ex_iff filter_filter intro: filter_cong)
  qed
qed

lemma same_view_eq [simp]: "same_view xs ys \<longleftrightarrow> xs = ys"
  by (auto simp: same_view_def list_all2_eq list_eq_iff_nth_eq list_all2_conv_all_nth)

definition routes_inv :: "DynamicRouteTable \<Rightarrow> bool" where
  "routes_inv t \<longleftrightarrow>
     keys_distinct (m_entries t) \<and>
     (\<forall>service e. map_of (m_entries t) service = Some e \<longrightarrow>
        service \<noteq> '''' \<and> distinct (endpoints (snapshot e)) \<and>
        (\<forall>a \<in> set (endpoints (snapshot e)). transport a \<noteq> '''' \<and> endpoint a \<noteq> '''') \<and>
        (unavailable e \<longrightarrow> endpoints (snapshot e) = []))"

datatype route_op =
    OReplace int string u64 "RpcAddress list"
  | OResolve int string
  | OMark string

definition route_step :: "DynamicRouteTable \<Rightarrow> route_op \<Rightarrow> DynamicRouteTable" where
  "route_step t x =
     (case x of
        OReplace now s rv eps \<Rightarrow> snd (Replace now s rv eps t)
      | OResolve now s \<Rightarrow> snd (Resolve now s t)
      | OMark s \<Rightarrow> MarkUnavailable s t)"

lemma Replace_inv: "routes_inv t \<Longrightarrow> routes_inv (snd (Replace now s rv eps t))"
  using dedup_spec [of "[]" eps]
  by (auto simp: Replace_def Let_def routes_inv_def map_of_update first_empty_iff split: if_splits)

lemma Resolve_inv: "routes_inv t \<Longrightarrow> routes_inv (snd (Resolve now s t))"
  by (auto simp: Resolve_def routes_inv_def map_of_update split: option.splits if_splits)

lemma MarkUnavailable_inv: "routes_inv t \<Longrightarrow> routes_inv (MarkUnavailable s t)"
  by (auto simp: MarkUnavailable_def routes_inv_def map_of_update split: option.splits if_splits)

interpretation routes: machine "new_routes ms" route_step routes_inv for ms
proof unfold_locales
  show "routes_inv (new_routes ms)" by (simp add: routes_inv_def new_routes_def)
next
  fix t x
  assume "routes_inv t"
  then show "routes_inv (route_step t x)"
    by (cases x) (simp_all add: route_step_def Replace_inv Resolve_inv MarkUnavailable_inv)
qed

subsection \<open>Round robin\<close>

definition usable :: "int \<Rightarrow> string \<Rightarrow> DynamicRouteTable \<Rightarrow> RouteEntry \<Rightarrow> bool" where
  "usable now s t e \<longleftrightarrow>
     map_of (m_entries t) s = Some e \<and> \<not> unavailable e \<and> endpoints (snapshot e) \<noteq> [] \<and>
     now - observed_at (snapshot e) \<le> m_stale_limit t * 1000000"

lemma Resolve_usable:
  assumes "usable now s t e"
  shows "Resolve now s t =
    (Inr (endpoints (snapshot e) ! (unat (next_index e) mod length (endpoints (snapshot e)))),
     t\<lparr>m_entries := AList.update s (e\<lparr>next_index := next_index e + 1\<rparr>) (m_entries t)\<rparr>)"
  using assms by (simp add: Resolve_def usable_def)

lemma usable_next:
  "usable now s t e \<Longrightarrow>
   usable now s (snd (Resolve now s t)) (e\<lparr>next_index := next_index e + 1\<rparr>)"
  by (simp add: Resolve_usable) (simp add: usable_def map_of_update)

text \<open>The results of \<open>n\<close> consecutive resolutions of one service.\<close>

fun resolve_many :: "nat \<Rightarrow> int \<Rightarrow> string \<Rightarrow> DynamicRouteTable \<Rightarrow> RpcAddress result list" where
  "resolve_many 0 now s t = []"
| "resolve_many (Suc n) now s t =
     fst (Resolve now s t) # resolve_many n now s (snd (Resolve now s t))"

lemma resolve_many_rotates:
  assumes "usable now s t e" and "unat (next_index e) + n < 2 ^ 64"
  shows "resolve_many n now s t =
    map (\<lambda>i. Inr (endpoints (snapshot e) ! (i mod length (endpoints (snapshot e)))))
      [unat (next_index e) ..< unat (next_index e) + n]"
  using assms
proof (induction n arbitrary: t e)
  case 0
  then show ?case by simp
next
  case (Suc n)
  let ?e = "e\<lparr>next_index := next_index e + 1\<rparr>"
  have "next_index e \<noteq> - 1" using Suc.prems(2) by (auto simp: unsigned_minus_1_eq_mask mask_eq_exp_minus_1)
  then have nx: "unat (next_index e + 1) = Suc (unat (next_index e))" by (rule u64_unat_Suc)
  have "resolve_many n now s (snd (Resolve now s t)) =
    map (\<lambda>i. Inr (endpoints (snapshot e) ! (i mod length (endpoints (snapshot e)))))
      [Suc (unat (next_index e)) ..< Suc (unat (next_index e)) + n]"
    using Suc.IH [OF usable_next [OF Suc.prems(1)]] Suc.prems(2) nx by simp
  then show ?case
    by (simp add: Resolve_usable [OF Suc.prems(1)] upt_rec [of "unat (next_index e)"])
qed

subsection \<open>Properties\<close>

lemma mod_window:
  assumes "0 < (n :: nat)"
  shows "mset (map (\<lambda>i. i mod n) [c ..< c + n]) = mset [0 ..< n]"
proof (induction c)
  case 0
  have "map (\<lambda>i. i mod n) [0 ..< n] = [0 ..< n]" by (rule map_idI) simp
  then show ?case by simp
next
  case (Suc c)
  have "mset (map (\<lambda>i. i mod n) [Suc c ..< Suc c + n]) + {#c mod n#} =
      mset (map (\<lambda>i. i mod n) [c ..< c + n]) + {#(c + n) mod n#}"
    using assms by (simp add: upt_rec [of c])
  with Suc.IH show ?case by simp
qed

text \<open>Round robin is fair: while a view is usable, any \<open>length\<close>-many consecutive
  resolutions of a service (not crossing the wrap of the 64-bit cursor) return every published
  endpoint exactly once, and each single resolution advances the cursor by one.\<close>

lemma resolve_round_robin_fair:
  assumes "usable now s t e" and "unat (next_index e) + length (endpoints (snapshot e)) < 2 ^ 64"
  shows "mset (resolve_many (length (endpoints (snapshot e))) now s t) =
    mset (map Inr (endpoints (snapshot e)))"
proof -
  let ?es = "endpoints (snapshot e)" and ?c = "unat (next_index e)"
  have n: "0 < length ?es" using assms(1) by (simp add: usable_def)
  have "mset (resolve_many (length ?es) now s t) =
      image_mset (\<lambda>i. Inr (?es ! i)) (mset (map (\<lambda>i. i mod length ?es) [?c ..< ?c + length ?es]))"
    by (simp add: resolve_many_rotates [OF assms] multiset.map_comp comp_def)
  also have "\<dots> = mset (map (\<lambda>i. Inr (?es ! i)) [0 ..< length ?es])"
    unfolding mod_window [OF n] by simp
  also have "map (\<lambda>i. Inr (?es ! i)) [0 ..< length ?es] = (map Inr ?es :: RpcAddress result list)"
    by (intro nth_equalityI) simp_all
  finally show ?thesis .
qed

definition demo_endpoint :: "string \<Rightarrow> RpcAddress" where
  "demo_endpoint a = \<lparr>transport = ''http'', endpoint = a\<rparr>"

definition demo_routes :: DynamicRouteTable where
  "demo_routes = snd (Replace 0 ''svc'' 1 [demo_endpoint ''a'', demo_endpoint ''b'', demo_endpoint ''a'']
     (new_routes 5000))"

lemma resolve_round_robin_fair_witness:
  "mset (resolve_many 2 10 ''svc'' demo_routes) = {#Inr (demo_endpoint ''a''), Inr (demo_endpoint ''b'')#}"
proof -
  let ?e = "\<lparr>snapshot = \<lparr>revision = 1, observed_at = 0, endpoints = [demo_endpoint ''a'', demo_endpoint ''b'']\<rparr>,
     next_index = 0, unavailable = False\<rparr>"
  have "usable 10 ''svc'' demo_routes ?e"
    by (simp add: usable_def demo_routes_def Replace_def new_routes_def Let_def demo_endpoint_def
        empty_entry_def map_of_update)
  from resolve_round_robin_fair [OF this]
  have "mset (resolve_many (Suc (Suc 0)) 10 ''svc'' demo_routes) =
      {#Inr (demo_endpoint ''a''), Inr (demo_endpoint ''b'')#}" by simp
  then show ?thesis unfolding numeral_2_eq_2 .
qed

text \<open>What a history published last for a service: when, and which endpoints. An explicit
  \<open>MarkUnavailable\<close> withdraws it.\<close>

fun view_after :: "string \<Rightarrow> (int \<times> RpcAddress list) option \<Rightarrow> route_op
    \<Rightarrow> (int \<times> RpcAddress list) option" where
  "view_after s v (OReplace now s' rv eps) =
     (if s' = s \<and> s \<noteq> [] \<and> \<not> first_empty_endpoint eps then Some (now, first_occurrences eps) else v)"
| "view_after s v (OResolve now s') = v"
| "view_after s v (OMark s') = (if s' = s then None else v)"

definition published :: "string \<Rightarrow> route_op list \<Rightarrow> (int \<times> RpcAddress list) option" where
  "published s xs = foldl (view_after s) None xs"

definition view_ok :: "string \<Rightarrow> (int \<times> RpcAddress list) option \<Rightarrow> DynamicRouteTable \<Rightarrow> bool" where
  "view_ok s v t \<longleftrightarrow>
     v = (case map_of (m_entries t) s of
        None \<Rightarrow> None
      | Some e \<Rightarrow> if unavailable e then None
          else Some (observed_at (snapshot e), endpoints (snapshot e)))"

lemma view_ok_step: "view_ok s v t \<Longrightarrow> view_ok s (view_after s v x) (route_step t x)"
proof (cases x)
  case (OReplace now s' rv eps)
  then show "view_ok s v t \<Longrightarrow> ?thesis"
    by (auto simp: view_ok_def route_step_def Replace_def Let_def map_of_update
        dedup_first_occurrences)
next
  case (OResolve now s')
  then show "view_ok s v t \<Longrightarrow> ?thesis"
    by (auto simp: view_ok_def route_step_def Resolve_def map_of_update split: option.splits)
next
  case (OMark s')
  then show "view_ok s v t \<Longrightarrow> ?thesis"
    by (auto simp: view_ok_def route_step_def MarkUnavailable_def map_of_update split: option.splits)
qed

lemma view_ok_run: "view_ok s (published s xs) (run_ops route_step (new_routes ms) xs)"
proof (induction xs rule: rev_induct)
  case Nil
  then show ?case by (simp add: view_ok_def published_def new_routes_def)
next
  case (snoc x xs)
  then show ?case by (simp add: published_def run_ops_append view_ok_step)
qed

lemma stale_limit_run: "m_stale_limit (run_ops route_step t xs) = m_stale_limit t"
proof (induction xs arbitrary: t)
  case (Cons x xs)
  have "m_stale_limit (route_step t x) = m_stale_limit t"
    by (cases x) (auto simp: route_step_def Replace_def Resolve_def MarkUnavailable_def Let_def
        split: option.splits)
  with Cons show ?case by simp
qed simp

text \<open>C19: \<open>Resolve\<close> only returns what is currently published: after any history of publications,
  resolutions and withdrawals, an endpoint it returns belongs to the last publication of that
  service (taken without duplicates), which was not withdrawn by \<open>MarkUnavailable\<close> since and is
  no older than the stale limit; a published, fresh, non-empty view always resolves; and every
  failure leaves the table unchanged.\<close>

theorem resolve_returns_published:
  fixes xs ms
  defines "t \<equiv> run_ops route_step (new_routes ms) xs"
  shows "(case fst (Resolve now s t) of
      Inr a \<Rightarrow> (\<exists>t0 eps. published s xs = Some (t0, eps) \<and> a \<in> set eps \<and> now - t0 \<le> ms * 1000000)
    | Inl e \<Rightarrow> snd (Resolve now s t) = t \<and>
        (case published s xs of
           None \<Rightarrow> err_code e \<in> {NotFound, RuntimeUnavailable}
         | Some (t0, eps) \<Rightarrow> err_code e = (if eps = [] then NotFound else RuntimeUnavailable) \<and>
             (eps = [] \<or> ms * 1000000 < now - t0)))"
proof -
  have v: "view_ok s (published s xs) t" unfolding t_def by (rule view_ok_run)
  have l: "m_stale_limit t = ms" by (simp add: t_def stale_limit_run new_routes_def)
  show ?thesis
  proof (cases "map_of (m_entries t) s")
    case None
    then show ?thesis using v by (simp add: Resolve_def view_ok_def fail_def MakeError_def)
  next
    case (Some e)
    have "endpoints (snapshot e) ! (unat (next_index e) mod length (endpoints (snapshot e))) \<in>
        set (endpoints (snapshot e))" if "endpoints (snapshot e) \<noteq> []"
      using that by (intro nth_mem) simp
    with Some v l show ?thesis
      by (auto simp: Resolve_def view_ok_def fail_def MakeError_def)
  qed
qed

end
