(* ===== verification/Scope.thy ===== *)
theory Scope
  imports Prelude
begin

text \<open>
  Managed request contexts: \<open>RequestContext.hpp\<close>, \<open>internal/RequestScope.hpp\<close> and
  \<open>src/host/RequestScope.cc\<close>. The two global maps are association lists from a coroutine id
  (0 is ``no coroutine'') or a thread id to the stack of scope entries. A scope object is
  numbered by its address; the constructor and the destructor hold \<open>g_scope_mtx\<close> and are one
  step each. A destructor runs on whatever thread destroys the object and uses the key its
  constructor stored.
\<close>

subsection \<open>State and operations\<close>

record RequestContext =
  rc_request_id :: string
  rc_actor_key :: "string option"
  rc_deadline :: int
  rc_peer_principal :: string
  rc_trace_id :: "string option"

record RequestScope =
  sc_ctx :: "RequestContext option"
  sc_co_bound :: bool
  sc_co_id :: nat
  sc_thread_id :: nat

type_synonym ScopeEntry = "nat \<times> RequestContext"

record ScopeState =
  g_co_scopes :: "(nat \<times> ScopeEntry list) list"
  g_thread_scopes :: "(nat \<times> ScopeEntry list) list"
  scope_objects :: "(nat \<times> RequestScope) list"

definition no_scopes :: ScopeState where
  "no_scopes = \<lparr>g_co_scopes = [], g_thread_scopes = [], scope_objects = []\<rparr>"

definition push_entry :: "nat \<Rightarrow> ScopeEntry \<Rightarrow> (nat \<times> ScopeEntry list) list
    \<Rightarrow> (nat \<times> ScopeEntry list) list" where
  "push_entry k e m = AList.update k ((case map_of m k of None \<Rightarrow> [] | Some st \<Rightarrow> st) @ [e]) m"

text \<open>The reverse search of \<open>EraseScopeEntry\<close>: the last entry of this owner goes.\<close>

definition erase_last_of :: "nat \<Rightarrow> ScopeEntry list \<Rightarrow> ScopeEntry list" where
  "erase_last_of owner st =
     (case dropWhile (\<lambda>e. fst e \<noteq> owner) (rev st) of
        [] \<Rightarrow> st
      | _ # below \<Rightarrow> rev below @ rev (takeWhile (\<lambda>e. fst e \<noteq> owner) (rev st)))"

definition EraseScopeEntry :: "(nat \<times> ScopeEntry list) list \<Rightarrow> nat \<Rightarrow> nat
    \<Rightarrow> (nat \<times> ScopeEntry list) list" where
  "EraseScopeEntry m k owner =
     (case map_of m k of
        None \<Rightarrow> m
      | Some st \<Rightarrow>
          let st' = erase_last_of owner st
          in if st' = [] then AList.delete k m else AList.update k st' m)"

definition scope_construct :: "nat \<Rightarrow> RequestContext option \<Rightarrow> nat \<Rightarrow> nat \<Rightarrow> ScopeState \<Rightarrow> ScopeState" where
  "scope_construct self ctx co_id tid s =
     (case ctx of
        None \<Rightarrow> s\<lparr>scope_objects := scope_objects s @
                   [(self, \<lparr>sc_ctx = None, sc_co_bound = False, sc_co_id = 0, sc_thread_id = 0\<rparr>)]\<rparr>
      | Some c \<Rightarrow>
          let obj = \<lparr>sc_ctx = Some c, sc_co_bound = (co_id \<noteq> 0), sc_co_id = co_id, sc_thread_id = tid\<rparr>;
              s1 = s\<lparr>scope_objects := scope_objects s @ [(self, obj)]\<rparr>
          in if sc_co_bound obj
             then s1\<lparr>g_co_scopes := push_entry co_id (self, c) (g_co_scopes s1)\<rparr>
             else s1\<lparr>g_thread_scopes := push_entry tid (self, c) (g_thread_scopes s1)\<rparr>)"

definition scope_destroy :: "nat \<Rightarrow> ScopeState \<Rightarrow> ScopeState" where
  "scope_destroy self s =
     (case map_of (scope_objects s) self of
        None \<Rightarrow> s
      | Some obj \<Rightarrow>
          let s1 = s\<lparr>scope_objects := AList.delete self (scope_objects s)\<rparr>
          in if sc_ctx obj = None then s1
             else if sc_co_bound obj
             then s1\<lparr>g_co_scopes := EraseScopeEntry (g_co_scopes s1) (sc_co_id obj) self\<rparr>
             else s1\<lparr>g_thread_scopes := EraseScopeEntry (g_thread_scopes s1) (sc_thread_id obj) self\<rparr>)"

definition CurrentRequestContext :: "nat \<Rightarrow> nat \<Rightarrow> ScopeState \<Rightarrow> RequestContext result" where
  "CurrentRequestContext co_id tid s =
     (let none = fail InvalidContext ''no managed request context bound to current coroutine/thread''
      in if co_id \<noteq> 0 then
           (case map_of (g_co_scopes s) co_id of
              Some st \<Rightarrow> if st \<noteq> [] then Inr (snd (last st)) else none
            | None \<Rightarrow> none)
         else
           (case map_of (g_thread_scopes s) tid of
              Some st \<Rightarrow> if st \<noteq> [] then Inr (snd (last st)) else none
            | None \<Rightarrow> none))"

subsection \<open>The specification: the live scopes of a key, oldest first\<close>

fun co_entries :: "nat \<Rightarrow> (nat \<times> RequestScope) list \<Rightarrow> ScopeEntry list" where
  "co_entries k [] = []"
| "co_entries k ((a, x) # xs) =
     (case sc_ctx x of
        Some c \<Rightarrow> if sc_co_bound x \<and> sc_co_id x = k then (a, c) # co_entries k xs else co_entries k xs
      | None \<Rightarrow> co_entries k xs)"

fun thread_entries :: "nat \<Rightarrow> (nat \<times> RequestScope) list \<Rightarrow> ScopeEntry list" where
  "thread_entries k [] = []"
| "thread_entries k ((a, x) # xs) =
     (case sc_ctx x of
        Some c \<Rightarrow> if \<not> sc_co_bound x \<and> sc_thread_id x = k then (a, c) # thread_entries k xs
                  else thread_entries k xs
      | None \<Rightarrow> thread_entries k xs)"

definition stacks :: "(nat \<times> ScopeEntry list) list \<Rightarrow> (nat \<Rightarrow> ScopeEntry list) \<Rightarrow> bool" where
  "stacks m f \<longleftrightarrow> keys_distinct m \<and> (\<forall>k. map_of m k = (if f k = [] then None else Some (f k)))"

definition scope_inv :: "ScopeState \<Rightarrow> bool" where
  "scope_inv s \<longleftrightarrow>
     keys_distinct (scope_objects s) \<and>
     stacks (g_co_scopes s) (\<lambda>k. co_entries k (scope_objects s)) \<and>
     stacks (g_thread_scopes s) (\<lambda>k. thread_entries k (scope_objects s))"

lemma entries_append:
  "co_entries k (xs @ ys) = co_entries k xs @ co_entries k ys"
  "thread_entries k (xs @ ys) = thread_entries k xs @ thread_entries k ys"
  by (induction xs) (auto split: option.splits)

lemma entries_delete:
  "co_entries k (AList.delete a xs) = filter (\<lambda>e. fst e \<noteq> a) (co_entries k xs)"
  "thread_entries k (AList.delete a xs) = filter (\<lambda>e. fst e \<noteq> a) (thread_entries k xs)"
  by (induction xs) (auto split: option.splits)

lemma entries_keys:
  "e \<in> set (co_entries k xs) \<Longrightarrow> fst e \<in> fst ` set xs"
  "e \<in> set (thread_entries k xs) \<Longrightarrow> fst e \<in> fst ` set xs"
  by (induction xs) (auto split: option.splits if_splits)

lemma entries_distinct:
  assumes "keys_distinct xs"
  shows "distinct (map fst (co_entries k xs))" and "distinct (map fst (thread_entries k xs))"
  using assms entries_keys
  by (induction xs) (fastforce simp: keys_distinct_def split: option.splits)+

lemma erase_last_of_filter:
  assumes "distinct (map fst st)"
  shows "erase_last_of a st = filter (\<lambda>e. fst e \<noteq> a) st"
proof (cases "dropWhile (\<lambda>e. fst e \<noteq> a) (rev st)")
  case Nil
  then have "\<forall>e \<in> set st. fst e \<noteq> a" by (simp add: dropWhile_eq_Nil_conv)
  then show ?thesis unfolding erase_last_of_def Nil by (simp add: filter_id_conv)
next
  case (Cons e below)
  let ?top = "takeWhile (\<lambda>e. fst e \<noteq> a) (rev st)"
  have e: "fst e = a" using hd_dropWhile [of "\<lambda>e. fst e \<noteq> a" "rev st"] unfolding Cons by simp
  have "rev st = ?top @ e # below"
    using takeWhile_dropWhile_id [of "\<lambda>e. fst e \<noteq> a" "rev st"] unfolding Cons by (rule sym)
  then have "rev (rev st) = rev (?top @ e # below)" by (rule arg_cong)
  then have st: "st = rev below @ e # rev ?top" by simp
  have "a \<notin> fst ` set below"
    using assms e by (subst (asm) st) auto
  then have "filter (\<lambda>e. fst e \<noteq> a) (rev below) = rev below"
    by (auto simp: filter_id_conv)
  moreover have "filter (\<lambda>e. fst e \<noteq> a) (rev ?top) = rev ?top"
    by (auto simp: filter_id_conv dest: set_takeWhileD)
  ultimately have "filter (\<lambda>e. fst e \<noteq> a) st = rev below @ rev ?top"
    using e by (subst st) simp
  then show ?thesis using Cons by (simp add: erase_last_of_def)
qed

lemma stacks_push:
  assumes "stacks m f" and "\<And>k'. g k' = (if k' = k then f k @ [e] else f k')"
  shows "stacks (push_entry k e m) g"
  using assms by (auto simp: stacks_def push_entry_def map_of_update)

lemma stacks_erase:
  assumes "stacks m f" and "distinct (map fst (f k))"
    and "\<And>k'. g k' = (if k' = k then filter (\<lambda>e. fst e \<noteq> a) (f k) else f k')"
  shows "stacks (EraseScopeEntry m k a) g"
  using assms erase_last_of_filter [OF assms(2), of a]
  by (auto simp: stacks_def EraseScopeEntry_def map_of_update map_of_delete Let_def split: option.splits)

subsection \<open>Construction and destruction in any order\<close>

datatype scope_op =
    SConstruct nat "RequestContext option" nat nat
  | SDestroy nat

text \<open>An address is not reused while the object lives there.\<close>

definition scope_step :: "ScopeState \<Rightarrow> scope_op \<Rightarrow> ScopeState" where
  "scope_step s x =
     (case x of
        SConstruct a ctx co tid \<Rightarrow>
          if map_of (scope_objects s) a = None then scope_construct a ctx co tid s else s
      | SDestroy a \<Rightarrow> scope_destroy a s)"

lemma scope_construct_inv:
  assumes inv: "scope_inv s" and new: "map_of (scope_objects s) a = None"
  shows "scope_inv (scope_construct a ctx co tid s)"
proof (cases ctx)
  case None
  with assms show ?thesis
    by (simp add: scope_inv_def scope_construct_def keys_distinct_def map_of_eq_None_iff entries_append)
next
  case (Some c)
  have kd: "keys_distinct (scope_objects s @ [(a, x)])" for x
    using assms by (simp add: scope_inv_def keys_distinct_def map_of_eq_None_iff)
  show ?thesis
    using inv kd Some
    by (auto simp: scope_inv_def scope_construct_def Let_def entries_append intro: stacks_push)
qed

lemma co_entries_D:
  "e \<in> set (co_entries k xs) \<Longrightarrow>
   \<exists>x. (fst e, x) \<in> set xs \<and> sc_ctx x = Some (snd e) \<and> sc_co_bound x \<and> sc_co_id x = k"
  by (induction xs) (auto split: option.splits if_splits, blast+)

lemma thread_entries_D:
  "e \<in> set (thread_entries k xs) \<Longrightarrow>
   \<exists>x. (fst e, x) \<in> set xs \<and> sc_ctx x = Some (snd e) \<and> \<not> sc_co_bound x \<and> sc_thread_id x = k"
  by (induction xs) (auto split: option.splits if_splits, blast+)

lemma scope_entries_at:
  assumes "map_of xs a = Some x" and "keys_distinct xs" and "sc_ctx x = Some c"
  shows "sc_co_bound x \<Longrightarrow> k \<noteq> sc_co_id x \<Longrightarrow> a \<notin> fst ` set (co_entries k xs)"
    and "\<not> sc_co_bound x \<Longrightarrow> a \<notin> fst ` set (co_entries k xs)"
    and "sc_co_bound x \<Longrightarrow> a \<notin> fst ` set (thread_entries k xs)"
    and "\<not> sc_co_bound x \<Longrightarrow> k \<noteq> sc_thread_id x \<Longrightarrow> a \<notin> fst ` set (thread_entries k xs)"
  using assms co_entries_D [of _ k xs] thread_entries_D [of _ k xs]
  by (fastforce simp: map_of_eq_Some_distinct [symmetric])+

lemma scope_entries_none:
  assumes "map_of xs a = Some x" and "keys_distinct xs" and "sc_ctx x = None"
  shows "a \<notin> fst ` set (co_entries k xs)" and "a \<notin> fst ` set (thread_entries k xs)"
  using assms co_entries_D [of _ k xs] thread_entries_D [of _ k xs]
  by (fastforce simp: map_of_eq_Some_distinct [symmetric])+

lemma filter_absent: "a \<notin> fst ` set xs \<Longrightarrow> filter (\<lambda>e. fst e \<noteq> a) xs = xs"
  by (auto simp: filter_id_conv)

lemma scope_destroy_inv:
  assumes inv: "scope_inv s" shows "scope_inv (scope_destroy a s)"
proof (cases "map_of (scope_objects s) a")
  case None
  then show ?thesis using inv by (simp add: scope_destroy_def)
next
  case (Some x)
  have kd: "keys_distinct (scope_objects s)" using inv by (simp add: scope_inv_def)
  note D = entries_distinct [OF kd]
  show ?thesis
  proof (cases "sc_ctx x")
    case None
    then show ?thesis using inv Some scope_entries_none [OF Some kd None]
      by (simp add: scope_inv_def scope_destroy_def Let_def entries_delete filter_absent)
  next
    case ctx: (Some c)
    note A = scope_entries_at [OF Some kd ctx]
    show ?thesis
    proof (cases "sc_co_bound x")
      case True
      have "stacks (EraseScopeEntry (g_co_scopes s) (sc_co_id x) a)
          (\<lambda>k. co_entries k (AList.delete a (scope_objects s)))"
        using inv A(1) [OF True] by (intro stacks_erase [where f = "\<lambda>k. co_entries k (scope_objects s)"])
          (auto simp: scope_inv_def D entries_delete filter_absent)
      then show ?thesis using inv Some ctx True A(3) [OF True]
        by (simp add: scope_inv_def scope_destroy_def Let_def entries_delete filter_absent)
    next
      case False
      have "stacks (EraseScopeEntry (g_thread_scopes s) (sc_thread_id x) a)
          (\<lambda>k. thread_entries k (AList.delete a (scope_objects s)))"
        using inv A(4) [OF False] by (intro stacks_erase [where f = "\<lambda>k. thread_entries k (scope_objects s)"])
          (auto simp: scope_inv_def D entries_delete filter_absent)
      then show ?thesis using inv Some ctx False A(2) [OF False]
        by (simp add: scope_inv_def scope_destroy_def Let_def entries_delete filter_absent)
    qed
  qed
qed

interpretation scopes: machine no_scopes scope_step scope_inv
proof unfold_locales
  show "scope_inv no_scopes" by (simp add: scope_inv_def no_scopes_def stacks_def)
next
  fix s x
  assume "scope_inv s"
  then show "scope_inv (scope_step s x)"
    by (cases x) (auto simp: scope_step_def scope_construct_inv scope_destroy_inv)
qed

subsection \<open>Properties\<close>

text \<open>The current request context is the innermost live scope: after any history of scope
  constructions and destructions (in any order, from any coroutine or thread),
  \<open>CurrentRequestContext\<close> returns the context of the most recently constructed scope that is
  still alive on the calling coroutine (on the calling thread when there is no coroutine), and
  fails with \<open>InvalidContext\<close> when there is none; scopes of other coroutines and threads play no
  part. When no scope is alive the two maps are empty.\<close>

lemma current_context_innermost:
  fixes xs co tid
  defines "s \<equiv> run_ops scope_step no_scopes xs"
  defines "here \<equiv> (if co \<noteq> 0 then co_entries co (scope_objects s) else thread_entries tid (scope_objects s))"
  shows "(case here of
       [] \<Rightarrow> code_of (CurrentRequestContext co tid s) = Some InvalidContext
     | _ # _ \<Rightarrow> CurrentRequestContext co tid s = Inr (snd (last here))) \<and>
    (if scope_objects s = [] then g_co_scopes s = [] \<and> g_thread_scopes s = [] else True)"
proof -
  have inv: "scope_inv s" unfolding s_def by (rule scopes.inv_run)
  have "m = []" if "stacks m (\<lambda>k. [])" for m :: "(nat \<times> ScopeEntry list) list"
    using that by (cases m) (auto simp: stacks_def, metis option.distinct(1))
  then have "g_co_scopes s = [] \<and> g_thread_scopes s = []" if "scope_objects s = []"
    using inv that by (simp add: scope_inv_def)
  then show ?thesis
    using inv by (auto simp: scope_inv_def stacks_def CurrentRequestContext_def Let_def here_def
        split: list.splits)
qed

end
