(* ===== verification/Wire.thy ===== *)
theory Wire
  imports ErrorDomain
begin

text \<open>
  The envelope and its metadata: \<open>RpcEnvelope\<close> (infra's value type, the fields the sources
  use), the route fields of \<open>Route.hpp\<close>, the metadata loop, the decimal parser and the request
  digest of \<open>src/host/InboundDispatcher.cc\<close>. Bytes and strings are char lists.
\<close>

subsection \<open>Envelopes\<close>

record RpcEnvelope =
  v_service :: string
  v_method :: string
  v_request_id :: string
  v_request_schema :: string
  v_response_schema :: string
  v_metadata :: "(string \<times> string) list"
  v_payload :: string

type_synonym RouteFields = "(string \<times> string) list"

definition empty_envelope :: RpcEnvelope where
  "empty_envelope = \<lparr>v_service = [], v_method = [], v_request_id = [], v_request_schema = [],
     v_response_schema = [], v_metadata = [], v_payload = []\<rparr>"

text \<open>\<open>k.compare(0, p.size(), p) == 0\<close>.\<close>

definition starts_with :: "string \<Rightarrow> string \<Rightarrow> bool" where
  "starts_with p k \<longleftrightarrow> take (length p) k = p"

lemma starts_with_append [simp]: "starts_with p (p @ k)"
  by (simp add: starts_with_def)

subsection \<open>Decimals on 64 bits\<close>

fun parse_loop :: "u64 \<Rightarrow> string \<Rightarrow> u64 option" where
  "parse_loop v [] = Some v"
| "parse_loop v (c # s) =
     (let d = of_nat (digit_val c)
      in if (- 1 - d) div 10 < v then None else parse_loop (v * 10 + d) s)"

definition ParseUnsignedDecimal :: "string \<Rightarrow> u64 option" where
  "ParseUnsignedDecimal s = (if \<not> IsUnsignedDecimal s then None else parse_loop 0 s)"

lemma unat_minus_one_minus:
  fixes d :: u64
  shows "unat (- 1 - d) = 2 ^ 64 - 1 - unat d"
  by (simp add: unat_sub word_n1_ge unsigned_minus_1_eq_mask mask_eq_exp_minus_1)

lemma parse_step:
  assumes "n < 10"
  defines "d \<equiv> of_nat n :: u64"
  shows "(- 1 - d) div 10 < v \<longleftrightarrow> 2 ^ 64 \<le> unat v * 10 + n"
    and "unat v * 10 + n < 2 ^ 64 \<Longrightarrow> unat (v * 10 + d) = unat v * 10 + n"
proof -
  have d: "unat d = n" using assms by (simp add: d_def unat_of_nat take_bit_nat_eq_self)
  have "unat ((- 1 - d) div 10) = (2 ^ 64 - 1 - n) div 10"
    by (simp add: unat_div unat_minus_one_minus d)
  then show "(- 1 - d) div 10 < v \<longleftrightarrow> 2 ^ 64 \<le> unat v * 10 + n"
    using assms(1) by (auto simp: word_less_nat_alt)
  assume b: "unat v * 10 + n < 2 ^ 64"
  have "unat (v * 10) = unat v * 10"
    using b by (subst unat_mult_lem [THEN iffD1]) auto
  then show "unat (v * 10 + d) = unat v * 10 + n"
    using b d by (subst unat_add_lem [THEN iffD1]) auto
qed

lemma foldl_digits_mono: "v \<le> foldl (\<lambda>v c. v * 10 + digit_val c) v s"
proof (induction s arbitrary: v)
  case (Cons c s)
  have "v \<le> v * 10 + digit_val c" by simp
  also have "\<dots> \<le> foldl (\<lambda>v c. v * 10 + digit_val c) (v * 10 + digit_val c) s" by (rule Cons.IH)
  finally show ?case by simp
qed simp

lemma parse_loop_spec:
  assumes "list_all is_digit s"
  shows "parse_loop v s =
    (let n = foldl (\<lambda>v c. v * 10 + digit_val c) (unat v) s
     in if n < 2 ^ 64 then Some (of_nat n) else None)"
  using assms
proof (induction s arbitrary: v)
  case Nil
  then show ?case using unsigned_less [of v, where ?'a = nat] by simp
next
  case (Cons c s)
  then have d: "digit_val c < 10" by (simp add: digit_val_less)
  show ?case
  proof (cases "unat v * 10 + digit_val c < 2 ^ 64")
    case True
    then show ?thesis using Cons parse_step [OF d, of v] by (simp add: Let_def)
  next
    case False
    then have "\<not> foldl (\<lambda>v c. v * 10 + digit_val c) (unat v * 10 + digit_val c) s < 2 ^ 64"
      using foldl_digits_mono [of "unat v * 10 + digit_val c" s] by linarith
    with False show ?thesis using parse_step(1) [OF d, of v] by (simp add: Let_def not_less)
  qed
qed

lemma ParseUnsignedDecimal_spec:
  "ParseUnsignedDecimal s =
     (if IsUnsignedDecimal s \<and> dec_val s < 2 ^ 64 then Some (of_nat (dec_val s)) else None)"
  by (simp add: ParseUnsignedDecimal_def IsUnsignedDecimal_def parse_loop_spec dec_val_def Let_def)

lemma ParseUnsignedDecimal_to_string [simp]:
  "ParseUnsignedDecimal (to_string (unat n)) = Some n" for n :: u64
  using unsigned_less [of n, where ?'a = nat] by (simp add: ParseUnsignedDecimal_spec)

subsection \<open>The request digest\<close>

definition digest_append :: "string \<Rightarrow> string \<Rightarrow> string" where
  "digest_append acc d = acc @ to_string (length d) @ '':'' @ d @ ''|''"

definition OrderedRequestDigest :: "string \<Rightarrow> string \<Rightarrow> string \<Rightarrow> string" where
  "OrderedRequestDigest m key payload =
     (let d1 = digest_append [] m; d2 = digest_append d1 key
      in if payload \<noteq> [] then digest_append d2 payload else digest_append d2 [])"

lemma segment_inj:
  assumes "to_string (length a) @ '':'' @ a @ ''|'' @ r = to_string (length b) @ '':'' @ b @ ''|'' @ s"
  shows "a = b \<and> r = s"
proof -
  have nd: "\<not> is_digit (CHR '':'')" by (simp add: is_digit_def)
  have "to_string (length a) = to_string (length b) \<and> CHR '':'' = CHR '':'' \<and>
      a @ ''|'' @ r = b @ ''|'' @ s"
    by (rule digits_split_unique [where P = is_digit])
       (use assms to_string_digits nd in auto)
  then show ?thesis by (auto simp: to_string_inj)
qed

lemma OrderedRequestDigest_inj:
  "OrderedRequestDigest m k p = OrderedRequestDigest m' k' p' \<longleftrightarrow> m = m' \<and> k = k' \<and> p = p'"
proof
  have e: "OrderedRequestDigest m k p = to_string (length m) @ '':'' @ m @ ''|'' @
      to_string (length k) @ '':'' @ k @ ''|'' @ to_string (length p) @ '':'' @ p @ ''|'' @ []"
    for m k p by (simp add: OrderedRequestDigest_def digest_append_def Let_def)
  assume eq: "OrderedRequestDigest m k p = OrderedRequestDigest m' k' p'"
  note s1 = segment_inj [OF eq [unfolded e]]
  note s2 = segment_inj [OF s1 [THEN conjunct2]]
  note s3 = segment_inj [OF s2 [THEN conjunct2]]
  show "m = m' \<and> k = k' \<and> p = p'" using s1 s2 s3 by blast
qed simp

subsection \<open>The metadata loop\<close>

definition kMaxRouteFieldCount :: nat where "kMaxRouteFieldCount = 16"
definition kMaxRouteKeyBytes :: nat where "kMaxRouteKeyBytes = 64"
definition kMaxRouteValueBytes :: nat where "kMaxRouteValueBytes = 256"
definition kRoutePrefix :: string where "kRoutePrefix = ''route.''"
definition kFwTraceId :: string where "kFwTraceId = ''fw.trace_id''"

definition IsOrderedFwKey :: "string \<Rightarrow> bool" where
  "IsOrderedFwKey k \<longleftrightarrow> k = ''fw.producer_id'' \<or> k = ''fw.producer_epoch'' \<or>
     k = ''fw.sequence'' \<or> k = ''fw.receiver_epoch''"

record ParsedMetadata =
  pm_custom :: RouteFields
  pm_trace_id :: "string option"
  pm_producer_id :: string
  pm_producer_epoch :: string
  pm_receiver_epoch :: string
  pm_sequence :: u64
  pm_has_sequence :: bool

definition no_metadata :: ParsedMetadata where
  "no_metadata = \<lparr>pm_custom = [], pm_trace_id = None, pm_producer_id = [], pm_producer_epoch = [],
     pm_receiver_epoch = [], pm_sequence = 0, pm_has_sequence = False\<rparr>"

fun parse_metadata :: "ParsedMetadata \<Rightarrow> (string \<times> string) list \<Rightarrow> ParsedMetadata result" where
  "parse_metadata p [] = Inr p"
| "parse_metadata p ((k, v) # kvs) =
     (if starts_with kRoutePrefix k then
        (let name = drop (length kRoutePrefix) k
         in if name = [] \<or> kMaxRouteKeyBytes < length name \<or> kMaxRouteValueBytes < length v
            then fail InvalidArgument ''route.* field out of bounds''
            else if kMaxRouteFieldCount \<le> length (pm_custom p)
            then fail InvalidArgument ''too many route.* fields''
            else parse_metadata (p\<lparr>pm_custom := pm_custom p @ [(name, v)]\<rparr>) kvs)
      else if k = kFwTraceId then parse_metadata (p\<lparr>pm_trace_id := Some v\<rparr>) kvs
      else if IsOrderedFwKey k then
        (if v = [] then fail InvalidArgument (''malformed '' @ k)
         else if k = ''fw.sequence'' then
           (if \<not> IsUnsignedDecimal v
            then fail InvalidArgument ''fw.sequence must be unsigned decimal''
            else case ParseUnsignedDecimal v of
                None \<Rightarrow> fail InvalidArgument ''fw.sequence exceeds uint64 range''
              | Some n \<Rightarrow> parse_metadata (p\<lparr>pm_sequence := n, pm_has_sequence := True\<rparr>) kvs)
         else if k = ''fw.producer_id'' then parse_metadata (p\<lparr>pm_producer_id := v\<rparr>) kvs
         else if k = ''fw.producer_epoch'' then parse_metadata (p\<lparr>pm_producer_epoch := v\<rparr>) kvs
         else parse_metadata (p\<lparr>pm_receiver_epoch := v\<rparr>) kvs)
      else fail InvalidArgument (''metadata key outside route.*: '' @ k))"

lemma parse_metadata_err: "parse_metadata p kvs = Inl e \<Longrightarrow> err_code e = InvalidArgument"
proof (induction p kvs rule: parse_metadata.induct)
  case (2 p k v kvs)
  then show ?case
    by (auto simp: Let_def fail_def MakeError_def split: if_splits option.splits)
qed simp

text \<open>What is within the bounds of a custom field, on both sides.\<close>

definition field_ok :: "string \<times> string \<Rightarrow> bool" where
  "field_ok kv \<longleftrightarrow> fst kv \<noteq> [] \<and> length (fst kv) \<le> 64 \<and> length (snd kv) \<le> 256"

lemma parse_routes:
  assumes "\<forall>kv \<in> set cs. field_ok kv" and "length (pm_custom p) + length cs \<le> 16"
  shows "parse_metadata p (map (\<lambda>(k, v). (''route.'' @ k, v)) cs @ rest) =
    parse_metadata (p\<lparr>pm_custom := pm_custom p @ cs\<rparr>) rest"
  using assms
proof (induction cs arbitrary: p)
  case Nil
  then show ?case by simp
next
  case (Cons c cs)
  obtain k v where c: "c = (k, v)" by (cases c)
  have b: "k \<noteq> []" "length k \<le> 64" "length v \<le> 256" using Cons.prems(1) c by (auto simp: field_ok_def)
  have "parse_metadata p (map (\<lambda>(k, v). (''route.'' @ k, v)) (c # cs) @ rest) =
      parse_metadata (p\<lparr>pm_custom := pm_custom p @ [(k, v)]\<rparr>)
        (map (\<lambda>(k, v). (''route.'' @ k, v)) cs @ rest)"
    using b Cons.prems(2) c
    by (simp add: kRoutePrefix_def starts_with_def kMaxRouteKeyBytes_def kMaxRouteValueBytes_def
        kMaxRouteFieldCount_def)
  also have "\<dots> = parse_metadata (p\<lparr>pm_custom := pm_custom p @ c # cs\<rparr>) rest"
    using Cons.IH [of "p\<lparr>pm_custom := pm_custom p @ [(k, v)]\<rparr>"] Cons.prems c by simp
  finally show ?case .
qed

subsection \<open>Properties\<close>

text \<open>The text of a sequence number is read exactly: \<open>ParseUnsignedDecimal\<close> accepts precisely the
  non-empty digit strings whose value fits 64 bits, with that value (so the overflow test in
  the loop is neither too strict nor too lax), and it reads back what \<open>std::to_string\<close> writes.\<close>

lemma sequence_text_exact:
  "(ParseUnsignedDecimal s = Some n \<longleftrightarrow> s \<noteq> [] \<and> list_all is_digit s \<and> dec_val s = unat n) \<and>
   ParseUnsignedDecimal (to_string (unat n)) = Some n"
proof -
  have "of_nat k = n \<longleftrightarrow> k = unat n" if "k < 2 ^ 64" for k
    using that by (auto simp: unat_of_nat take_bit_nat_eq_self)
  moreover have "unat n < 2 ^ 64" using unsigned_less [of n, where ?'a = nat] by simp
  moreover have "ParseUnsignedDecimal (to_string (unat n)) = Some n" by simp
  ultimately show ?thesis by (simp only: ParseUnsignedDecimal_spec IsUnsignedDecimal_def) auto
qed

text \<open>The digest of an ordered request identifies it: two requests have the same digest exactly
  when method, actor key and payload are all equal, whatever bytes (separators included)
  they contain.\<close>

lemma digest_identifies_request:
  "OrderedRequestDigest m k p = OrderedRequestDigest m' k' p' \<longleftrightarrow> m = m' \<and> k = k' \<and> p = p'"
  by (rule OrderedRequestDigest_inj)

end
