(* ===== verification/Egress.thy ===== *)
theory Egress
  imports Wire Scope OrderedSend Routes
begin

text \<open>
  Outbound calls: \<open>src/host/CallOptionsAdapter.cc\<close>, \<open>src/host/CoServiceCall.cc\<close>, the service
  object of \<open>ICoService.hpp\<close>, and the route gate, the policy gate and \<open>Send\<close> of
  \<open>src/host/AppRuntimeState.cc\<close>. Time points are nanoseconds of the steady clock, the largest
  one is \<open>Deadline::max()\<close>. Whatever is outside (the transport, a policy, a test seam) is a
  function that threads a state \<open>'w\<close>.
\<close>

subsection \<open>Deadlines\<close>

definition deadline_max :: int where
  "deadline_max = 2 ^ 63 - 1"

record CallOptions =
  co_deadline :: "int option"
  co_ordered :: "OrderedStamp option"

record 'w CallEgressHooks =
  consume_sequence :: "(OrderedStamp \<Rightarrow> 'w \<Rightarrow> unit result \<times> 'w) option"
  initiate_io :: "(int \<Rightarrow> 'w \<Rightarrow> unit result \<times> 'w) option"

definition effective_deadline :: "RequestContext option \<Rightarrow> CallOptions \<Rightarrow> int result" where
  "effective_deadline parent opt =
     (case parent of
        None \<Rightarrow>
          (case co_deadline opt of
             None \<Rightarrow> fail InvalidArgument ''top-level call requires a finite deadline''
           | Some d \<Rightarrow> if d = deadline_max
               then fail InvalidArgument ''top-level call requires a finite deadline'' else Inr d)
      | Some p \<Rightarrow>
          let e = (case co_deadline opt of Some d \<Rightarrow> min d (rc_deadline p) | None \<Rightarrow> rc_deadline p)
          in if e = deadline_max
             then fail InvalidArgument ''no finite call budget inherited from parent request''
             else Inr e)"

definition start_io :: "(int \<Rightarrow> 'w \<Rightarrow> unit result \<times> 'w) \<Rightarrow> int \<Rightarrow> 'w \<Rightarrow> int result \<times> 'w" where
  "start_io io d w = (case io d w of (Inl e, w') \<Rightarrow> (Inl e, w') | (Inr _, w') \<Rightarrow> (Inr d, w'))"

definition AdaptCallOptions :: "int \<Rightarrow> RequestContext option \<Rightarrow> CallOptions \<Rightarrow> 'w CallEgressHooks \<Rightarrow> 'w
    \<Rightarrow> int result \<times> 'w" where
  "AdaptCallOptions now parent opt h w =
     (case effective_deadline parent opt of
        Inl e \<Rightarrow> (Inl e, w)
      | Inr d \<Rightarrow>
          if d \<le> now then (fail TimedOut ''call budget already expired before egress io'', w)
          else case initiate_io h of
              None \<Rightarrow> (fail RuntimeUnavailable ''egress io hook not installed'', w)
            | Some io \<Rightarrow>
                (case co_ordered opt of
                   None \<Rightarrow> start_io io d w
                 | Some st \<Rightarrow>
                     (case consume_sequence h of
                        None \<Rightarrow> (fail InvalidArgument ''ordered call requires a sequence consumer hook'', w)
                      | Some consume \<Rightarrow>
                          (case consume st w of
                             (Inl e, w') \<Rightarrow> (Inl e, w')
                           | (Inr _, w') \<Rightarrow> start_io io d w'))))"

subsection \<open>The service object and \<open>_CallSend\<close>\<close>

text \<open>The process state a call touches: the live sessions, the counter of request ids, and
  whatever lies behind the send function.\<close>

record 'x CallWorld =
  cw_sessions :: SessionTable
  s_call_seq :: u64
  cw_ext :: 'x

type_synonym 'x RpcSendFn = "RpcEnvelope \<Rightarrow> int \<Rightarrow> 'x CallWorld \<Rightarrow> RpcEnvelope result \<times> 'x CallWorld"

record 'x ICoService =
  m_object_id :: nat
  m_actor_key :: "string option"
  m_send :: "'x RpcSendFn option"

definition unhosted :: "'x ICoService" where
  "unhosted = \<lparr>m_object_id = 0, m_actor_key = None, m_send = None\<rparr>"

definition bind_runtime :: "nat \<Rightarrow> string option \<Rightarrow> 'x RpcSendFn option \<Rightarrow> 'x ICoService \<Rightarrow> 'x ICoService" where
  "bind_runtime i key send s = s\<lparr>m_object_id := i, m_actor_key := key, m_send := send\<rparr>"

definition NextRequestId :: "'x ICoService \<Rightarrow> 'x CallWorld \<Rightarrow> string \<times> 'x CallWorld" where
  "NextRequestId s w =
     (''req-'' @ to_string (m_object_id s) @ ''-'' @ to_string (unat (s_call_seq w + 1)),
      w\<lparr>s_call_seq := s_call_seq w + 1\<rparr>)"

fun add_custom :: "(string \<times> string) list \<Rightarrow> RouteFields \<Rightarrow> (string \<times> string) list result" where
  "add_custom meta [] = Inr meta"
| "add_custom meta ((k, v) # cs) =
     (if k = [] \<or> 64 < length k \<or> 256 < length v \<or> 16 \<le> length meta
      then fail InvalidArgument ''call: custom route field out of bounds''
      else add_custom (meta @ [(''route.'' @ k, v)]) cs)"

definition ordered_metadata :: "OrderedGrant \<Rightarrow> OrderedStamp \<Rightarrow> (string \<times> string) list" where
  "ordered_metadata g stamp =
     [(''fw.producer_id'', g_producer_id g), (''fw.producer_epoch'', g_producer_epoch g),
      (''fw.receiver_epoch'', g_receiver_epoch g),
      (''fw.sequence'', to_string (unat (stamp_sequence stamp)))]"

fun bound_custom :: "(string \<times> string) list \<Rightarrow> string" where
  "bound_custom [] = []"
| "bound_custom ((k, v) # kvs) =
     (if starts_with ''route.'' k then k @ ''='' @ v @ [CHR 0x0A] @ bound_custom kvs
      else bound_custom kvs)"

definition bound_content :: "OrderedGrant \<Rightarrow> RpcEnvelope \<Rightarrow> BoundContent" where
  "bound_content g env =
     \<lparr>bc_service = v_service env, bc_method = v_method env, bc_actor_key = g_actor_key g,
      bc_custom = bound_custom (v_metadata env), bc_request_bytes = v_payload env\<rparr>"

text \<open>The session a stamp points back to, when it is still alive.\<close>

definition lock_session :: "OrderedStamp \<Rightarrow> 'x CallWorld \<Rightarrow> (nat \<times> OrderedSession) option" where
  "lock_session stamp w =
     (case stamp of None \<Rightarrow> None
      | Some r \<Rightarrow> map_option (Pair (tr_session r)) (map_of (live (cw_sessions w)) (tr_session r)))"

definition consume_hook :: "details_check \<Rightarrow> nat \<Rightarrow> RpcEnvelope
    \<Rightarrow> OrderedStamp \<Rightarrow> 'x CallWorld \<times> RpcEnvelope option \<Rightarrow> unit result \<times> ('x CallWorld \<times> RpcEnvelope option)" where
  "consume_hook VD a env stamp ws =
     (case map_of (live (cw_sessions (fst ws))) a of
        None \<Rightarrow> (fail InvalidArgument ''ordered stamp not issued by this session'', ws)
      | Some s \<Rightarrow>
          (case BindForSend VD a stamp (bound_content (s_grant s) env) s of
             (r, s') \<Rightarrow> (r, ((fst ws)\<lparr>cw_sessions := (cw_sessions (fst ws))\<lparr>live :=
                               AList.update a s' (live (cw_sessions (fst ws)))\<rparr>\<rparr>, snd ws))))"

definition io_hook :: "'x RpcSendFn \<Rightarrow> RpcEnvelope \<Rightarrow> int
    \<Rightarrow> 'x CallWorld \<times> RpcEnvelope option \<Rightarrow> unit result \<times> ('x CallWorld \<times> RpcEnvelope option)" where
  "io_hook send env d ws =
     (case send env d (fst ws) of
        (Inl e, w') \<Rightarrow> (Inl e, (w', snd ws))
      | (Inr reply, w') \<Rightarrow> (Inr (), (w', Some reply)))"

text \<open>The part after the envelope is complete: adapt, consume, send, check the reply.\<close>

definition finish_call :: "details_check \<Rightarrow> int \<Rightarrow> 'x ICoService \<Rightarrow> RequestContext \<Rightarrow> CallOptions
    \<Rightarrow> nat option \<Rightarrow> RpcEnvelope \<Rightarrow> 'x CallWorld \<Rightarrow> string result \<times> 'x CallWorld" where
  "finish_call VD now s ctx opt session env w =
     (let h = \<lparr>consume_sequence = map_option (\<lambda>a. consume_hook VD a env) session,
               initiate_io = map_option (\<lambda>send. io_hook send env) (m_send s)\<rparr>
      in case AdaptCallOptions now (Some ctx) opt h (w, None) of
          (Inl e, (w', _)) \<Rightarrow> (Inl e, w')
        | (Inr _, (w', None)) \<Rightarrow> (fail InternalError ''call: egress produced no reply envelope'', w')
        | (Inr _, (w', Some reply)) \<Rightarrow>
            if v_request_id reply \<noteq> v_request_id env \<or>
               v_response_schema reply \<noteq> v_response_schema env
            then (fail ProtocolError ''call: reply envelope mismatch'', w')
            else (Inr (v_payload reply), w'))"

definition CallSend :: "details_check \<Rightarrow> int \<Rightarrow> 'x ICoService \<Rightarrow> RequestContext result
    \<Rightarrow> string \<Rightarrow> string \<Rightarrow> string \<Rightarrow> string \<Rightarrow> string \<Rightarrow> RouteFields \<Rightarrow> CallOptions \<Rightarrow> 'x CallWorld
    \<Rightarrow> string result \<times> 'x CallWorld" where
  "CallSend VD now s current service mth req_schema rsp_schema payload custom opt w =
     (if m_object_id s = 0
      then (fail RuntimeUnavailable ''call: service is not hosted by CoApp'', w)
      else case current of
          Inl e \<Rightarrow> (Inl e, w)
        | Inr ctx \<Rightarrow>
            let (rid, w1) = (case co_ordered opt of
                               Some st \<Rightarrow> (stamp_request_id st, w)
                             | None \<Rightarrow> NextRequestId s w);
                env = \<lparr>v_service = service, v_method = mth, v_request_id = rid,
                       v_request_schema = req_schema, v_response_schema = rsp_schema,
                       v_metadata = [], v_payload = payload\<rparr>
            in case add_custom [] custom of
                Inl e \<Rightarrow> (Inl e, w1)
              | Inr meta \<Rightarrow>
                  (case co_ordered opt of
                     None \<Rightarrow> finish_call VD now s ctx opt None (env\<lparr>v_metadata := meta\<rparr>) w1
                   | Some st \<Rightarrow>
                       (case lock_session st w1 of
                          None \<Rightarrow> (fail InvalidArgument ''call: ordered stamp has no live session'', w1)
                        | Some (a, x) \<Rightarrow>
                            finish_call VD now s ctx opt (Some a)
                              (env\<lparr>v_metadata := meta @ ordered_metadata (s_grant x) st\<rparr>) w1)))"

subsection \<open>What adaptation does to the outside\<close>






subsection \<open>What a call hands to its send function\<close>

lemma add_custom_ok_iff:
  "add_custom meta cs = Inr m \<longleftrightarrow>
     (\<forall>c \<in> set cs. field_ok c) \<and> (cs = [] \<or> length meta + length cs \<le> 16) \<and>
     m = meta @ map (\<lambda>(k, v). (''route.'' @ k, v)) cs"
proof (induction cs arbitrary: meta)
  case Nil
  then show ?case by auto
next
  case (Cons c cs)
  show ?case
    by (cases c) (auto simp: Cons.IH field_ok_def not_le not_less Suc_le_eq)
qed

lemma parse_ordered_metadata:
  assumes "g_producer_id g \<noteq> []" and "g_producer_epoch g \<noteq> []" and "g_receiver_epoch g \<noteq> []"
  shows "parse_metadata p (ordered_metadata g st) =
    Inr (p\<lparr>pm_producer_id := g_producer_id g, pm_producer_epoch := g_producer_epoch g,
       pm_receiver_epoch := g_receiver_epoch g, pm_sequence := stamp_sequence st,
       pm_has_sequence := True\<rparr>)"
  using assms
  by (simp add: ordered_metadata_def kRoutePrefix_def kFwTraceId_def starts_with_def IsOrderedFwKey_def)

lemma parse_call_metadata:
  assumes "add_custom [] custom = Inr meta"
  shows "parse_metadata no_metadata meta = Inr (no_metadata\<lparr>pm_custom := custom\<rparr>)"
    and "g_producer_id g \<noteq> [] \<Longrightarrow> g_producer_epoch g \<noteq> [] \<Longrightarrow> g_receiver_epoch g \<noteq> [] \<Longrightarrow>
      parse_metadata no_metadata (meta @ ordered_metadata g st) =
      Inr \<lparr>pm_custom = custom, pm_trace_id = None, pm_producer_id = g_producer_id g,
        pm_producer_epoch = g_producer_epoch g, pm_receiver_epoch = g_receiver_epoch g,
        pm_sequence = stamp_sequence st, pm_has_sequence = True\<rparr>"
proof -
  have f: "\<forall>c \<in> set custom. field_ok c" "length (pm_custom no_metadata) + length custom \<le> 16"
    and m: "meta = map (\<lambda>(k, v). (''route.'' @ k, v)) custom"
    using assms by (auto simp: add_custom_ok_iff no_metadata_def)
  note R = parse_routes [OF f, folded m]
  show "parse_metadata no_metadata meta = Inr (no_metadata\<lparr>pm_custom := custom\<rparr>)"
    using R [of "[]"] by (simp add: no_metadata_def)
  assume "g_producer_id g \<noteq> []" "g_producer_epoch g \<noteq> []" "g_receiver_epoch g \<noteq> []"
  then show "parse_metadata no_metadata (meta @ ordered_metadata g st) =
      Inr \<lparr>pm_custom = custom, pm_trace_id = None, pm_producer_id = g_producer_id g,
        pm_producer_epoch = g_producer_epoch g, pm_receiver_epoch = g_receiver_epoch g,
        pm_sequence = stamp_sequence st, pm_has_sequence = True\<rparr>"
    using R [of "ordered_metadata g st"] by (simp add: parse_ordered_metadata no_metadata_def)
qed

text \<open>A send function that records what it is given and answers as it likes.\<close>

definition recorder :: "(RpcEnvelope \<Rightarrow> int \<Rightarrow> RpcEnvelope result) \<Rightarrow> (RpcEnvelope \<times> int) list RpcSendFn" where
  "recorder f env d w = (f env d, w\<lparr>cw_ext := cw_ext w @ [(env, d)]\<rparr>)"

definition call_answer :: "RpcEnvelope \<Rightarrow> RpcEnvelope result \<Rightarrow> string result" where
  "call_answer env r =
     (case r of
        Inl e \<Rightarrow> Inl e
      | Inr reply \<Rightarrow>
          if v_request_id reply \<noteq> v_request_id env \<or> v_response_schema reply \<noteq> v_response_schema env
          then fail ProtocolError ''call: reply envelope mismatch'' else Inr (v_payload reply))"

definition with_session :: "nat \<Rightarrow> OrderedSession \<Rightarrow> 'x CallWorld \<Rightarrow> 'x CallWorld" where
  "with_session a x w = w\<lparr>cw_sessions := (cw_sessions w)\<lparr>live := AList.update a x (live (cw_sessions w))\<rparr>\<rparr>"

lemma with_session_simps [simp]:
  "cw_ext (with_session a x w) = cw_ext w" "s_call_seq (with_session a x w) = s_call_seq w"
  "map_of (live (cw_sessions (with_session a x w))) b = (if b = a then Some x else map_of (live (cw_sessions w)) b)"
  by (simp_all add: with_session_def map_of_update)

lemma finish_call_plain:
  assumes "co_ordered opt = None" and "m_send s = Some (recorder f)"
  shows "finish_call VD now s ctx opt None env w =
    (case effective_deadline (Some ctx) opt of
       Inl e \<Rightarrow> (Inl e, w)
     | Inr d \<Rightarrow> if d \<le> now then (fail TimedOut ''call budget already expired before egress io'', w)
         else (call_answer env (f env d), w\<lparr>cw_ext := cw_ext w @ [(env, d)]\<rparr>))"
  using assms
  by (auto simp: finish_call_def AdaptCallOptions_def start_io_def io_hook_def recorder_def
      call_answer_def Let_def fail_def split: sum.splits)

lemma finish_call_ordered:
  fixes VD env
  assumes "co_ordered opt = Some st" and "m_send s = Some (recorder f)"
    and "map_of (live (cw_sessions w)) a = Some x"
  defines "b \<equiv> BindForSend VD a st (bound_content (s_grant x) env) x"
  shows "finish_call VD now s ctx opt (Some a) env w =
    (case effective_deadline (Some ctx) opt of
       Inl e \<Rightarrow> (Inl e, w)
     | Inr d \<Rightarrow> if d \<le> now then (fail TimedOut ''call budget already expired before egress io'', w)
         else (case fst b of
            Inl e \<Rightarrow> (Inl e, with_session a (snd b) w)
          | Inr _ \<Rightarrow> (call_answer env (f env d),
              (with_session a (snd b) w)\<lparr>cw_ext := cw_ext w @ [(env, d)]\<rparr>)))"
  using assms(1-3) unfolding b_def
  by (auto simp: finish_call_def AdaptCallOptions_def start_io_def io_hook_def recorder_def
      call_answer_def consume_hook_def with_session_def Let_def fail_def
      split: sum.splits prod.splits)

subsection \<open>Properties\<close>


text \<open>C16: A call sends what it was asked to send: over any send function, a call either sends
  nothing and fails, or hands over exactly one envelope, before its finite deadline, with the
  requested service, method, schemas and payload. Its metadata are, on the receiving side's own
  parser, exactly the caller's route fields and, for an ordered call, the producer, epochs and
  sequence of the stamp's session; then the session has accepted the bind of exactly this
  content to this stamp before the send. The answer is the reply's payload only when the reply
  echoes the request id and the response schema.\<close>

theorem call_sends_faithfully:
  "case CallSend VD now (s\<lparr>m_send := Some (recorder f)\<rparr>) current service mth rq rs payload custom opt w of
     (r, w') \<Rightarrow>
       \<not> is_ok r \<and> cw_ext w' = cw_ext w \<or>
       (\<exists>ctx env d. current = Inr ctx \<and> cw_ext w' = cw_ext w @ [(env, d)] \<and>
          effective_deadline (Some ctx) opt = Inr d \<and> now < d \<and>
          v_service env = service \<and> v_method env = mth \<and> v_request_schema env = rq \<and>
          v_response_schema env = rs \<and> v_payload env = payload \<and>
          r = call_answer env (f env d) \<and>
          (case co_ordered opt of
             None \<Rightarrow> parse_metadata no_metadata (v_metadata env) = Inr (no_metadata\<lparr>pm_custom := custom\<rparr>)
           | Some st \<Rightarrow> (\<exists>a x. lock_session st w = Some (a, x) \<and>
               v_request_id env = stamp_request_id st \<and>
               is_ok (fst (BindForSend VD a st (bound_content (s_grant x) env) x)) \<and>
               map_of (live (cw_sessions w')) a =
                 Some (snd (BindForSend VD a st (bound_content (s_grant x) env) x)) \<and>
               (g_producer_id (s_grant x) \<noteq> [] \<and> g_producer_epoch (s_grant x) \<noteq> [] \<and>
                g_receiver_epoch (s_grant x) \<noteq> [] \<longrightarrow>
                parse_metadata no_metadata (v_metadata env) =
                  Inr \<lparr>pm_custom = custom, pm_trace_id = None,
                    pm_producer_id = g_producer_id (s_grant x),
                    pm_producer_epoch = g_producer_epoch (s_grant x),
                    pm_receiver_epoch = g_receiver_epoch (s_grant x),
                    pm_sequence = stamp_sequence st, pm_has_sequence = True\<rparr>))))"
proof -
  let ?s = "s\<lparr>m_send := Some (recorder f)\<rparr>"
  have send: "m_send ?s = Some (recorder f)" by simp
  show ?thesis
  proof (cases "m_object_id s = 0 \<or> \<not> is_ok current \<or> \<not> is_ok (add_custom [] custom)")
    case True
    then show ?thesis
      by (auto simp: CallSend_def NextRequestId_def Let_def is_ok_def fail_def split: sum.splits option.splits prod.splits)
  next
    case False
    then obtain ctx meta where cur: "current = Inr ctx" and id: "m_object_id s \<noteq> 0"
      and meta: "add_custom [] custom = Inr meta" by (auto simp: is_ok_def split: sum.splits)
    note P = parse_call_metadata [OF meta]
    show ?thesis
    proof (cases "co_ordered opt")
      case None
      then show ?thesis using cur id meta P
        by (auto simp: CallSend_def NextRequestId_def Let_def finish_call_plain [OF None send] is_ok_def fail_def
            split: sum.splits)
    next
      case (Some st)
      show ?thesis
      proof (cases "lock_session st w")
        case None
        then show ?thesis using cur id meta Some by (simp add: CallSend_def Let_def)
      next
        case lk: (Some ax)
        obtain a x where ax: "ax = (a, x)" by (cases ax)
        with lk have l: "map_of (live (cw_sessions w)) a = Some x"
          by (auto simp: lock_session_def split: option.splits)
        show ?thesis using cur id meta Some lk ax P
          by (auto simp: CallSend_def Let_def finish_call_ordered [OF Some send l] is_ok_def fail_def
              split: sum.splits)
      qed
    qed
  qed
qed

definition demo_ctx :: RequestContext where
  "demo_ctx = \<lparr>rc_request_id = ''r'', rc_actor_key = None, rc_deadline = 100, rc_peer_principal = ''p'',
     rc_trace_id = None\<rparr>"

definition demo_opts :: CallOptions where
  "demo_opts = \<lparr>co_deadline = None, co_ordered = None\<rparr>"

definition demo_world :: "(RpcEnvelope \<times> int) list CallWorld" where
  "demo_world = \<lparr>cw_sessions = no_sessions, s_call_seq = 0, cw_ext = []\<rparr>"

definition echo :: "RpcEnvelope \<Rightarrow> int \<Rightarrow> RpcEnvelope result" where
  "echo env d = Inr env"

theorem call_sends_faithfully_witness:
  "case CallSend (\<lambda>_. Inr ()) 1 (unhosted\<lparr>m_object_id := 7, m_send := Some (recorder echo)\<rparr>) (Inr demo_ctx)
       ''svc'' ''m'' ''q'' ''a'' ''body'' [(''zone'', ''1'')] demo_opts demo_world of
     (r, w') \<Rightarrow> r = Inr ''body'' \<and>
       (\<exists>env d. cw_ext w' = [(env, d)] \<and>
         parse_metadata no_metadata (v_metadata env) = Inr (no_metadata\<lparr>pm_custom := [(''zone'', ''1'')]\<rparr>))"
proof -
  let ?c = "CallSend (\<lambda>_. Inr ()) 1 (unhosted\<lparr>m_object_id := 7, m_send := Some (recorder echo)\<rparr>) (Inr demo_ctx)
       ''svc'' ''m'' ''q'' ''a'' ''body'' [(''zone'', ''1'')] demo_opts demo_world"
  have "fst ?c = Inr ''body''" by code_simp
  moreover have "cw_ext demo_world = []" "co_ordered demo_opts = None"
    by (simp_all add: demo_world_def demo_opts_def)
  ultimately show ?thesis
    using call_sends_faithfully [where VD = "\<lambda>_. Inr ()" and now = 1 and s = "unhosted\<lparr>m_object_id := 7\<rparr>"
      and f = echo and current = "Inr demo_ctx" and service = "''svc''"
      and mth = "''m''" and rq = "''q''"
      and rs = "''a''" and payload = "''body''" and custom = "[(''zone'', ''1'')]" and opt = demo_opts
      and w = demo_world]
    by (auto simp: is_ok_def split: prod.splits)
qed

text \<open>The bound route fields do not identify the request: field values may contain the
  separators \<open>_CallSend\<close> joins them with, so two different lists of accepted route fields are
  bound as the same content. A resend of a sent ticket with the other list is therefore accepted
  as the same request and leaves with different metadata.\<close>

lemma bound_custom_ambiguous:
  "is_ok (add_custom [] [(''a'', ''1'' @ [CHR 0x0A] @ ''route.b=2'')]) \<and>
   is_ok (add_custom [] [(''a'', ''1''), (''b'', ''2'')]) \<and>
   (\<forall>g env. bound_content g (env\<lparr>v_metadata := [(''route.a'', ''1'' @ [CHR 0x0A] @ ''route.b=2'')]\<rparr>) =
      bound_content g (env\<lparr>v_metadata := [(''route.a'', ''1''), (''route.b'', ''2'')]\<rparr>))"
  by (simp add: bound_content_def starts_with_def)

end
