(* ===== verification/AppState.thy ===== *)
theory AppState
  imports Egress
begin

text \<open>
  The runtime state of an application: \<open>internal/AppRuntimeState.hpp\<close>,
  \<open>src/host/AppRuntimeState.cc\<close> and the policy interface of \<open>RpcPolicy.hpp\<close>. The egress, the
  test seam and the policy are functions that thread an outside state \<open>'w\<close>; the dispatcher is a
  value of type \<open>'d\<close>. \<open>FindRoute\<close> reads the clock at \<open>t0\<close>, the check after the policy at \<open>t1\<close>.
\<close>

subsection \<open>State\<close>

datatype policy_kind = Allow | Reject

record RpcPolicyDecision =
  pd_kind :: policy_kind
  pd_tightened_deadline :: "int option"
  pd_reject_error :: error

record RpcCallView =
  vw_target :: RpcAddress
  vw_request :: RpcEnvelope
  vw_deadline :: int

type_synonym 'w egress_fn = "RpcAddress \<Rightarrow> RpcEnvelope \<Rightarrow> int \<Rightarrow> 'w \<Rightarrow> RpcEnvelope result \<times> 'w"

record ('w, 'd) AppRuntimeState =
  as_routes :: "(string \<times> RpcAddress) list"
  as_dynamic_routes :: "DynamicRouteTable option"
  as_rpc_policy :: "(RpcCallView \<Rightarrow> 'w \<Rightarrow> RpcPolicyDecision result \<times> 'w) option"
  as_default_egress :: "'w egress_fn option"
  as_seam_send :: "'w egress_fn option"
  as_dispatcher :: "'d option"
  as_tables :: "(string \<times> nat) list"
  as_instances :: "(string \<times> nat) list"
  as_registry :: "nat option"

definition FindRoute :: "int \<Rightarrow> string \<Rightarrow> ('w, 'd) AppRuntimeState \<Rightarrow> RpcAddress result \<times> ('w, 'd) AppRuntimeState" where
  "FindRoute now service st =
     (case as_dynamic_routes st of
        Some t \<Rightarrow>
          if HasService service t
          then (case Resolve now service t of (r, t') \<Rightarrow> (r, st\<lparr>as_dynamic_routes := Some t'\<rparr>))
          else (case map_of (as_routes st) service of
              None \<Rightarrow> (fail NotFound (''find_route: no configured target for service '' @ quoted service), st)
            | Some a \<Rightarrow> (Inr a, st))
      | None \<Rightarrow>
          (case map_of (as_routes st) service of
             None \<Rightarrow> (fail NotFound (''find_route: no configured target for service '' @ quoted service), st)
           | Some a \<Rightarrow> (Inr a, st)))"

text \<open>The policy gate: the deadline to send with, or the refusal.\<close>

definition preflight :: "int \<Rightarrow> RpcAddress \<Rightarrow> RpcEnvelope \<Rightarrow> int \<Rightarrow> ('w, 'd) AppRuntimeState \<Rightarrow> 'w
    \<Rightarrow> int result \<times> 'w" where
  "preflight t1 target env deadline st w =
     (case as_rpc_policy st of
        None \<Rightarrow> (Inr deadline, w)
      | Some p \<Rightarrow>
          (case p \<lparr>vw_target = target, vw_request = env, vw_deadline = deadline\<rparr> w of
             (Inl e, w') \<Rightarrow> (Inl e, w')
           | (Inr d, w') \<Rightarrow>
               if pd_kind d = Reject then (Inl (pd_reject_error d), w')
               else
                 let dl = (case pd_tightened_deadline d of
                             Some x \<Rightarrow> if x < deadline then x else deadline | None \<Rightarrow> deadline)
                 in if dl \<le> t1
                    then (fail TimedOut ''rpc policy tightened deadline already expired'', w')
                    else (Inr dl, w')))"

definition AppSend :: "int \<Rightarrow> int \<Rightarrow> RpcEnvelope \<Rightarrow> int \<Rightarrow> ('w, 'd) AppRuntimeState \<Rightarrow> 'w
    \<Rightarrow> RpcEnvelope result \<times> ('w, 'd) AppRuntimeState \<times> 'w" where
  "AppSend t0 t1 env deadline st w =
     (case FindRoute t0 (v_service env) st of
        (Inl e, st') \<Rightarrow> (Inl e, st', w)
      | (Inr target, st') \<Rightarrow>
          (case preflight t1 target env deadline st' w of
             (Inl e, w') \<Rightarrow> (Inl e, st', w')
           | (Inr dl, w') \<Rightarrow>
               (case as_default_egress st' of
                  Some g \<Rightarrow> (case g target env dl w' of (r, w'') \<Rightarrow> (r, st', w''))
                | None \<Rightarrow>
                    (case as_seam_send st' of
                       None \<Rightarrow> (fail RuntimeUnavailable ''CoApp: rpc_send egress not configured'', st', w')
                     | Some g \<Rightarrow> (case g target env dl w' of (r, w'') \<Rightarrow> (r, st', w''))))))"

text \<open>Tables, instances and the registry are named by their addresses.\<close>

definition Publish :: "'d \<Rightarrow> (string \<times> nat) list \<Rightarrow> (string \<times> nat) list \<Rightarrow> nat option
    \<Rightarrow> ('w, 'd) AppRuntimeState \<Rightarrow> ('w, 'd) AppRuntimeState" where
  "Publish d t inst reg st =
     st\<lparr>as_tables := t, as_instances := inst, as_registry := reg, as_dispatcher := Some d\<rparr>"

definition Release :: "('w, 'd) AppRuntimeState \<Rightarrow> ('w, 'd) AppRuntimeState" where
  "Release st = st\<lparr>as_dispatcher := None, as_tables := [], as_instances := [], as_registry := None\<rparr>"

text \<open>The gate of \<open>Dispatch\<close>: the dispatcher to run outside the lock, if published.\<close>

definition dispatch_gate :: "('w, 'd) AppRuntimeState \<Rightarrow> 'd result" where
  "dispatch_gate st =
     (case as_dispatcher st of
        None \<Rightarrow> fail RuntimeUnavailable ''dispatch runtime not published or already released''
      | Some d \<Rightarrow> Inr d)"

subsection \<open>Properties\<close>

text \<open>An egress and a policy that record what they are asked, for arbitrary answers.\<close>

datatype send_event = Asked RpcCallView | Left RpcAddress RpcEnvelope int

definition recording_state :: "(string \<times> RpcAddress) list \<Rightarrow> DynamicRouteTable option
    \<Rightarrow> (RpcCallView \<Rightarrow> RpcPolicyDecision result) option \<Rightarrow> (RpcAddress \<Rightarrow> RpcEnvelope \<Rightarrow> int \<Rightarrow> RpcEnvelope result)
    \<Rightarrow> (send_event list, unit) AppRuntimeState" where
  "recording_state rs dyn pol out =
     \<lparr>as_routes = rs, as_dynamic_routes = dyn,
      as_rpc_policy = map_option (\<lambda>p v tr. (p v, tr @ [Asked v])) pol,
      as_default_egress = Some (\<lambda>a env d tr. (out a env d, tr @ [Left a env d])),
      as_seam_send = None, as_dispatcher = None, as_tables = [], as_instances = [], as_registry = None\<rparr>"

definition route_of :: "(string \<times> RpcAddress) list \<Rightarrow> DynamicRouteTable option \<Rightarrow> int \<Rightarrow> string
    \<Rightarrow> RpcAddress result" where
  "route_of rs dyn now service =
     (case dyn of
        Some t \<Rightarrow> if HasService service t then fst (Resolve now service t)
          else (case map_of rs service of None \<Rightarrow> fail NotFound (''find_route: no configured target for service '' @ quoted service)
                | Some a \<Rightarrow> Inr a)
      | None \<Rightarrow> (case map_of rs service of None \<Rightarrow> fail NotFound (''find_route: no configured target for service '' @ quoted service)
                | Some a \<Rightarrow> Inr a))"

lemma FindRoute_recording:
  "\<exists>dyn'. FindRoute now service (recording_state rs dyn pol out) =
     (route_of rs dyn now service, recording_state rs dyn' pol out)"
proof (cases dyn)
  case None
  then show ?thesis
    by (intro exI [of _ dyn]) (simp add: FindRoute_def recording_state_def route_of_def split: option.split)
next
  case (Some t)
  show ?thesis
  proof (cases "HasService service t")
    case True
    with Some show ?thesis
      by (intro exI [of _ "Some (snd (Resolve now service t))"])
         (simp add: FindRoute_def recording_state_def route_of_def split: prod.split)
  next
    case False
    with Some show ?thesis
      by (intro exI [of _ dyn]) (simp add: FindRoute_def recording_state_def route_of_def split: option.split)
  qed
qed

definition policy_answer :: "int \<Rightarrow> int \<Rightarrow> RpcPolicyDecision result \<Rightarrow> int result" where
  "policy_answer t1 dl r =
     (case r of
        Inl e \<Rightarrow> Inl e
      | Inr d \<Rightarrow>
          if pd_kind d = Reject then Inl (pd_reject_error d)
          else (let x = (case pd_tightened_deadline d of None \<Rightarrow> dl | Some t \<Rightarrow> min t dl)
                in if x \<le> t1 then fail TimedOut ''rpc policy tightened deadline already expired'' else Inr x))"

lemma preflight_recording:
  "preflight t1 a env dl (recording_state rs dyn pol out) tr =
     (case pol of
        None \<Rightarrow> (Inr dl, tr)
      | Some p \<Rightarrow> (policy_answer t1 dl (p \<lparr>vw_target = a, vw_request = env, vw_deadline = dl\<rparr>),
          tr @ [Asked \<lparr>vw_target = a, vw_request = env, vw_deadline = dl\<rparr>]))"
  by (auto simp: preflight_def recording_state_def policy_answer_def Let_def min_def fail_def
      split: option.splits sum.splits)

lemma AppSend_recording:
  "\<exists>st'. AppSend t0 t1 env dl (recording_state rs dyn pol out) [] =
     (case route_of rs dyn t0 (v_service env) of
        Inl e \<Rightarrow> (Inl e, st', [])
      | Inr a \<Rightarrow>
          (case preflight t1 a env dl (recording_state rs dyn pol out) [] of
             (Inl e, tr) \<Rightarrow> (Inl e, st', tr)
           | (Inr x, tr) \<Rightarrow> (out a env x, st', tr @ [Left a env x])))"
proof -
  obtain dyn' where F: "FindRoute t0 (v_service env) (recording_state rs dyn pol out) =
      (route_of rs dyn t0 (v_service env), recording_state rs dyn' pol out)"
    using FindRoute_recording by blast
  have p: "preflight t1 a env dl (recording_state rs dyn' pol out) [] =
      preflight t1 a env dl (recording_state rs dyn pol out) []" for a
    by (simp only: preflight_recording)
  have g: "as_default_egress (recording_state rs dyn' pol out) =
      Some (\<lambda>a env d tr. (out a env d, tr @ [Left a env d]))"
    by (simp add: recording_state_def)
  show ?thesis
    by (intro exI [of _ "recording_state rs dyn' pol out"])
       (simp add: AppSend_def F p g split: sum.split prod.split)
qed

text \<open>C18: Outbound sends pass the route gate and the policy gate: nothing leaves for a service
  without a route, and a service that is configured dynamically never falls back to a static
  address. The policy, if any, is asked once, after the route is resolved and before anything is
  sent, about exactly this target, envelope and deadline; it can refuse or shorten the deadline
  but never extend it; and a deadline it shortened into the past sends nothing.\<close>

theorem send_gated:
  "case AppSend t0 t1 env dl (recording_state rs dyn pol out) [] of
    (r, st', tr) \<Rightarrow>
      (case route_of rs dyn t0 (v_service env) of
         Inl e \<Rightarrow> r = Inl e \<and> tr = []
       | Inr a \<Rightarrow>
           (case pol of
              None \<Rightarrow> tr = [Left a env dl] \<and> r = out a env dl
            | Some p \<Rightarrow>
                (let v = \<lparr>vw_target = a, vw_request = env, vw_deadline = dl\<rparr>
                 in case p v of
                      Inl e \<Rightarrow> r = Inl e \<and> tr = [Asked v]
                    | Inr d \<Rightarrow>
                        if pd_kind d = Reject then r = Inl (pd_reject_error d) \<and> tr = [Asked v]
                        else (let x = (case pd_tightened_deadline d of None \<Rightarrow> dl | Some t \<Rightarrow> min t dl)
                              in if x \<le> t1 then code_of r = Some TimedOut \<and> tr = [Asked v]
                                 else r = out a env x \<and> x \<le> dl \<and> tr = [Asked v, Left a env x]))))"
proof -
  obtain st' where A: "AppSend t0 t1 env dl (recording_state rs dyn pol out) [] =
     (case route_of rs dyn t0 (v_service env) of
        Inl e \<Rightarrow> (Inl e, st', [])
      | Inr a \<Rightarrow>
          (case preflight t1 a env dl (recording_state rs dyn pol out) [] of
             (Inl e, tr) \<Rightarrow> (Inl e, st', tr)
           | (Inr x, tr) \<Rightarrow> (out a env x, st', tr @ [Left a env x])))"
    using AppSend_recording by blast
  show ?thesis
    unfolding A preflight_recording
    by (auto simp: policy_answer_def Let_def fail_def MakeError_def split: sum.split option.split)
qed

end
