(* ===== verification/Bridge.thy ===== *)
theory Bridge
  imports AppState
begin

text \<open>
  The HTTP header bridge: \<open>internal/RpcHttpBridge.hpp\<close> and \<open>src/host/RpcHttpBridge.cc\<close> (the
  legacy header profile; the body profiles hand the envelope to infra's \<open>rpc::Client\<close>, which is
  the parameter \<open>rpc_call\<close>). Infra's error enumeration is numbered by the parameter \<open>N\<close> and
  read back by \<open>C\<close> (\<open>static_cast\<close>); its HTTP client is the record \<open>HttpClient\<close> of functions. An
  exception that leaves a function is \<open>None\<close>.
\<close>

subsection \<open>Headers\<close>

type_synonym headers = "(string \<times> string) list"

record HttpResponse =
  hr_status_code :: int
  hr_headers :: headers
  hr_body :: string

record HttpRequest =
  hq_url :: string
  hq_headers :: headers
  hq_body :: string

definition kMetaPrefix :: string where
  "kMetaPrefix = ''x-bbt-meta-''"

fun HeaderOf :: "headers \<Rightarrow> string \<Rightarrow> string option" where
  "HeaderOf [] n = None"
| "HeaderOf ((k, v) # hs) n = (if k = n then Some v else HeaderOf hs n)"

definition request_headers :: "RpcEnvelope \<Rightarrow> headers" where
  "request_headers env =
     [(''x-bbt-service'', v_service env), (''x-bbt-method'', v_method env),
      (''x-bbt-request-id'', v_request_id env), (''x-bbt-request-schema'', v_request_schema env),
      (''x-bbt-response-schema'', v_response_schema env)]
     @ map (\<lambda>(k, v). (kMetaPrefix @ k, v)) (v_metadata env)"

definition ToHttpRequest :: "(string \<Rightarrow> headers \<Rightarrow> HttpRequest result) \<Rightarrow> RpcEnvelope \<Rightarrow> string \<Rightarrow> HttpRequest result" where
  "ToHttpRequest build env url =
     (case build url (request_headers env) of
        Inl e \<Rightarrow> Inl e
      | Inr r \<Rightarrow> Inr (r\<lparr>hq_body := v_payload env\<rparr>))"

fun meta_of_headers :: "headers \<Rightarrow> (string \<times> string) list" where
  "meta_of_headers [] = []"
| "meta_of_headers ((k, v) # hs) =
     (if starts_with kMetaPrefix k then (drop (length kMetaPrefix) k, v) # meta_of_headers hs
      else meta_of_headers hs)"

definition EnvelopeFromRequest :: "headers \<Rightarrow> string \<Rightarrow> RpcEnvelope result" where
  "EnvelopeFromRequest hs body =
     (case (HeaderOf hs ''x-bbt-service'', HeaderOf hs ''x-bbt-method'', HeaderOf hs ''x-bbt-request-id'',
            HeaderOf hs ''x-bbt-request-schema'', HeaderOf hs ''x-bbt-response-schema'') of
        (Some s, Some m, Some i, Some q, Some a) \<Rightarrow>
          Inr \<lparr>v_service = s, v_method = m, v_request_id = i, v_request_schema = q,
               v_response_schema = a, v_metadata = meta_of_headers hs, v_payload = body\<rparr>
      | _ \<Rightarrow> fail InvalidArgument ''http bridge: envelope headers incomplete'')"

subsection \<open>\<open>std::stoi\<close>\<close>

definition is_space :: "char \<Rightarrow> bool" where
  "is_space c \<longleftrightarrow> c \<in> {CHR '' '', CHR 0x09, CHR 0x0A, CHR 0x0B, CHR 0x0C, CHR 0x0D}"

text \<open>Leading white space, an optional sign, digits up to the first other character; no digits
  or a value outside \<open>int\<close> throws.\<close>

definition stoi :: "string \<Rightarrow> int option" where
  "stoi s =
     (let t = dropWhile is_space s;
          (neg, u) = (case t of [] \<Rightarrow> (False, t)
             | c # cs \<Rightarrow> if c = CHR ''-'' then (True, cs) else if c = CHR ''+'' then (False, cs) else (False, t));
          ds = takeWhile is_digit u;
          v = (if neg then - int (dec_val ds) else int (dec_val ds))
      in if ds = [] \<or> v < - (2 ^ 31) \<or> 2 ^ 31 \<le> v then None else Some v)"

lemma stoi_to_string: "stoi (to_string n) = (if n < 2 ^ 31 then Some (int n) else None)"
proof -
  obtain c cs where cs: "to_string n = c # cs" by (cases "to_string n") simp_all
  have d: "is_digit c" using to_string_digits [of n] cs by simp
  then have ne: "\<not> is_space c" "c \<noteq> CHR ''-''" "c \<noteq> CHR ''+''"
    by (auto simp: is_digit_def is_space_def)
  have tw: "takeWhile is_digit cs = cs"
    using to_string_digits [of n] cs by (simp add: takeWhile_eq_all_conv)
  have dv: "dec_val (c # cs) = n" using dec_val_to_string [of n] by (simp only: cs)
  show ?thesis unfolding cs stoi_def using ne d by (simp add: Let_def tw dv)
qed

subsection \<open>Responses\<close>

type_synonym code_numbers = "error_code \<Rightarrow> int"
type_synonym code_cast = "int \<Rightarrow> error_code"

definition error_headers :: "infra_domains \<Rightarrow> code_numbers \<Rightarrow> error \<Rightarrow> headers" where
  "error_headers D N e =
     [(''x-bbt-err-code'', int_to_string (N (err_code e))), (''x-bbt-err-domain'', domain_text D e),
      (''x-bbt-err-domain-code'', domain_code_text_of D e), (''x-bbt-err-message'', err_message e)]"

definition ToHttpResponse :: "details_check \<Rightarrow> infra_domains \<Rightarrow> code_numbers \<Rightarrow> RpcEnvelope result \<Rightarrow> HttpResponse" where
  "ToHttpResponse VD D N r =
     (case r of
        Inr env \<Rightarrow> \<lparr>hr_status_code = 200,
          hr_headers = [(''x-bbt-request-id'', v_request_id env), (''x-bbt-response-schema'', v_response_schema env)],
          hr_body = v_payload env\<rparr>
      | Inl e \<Rightarrow> \<lparr>hr_status_code = 400,
          hr_headers = error_headers D N (case ValidateErrorAtBoundary VD e of Inl x \<Rightarrow> x | Inr _ \<Rightarrow> e),
          hr_body = []\<rparr>)"

definition value_or :: "string option \<Rightarrow> string \<Rightarrow> string" where
  "value_or x d = (case x of None \<Rightarrow> d | Some v \<Rightarrow> v)"

text \<open>\<open>infra_domain\<close> is infra's \<open>kErrorDomainInfra\<close>.\<close>

definition EnvelopeFromResponse :: "string \<Rightarrow> code_cast \<Rightarrow> HttpResponse \<Rightarrow> RpcEnvelope result option" where
  "EnvelopeFromResponse infra_domain C res =
     (let hs = hr_headers res in
      if hr_status_code res = 200 then
        Some (Inr (empty_envelope\<lparr>v_request_id := value_or (HeaderOf hs ''x-bbt-request-id'') [],
          v_response_schema := value_or (HeaderOf hs ''x-bbt-response-schema'') [],
          v_payload := hr_body res\<rparr>))
      else
        let rest = \<lambda>c. Some (Inl \<lparr>err_code = c,
              err_domain = Some (value_or (HeaderOf hs ''x-bbt-err-domain'') infra_domain),
              err_domain_code = Some (value_or (HeaderOf hs ''x-bbt-err-domain-code'') []),
              err_message = value_or (HeaderOf hs ''x-bbt-err-message'') ''http bridge: no error message'',
              err_details = []\<rparr>)
        in (case HeaderOf hs ''x-bbt-err-code'' of
              None \<Rightarrow> rest ProtocolError
            | Some t \<Rightarrow> (case stoi t of None \<Rightarrow> None | Some n \<Rightarrow> rest (C n))))"

subsection \<open>\<open>HttpEgress::Send\<close>\<close>

datatype RpcEgressProfile = LegacyHeaders | ProtoWireV1 | TcpV1

record NetworkLimits =
  nl_max_body_bytes :: nat
  nl_max_header_bytes :: nat

record 'w HttpClient =
  hc_build_request :: "string \<Rightarrow> headers \<Rightarrow> HttpRequest result"
  hc_send :: "HttpRequest \<Rightarrow> int \<Rightarrow> 'w \<Rightarrow> HttpResponse result \<times> 'w"

text \<open>What locking the weak host pointer gives: no host or no client, or client and limits.\<close>

type_synonym 'w egress_host = "('w HttpClient \<times> NetworkLimits) option"

definition header_bytes :: "headers \<Rightarrow> nat" where
  "header_bytes hs = sum_list (map (\<lambda>(k, v). length k + length v) hs)"

definition HttpEgress_Send :: "string \<Rightarrow> code_cast \<Rightarrow> RpcEgressProfile \<Rightarrow> 'w egress_host \<Rightarrow> 'w egress_fn
    \<Rightarrow> RpcAddress \<Rightarrow> RpcEnvelope \<Rightarrow> int \<Rightarrow> 'w \<Rightarrow> RpcEnvelope result option \<times> 'w" where
  "HttpEgress_Send infra_domain C profile host rpc_call addr env dl w =
     (if transport addr \<noteq> ''http'' \<and> transport addr \<noteq> ''tcp'' then
        (Some (fail InvalidArgument (''rpc egress: unsupported transport '' @ quoted (transport addr))), w)
      else if endpoint addr = [] then (Some (fail InvalidArgument ''rpc egress: empty endpoint''), w)
      else if profile \<noteq> LegacyHeaders then
        (case rpc_call addr env dl w of (r, w') \<Rightarrow> (Some r, w'))
      else if transport addr \<noteq> ''http'' then
        (Some (fail InvalidArgument ''rpc egress: LegacyHeaders profile only supports http transport''), w)
      else case host of
          None \<Rightarrow> (Some (fail RuntimeUnavailable ''http egress: host client unavailable''), w)
        | Some (client, limits) \<Rightarrow>
            if nl_max_body_bytes limits < length (v_payload env) then
              (Some (fail InvalidArgument ''http egress: request body exceeds host limit''), w)
            else
              (case ToHttpRequest (hc_build_request client) env (''http://'' @ endpoint addr @ ''/rpc'') of
                 Inl e \<Rightarrow> (Some (Inl e), w)
               | Inr req \<Rightarrow>
                   if nl_max_header_bytes limits < header_bytes (hq_headers req) then
                     (Some (fail InvalidArgument ''http egress: request headers exceed host limit''), w)
                   else
                     (case hc_send client req dl w of
                        (Inl e, w') \<Rightarrow> (Some (Inl e), w')
                      | (Inr res, w') \<Rightarrow>
                          if nl_max_header_bytes limits < header_bytes (hr_headers res) then
                            (Some (fail ProtocolError ''http egress: response headers exceed host limit''), w')
                          else (EnvelopeFromResponse infra_domain C res, w'))))"

text \<open>
  What the sources rely on: infra numbers its error codes with non-negative \<open>int\<close> values that
  the cast reads back, and the client's \<open>BuildRequest\<close> keeps the given headers, in order, and
  adds none of the bridge's own names.
\<close>

definition codes_numbered :: "code_numbers \<Rightarrow> code_cast \<Rightarrow> bool" where
  "codes_numbered N C \<longleftrightarrow> (\<forall>c. 0 \<le> N c \<and> N c < 2 ^ 31 \<and> C (N c) = c)"

definition keeps_headers :: "(string \<Rightarrow> headers \<Rightarrow> HttpRequest result) \<Rightarrow> bool" where
  "keeps_headers build \<longleftrightarrow>
     (\<forall>url hs r. build url hs = Inr r \<longrightarrow>
        (\<exists>extra. hq_headers r = hs @ extra \<and> (\<forall>kv \<in> set extra. \<not> starts_with ''x-bbt-'' (fst kv))))"

lemma codes_numberedD: "codes_numbered N C \<Longrightarrow> 0 \<le> N c \<and> N c < 2 ^ 31 \<and> C (N c) = c"
  by (simp add: codes_numbered_def)

lemma meta_of_headers_append: "meta_of_headers (xs @ ys) = meta_of_headers xs @ meta_of_headers ys"
  by (induction xs rule: meta_of_headers.induct) auto

lemma meta_of_headers_map [simp]: "meta_of_headers (map (\<lambda>(k, v). (kMetaPrefix @ k, v)) m) = m"
  by (induction m) auto

lemma meta_of_headers_foreign:
  "\<forall>kv \<in> set hs. \<not> starts_with ''x-bbt-'' (fst kv) \<Longrightarrow> meta_of_headers hs = []"
proof (induction hs rule: meta_of_headers.induct)
  case (2 k v hs)
  have "starts_with ''x-bbt-'' k" if "starts_with kMetaPrefix k"
  proof -
    have l: "length ''x-bbt-meta-'' = 11" by simp
    have "take 11 k = ''x-bbt-meta-''" using that unfolding starts_with_def kMetaPrefix_def l .
    then have "take 6 (take 11 k) = take 6 ''x-bbt-meta-''" by (rule arg_cong)
    then have "take 6 k = ''x-bbt-''" by simp
    moreover have "length ''x-bbt-'' = 6" by simp
    ultimately show ?thesis unfolding starts_with_def by (simp only:)
  qed
  with 2 show ?case by auto
qed simp

subsection \<open>Properties\<close>

lemma HeaderOf_append: "HeaderOf (xs @ ys) n = (case HeaderOf xs n of None \<Rightarrow> HeaderOf ys n | Some v \<Rightarrow> Some v)"
  by (induction xs n rule: HeaderOf.induct) auto

lemma request_read_back:
  assumes "keeps_headers build" and "ToHttpRequest build env url = Inr r"
  shows "EnvelopeFromRequest (hq_headers r) (hq_body r) = Inr env"
proof -
  obtain r0 where r0: "build url (request_headers env) = Inr r0" and r: "r = r0\<lparr>hq_body := v_payload env\<rparr>"
    using assms(2) by (auto simp: ToHttpRequest_def split: sum.splits)
  obtain extra where x: "hq_headers r0 = request_headers env @ extra"
    and f: "\<forall>kv \<in> set extra. \<not> starts_with ''x-bbt-'' (fst kv)"
    using assms(1) r0 unfolding keeps_headers_def by blast
  have "meta_of_headers [(''x-bbt-service'', v_service env), (''x-bbt-method'', v_method env),
      (''x-bbt-request-id'', v_request_id env), (''x-bbt-request-schema'', v_request_schema env),
      (''x-bbt-response-schema'', v_response_schema env)] = []"
    by (simp add: starts_with_def kMetaPrefix_def)
  then have "meta_of_headers (request_headers env) = v_metadata env"
    unfolding request_headers_def meta_of_headers_append by (simp only: meta_of_headers_map append_Nil)
  with f have "meta_of_headers (hq_headers r0) = v_metadata env"
    by (simp add: x meta_of_headers_append meta_of_headers_foreign)
  then show ?thesis by (simp add: EnvelopeFromRequest_def r x request_headers_def)
qed

text \<open>C20: The header bridge is lossless on requests: whatever the envelope holds (any strings as
  metadata keys and values, any payload), reading back the request that \<open>ToHttpRequest\<close> built
  gives exactly the envelope, with the metadata in their order; headers the client adds under
  other names do not matter.\<close>

theorem http_request_roundtrip:
  assumes "keeps_headers build" and "ToHttpRequest build env url = Inr r"
  shows "EnvelopeFromRequest (hq_headers r) (hq_body r) = Inr env"
  using assms by (rule request_read_back)

definition demo_build :: "string \<Rightarrow> headers \<Rightarrow> HttpRequest result" where
  "demo_build url hs = Inr \<lparr>hq_url = url, hq_headers = hs @ [(''host'', ''h'')], hq_body = []\<rparr>"

definition demo_envelope :: RpcEnvelope where
  "demo_envelope = \<lparr>v_service = ''s'', v_method = ''m'', v_request_id = ''i'', v_request_schema = ''q'',
     v_response_schema = ''a'', v_metadata = [(''route.zone'', ''1''), (''x-bbt-service'', ''no'')],
     v_payload = ''body''\<rparr>"

theorem http_request_roundtrip_witness:
  "map_sum id (\<lambda>r. EnvelopeFromRequest (hq_headers r) (hq_body r)) (ToHttpRequest demo_build demo_envelope ''u'')
    = Inr (Inr demo_envelope)"
proof -
  have k: "keeps_headers demo_build"
    by (auto simp: keeps_headers_def demo_build_def starts_with_def)
  obtain r where r: "ToHttpRequest demo_build demo_envelope ''u'' = Inr r"
    by (auto simp: ToHttpRequest_def demo_build_def)
  from http_request_roundtrip [OF k r] show ?thesis by (simp add: r)
qed

text \<open>The header bridge on replies: a successful reply keeps request id, response schema and
  payload. An error reply keeps code, domain, domain code and message of the error that passed
  the boundary (a violating one is replaced by the boundary's own error), loses the details,
  and reading it back never throws.\<close>

lemma http_reply_roundtrip:
  assumes "codes_numbered N C"
  shows "EnvelopeFromResponse idom C (ToHttpResponse VD D N r) =
    Some (case r of
      Inr env \<Rightarrow> Inr (empty_envelope\<lparr>v_request_id := v_request_id env,
          v_response_schema := v_response_schema env, v_payload := v_payload env\<rparr>)
    | Inl e \<Rightarrow>
        let x = SafeBoundaryError VD e
        in Inl \<lparr>err_code = err_code x, err_domain = Some (domain_text D x),
             err_domain_code = Some (domain_code_text_of D x), err_message = err_message x,
             err_details = []\<rparr>)"
proof (cases r)
  case (Inr env)
  then show ?thesis by (simp add: EnvelopeFromResponse_def ToHttpResponse_def value_or_def Let_def)
next
  case (Inl e)
  let ?x = "SafeBoundaryError VD e"
  have n: "0 \<le> N (err_code ?x)" "N (err_code ?x) < 2 ^ 31" "C (N (err_code ?x)) = err_code ?x"
    using codes_numberedD [OF assms] by blast+
  then have "stoi (int_to_string (N (err_code ?x))) = Some (N (err_code ?x))"
    using stoi_to_string [of "nat (N (err_code ?x))"] by (simp add: int_to_string_def)
  then show ?thesis using n Inl
    by (simp add: EnvelopeFromResponse_def ToHttpResponse_def error_headers_def value_or_def Let_def
        SafeBoundaryError_def)
qed

definition demo_numbers :: code_numbers where
  "demo_numbers c = (case c of
       error_code.InvalidArgument \<Rightarrow> 0
     | error_code.InternalError \<Rightarrow> 1
     | error_code.RuntimeUnavailable \<Rightarrow> 2
     | error_code.TimedOut \<Rightarrow> 3
     | error_code.NotFound \<Rightarrow> 4
     | error_code.Overloaded \<Rightarrow> 5
     | error_code.Closed \<Rightarrow> 6
     | error_code.RemoteError \<Rightarrow> 7
     | error_code.ProtocolError \<Rightarrow> 8
     | error_code.Unavailable \<Rightarrow> 9
     | error_code.InvalidContext \<Rightarrow> 10
     | error_code.Cancelled \<Rightarrow> 11
     | error_code.OutcomeUnknown \<Rightarrow> 12
     | error_code.TypeMismatch \<Rightarrow> 13
     | error_code.UnsupportedRoute \<Rightarrow> 14
     | error_code.TransportError \<Rightarrow> 15)"

definition demo_cast :: code_cast where
  "demo_cast n =
     (if n = 0 then error_code.InvalidArgument
      else if n = 1 then error_code.InternalError
      else if n = 2 then error_code.RuntimeUnavailable
      else if n = 3 then error_code.TimedOut
      else if n = 4 then error_code.NotFound
      else if n = 5 then error_code.Overloaded
      else if n = 6 then error_code.Closed
      else if n = 7 then error_code.RemoteError
      else if n = 8 then error_code.ProtocolError
      else if n = 9 then error_code.Unavailable
      else if n = 10 then error_code.InvalidContext
      else if n = 11 then error_code.Cancelled
      else if n = 12 then error_code.OutcomeUnknown
      else if n = 13 then error_code.TypeMismatch
      else if n = 14 then error_code.UnsupportedRoute
      else error_code.TransportError)"

lemma http_reply_roundtrip_witness:
  "EnvelopeFromResponse ''infra'' demo_cast
     (ToHttpResponse (\<lambda>_. Inr ()) (\<lambda>_. (''infra'', ''X'')) demo_numbers (fail Overloaded ''full'')) =
   Some (Inl \<lparr>err_code = Overloaded, err_domain = Some ''infra'', err_domain_code = Some ''X'',
     err_message = ''full'', err_details = []\<rparr>)"
proof -
  have "codes_numbered demo_numbers demo_cast"
    unfolding codes_numbered_def
  proof
    show "0 \<le> demo_numbers c \<and> demo_numbers c < 2 ^ 31 \<and> demo_cast (demo_numbers c) = c" for c
      by (cases c) (simp_all add: demo_numbers_def demo_cast_def)
  qed
  from http_reply_roundtrip [OF this, of "''infra''" "\<lambda>_. Inr ()" "\<lambda>_. (''infra'', ''X'')"
      "fail Overloaded ''full''"]
  show ?thesis
    by (simp add: fail_def MakeError_def SafeBoundaryError_def ValidateErrorAtBoundary_def
        ValidateErrorDomainRules_def domain_text_def domain_code_text_of_def)
qed

text \<open>A malformed error reply throws: for a status other than 200, \<open>EnvelopeFromResponse\<close> hands
  the peer's \<open>x-bbt-err-code\<close> header to \<open>std::stoi\<close> unchecked, so a header without leading digits
  or beyond \<open>int\<close> leaves the function as an exception; and exactly those replies do.\<close>

lemma malformed_error_code_throws:
  "(EnvelopeFromResponse idom C res = None \<longleftrightarrow>
     hr_status_code res \<noteq> 200 \<and> (\<exists>t. HeaderOf (hr_headers res) ''x-bbt-err-code'' = Some t \<and> stoi t = None)) \<and>
   stoi ''abc'' = None \<and> stoi [] = None \<and> stoi (to_string 4294967296) = None"
proof -
  have "stoi ''abc'' = None \<and> stoi [] = None \<and> stoi (to_string 4294967296) = None"
    by (simp add: stoi_to_string) (simp add: stoi_def is_space_def is_digit_def Let_def)
  then show ?thesis
    by (auto simp: EnvelopeFromResponse_def Let_def split: option.splits)
qed

end
