(* ===== verification/Dispatch.thy ===== *)
theory Dispatch
  imports Egress OrderedExec Mailbox Actors ServiceConfig
begin

text \<open>
  The inbound dispatcher: \<open>internal/InboundDispatcher.hpp\<close> and \<open>src/host/InboundDispatcher.cc\<close>.
  \<open>Dispatch\<close> runs in one coroutine and suspends once, while the handler runs; other dispatches
  interleave there. It is therefore two steps: \<open>dispatch_begin\<close> up to the wait (or to an
  immediate answer), \<open>dispatch_end\<close> from the wake-up on. What the environment decides is the
  argument of the step: the clock, the outcome of an actor factory, whether a waiter could be
  created and registered and a drain coroutine started, later the wait status and the
  handler's result. The in-flight guard is the counter being decremented on every way out.
\<close>

subsection \<open>State\<close>

record IncomingCallContext =
  in_deadline :: int
  in_peer_principal :: string

text \<open>
  The table entry of a service, and what the dispatcher keeps beside it. The actor registry
  is one object shared by all entries, so it is a field of the world.
\<close>

record 'w InboundServiceEntry =
  ps_options :: ServiceOptions
  ps_table :: "'w RpcMethodTable"
  ps_instance :: "nat option"
  ps_ordered_ingress :: "OrderedIngress option"

record 'w PerService = "'w InboundServiceEntry" +
  ps_inflight :: nat
  ps_mailboxes :: "(string \<times> ActorMailbox) list"

text \<open>A dispatch that waits: the local variables that live across the suspension.\<close>

record PendingCall =
  pc_service :: string
  pc_method :: string
  pc_request_id :: string
  pc_request_schema :: string
  pc_response_schema :: string
  pc_ctx :: RequestContext
  pc_actor :: bool
  pc_admission :: "Admission option"
  pc_task :: "nat option"
  pc_enqueue_error :: "error option"

record 'w DispatchWorld =
  dw_services :: "(string \<times> 'w PerService) list"
  dw_registry :: ActorRegistry
  dw_next_task :: nat
  dw_pending :: "PendingCall list"

record BeginEnv =
  be_now :: int
  be_factory :: factory_outcome
  be_waiter_created :: bool
  be_registered :: bool
  be_scheduler_ok :: bool

datatype WaitStatus =
    WCompleted | WTimedOut | WCancelled | WRuntimeUnavailable | WInvalidContext | WOther nat

text \<open>The constructor: every entry starts with no dispatch in flight and no mailbox.\<close>

definition per_service :: "'w InboundServiceEntry \<Rightarrow> 'w PerService" where
  "per_service e =
     \<lparr>ps_options = ps_options e, ps_table = ps_table e, ps_instance = ps_instance e,
      ps_ordered_ingress = ps_ordered_ingress e, ps_inflight = 0, ps_mailboxes = []\<rparr>"

definition InboundDispatcher :: "(string \<times> 'w InboundServiceEntry) list \<Rightarrow> ActorRegistry \<Rightarrow> 'w DispatchWorld" where
  "InboundDispatcher entries reg =
     \<lparr>dw_services = map (\<lambda>(n, e). (n, per_service e)) entries, dw_registry = reg,
      dw_next_task = 0, dw_pending = []\<rparr>"

definition kReplyDeliveryReserve :: int where
  "kReplyDeliveryReserve = 20 * 1000000"

subsection \<open>Stages of \<open>Dispatch\<close>\<close>

definition check_request :: "RpcEnvelope \<Rightarrow> ParsedMetadata result" where
  "check_request req =
     (if v_service req = [] \<or> v_method req = [] then
        fail InvalidArgument ''inbound envelope missing service/method''
      else if v_request_id req = [] then fail InvalidArgument ''inbound envelope missing request_id''
      else parse_metadata no_metadata (v_metadata req))"

definition locate :: "RpcEnvelope \<Rightarrow> 'w DispatchWorld \<Rightarrow> ('w PerService \<times> 'w RpcMethod) result" where
  "locate req w =
     (case map_of (dw_services w) (v_service req) of
        None \<Rightarrow> fail NotFound (''inbound dispatch: unregistered service '' @ quoted (v_service req))
      | Some svc \<Rightarrow>
          (case table_find (ps_table svc) (v_method req) of
             None \<Rightarrow> fail NotFound (''inbound dispatch: unknown method '' @ quoted (v_method req) @
               '' on service '' @ quoted (v_service req))
           | Some m \<Rightarrow>
               if v_request_schema req \<noteq> request_schema m then
                 fail TypeMismatch (''inbound dispatch: request schema mismatch on '' @
                   quoted (v_service req @ ''.'' @ v_method req))
               else Inr (svc, m)))"

definition request_context :: "IncomingCallContext \<Rightarrow> RpcEnvelope \<Rightarrow> ParsedMetadata \<Rightarrow> RequestContext" where
  "request_context inc req meta =
     \<lparr>rc_request_id = v_request_id req, rc_actor_key = None,
      rc_deadline = in_deadline inc - kReplyDeliveryReserve,
      rc_peer_principal = in_peer_principal inc, rc_trace_id = pm_trace_id meta\<rparr>"

definition reply_envelope :: "string \<Rightarrow> string \<Rightarrow> string \<Rightarrow> string \<Rightarrow> string \<Rightarrow> string \<Rightarrow> RpcEnvelope" where
  "reply_envelope service method rid rq rs payload =
     \<lparr>v_service = service, v_method = method, v_request_id = rid, v_request_schema = rq,
      v_response_schema = rs, v_metadata = [], v_payload = payload\<rparr>"

definition ordered_request :: "IncomingCallContext \<Rightarrow> RpcEnvelope \<Rightarrow> ParsedMetadata \<Rightarrow> string
    \<Rightarrow> OrderedIngressRequest" where
  "ordered_request inc req meta key =
     \<lparr>q_method = v_method req, q_actor_key = key, q_peer_principal = in_peer_principal inc,
      q_has_ordered_stamp = pm_has_sequence meta, q_producer_id = pm_producer_id meta,
      q_producer_epoch = pm_producer_epoch meta, q_receiver_epoch = pm_receiver_epoch meta,
      q_sequence = pm_sequence meta, q_request_id = v_request_id req,
      q_request_digest = OrderedRequestDigest (v_method req) key (v_payload req)\<rparr>"

text \<open>The ordered admission: an answer at once, or the admission to execute under.\<close>

definition replay_answer :: "details_check \<Rightarrow> RpcEnvelope \<Rightarrow> 'w RpcMethod \<Rightarrow> OrderedTerminalReply \<Rightarrow> RpcEnvelope result" where
  "replay_answer VD req m rep =
     (if \<not> rp_is_ok rep then Inl (SafeBoundaryError VD (rp_error rep))
      else Inr (reply_envelope (v_service req) (v_method req) (v_request_id req)
                  (request_schema m) (response_schema m) (rp_payload rep)))"

definition default_reply :: OrderedTerminalReply where
  "default_reply = \<lparr>rp_is_ok = False, rp_payload = [], rp_error = MakeError InternalError []\<rparr>"

definition ordered_admit :: "details_check \<Rightarrow> IncomingCallContext \<Rightarrow> RpcEnvelope \<Rightarrow> ParsedMetadata
    \<Rightarrow> 'w RpcMethod \<Rightarrow> string \<Rightarrow> 'w PerService
    \<Rightarrow> (RpcEnvelope result + Admission option) \<times> 'w PerService" where
  "ordered_admit VD inc req meta m key svc =
     (if \<not> ordered_ingress (ps_options svc) then (Inr None, svc)
      else case ps_ordered_ingress svc of
          None \<Rightarrow> (Inl (fail RuntimeUnavailable (''ordered ingress is not bound for service '' @
                     quoted (v_service req))), svc)
        | Some ing \<Rightarrow>
            (case Admit VD (ordered_request inc req meta key) ing of
               (Inl e, ing') \<Rightarrow> (Inl (Inl e), svc\<lparr>ps_ordered_ingress := Some ing'\<rparr>)
             | (Inr a, ing') \<Rightarrow>
                 (if a_kind a = Replay
                  then Inl (replay_answer VD req m (case a_replay a of Some r \<Rightarrow> r | None \<Rightarrow> default_reply))
                  else Inr (Some a),
                  svc\<lparr>ps_ordered_ingress := Some ing'\<rparr>)))"

text \<open>Recording a terminal reply for the admission, when there is one.\<close>

definition complete_admission :: "details_check \<Rightarrow> infra_domains \<Rightarrow> Admission option \<Rightarrow> OrderedTerminalReply
    \<Rightarrow> 'w PerService \<Rightarrow> (unit result \<times> 'w PerService) option" where
  "complete_admission VD D adm r svc =
     (case (adm, ps_ordered_ingress svc) of
        (Some a, Some ing) \<Rightarrow>
          map_option (\<lambda>(x, ing'). (x, svc\<lparr>ps_ordered_ingress := Some ing'\<rparr>)) (Complete VD D a r ing)
      | _ \<Rightarrow> Some (Inr (), svc))"

definition finish_ordered_error :: "details_check \<Rightarrow> infra_domains \<Rightarrow> Admission option \<Rightarrow> error
    \<Rightarrow> 'w PerService \<Rightarrow> (RpcEnvelope result \<times> 'w PerService) option" where
  "finish_ordered_error VD D adm e svc =
     (let e' = SafeBoundaryError VD e
      in map_option (\<lambda>(x, svc'). (case x of Inl y \<Rightarrow> Inl y | Inr _ \<Rightarrow> Inl e', svc'))
           (complete_admission VD D adm \<lparr>rp_is_ok = False, rp_payload = [], rp_error = e'\<rparr> svc))"

definition MailboxFor :: "string \<Rightarrow> 'w PerService \<Rightarrow> ActorMailbox \<times> 'w PerService" where
  "MailboxFor key svc =
     (case map_of (ps_mailboxes svc) key of
        Some mb \<Rightarrow> (mb, svc)
      | None \<Rightarrow>
          let mb = mailbox_Create (mailbox_capacity (ps_options svc))
          in (mb, svc\<lparr>ps_mailboxes := emplace key mb (ps_mailboxes svc)\<rparr>))"

text \<open>The registered callback: enqueue the task; a failure is what the slot holds at the wake-up.\<close>

definition enqueue_task :: "string \<Rightarrow> nat \<Rightarrow> bool \<Rightarrow> 'w PerService \<Rightarrow> error option \<times> 'w PerService" where
  "enqueue_task key t ok svc =
     (case MailboxFor key svc of
        (mb, svc1) \<Rightarrow>
          (case TryEnqueue (Some t) ok mb of
             (r, _, mb') \<Rightarrow>
               (case r of Inl e \<Rightarrow> Some e | Inr _ \<Rightarrow> None,
                svc1\<lparr>ps_mailboxes := AList.update key mb' (ps_mailboxes svc1)\<rparr>)))"

definition pending_call :: "RpcEnvelope \<Rightarrow> 'w RpcMethod \<Rightarrow> RequestContext \<Rightarrow> bool \<Rightarrow> Admission option
    \<Rightarrow> nat option \<Rightarrow> error option \<Rightarrow> PendingCall" where
  "pending_call req m ctx act adm t ee =
     \<lparr>pc_service = v_service req, pc_method = v_method req, pc_request_id = v_request_id req,
      pc_request_schema = request_schema m, pc_response_schema = response_schema m, pc_ctx = ctx,
      pc_actor = act, pc_admission = adm, pc_task = t, pc_enqueue_error = ee\<rparr>"

type_synonym 'w entered = "(RpcEnvelope result + PendingCall) \<times> 'w PerService \<times> ActorRegistry"

definition left_with :: "ActorRegistry \<Rightarrow> RpcEnvelope result \<times> 'w PerService \<Rightarrow> 'w entered" where
  "left_with reg = (\<lambda>(r, svc). (Inl r, svc, reg))"

definition enter_actor :: "details_check \<Rightarrow> infra_domains \<Rightarrow> BeginEnv \<Rightarrow> IncomingCallContext \<Rightarrow> RpcEnvelope
    \<Rightarrow> ParsedMetadata \<Rightarrow> 'w RpcMethod \<Rightarrow> RequestContext \<Rightarrow> nat \<Rightarrow> 'w PerService \<Rightarrow> ActorRegistry
    \<Rightarrow> 'w entered option" where
  "enter_actor VD D be inc req meta m ctx0 t svc reg =
     (case extract_key m (v_payload req) of
        Inl e \<Rightarrow> Some (Inl (Inl e), svc, reg)
      | Inr key \<Rightarrow>
          let ctx = ctx0\<lparr>rc_actor_key := Some key\<rparr>
          in (case ordered_admit VD inc req meta m key svc of
                (Inl r, svc1) \<Rightarrow> Some (Inl r, svc1, reg)
              | (Inr adm, svc1) \<Rightarrow>
                  (case GetOrCreate (v_service req) key (be_factory be) reg of
                     (Inl e, reg1) \<Rightarrow> map_option (left_with reg1) (finish_ordered_error VD D adm e svc1)
                   | (Inr i, reg1) \<Rightarrow>
                       let svc2 = snd (MailboxFor key svc1)
                       in if \<not> be_waiter_created be then
                            map_option (left_with reg1) (finish_ordered_error VD D adm
                              (MakeError RuntimeUnavailable ''co waiter unavailable'') svc2)
                          else if \<not> be_registered be then
                            Some (Inr (pending_call req m ctx True adm None None), svc2, reg1)
                          else
                            (case enqueue_task key t (be_scheduler_ok be) svc2 of
                               (ee, svc3) \<Rightarrow>
                                 Some (Inr (pending_call req m ctx True adm
                                   (if ee = None then Some t else None) ee), svc3, reg1)))))"

definition enter_concurrent :: "RpcEnvelope \<Rightarrow> 'w RpcMethod \<Rightarrow> RequestContext \<Rightarrow> 'w PerService \<Rightarrow> ActorRegistry
    \<Rightarrow> 'w entered" where
  "enter_concurrent req m ctx svc reg =
     (if ps_instance svc = None
      then (Inl (fail RuntimeUnavailable ''service instance not bound''), svc, reg)
      else (Inr (pending_call req m ctx False None None None), svc, reg))"

definition put_service :: "string \<Rightarrow> 'w PerService \<Rightarrow> 'w DispatchWorld \<Rightarrow> 'w DispatchWorld" where
  "put_service name svc w = w\<lparr>dw_services := AList.update name svc (dw_services w)\<rparr>"

text \<open>
  \<open>Dispatch\<close> up to its suspension. The result is an immediate answer, or \<open>None\<close> for the answer
  when the call is now pending.
\<close>

definition dispatch_begin :: "details_check \<Rightarrow> infra_domains \<Rightarrow> BeginEnv \<Rightarrow> IncomingCallContext
    \<Rightarrow> RpcEnvelope \<Rightarrow> 'w DispatchWorld \<Rightarrow> (RpcEnvelope result option \<times> 'w DispatchWorld) option" where
  "dispatch_begin VD D be inc req w =
     (case check_request req of
        Inl e \<Rightarrow> Some (Some (Inl e), w)
      | Inr meta \<Rightarrow>
          (case locate req w of
             Inl e \<Rightarrow> Some (Some (Inl e), w)
           | Inr (svc, m) \<Rightarrow>
               if max_inflight (ps_options svc) \<le> ps_inflight svc then
                 Some (Some (fail Overloaded (''inbound dispatch: service '' @ quoted (v_service req) @
                   '' reached max_inflight'')), w)
               else
                 let svc1 = svc\<lparr>ps_inflight := ps_inflight svc + 1\<rparr>;
                     ctx = request_context inc req meta
                 in if rc_deadline ctx \<le> be_now be then
                      Some (Some (fail TimedOut ''inbound request budget already expired before handler entry''), w)
                    else
                      map_option (\<lambda>(r, svc2, reg).
                        (case r of
                           Inl ans \<Rightarrow> (Some ans, (put_service (v_service req)
                             (svc2\<lparr>ps_inflight := ps_inflight svc2 - 1\<rparr>) w)\<lparr>dw_registry := reg\<rparr>)
                         | Inr pc \<Rightarrow> (None, (put_service (v_service req) svc2 w)
                             \<lparr>dw_registry := reg, dw_next_task := dw_next_task w + 1,
                              dw_pending := dw_pending w @ [pc]\<rparr>)))
                        (if actor_keyed m
                         then enter_actor VD D be inc req meta m ctx (dw_next_task w) svc1 (dw_registry w)
                         else Some (enter_concurrent req m ctx svc1 (dw_registry w)))))"

subsection \<open>The wake-up\<close>

definition pending_reply :: "PendingCall \<Rightarrow> string \<Rightarrow> RpcEnvelope" where
  "pending_reply pc payload = reply_envelope (pc_service pc) (pc_method pc) (pc_request_id pc)
     (pc_request_schema pc) (pc_response_schema pc) payload"

definition actor_outcome :: "details_check \<Rightarrow> infra_domains \<Rightarrow> PendingCall \<Rightarrow> WaitStatus \<Rightarrow> string result
    \<Rightarrow> 'w PerService \<Rightarrow> (RpcEnvelope result \<times> 'w PerService) option" where
  "actor_outcome VD D pc st slot svc =
     (case st of
        WTimedOut \<Rightarrow> finish_ordered_error VD D (pc_admission pc)
          (MakeError TimedOut ''actor handler did not finish within request budget'') svc
      | WCancelled \<Rightarrow> finish_ordered_error VD D (pc_admission pc)
          (MakeError Cancelled ''inbound request cancelled while queued/running'') svc
      | WRuntimeUnavailable \<Rightarrow> finish_ordered_error VD D (pc_admission pc)
          (MakeError RuntimeUnavailable ''runtime unavailable while waiting actor result'') svc
      | WInvalidContext \<Rightarrow> finish_ordered_error VD D (pc_admission pc)
          (MakeError RuntimeUnavailable ''inbound dispatch requires a coroutine context'') svc
      | WOther n \<Rightarrow> finish_ordered_error VD D (pc_admission pc)
          (MakeError InternalError (''unexpected wait status '' @ to_string n)) svc
      | WCompleted \<Rightarrow>
          (case (case pc_enqueue_error pc of Some e \<Rightarrow> Inl e | None \<Rightarrow> slot) of
             Inl e \<Rightarrow> finish_ordered_error VD D (pc_admission pc) e svc
           | Inr payload \<Rightarrow>
               map_option (\<lambda>(x, svc'). (case x of Inl y \<Rightarrow> Inl y | Inr _ \<Rightarrow> Inr (pending_reply pc payload), svc'))
                 (complete_admission VD D (pc_admission pc)
                   \<lparr>rp_is_ok = True, rp_payload = payload, rp_error = MakeError InternalError []\<rparr> svc)))"

definition dispatch_end :: "details_check \<Rightarrow> infra_domains \<Rightarrow> nat \<Rightarrow> WaitStatus \<Rightarrow> string result
    \<Rightarrow> 'w DispatchWorld \<Rightarrow> (RpcEnvelope result \<times> 'w DispatchWorld) option" where
  "dispatch_end VD D i st slot w =
     (let pc = dw_pending w ! i;
          w1 = w\<lparr>dw_pending := take i (dw_pending w) @ drop (Suc i) (dw_pending w)\<rparr>
      in case map_of (dw_services w) (pc_service pc) of
          None \<Rightarrow> None
        | Some svc \<Rightarrow>
            map_option (\<lambda>(r, svc'). (r, put_service (pc_service pc)
                (svc'\<lparr>ps_inflight := ps_inflight svc' - 1\<rparr>) w1))
              (if pc_actor pc then actor_outcome VD D pc st slot svc
               else Some (case slot of Inl e \<Rightarrow> Inl e | Inr payload \<Rightarrow> Inr (pending_reply pc payload), svc)))"

subsection \<open>What is in flight\<close>

definition running :: "OrderedIngress \<Rightarrow> (StreamKey \<times> u64) set" where
  "running s = {(k, q). \<exists>n fs. stream_view s k = Some (n, fs) \<and> map_of fs q \<noteq> None}"

lemma running_alt:
  "(k, q) \<in> running s \<longleftrightarrow> (\<exists>st. map_of (streams s) k = Some st \<and> map_of (in_flight st) q \<noteq> None)"
  by (auto simp: running_def stream_view_def)

lemma running_update:
  "map_of (streams s) k = Some st \<Longrightarrow>
   running (s\<lparr>streams := AList.update k st' (streams s)\<rparr>) =
     {(l, q) \<in> running s. l \<noteq> k} \<union> {(k, q) | q. map_of (in_flight st') q \<noteq> None}"
  by (auto simp: running_alt map_of_update split: if_splits)

lemma admission_for_keys [simp]:
  "key_of_admission (admission_for kd q rep) = key_of_request q"
  "a_sequence (admission_for kd q rep) = q_sequence q" "a_kind (admission_for kd q rep) = kd"
  by (simp_all add: admission_for_def key_of_admission_def key_of_request_def)

lemma Admit_running:
  assumes inv: "ing_inv s"
  shows "ing_inv (snd (Admit VD q s))"
    and "running (snd (Admit VD q s)) = running s \<union>
      (case fst (Admit VD q s) of
         Inr a \<Rightarrow> if a_kind a = Execute then {(key_of_admission a, a_sequence a)} else {}
       | Inl _ \<Rightarrow> {})"
proof -
  show "ing_inv (snd (Admit VD q s))" by (rule Admit_ing_inv [OF inv])
  show "running (snd (Admit VD q s)) = running s \<union>
      (case fst (Admit VD q s) of
         Inr a \<Rightarrow> if a_kind a = Execute then {(key_of_admission a, a_sequence a)} else {}
       | Inl _ \<Rightarrow> {})"
  proof (cases "\<exists>a. fst (Admit VD q s) = Inr a \<and> a_kind a = Execute")
    case False
    then show ?thesis using Admit_no_execute [OF inv False] by (auto split: sum.splits)
  next
    case True
    then obtain a where a: "fst (Admit VD q s) = Inr a" "a_kind a = Execute" by blast
    from Admit_executes [OF inv a] obtain st where
      st: "map_of (streams s) (key_of_request q) = Some st" and "a = admission_for Execute q None"
      and e: "snd (Admit VD q s) =
        s\<lparr>streams := AList.update (key_of_request q) (admit_stream q st) (streams s)\<rparr>" by blast
    then show ?thesis using a
      by (auto simp: running_update [OF st] running_alt admit_stream_def map_of_emplace split: if_splits
          option.splits)
  qed
qed

lemma Complete_running:
  assumes inv: "ing_inv s" and a: "a_kind a = Execute" and c: "Complete VD D a r s = Some (x, s')"
  shows "ing_inv s'" and "running s' = running s - {(key_of_admission a, a_sequence a)}"
proof -
  show "ing_inv s'" using Complete_total [OF inv, of VD D a r] c by auto
  show "running s' = running s - {(key_of_admission a, a_sequence a)}"
  proof (cases "(key_of_admission a, a_sequence a) \<in> running s")
    case False
    then have "s' = s" using c Complete_rejected [of a s VD D r] by (auto simp: running_alt)
    with False show ?thesis by simp
  next
    case True
    then obtain st f where st: "map_of (streams s) (key_of_admission a) = Some st"
      "map_of (in_flight st) (a_sequence a) = Some f" by (auto simp: running_alt)
    with Complete_spec [OF inv a st, of VD D r] c have
      "stream_view s' = (stream_view s)(key_of_admission a \<mapsto>
         (next_sequence st, AList.delete (a_sequence a) (in_flight st)))" by auto
    moreover have "stream_view s (key_of_admission a) = Some (next_sequence st, in_flight st)"
      using st by (simp add: stream_view_def)
    ultimately show ?thesis
      by (auto simp: running_def map_of_delete split: if_splits)
  qed
qed

lemma GrantStream_running:
  assumes inv: "ing_inv s"
  shows "ing_inv (snd (GrantStream g s))" and "running (snd (GrantStream g s)) \<subseteq> running s"
proof -
  show "ing_inv (snd (GrantStream g s))" by (rule GrantStream_ing_inv [OF inv])
  show "running (snd (GrantStream g s)) \<subseteq> running s"
    using GrantStream_not_installing [OF inv, of g] GrantStream_installing(3) [OF inv, of g]
    by (cases "installs g s") (auto simp: running_def split: if_splits)
qed

definition running_of :: "'w PerService \<Rightarrow> (StreamKey \<times> u64) set" where
  "running_of svc = (case ps_ordered_ingress svc of None \<Rightarrow> {} | Some ing \<Rightarrow> running ing)"

definition ingress_ok :: "'w PerService \<Rightarrow> bool" where
  "ingress_ok svc \<longleftrightarrow> (case ps_ordered_ingress svc of None \<Rightarrow> True | Some ing \<Rightarrow> ing_inv ing)"

definition admission_keys :: "Admission option \<Rightarrow> (StreamKey \<times> u64) set" where
  "admission_keys adm = (case adm of None \<Rightarrow> {} | Some a \<Rightarrow> {(key_of_admission a, a_sequence a)})"

definition executes :: "Admission option \<Rightarrow> bool" where
  "executes adm \<longleftrightarrow> (case adm of None \<Rightarrow> True | Some a \<Rightarrow> a_kind a = Execute)"

lemmas ingress_defs = running_of_def ingress_ok_def admission_keys_def executes_def

text \<open>The stages leave the options and the in-flight counter of the service alone.\<close>

definition same_entry :: "'w PerService \<Rightarrow> 'w PerService \<Rightarrow> bool" where
  "same_entry svc svc' \<longleftrightarrow> ps_options svc' = ps_options svc \<and> ps_inflight svc' = ps_inflight svc"

lemma complete_admission_spec:
  assumes "ingress_ok svc" and "executes adm"
  shows "\<exists>x svc'. complete_admission VD D adm r svc = Some (x, svc') \<and> same_entry svc svc' \<and>
    ingress_ok svc' \<and> running_of svc' = running_of svc - admission_keys adm"
proof (cases "adm = None \<or> ps_ordered_ingress svc = None")
  case True
  then show ?thesis using assms
    by (auto simp: complete_admission_def same_entry_def ingress_defs split: option.splits)
next
  case False
  then obtain a ing where e: "adm = Some a" "ps_ordered_ingress svc = Some ing" by auto
  then have inv: "ing_inv ing" and a: "a_kind a = Execute" using assms by (simp_all add: ingress_defs)
  obtain x s' where c: "Complete VD D a r ing = Some (x, s')" using Complete_total [OF inv] by blast
  then show ?thesis using Complete_running [OF inv a c] e
    by (simp add: complete_admission_def same_entry_def ingress_defs)
qed

lemma finish_ordered_error_spec:
  assumes "ingress_ok svc" and "executes adm"
  shows "\<exists>x svc'. finish_ordered_error VD D adm e svc = Some (Inl x, svc') \<and> same_entry svc svc' \<and>
    ingress_ok svc' \<and> running_of svc' = running_of svc - admission_keys adm"
proof -
  let ?r = "\<lparr>rp_is_ok = False, rp_payload = [], rp_error = SafeBoundaryError VD e\<rparr>"
  obtain x svc' where "complete_admission VD D adm ?r svc = Some (x, svc')" "same_entry svc svc'"
    "ingress_ok svc'" "running_of svc' = running_of svc - admission_keys adm"
    using complete_admission_spec [OF assms] by blast
  then show ?thesis by (cases x) (simp_all add: finish_ordered_error_def Let_def)
qed

lemma ordered_admit_spec:
  assumes ok: "ingress_ok svc" and r: "ordered_admit VD inc req meta m key svc = (r, svc')"
  shows "same_entry svc svc' \<and> ingress_ok svc' \<and>
    (case r of
       Inl _ \<Rightarrow> running_of svc' = running_of svc
     | Inr adm \<Rightarrow> executes adm \<and> running_of svc' = running_of svc \<union> admission_keys adm)"
proof (cases "ordered_ingress (ps_options svc) \<and> ps_ordered_ingress svc \<noteq> None")
  case False
  then show ?thesis using ok r
    by (auto simp: ordered_admit_def same_entry_def ingress_defs split: if_splits)
next
  case True
  then obtain ing where e: "ps_ordered_ingress svc = Some ing" by auto
  then have inv: "ing_inv ing" using ok by (simp add: ingress_defs)
  obtain x s' where A: "Admit VD (ordered_request inc req meta key) ing = (x, s')" by fastforce
  note R = Admit_running [OF inv, of VD "ordered_request inc req meta key", unfolded A, simplified]
  show ?thesis
  proof (cases x)
    case (Inl er)
    then show ?thesis using r R True e A
      by (auto simp: ordered_admit_def same_entry_def ingress_defs)
  next
    case (Inr a)
    then show ?thesis using r R True e A
      by (cases "a_kind a") (auto simp: ordered_admit_def same_entry_def ingress_defs)
  qed
qed

lemma MailboxFor_frame:
  "MailboxFor key svc = (mb, svc') \<Longrightarrow>
   same_entry svc svc' \<and> ps_ordered_ingress svc' = ps_ordered_ingress svc"
  by (auto simp: MailboxFor_def same_entry_def Let_def split: option.splits)

lemma enqueue_task_frame:
  "enqueue_task key t ok svc = (ee, svc') \<Longrightarrow>
   same_entry svc svc' \<and> ps_ordered_ingress svc' = ps_ordered_ingress svc"
  using MailboxFor_frame [of key svc]
  by (fastforce simp: enqueue_task_def same_entry_def split: prod.splits)

lemma pending_call_simps [simp]:
  "pc_service (pending_call req m ctx act adm t ee) = v_service req"
  "pc_method (pending_call req m ctx act adm t ee) = v_method req"
  "pc_request_id (pending_call req m ctx act adm t ee) = v_request_id req"
  "pc_request_schema (pending_call req m ctx act adm t ee) = request_schema m"
  "pc_response_schema (pending_call req m ctx act adm t ee) = response_schema m"
  "pc_ctx (pending_call req m ctx act adm t ee) = ctx"
  "pc_actor (pending_call req m ctx act adm t ee) = act"
  "pc_admission (pending_call req m ctx act adm t ee) = adm"
  "pc_task (pending_call req m ctx act adm t ee) = t"
  "pc_enqueue_error (pending_call req m ctx act adm t ee) = ee"
  by (simp_all add: pending_call_def)

text \<open>What either policy makes of an accepted request.\<close>

definition entered_ok :: "RpcEnvelope \<Rightarrow> 'w RpcMethod \<Rightarrow> RequestContext \<Rightarrow> 'w PerService
    \<Rightarrow> RpcEnvelope result + PendingCall \<Rightarrow> 'w PerService \<Rightarrow> bool" where
  "entered_ok req m ctx0 svc r svc' \<longleftrightarrow>
     same_entry svc svc' \<and> ingress_ok svc' \<and>
     (case r of
        Inl _ \<Rightarrow> running_of svc' \<subseteq> running_of svc
      | Inr pc \<Rightarrow>
          running_of svc' \<subseteq> running_of svc \<union> admission_keys (pc_admission pc) \<and>
          executes (pc_admission pc) \<and> (pc_actor pc \<longleftrightarrow> actor_keyed m) \<and>
          (\<not> pc_actor pc \<longrightarrow> pc_admission pc = None) \<and>
          (\<exists>act adm t ee. pc = pending_call req m (pc_ctx pc) act adm t ee) \<and>
          pc_ctx pc = ctx0\<lparr>rc_actor_key := (if actor_keyed m
             then Some (projr (extract_key m (v_payload req))) else rc_actor_key ctx0)\<rparr>)"

lemma same_entry_trans: "same_entry a b \<Longrightarrow> same_entry b c \<Longrightarrow> same_entry a c"
  by (simp add: same_entry_def)

lemma finish_after_admission:
  assumes "ingress_ok svc" and "executes adm" and "running_of svc \<subseteq> R \<union> admission_keys adm"
  shows "\<exists>x svc'. map_option (left_with reg) (finish_ordered_error VD D adm e svc) = Some (Inl (Inl x), svc', reg) \<and>
    same_entry svc svc' \<and> ingress_ok svc' \<and> running_of svc' \<subseteq> R"
  using finish_ordered_error_spec [OF assms(1,2), of VD D e] assms(3)
  by (fastforce simp: left_with_def)

lemma enter_actor_spec:
  assumes ok: "ingress_ok svc" and ka: "actor_keyed m"
  shows "\<exists>r svc' reg'. enter_actor VD D be inc req meta m ctx0 t svc reg = Some (r, svc', reg') \<and>
    entered_ok req m ctx0 svc r svc'"
proof (cases "extract_key m (v_payload req)")
  case (Inl e)
  then show ?thesis using ok by (simp add: enter_actor_def entered_ok_def same_entry_def)
next
  case (Inr key)
  let ?ctx = "ctx0\<lparr>rc_actor_key := Some key\<rparr>"
  obtain x svc1 where A: "ordered_admit VD inc req meta m key svc = (x, svc1)" by fastforce
  note S1 = ordered_admit_spec [OF ok A]
  show ?thesis
  proof (cases x)
    case (Inl r)
    then show ?thesis using S1 A \<open>extract_key m (v_payload req) = Inr key\<close>
      by (simp add: enter_actor_def entered_ok_def)
  next
    case (Inr adm)
    have ex: "executes adm" and r1: "running_of svc1 = running_of svc \<union> admission_keys adm"
      and o1: "ingress_ok svc1" and e1: "same_entry svc svc1" using S1 Inr by simp_all
    obtain g reg1 where G: "GetOrCreate (v_service req) key (be_factory be) reg = (g, reg1)" by fastforce
    obtain mb svc2 where M: "MailboxFor key svc1 = (mb, svc2)" by fastforce
    note F2 = MailboxFor_frame [OF M]
    have o2: "ingress_ok svc2" and r2: "running_of svc2 = running_of svc1" and e2: "same_entry svc svc2"
      using F2 o1 same_entry_trans [OF e1] by (simp_all add: ingress_defs)
    obtain ee svc3 where Q: "enqueue_task key t (be_scheduler_ok be) svc2 = (ee, svc3)" by fastforce
    note F3 = enqueue_task_frame [OF Q]
    have o3: "ingress_ok svc3" and r3: "running_of svc3 = running_of svc1" and e3: "same_entry svc svc3"
      using F3 o2 r2 same_entry_trans [OF e2] by (simp_all add: ingress_defs)
    note unf = enter_actor_def Let_def A Inr G M Q \<open>extract_key m (v_payload req) = Inr key\<close>
    have refuse: "entered_ok req m ctx0 svc (Inl y) svc'"
      if "same_entry sv svc'" "same_entry svc sv" "ingress_ok svc'" "running_of svc' \<subseteq> running_of svc" for y sv svc'
      using that same_entry_trans by (auto simp: entered_ok_def)
    have wait: "entered_ok req m ctx0 svc (Inr (pending_call req m ?ctx True adm t' e')) svc'"
      if "same_entry svc svc'" "ingress_ok svc'" "running_of svc' = running_of svc1" for t' e' svc'
      using that r1 ex ka \<open>extract_key m (v_payload req) = Inr key\<close> by (auto simp: entered_ok_def)
    show ?thesis
    proof (cases g)
      case (Inl e)
      then show ?thesis
        using finish_after_admission [OF o1 ex equalityD1 [OF r1], of reg1 VD D e] refuse [OF _ e1]
        by (auto simp: unf)
    next
      case gr: (Inr i)
      show ?thesis
      proof (cases "be_waiter_created be")
        case False
        obtain y svc' where "map_option (left_with reg1) (finish_ordered_error VD D adm
              (MakeError RuntimeUnavailable ''co waiter unavailable'') svc2) = Some (Inl (Inl y), svc', reg1)"
          and "same_entry svc2 svc'" "ingress_ok svc'" "running_of svc' \<subseteq> running_of svc"
          using finish_after_admission [OF o2 ex equalityD1 [OF r2 [unfolded r1]]] by blast
        then show ?thesis using gr False refuse [OF _ e2, of svc' "Inl y"] by (intro exI [of _ "Inl (Inl y)"] exI [of _ svc'] exI [of _ reg1]) (simp add: unf)
      next
        case True
        then show ?thesis using gr wait [OF e2 o2 r2] wait [OF e3 o3 r3] by (auto simp: unf)
      qed
    qed
  qed
qed

lemma enter_concurrent_spec:
  assumes "ingress_ok svc" and "\<not> actor_keyed m"
    and "enter_concurrent req m ctx svc reg = (r, svc', reg')"
  shows "entered_ok req m ctx svc r svc'"
  using assms
  by (auto simp: enter_concurrent_def entered_ok_def same_entry_def ingress_defs
      intro!: exI [of _ False] exI [of _ None] split: if_splits)

text \<open>The wake-up settles the admission, whatever woke the dispatch.\<close>

lemma actor_outcome_spec:
  assumes "ingress_ok svc" and "executes (pc_admission pc)"
  shows "\<exists>r svc'. actor_outcome VD D pc st slot svc = Some (r, svc') \<and> same_entry svc svc' \<and>
    ingress_ok svc' \<and> running_of svc' = running_of svc - admission_keys (pc_admission pc) \<and>
    (\<forall>rep. r = Inr rep \<longrightarrow> (\<exists>payload. slot = Inr payload \<and> st = WCompleted \<and> rep = pending_reply pc payload))"
proof (cases "\<exists>payload. st = WCompleted \<and> pc_enqueue_error pc = None \<and> slot = Inr payload")
  case True
  then obtain payload where e: "st = WCompleted" "pc_enqueue_error pc = None" "slot = Inr payload" by blast
  obtain x svc' where c: "complete_admission VD D (pc_admission pc)
      \<lparr>rp_is_ok = True, rp_payload = payload, rp_error = MakeError InternalError []\<rparr> svc = Some (x, svc')"
    and s: "same_entry svc svc'" "ingress_ok svc'"
      "running_of svc' = running_of svc - admission_keys (pc_admission pc)"
    using complete_admission_spec [OF assms] by blast
  from e c s show ?thesis by (cases x) (simp_all add: actor_outcome_def)
next
  case False
  then have "\<exists>e. actor_outcome VD D pc st slot svc = finish_ordered_error VD D (pc_admission pc) e svc"
    by (cases st; cases slot; cases "pc_enqueue_error pc") (auto simp: actor_outcome_def)
  then obtain e where "actor_outcome VD D pc st slot svc = finish_ordered_error VD D (pc_admission pc) e svc" ..
  then show ?thesis using finish_ordered_error_spec [OF assms, of VD D e] by auto
qed

subsection \<open>The dispatcher as a machine\<close>

datatype dispatch_op =
    OBegin BeginEnv IncomingCallContext RpcEnvelope
  | OEnd nat WaitStatus "string result"
  | OGrant string OrderedGrant

definition grant_service :: "OrderedGrant \<Rightarrow> 'w PerService \<Rightarrow> 'w PerService" where
  "grant_service g svc =
     svc\<lparr>ps_ordered_ingress := map_option (\<lambda>ing. snd (GrantStream g ing)) (ps_ordered_ingress svc)\<rparr>"

definition dispatch_step :: "details_check \<Rightarrow> infra_domains \<Rightarrow> 'w DispatchWorld \<Rightarrow> dispatch_op \<Rightarrow> 'w DispatchWorld" where
  "dispatch_step VD D w x =
     (case x of
        OBegin be inc req \<Rightarrow> (case dispatch_begin VD D be inc req w of None \<Rightarrow> w | Some (_, w') \<Rightarrow> w')
      | OEnd i st slot \<Rightarrow>
          if length (dw_pending w) \<le> i then w
          else (case dispatch_end VD D i st slot w of None \<Rightarrow> w | Some (_, w') \<Rightarrow> w')
      | OGrant name g \<Rightarrow>
          (case map_of (dw_services w) name of
             None \<Rightarrow> w
           | Some svc \<Rightarrow> put_service name (grant_service g svc) w))"

definition calls_of :: "string \<Rightarrow> PendingCall list \<Rightarrow> PendingCall list" where
  "calls_of name ps = filter (\<lambda>pc. pc_service pc = name) ps"

definition held :: "PendingCall list \<Rightarrow> (StreamKey \<times> u64) set" where
  "held ps = (\<Union>pc \<in> set ps. admission_keys (pc_admission pc))"

definition svc_ok :: "PendingCall list \<Rightarrow> string \<Rightarrow> 'w PerService \<Rightarrow> bool" where
  "svc_ok ps name svc \<longleftrightarrow>
     ps_inflight svc = length (calls_of name ps) \<and> ps_inflight svc \<le> max_inflight (ps_options svc) \<and>
     ingress_ok svc \<and> running_of svc \<subseteq> held (calls_of name ps)"

definition call_ok :: "'w DispatchWorld \<Rightarrow> PendingCall \<Rightarrow> bool" where
  "call_ok w pc \<longleftrightarrow> map_of (dw_services w) (pc_service pc) \<noteq> None \<and> executes (pc_admission pc) \<and>
     (\<not> pc_actor pc \<longrightarrow> pc_admission pc = None)"

definition dw_inv :: "'w DispatchWorld \<Rightarrow> bool" where
  "dw_inv w \<longleftrightarrow>
     (\<forall>name svc. map_of (dw_services w) name = Some svc \<longrightarrow> svc_ok (dw_pending w) name svc) \<and>
     (\<forall>pc \<in> set (dw_pending w). call_ok w pc)"

lemma put_service_simps [simp]:
  "map_of (dw_services (put_service name svc w)) = (map_of (dw_services w))(name \<mapsto> svc)"
  "dw_pending (put_service name svc w) = dw_pending w"
  "dw_registry (put_service name svc w) = dw_registry w"
  by (auto simp: put_service_def map_of_update fun_eq_iff)

lemma calls_of_append [simp]: "calls_of name (ps @ qs) = calls_of name ps @ calls_of name qs"
  by (simp add: calls_of_def)

lemma calls_of_one: "calls_of name [pc] = (if pc_service pc = name then [pc] else [])"
  by (simp add: calls_of_def)

lemma held_simps [simp]:
  "held [] = {}" "held (pc # ps) = admission_keys (pc_admission pc) \<union> held ps"
  "held (ps @ qs) = held ps \<union> held qs"
  by (auto simp: held_def)

text \<open>Replacing one service, and the calls of that service with it.\<close>

lemma dw_inv_change:
  assumes inv: "dw_inv w" and live: "map_of (dw_services w) name \<noteq> None"
    and svc: "svc_ok ps name svc"
    and others: "\<And>n. n \<noteq> name \<Longrightarrow> calls_of n ps = calls_of n (dw_pending w)"
    and calls: "\<And>pc. pc \<in> set ps \<Longrightarrow> pc \<in> set (dw_pending w) \<or>
      pc_service pc = name \<and> executes (pc_admission pc) \<and> (\<not> pc_actor pc \<longrightarrow> pc_admission pc = None)"
    and w': "map_of (dw_services w') = (map_of (dw_services w))(name \<mapsto> svc)" "dw_pending w' = ps"
  shows "dw_inv w'"
  unfolding dw_inv_def
proof (intro conjI allI impI ballI)
  fix n s
  assume "map_of (dw_services w') n = Some s"
  moreover from this have "svc_ok (dw_pending w) n s" if "n \<noteq> name"
    using that inv w' by (simp add: dw_inv_def)
  ultimately show "svc_ok (dw_pending w') n s"
    using svc others [of n] w' by (cases "n = name") (simp_all add: svc_ok_def)
next
  fix pc
  assume "pc \<in> set (dw_pending w')"
  then show "call_ok w' pc" using calls [of pc] inv live w' by (auto simp: dw_inv_def call_ok_def)
qed

text \<open>All the checks before the execution policy.\<close>

definition accepted_by :: "BeginEnv \<Rightarrow> IncomingCallContext \<Rightarrow> RpcEnvelope \<Rightarrow> 'w DispatchWorld
    \<Rightarrow> ParsedMetadata \<Rightarrow> 'w PerService \<Rightarrow> 'w RpcMethod \<Rightarrow> bool" where
  "accepted_by be inc req w meta svc m \<longleftrightarrow>
     check_request req = Inr meta \<and> locate req w = Inr (svc, m) \<and>
     ps_inflight svc < max_inflight (ps_options svc) \<and>
     be_now be < in_deadline inc - kReplyDeliveryReserve"

definition refusal :: "BeginEnv \<Rightarrow> IncomingCallContext \<Rightarrow> RpcEnvelope \<Rightarrow> 'w DispatchWorld \<Rightarrow> error" where
  "refusal be inc req w =
     (case check_request req of
        Inl e \<Rightarrow> e
      | Inr meta \<Rightarrow>
          (case locate req w of
             Inl e \<Rightarrow> e
           | Inr (svc, m) \<Rightarrow>
               if max_inflight (ps_options svc) \<le> ps_inflight svc
               then MakeError Overloaded (''inbound dispatch: service '' @ quoted (v_service req) @
                   '' reached max_inflight'')
               else MakeError TimedOut ''inbound request budget already expired before handler entry''))"

lemma dispatch_begin_refused:
  assumes "\<nexists>meta svc m. accepted_by be inc req w meta svc m"
  shows "dispatch_begin VD D be inc req w = Some (Some (Inl (refusal be inc req w)), w)"
  using assms
  by (auto simp: dispatch_begin_def accepted_by_def refusal_def request_context_def Let_def fail_def
      not_less split: sum.splits)

lemma locate_live: "locate req w = Inr (svc, m) \<Longrightarrow>
    map_of (dw_services w) (v_service req) = Some svc \<and> table_find (ps_table svc) (v_method req) = Some m \<and>
    v_request_schema req = request_schema m"
  by (auto simp: locate_def split: option.splits if_splits)

lemma dispatch_begin_accepted:
  assumes acc: "accepted_by be inc req w meta svc m" and inv: "dw_inv w"
  obtains r svc' reg' where
    "dispatch_begin VD D be inc req w = Some (case r of
       Inl ans \<Rightarrow> (Some ans, (put_service (v_service req) (svc'\<lparr>ps_inflight := ps_inflight svc' - 1\<rparr>) w)
         \<lparr>dw_registry := reg'\<rparr>)
     | Inr pc \<Rightarrow> (None, (put_service (v_service req) svc' w)
         \<lparr>dw_registry := reg', dw_next_task := dw_next_task w + 1, dw_pending := dw_pending w @ [pc]\<rparr>))"
    and "entered_ok req m (request_context inc req meta) (svc\<lparr>ps_inflight := ps_inflight svc + 1\<rparr>) r svc'"
proof -
  let ?svc = "svc\<lparr>ps_inflight := ps_inflight svc + 1\<rparr>" and ?ctx = "request_context inc req meta"
  have "svc_ok (dw_pending w) (v_service req) svc"
    using acc inv locate_live [of req w svc m] by (auto simp: accepted_by_def dw_inv_def)
  then have ok: "ingress_ok ?svc" by (simp add: svc_ok_def ingress_defs)
  have "\<exists>r svc' reg'. (if actor_keyed m
      then enter_actor VD D be inc req meta m ?ctx (dw_next_task w) ?svc (dw_registry w)
      else Some (enter_concurrent req m ?ctx ?svc (dw_registry w))) = Some (r, svc', reg') \<and>
      entered_ok req m ?ctx ?svc r svc'"
    using enter_actor_spec [OF ok, of m] enter_concurrent_spec [OF ok, of m req ?ctx]
    by (cases "actor_keyed m"; cases "enter_concurrent req m ?ctx ?svc (dw_registry w)") auto
  then obtain r svc' reg' where e: "(if actor_keyed m
      then enter_actor VD D be inc req meta m ?ctx (dw_next_task w) ?svc (dw_registry w)
      else Some (enter_concurrent req m ?ctx ?svc (dw_registry w))) = Some (r, svc', reg')"
    and o: "entered_ok req m ?ctx ?svc r svc'" by blast
  have "dispatch_begin VD D be inc req w = map_option (\<lambda>(r, svc2, reg).
       (case r of
          Inl ans \<Rightarrow> (Some ans, (put_service (v_service req)
            (svc2\<lparr>ps_inflight := ps_inflight svc2 - 1\<rparr>) w)\<lparr>dw_registry := reg\<rparr>)
        | Inr pc \<Rightarrow> (None, (put_service (v_service req) svc2 w)
            \<lparr>dw_registry := reg, dw_next_task := dw_next_task w + 1,
             dw_pending := dw_pending w @ [pc]\<rparr>)))
     (if actor_keyed m
      then enter_actor VD D be inc req meta m ?ctx (dw_next_task w) ?svc (dw_registry w)
      else Some (enter_concurrent req m ?ctx ?svc (dw_registry w)))"
    using acc by (simp add: dispatch_begin_def accepted_by_def request_context_def Let_def)
  then show ?thesis by (intro that [OF _ o, of reg']) (simp only: e, simp)
qed


lemma dispatch_begin_keeps:
  assumes inv: "dw_inv w"
  shows "\<exists>r w'. dispatch_begin VD D be inc req w = Some (r, w') \<and> dw_inv w'"
proof (cases "\<exists>meta svc m. accepted_by be inc req w meta svc m")
  case False
  then show ?thesis using dispatch_begin_refused [OF False, of VD D] inv by simp
next
  case True
  then obtain meta svc m where acc: "accepted_by be inc req w meta svc m" by blast
  from dispatch_begin_accepted [OF acc inv, of VD D] obtain r svc' reg' where
    b: "dispatch_begin VD D be inc req w = Some (case r of
       Inl ans \<Rightarrow> (Some ans, (put_service (v_service req) (svc'\<lparr>ps_inflight := ps_inflight svc' - 1\<rparr>) w)
         \<lparr>dw_registry := reg'\<rparr>)
     | Inr pc \<Rightarrow> (None, (put_service (v_service req) svc' w)
         \<lparr>dw_registry := reg', dw_next_task := dw_next_task w + 1, dw_pending := dw_pending w @ [pc]\<rparr>))"
    and e: "entered_ok req m (request_context inc req meta) (svc\<lparr>ps_inflight := ps_inflight svc + 1\<rparr>) r svc'" .
  have live: "map_of (dw_services w) (v_service req) = Some svc"
    using acc locate_live [of req w svc m] by (simp add: accepted_by_def)
  have old: "svc_ok (dw_pending w) (v_service req) svc" using inv live by (simp add: dw_inv_def)
  have less: "ps_inflight svc < max_inflight (ps_options svc)" using acc by (simp add: accepted_by_def)
  have rs: "running_of (svc\<lparr>ps_inflight := n\<rparr>) = running_of svc"
    "ingress_ok (svc\<lparr>ps_inflight := n\<rparr>) = ingress_ok svc" for n svc
    by (simp_all add: ingress_defs)
  show ?thesis
  proof (cases r)
    case (Inl ans)
    let ?svc = "svc'\<lparr>ps_inflight := ps_inflight svc' - 1\<rparr>"
    have "svc_ok (dw_pending w) (v_service req) ?svc"
      using e old Inl by (auto simp: entered_ok_def same_entry_def svc_ok_def rs)
    then have "dw_inv ((put_service (v_service req) ?svc w)\<lparr>dw_registry := reg'\<rparr>)"
      by (intro dw_inv_change [OF inv]) (simp_all add: live)
    then show ?thesis using b Inl by simp
  next
    case (Inr pc)
    have pc: "pc_service pc = v_service req" "executes (pc_admission pc)"
      "\<not> pc_actor pc \<longrightarrow> pc_admission pc = None"
      using e Inr by (auto simp: entered_ok_def)
    have "svc_ok (dw_pending w @ [pc]) (v_service req) svc'"
      using e old less Inr pc by (auto simp: entered_ok_def same_entry_def svc_ok_def rs calls_of_one)
    then have "dw_inv ((put_service (v_service req) svc' w)\<lparr>dw_registry := reg',
        dw_next_task := dw_next_task w + 1, dw_pending := dw_pending w @ [pc]\<rparr>)"
      using pc by (intro dw_inv_change [OF inv]) (auto simp: live calls_of_one)
    then show ?thesis using b Inr by simp
  qed
qed

lemma dispatch_end_keeps:
  assumes inv: "dw_inv w" and i: "i < length (dw_pending w)"
  shows "\<exists>r w'. dispatch_end VD D i st slot w = Some (r, w') \<and> dw_inv w' \<and>
    dw_pending w' = take i (dw_pending w) @ drop (Suc i) (dw_pending w) \<and>
    (\<forall>rep. r = Inr rep \<longrightarrow> (\<exists>payload. slot = Inr payload \<and> rep = pending_reply (dw_pending w ! i) payload))"
proof -
  let ?pc = "dw_pending w ! i" and ?ps = "take i (dw_pending w) @ drop (Suc i) (dw_pending w)"
  have ps: "dw_pending w = take i (dw_pending w) @ [?pc] @ drop (Suc i) (dw_pending w)"
    using id_take_nth_drop [OF i] by simp
  have "call_ok w ?pc" using inv i by (auto simp: dw_inv_def)
  then obtain svc where svc: "map_of (dw_services w) (pc_service ?pc) = Some svc"
    and ex: "executes (pc_admission ?pc)" and na: "\<not> pc_actor ?pc \<longrightarrow> pc_admission ?pc = None"
    by (auto simp: call_ok_def)
  have old: "svc_ok (dw_pending w) (pc_service ?pc) svc" using inv svc by (simp add: dw_inv_def)
  then have ok: "ingress_ok svc" by (simp add: svc_ok_def)
  have "\<exists>r svc'. (if pc_actor ?pc then actor_outcome VD D ?pc st slot svc
       else Some (case slot of Inl e \<Rightarrow> Inl e | Inr payload \<Rightarrow> Inr (pending_reply ?pc payload), svc)) = Some (r, svc') \<and>
     same_entry svc svc' \<and> ingress_ok svc' \<and> running_of svc' = running_of svc - admission_keys (pc_admission ?pc) \<and>
     (\<forall>rep. r = Inr rep \<longrightarrow> (\<exists>payload. slot = Inr payload \<and> rep = pending_reply ?pc payload))"
  proof (cases "pc_actor ?pc")
    case True
    with actor_outcome_spec [OF ok ex, of VD D st slot] show ?thesis by auto
  next
    case False
    then show ?thesis using na ok
      by (cases slot) (simp_all add: same_entry_def admission_keys_def)
  qed
  then obtain r svc' where o: "(if pc_actor ?pc then actor_outcome VD D ?pc st slot svc
       else Some (case slot of Inl e \<Rightarrow> Inl e | Inr payload \<Rightarrow> Inr (pending_reply ?pc payload), svc)) = Some (r, svc')"
    and s': "same_entry svc svc'" "ingress_ok svc'" "running_of svc' = running_of svc - admission_keys (pc_admission ?pc)"
    and rep: "\<forall>rep. r = Inr rep \<longrightarrow> (\<exists>payload. slot = Inr payload \<and> rep = pending_reply ?pc payload)" by blast
  let ?svc = "svc'\<lparr>ps_inflight := ps_inflight svc' - 1\<rparr>"
  let ?w = "put_service (pc_service ?pc) ?svc (w\<lparr>dw_pending := ?ps\<rparr>)"
  have e: "dispatch_end VD D i st slot w = Some (r, ?w)"
    unfolding dispatch_end_def Let_def svc option.case o by simp
  have rs: "running_of (svc\<lparr>ps_inflight := n\<rparr>) = running_of svc"
    "ingress_ok (svc\<lparr>ps_inflight := n\<rparr>) = ingress_ok svc" for n svc
    by (simp_all add: ingress_defs)
  have cs: "calls_of n (dw_pending w) =
      calls_of n (take i (dw_pending w)) @ (if pc_service ?pc = n then [?pc] else []) @ calls_of n (drop (Suc i) (dw_pending w))" for n
    by (subst ps, simp only: calls_of_append calls_of_one)
  have "svc_ok ?ps (pc_service ?pc) ?svc"
    using old s' by (auto simp: svc_ok_def same_entry_def rs cs [of "pc_service ?pc"])
  then have "dw_inv ?w"
    by (intro dw_inv_change [OF inv]) (auto simp: svc cs dest: in_set_takeD in_set_dropD)
  then show ?thesis using e rep by simp
qed

lemma dispatch_step_inv: "dw_inv w \<Longrightarrow> dw_inv (dispatch_step VD D w x)"
proof (cases x)
  case (OBegin be inc req)
  assume "dw_inv w"
  from dispatch_begin_keeps [OF this, of VD D be inc req] show ?thesis
    by (auto simp: OBegin dispatch_step_def)
next
  case (OEnd i st slot)
  assume inv: "dw_inv w"
  show ?thesis
  proof (cases "i < length (dw_pending w)")
    case True
    from dispatch_end_keeps [OF inv this, of VD D st slot] True show ?thesis
      by (auto simp: OEnd dispatch_step_def)
  qed (use inv in \<open>simp add: OEnd dispatch_step_def\<close>)
next
  case (OGrant name g)
  assume inv: "dw_inv w"
  show ?thesis
  proof (cases "map_of (dw_services w) name")
    case (Some svc)
    then have "svc_ok (dw_pending w) name svc" using inv by (simp add: dw_inv_def)
    then have "svc_ok (dw_pending w) name (grant_service g svc)"
      using GrantStream_running [of _ g]
      by (fastforce simp: svc_ok_def grant_service_def ingress_defs split: option.splits)
    then show ?thesis using Some
      by (simp add: OGrant dispatch_step_def) (rule dw_inv_change [OF inv], auto)
  qed (use inv in \<open>simp add: OGrant dispatch_step_def\<close>)
qed

text \<open>The start of the host: every entry is bound, an ordered one to a new ingress.\<close>

definition bind_entries :: "(string \<times> 'w InboundServiceEntry \<times> OrderedIngressConfig option) list \<Rightarrow> ActorRegistry
    \<Rightarrow> 'w DispatchWorld" where
  "bind_entries es reg = InboundDispatcher
     (map (\<lambda>(n, e, c). (n, e\<lparr>ps_ordered_ingress := map_option initial_ingress c\<rparr>)) es) reg"

lemma bound_service:
  "map_of (dw_services (bind_entries es reg)) name = Some svc \<Longrightarrow>
   ps_inflight svc = 0 \<and> (\<exists>c. ps_ordered_ingress svc = map_option initial_ingress c)"
  by (induction es) (auto simp: bind_entries_def InboundDispatcher_def per_service_def split: if_splits)

lemma running_initial [simp]: "running (initial_ingress c) = {}"
  by (auto simp: running_alt)

lemma bind_entries_inv: "dw_inv (bind_entries es reg)"
proof -
  have "svc_ok [] name svc" if "map_of (dw_services (bind_entries es reg)) name = Some svc" for name svc
  proof -
    from bound_service [OF that] obtain c where
      "ps_inflight svc = 0" "ps_ordered_ingress svc = map_option initial_ingress c" by blast
    then show ?thesis
      by (cases c) (simp_all add: svc_ok_def calls_of_def ingress_defs initial_ingress_inv)
  qed
  then show ?thesis by (simp add: dw_inv_def bind_entries_def InboundDispatcher_def)
qed

interpretation dispatcher: machine "bind_entries es reg" "dispatch_step VD D" dw_inv for es reg VD D
  by unfold_locales (simp_all add: bind_entries_inv dispatch_step_inv)

lemma calls_of_set: "pc \<in> set (calls_of name ps) \<longleftrightarrow> pc \<in> set ps \<and> pc_service pc = name"
  by (auto simp: calls_of_def)

subsection \<open>Properties\<close>


text \<open>C9: No ordered sequence is stranded. In every reachable state each sequence that an ordered
  ingress holds in flight belongs to a dispatch that still waits and holds exactly that
  admission; when no dispatch of the service waits, nothing is in flight.\<close>

theorem in_flight_sequences_have_a_dispatch:
  assumes "map_of (dw_services (run_ops (dispatch_step VD D) (bind_entries es reg) ops)) name = Some svc"
    and "(k, q) \<in> running_of svc"
  shows "\<exists>pc \<in> set (dw_pending (run_ops (dispatch_step VD D) (bind_entries es reg) ops)).
    pc_service pc = name \<and> pc_actor pc \<and>
    (\<exists>a. pc_admission pc = Some a \<and> a_kind a = Execute \<and> key_of_admission a = k \<and> a_sequence a = q)"
proof -
  let ?w = "run_ops (dispatch_step VD D) (bind_entries es reg) ops"
  have inv: "dw_inv ?w" by (rule dispatcher.inv_run)
  then have "svc_ok (dw_pending ?w) name svc" using assms(1) by (simp add: dw_inv_def)
  then have "(k, q) \<in> held (calls_of name (dw_pending ?w))" using assms(2) by (auto simp: svc_ok_def)
  then obtain pc where pc: "pc \<in> set (dw_pending ?w)" "pc_service pc = name" "(k, q) \<in> admission_keys (pc_admission pc)"
    by (auto simp: held_def calls_of_set)
  moreover have "call_ok ?w pc" using inv pc(1) by (simp add: dw_inv_def)
  ultimately show ?thesis
    by (intro bexI [OF _ pc(1)]) (auto simp: call_ok_def ingress_defs split: option.splits)
qed

text \<open>C13: A dispatch always answers. In every reachable state \<open>Dispatch\<close> reaches its answer or its
  wait, a wake-up with any status produces an answer and removes exactly that waiting
  dispatch, and a successful answer carries the payload of the handler and the five
  association fields of the request.\<close>

theorem dispatch_always_answers:
  assumes "w = run_ops (dispatch_step VD D) (bind_entries es reg) ops"
  shows "dispatch_begin VD D be inc req w \<noteq> None \<and>
    (i < length (dw_pending w) \<longrightarrow>
      (\<exists>r w'. dispatch_end VD D i st slot w = Some (r, w') \<and>
        dw_pending w' = take i (dw_pending w) @ drop (Suc i) (dw_pending w) \<and>
        (\<forall>rep. r = Inr rep \<longrightarrow>
          slot = Inr (v_payload rep) \<and> v_service rep = pc_service (dw_pending w ! i) \<and>
          v_method rep = pc_method (dw_pending w ! i) \<and>
          v_request_id rep = pc_request_id (dw_pending w ! i) \<and>
          v_request_schema rep = pc_request_schema (dw_pending w ! i) \<and>
          v_response_schema rep = pc_response_schema (dw_pending w ! i))))"
proof -
  have inv: "dw_inv w" unfolding assms by (rule dispatcher.inv_run)
  show ?thesis
    using dispatch_begin_keeps [OF inv, of VD D be inc req] dispatch_end_keeps [OF inv, of i VD D st slot]
    by (fastforce simp: pending_reply_def reply_envelope_def)
qed

text \<open>C12: Only checked requests reach a handler. In every reachable state: a request that fails a
  check (fields, metadata, service, method, schema, capacity, time left) is answered with the
  error of the first failing check and changes nothing, so it consumes no sequence; a request
  that becomes a waiting dispatch passed them all, and its handler sees the deadline of the
  connection less the reply reserve, the verified peer, and the actor key of the extractor.\<close>

theorem only_checked_requests_enter:
  assumes "w = run_ops (dispatch_step VD D) (bind_entries es reg) ops"
    and "dispatch_begin VD D be inc req w = Some (r, w')"
  shows "(\<exists>meta svc m. accepted_by be inc req w meta svc m \<and>
      (r = None \<longrightarrow>
        (\<exists>pc. dw_pending w' = dw_pending w @ [pc] \<and> pc_service pc = v_service req \<and>
          pc_method pc = v_method req \<and> pc_request_id pc = v_request_id req \<and>
          pc_request_schema pc = v_request_schema req \<and> pc_response_schema pc = response_schema m \<and>
          (pc_actor pc \<longleftrightarrow> actor_keyed m) \<and>
          pc_ctx pc = \<lparr>rc_request_id = v_request_id req,
            rc_actor_key = (if actor_keyed m then Some (projr (extract_key m (v_payload req))) else None),
            rc_deadline = in_deadline inc - kReplyDeliveryReserve,
            rc_peer_principal = in_peer_principal inc, rc_trace_id = pm_trace_id meta\<rparr>))) \<or>
    (\<forall>meta svc m. \<not> accepted_by be inc req w meta svc m) \<and>
      r = Some (Inl (refusal be inc req w)) \<and> w' = w"
proof (cases "\<exists>meta svc m. accepted_by be inc req w meta svc m")
  case False
  with dispatch_begin_refused [OF False, of VD D] assms(2) show ?thesis by simp
next
  case True
  have inv: "dw_inv w" unfolding assms(1) by (rule dispatcher.inv_run)
  from True obtain meta svc m where acc: "accepted_by be inc req w meta svc m" by blast
  from dispatch_begin_accepted [OF acc inv, of VD D] obtain x svc' reg' where
    b: "dispatch_begin VD D be inc req w = Some (case x of
       Inl ans \<Rightarrow> (Some ans, (put_service (v_service req) (svc'\<lparr>ps_inflight := ps_inflight svc' - 1\<rparr>) w)
         \<lparr>dw_registry := reg'\<rparr>)
     | Inr pc \<Rightarrow> (None, (put_service (v_service req) svc' w)
         \<lparr>dw_registry := reg', dw_next_task := dw_next_task w + 1, dw_pending := dw_pending w @ [pc]\<rparr>))"
    and e: "entered_ok req m (request_context inc req meta) (svc\<lparr>ps_inflight := ps_inflight svc + 1\<rparr>) x svc'" .
  have schema: "v_request_schema req = request_schema m"
    using acc locate_live [of req w svc m] by (simp add: accepted_by_def)
  show ?thesis
  proof (intro disjI1 exI [of _ meta] exI [of _ svc] exI [of _ m] conjI acc impI)
    assume "r = None"
    with b assms(2) obtain pc where x: "x = Inr pc" and w': "dw_pending w' = dw_pending w @ [pc]"
      by (cases x) auto
    have "\<exists>act adm t ee. pc = pending_call req m (pc_ctx pc) act adm t ee"
      using e unfolding x entered_ok_def sum.case by blast
    then obtain act adm t ee where p: "pc = pending_call req m (pc_ctx pc) act adm t ee" by blast
    have f: "pc_service pc = v_service req" "pc_method pc = v_method req"
      "pc_request_id pc = v_request_id req" "pc_request_schema pc = v_request_schema req"
      "pc_response_schema pc = response_schema m"
      by (subst p, simp add: schema)+
    from e x have "pc_actor pc \<longleftrightarrow> actor_keyed m"
      "pc_ctx pc = (request_context inc req meta)\<lparr>rc_actor_key := (if actor_keyed m
             then Some (projr (extract_key m (v_payload req))) else None)\<rparr>"
      by (auto simp: entered_ok_def request_context_def)
    with f w' show "\<exists>pc. dw_pending w' = dw_pending w @ [pc] \<and> pc_service pc = v_service req \<and>
          pc_method pc = v_method req \<and> pc_request_id pc = v_request_id req \<and>
          pc_request_schema pc = v_request_schema req \<and> pc_response_schema pc = response_schema m \<and>
          (pc_actor pc \<longleftrightarrow> actor_keyed m) \<and>
          pc_ctx pc = \<lparr>rc_request_id = v_request_id req,
            rc_actor_key = (if actor_keyed m then Some (projr (extract_key m (v_payload req))) else None),
            rc_deadline = in_deadline inc - kReplyDeliveryReserve,
            rc_peer_principal = in_peer_principal inc, rc_trace_id = pm_trace_id meta\<rparr>"
      by (intro exI [of _ pc]) (simp add: request_context_def)
  qed
qed

subsection \<open>A concrete dispatcher\<close>

definition demo_method :: "unit RpcMethod" where
  "demo_method = \<lparr>m_name = ''m'', request_schema = ''q'', response_schema = ''r'', actor_keyed = True,
     invoke = (\<lambda>w p. (Inr p, w)), extract_key = (\<lambda>p. Inr ''k'')\<rparr>"

definition demo_entry :: "unit InboundServiceEntry" where
  "demo_entry = \<lparr>ps_options = \<lparr>execution = ActorSerial, max_inflight = 2, mailbox_capacity = 2, max_actors = 2,
       ordered_ingress = True, max_ordered_streams = 2, max_cached_results = 2, max_cached_result_bytes = 99\<rparr>,
     ps_table = [demo_method], ps_instance = None, ps_ordered_ingress = None\<rparr>"

definition demo_start :: "unit DispatchWorld" where
  "demo_start = bind_entries
     [(''s'', demo_entry, Some \<lparr>c_service = ''s'', c_max_ordered_streams = 2, c_max_cached_results = 2,
        c_max_cached_result_bytes = 99\<rparr>)]
     (snd (RegisterFactory ''s'' True 2 empty_registry))"

definition stamped_envelope :: "string \<Rightarrow> string \<Rightarrow> RpcEnvelope" where
  "stamped_envelope i sq = \<lparr>v_service = ''s'', v_method = ''m'', v_request_id = i, v_request_schema = ''q'',
     v_response_schema = [],
     v_metadata = [(''fw.sequence'', sq), (''fw.producer_id'', ''p''), (''fw.producer_epoch'', ''1''),
       (''fw.receiver_epoch'', ''2'')],
     v_payload = ''x''\<rparr>"

definition demo_env :: BeginEnv where
  "demo_env = \<lparr>be_now = 0, be_factory = Made 7, be_waiter_created = True, be_registered = True, be_scheduler_ok = True\<rparr>"

definition demo_incoming :: IncomingCallContext where
  "demo_incoming = \<lparr>in_deadline = 90000000, in_peer_principal = ''peer''\<rparr>"

definition dispatch_demo_ops :: "dispatch_op list" where
  "dispatch_demo_ops =
     [OGrant ''s'' \<lparr>g_service = ''s'', g_actor_key = ''k'', g_producer_id = ''p'', g_producer_epoch = ''1'',
        g_receiver_epoch = ''2'', g_peer_principal = ''peer''\<rparr>,
      OBegin demo_env demo_incoming (stamped_envelope ''i'' ''1'')]"

definition lenient :: details_check where "lenient e = Inr ()"
definition no_domains :: infra_domains where "no_domains c = ([], [])"

definition demo_dispatch :: "unit DispatchWorld" where
  "demo_dispatch = run_ops (dispatch_step lenient no_domains) demo_start dispatch_demo_ops"

lemma demo_service:
  "\<exists>svc. map_of (dw_services demo_dispatch) ''s'' = Some svc \<and> ps_inflight svc = 1"
proof -
  have "map_option ps_inflight (map_of (dw_services demo_dispatch) ''s'') = Some 1"
    unfolding demo_dispatch_def by code_simp
  then show ?thesis by auto
qed

lemma demo_pending: "length (dw_pending demo_dispatch) = 1"
  unfolding demo_dispatch_def by code_simp


theorem in_flight_sequences_have_a_dispatch_witness:
  "\<exists>pc \<in> set (dw_pending demo_dispatch). pc_service pc = ''s'' \<and>
    (\<exists>a. pc_admission pc = Some a \<and> a_sequence a = 1)"
proof -
  obtain svc where s: "map_of (dw_services demo_dispatch) ''s'' = Some svc"
    using demo_service by blast
  let ?k = "\<lparr>sk_actor_key = ''k'', sk_producer_id = ''p'', sk_producer_epoch = ''1''\<rparr>"
  have "map_option (\<lambda>v. map_option (\<lambda>g. map_option (\<lambda>st. map_of (in_flight st) 1) (map_of (streams g) ?k))
      (ps_ordered_ingress v)) (map_of (dw_services demo_dispatch) ''s'') =
      Some (Some (Some (Some \<lparr>fl_request_id = ''i'', fl_digest = ''1:m|1:k|1:x|''\<rparr>)))"
    unfolding demo_dispatch_def by code_simp
  then have "(?k, 1) \<in> running_of svc" using s by (auto simp: running_of_def running_alt split: option.splits)
  from in_flight_sequences_have_a_dispatch [OF s [unfolded demo_dispatch_def demo_start_def] this]
  show ?thesis by (fastforce simp: demo_dispatch_def demo_start_def)
qed

theorem dispatch_always_answers_witness:
  "\<exists>r w'. dispatch_end lenient no_domains 0 WCompleted (Inr ''y'') demo_dispatch = Some (r, w') \<and> dw_pending w' = []"
proof -
  have "take 0 (dw_pending demo_dispatch) @ drop (Suc 0) (dw_pending demo_dispatch) = []"
    using demo_pending by simp
  then show ?thesis
    using dispatch_always_answers [OF demo_dispatch_def [unfolded demo_start_def], of undefined undefined undefined 0
      WCompleted "Inr ''y''"] demo_pending by auto
qed

theorem only_checked_requests_enter_witness:
  "\<exists>w' pc. dispatch_begin lenient no_domains demo_env demo_incoming (stamped_envelope ''i'' ''1'')
      (run_ops (dispatch_step lenient no_domains) demo_start [hd dispatch_demo_ops]) = Some (None, w') \<and>
    dw_pending w' = [pc] \<and> rc_deadline (pc_ctx pc) = 70000000 \<and> rc_peer_principal (pc_ctx pc) = ''peer''"
proof -
  let ?w = "run_ops (dispatch_step lenient no_domains) demo_start [hd dispatch_demo_ops]"
  let ?b = "dispatch_begin lenient no_domains demo_env demo_incoming (stamped_envelope ''i'' ''1'') ?w"
  have "map_option fst ?b = Some None" by code_simp
  then obtain w' where b: "?b = Some (None, w')" by auto
  have "length (dw_pending ?w) = 0" by code_simp
  then show ?thesis
    using only_checked_requests_enter [OF refl b [unfolded demo_start_def]] b
    by (auto simp: demo_start_def demo_incoming_def kReplyDeliveryReserve_def)
qed

subsection \<open>Retransmission\<close>









end
