(* ===== verification/Lifecycle.thy ===== *)
theory Lifecycle
  imports Prelude
begin

text \<open>
  The lifecycle of the host: \<open>internal/HostLifecycle.hpp\<close> and \<open>src/host/HostLifecycle.cc\<close>.
  \<open>Run\<close> is executed by one control thread. The network host, the hooks and the scheduler are
  outside: what each of their calls does (returns a result, throws) is a field of the
  environment, and every call leaves an event in a trace. \<open>Run\<close> may block for ever, when no
  shutdown is ever requested or when it parks; then its result is \<open>None\<close>.
\<close>

subsection \<open>State\<close>

datatype Phase = Idle | Starting | Running | Closing | ShutdownIncomplete | PhaseClosed | Failed

datatype ShutdownState = StRunning | StClosing | StShutdownIncomplete | StClosed

datatype DrainOutcome = Drained | Interrupted | Undrained

datatype call_outcome = Returns "unit result" | ThrowsStd string | ThrowsOther

datatype host_event =
    ESchedulerStart | EStartHook | ECreate | EStart | EStopAccepting | EWait bool
  | EDrainedHook | EClose | ERelease

text \<open>The outside: one field per call, in the order the calls are made.\<close>

record HostEnv =
  he_host :: bool
  he_step_budget :: int
  he_scheduler :: "call_outcome option"
  he_start_hook :: "call_outcome option"
  he_create :: call_outcome
  he_start :: call_outcome
  he_requested :: bool
  he_wait :: "unit result"
  he_reason :: bool
  he_late_wait :: "unit result"
  he_late_reason :: bool
  he_drained_hook :: "call_outcome option"
  he_release_hook :: "call_outcome option"

record HostLifecycle =
  m_started :: bool
  m_host_created :: bool
  m_exceeded_budget :: bool
  m_phase :: Phase
  m_state :: ShutdownState
  m_incomplete :: "string list"
  m_failures :: "string list"
  m_trace :: "host_event list"

definition new_lifecycle :: HostLifecycle where
  "new_lifecycle = \<lparr>m_started = False, m_host_created = False, m_exceeded_budget = False, m_phase = Idle,
     m_state = StRunning, m_incomplete = [], m_failures = [], m_trace = []\<rparr>"

definition kExitOk :: int where "kExitOk = 0"
definition kExitRejected :: int where "kExitRejected = 1"
definition kExitStartFailed :: int where "kExitStartFailed = 2"
definition kExitShutdownLate :: int where "kExitShutdownLate = 3"
definition kExitShutdownFailed :: int where "kExitShutdownFailed = 4"

lemmas exit_codes = kExitOk_def kExitRejected_def kExitStartFailed_def kExitShutdownLate_def kExitShutdownFailed_def

definition event :: "host_event \<Rightarrow> HostLifecycle \<Rightarrow> HostLifecycle" where
  "event e h = h\<lparr>m_trace := m_trace h @ [e]\<rparr>"

definition SetPhase :: "Phase \<Rightarrow> HostLifecycle \<Rightarrow> HostLifecycle" where
  "SetPhase p h = h\<lparr>m_phase := p, m_state :=
     (case p of
        Closing \<Rightarrow> StClosing
      | ShutdownIncomplete \<Rightarrow> StShutdownIncomplete
      | PhaseClosed \<Rightarrow> StClosed
      | Failed \<Rightarrow> StClosed
      | _ \<Rightarrow> StRunning)\<rparr>"

definition AddFailure :: "string \<Rightarrow> HostLifecycle \<Rightarrow> HostLifecycle" where
  "AddFailure w h = h\<lparr>m_failures := m_failures h @ [w]\<rparr>"

definition EnterIncomplete :: "string \<Rightarrow> HostLifecycle \<Rightarrow> HostLifecycle" where
  "EnterIncomplete step h = SetPhase ShutdownIncomplete (h\<lparr>m_incomplete := m_incomplete h @ [step]\<rparr>)"

definition LeaveIncomplete :: "string \<Rightarrow> HostLifecycle \<Rightarrow> HostLifecycle" where
  "LeaveIncomplete step h = h\<lparr>m_incomplete := remove1 step (m_incomplete h)\<rparr>"

subsection \<open>Start\<close>

text \<open>
  The guarded part of \<open>Run\<close>: the first failure or exception ends it; an exception becomes an
  error with the text of the handler that catches it.
\<close>

definition caught :: "call_outcome \<Rightarrow> unit result" where
  "caught x =
     (case x of
        Returns r \<Rightarrow> r
      | ThrowsStd what \<Rightarrow> fail InternalError (''startup threw: '' @ what)
      | ThrowsOther \<Rightarrow> fail InternalError ''startup threw (non-std::exception)'')"

definition StartUp :: "HostEnv \<Rightarrow> HostLifecycle \<Rightarrow> unit result \<times> HostLifecycle" where
  "StartUp e h =
     (let h1 = (if he_start_hook e = None then h else event EStartHook h)
      in case (case he_start_hook e of None \<Rightarrow> Inr () | Some x \<Rightarrow> caught x) of
          Inl er \<Rightarrow> (Inl er, h1)
        | Inr _ \<Rightarrow>
            (case caught (he_create e) of
               Inl er \<Rightarrow> (Inl er, event ECreate h1)
             | Inr _ \<Rightarrow> (caught (he_start e), event EStart ((event ECreate h1)\<lparr>m_host_created := True\<rparr>))))"

text \<open>\<open>he_scheduler\<close> is \<open>None\<close> when the scheduler is already initialised.\<close>

definition guarded_start :: "HostEnv \<Rightarrow> HostLifecycle \<Rightarrow> unit result \<times> HostLifecycle" where
  "guarded_start e h =
     (case he_scheduler e of
        None \<Rightarrow> StartUp e h
      | Some x \<Rightarrow>
          (case caught x of
             Inl er \<Rightarrow> (Inl er, event ESchedulerStart h)
           | Inr _ \<Rightarrow> StartUp e (event ESchedulerStart h)))"

subsection \<open>Shutdown\<close>

definition wait_step :: string where "wait_step = ''WaitHandlersDone''"

definition WaitHandlersDone :: "HostEnv \<Rightarrow> HostLifecycle \<Rightarrow> DrainOutcome \<times> HostLifecycle" where
  "WaitHandlersDone e h =
     (let h1 = event (EWait True) h
      in case he_wait e of
          Inr _ \<Rightarrow> (Drained, h1)
        | Inl er \<Rightarrow>
            if he_reason e then (Interrupted, h1)
            else
              let timed_out = (err_code er = TimedOut);
                  h2 = (if timed_out then h1 else AddFailure (wait_step @ '': '' @ err_message er) h1);
                  h3 = event (EWait False) (EnterIncomplete wait_step h2)
              in case he_late_wait e of
                  Inr _ \<Rightarrow>
                    (Drained, (LeaveIncomplete wait_step h3)
                       \<lparr>m_exceeded_budget := (if timed_out then True else m_exceeded_budget h3)\<rparr>)
                | Inl er2 \<Rightarrow>
                    if he_late_reason e then
                      (Interrupted, (LeaveIncomplete wait_step h3)
                         \<lparr>m_exceeded_budget := (if timed_out then True else m_exceeded_budget h3)\<rparr>)
                    else (Undrained, AddFailure (wait_step @ '': '' @ err_message er2) h3))"

definition OnHandlersDrained :: "HostEnv \<Rightarrow> HostLifecycle \<Rightarrow> HostLifecycle" where
  "OnHandlersDrained e h =
     (case he_drained_hook e of
        None \<Rightarrow> h
      | Some x \<Rightarrow>
          (case x of
             Returns _ \<Rightarrow> event EDrainedHook h
           | ThrowsStd what \<Rightarrow> AddFailure (''on_handlers_drained: '' @ what) (event EDrainedHook h)
           | ThrowsOther \<Rightarrow> AddFailure ''on_handlers_drained threw'' (event EDrainedHook h)))"

definition release_hook :: "HostEnv \<Rightarrow> HostLifecycle \<Rightarrow> HostLifecycle" where
  "release_hook e h =
     (case he_release_hook e of
        None \<Rightarrow> h
      | Some (Returns _) \<Rightarrow> event ERelease h
      | Some _ \<Rightarrow> AddFailure ''on_release hook threw'' (event ERelease h))"

definition shutdown_code :: "bool \<Rightarrow> HostLifecycle \<Rightarrow> int" where
  "shutdown_code interrupted h =
     (if m_failures h \<noteq> [] then
        (if interrupted \<and> m_exceeded_budget h then kExitShutdownLate else kExitShutdownFailed)
      else if m_exceeded_budget h then kExitShutdownLate else kExitOk)"

text \<open>\<open>ShutDown\<close>; no exit code when the thread parks.\<close>

definition ShutDown :: "HostEnv \<Rightarrow> HostLifecycle \<Rightarrow> int option \<times> HostLifecycle" where
  "ShutDown e h =
     (let h1 = SetPhase Closing h
      in if m_host_created h1 then
           (case WaitHandlersDone e (event EStopAccepting h1) of
              (Undrained, h2) \<Rightarrow> (None, h2)
            | (Interrupted, h2) \<Rightarrow>
                let h3 = release_hook e (event EClose (AddFailure (wait_step @ '': interrupted by host close'') h2))
                in (Some (shutdown_code True h3), h3)
            | (Drained, h2) \<Rightarrow>
                let h3 = release_hook e (event EClose (OnHandlersDrained e h2))
                in (Some (shutdown_code False h3), h3))
         else let h3 = release_hook e h1 in (Some (shutdown_code False h3), h3))"

definition Run :: "HostEnv \<Rightarrow> HostLifecycle \<Rightarrow> int option \<times> HostLifecycle" where
  "Run e h0 =
     (if m_started h0 then (Some kExitRejected, h0)
      else
        let h = h0\<lparr>m_started := True\<rparr>
        in if \<not> he_host e then
             (Some kExitRejected, SetPhase Failed (AddFailure ''network host is not configured'' h))
           else if he_step_budget e \<le> 0 then
             (Some kExitRejected, SetPhase Failed (AddFailure ''step_budget must be > 0'' h))
           else
             (case guarded_start e (SetPhase Starting h) of
                (Inl er, h1) \<Rightarrow>
                  (case ShutDown e (AddFailure (''startup: '' @ err_message er) h1) of
                     (None, h2) \<Rightarrow> (None, h2)
                   | (Some _, h2) \<Rightarrow> (Some kExitStartFailed, SetPhase Failed h2))
              | (Inr _, h1) \<Rightarrow>
                  (let h2 = SetPhase Running h1
                   in if \<not> he_requested e then (None, h2)
                      else case ShutDown e h2 of
                          (None, h3) \<Rightarrow> (None, h3)
                        | (Some rc, h3) \<Rightarrow>
                            (Some rc, SetPhase (if rc = kExitShutdownFailed then Failed else PhaseClosed) h3))))"

subsection \<open>What an observer may expect\<close>

text \<open>The environment, reduced to what decides the course of a run.\<close>

definition accepted :: "HostEnv \<Rightarrow> bool" where
  "accepted e \<longleftrightarrow> he_host e \<and> 0 < he_step_budget e"

definition start_calls :: "HostEnv \<Rightarrow> (host_event \<times> call_outcome) list" where
  "start_calls e =
     (case he_scheduler e of None \<Rightarrow> [] | Some x \<Rightarrow> [(ESchedulerStart, x)]) @
     (case he_start_hook e of None \<Rightarrow> [] | Some x \<Rightarrow> [(EStartHook, x)]) @
     [(ECreate, he_create e), (EStart, he_start e)]"

text \<open>The calls up to and including the first that does not succeed.\<close>

fun performed :: "(host_event \<times> call_outcome) list \<Rightarrow> host_event list" where
  "performed [] = []"
| "performed ((ev, x) # cs) = ev # (if is_ok (caught x) then performed cs else [])"

fun succeeds :: "(host_event \<times> call_outcome) list \<Rightarrow> bool" where
  "succeeds cs \<longleftrightarrow> list_all (\<lambda>(_, x). is_ok (caught x)) cs"

definition created :: "HostEnv \<Rightarrow> bool" where
  "created e \<longleftrightarrow> EStart \<in> set (performed (start_calls e))"

definition drain_of :: "HostEnv \<Rightarrow> DrainOutcome" where
  "drain_of e =
     (if is_ok (he_wait e) then Drained
      else if he_reason e then Interrupted
      else if is_ok (he_late_wait e) then Drained
      else if he_late_reason e then Interrupted
      else Undrained)"

definition waits :: "HostEnv \<Rightarrow> host_event list" where
  "waits e = (if is_ok (he_wait e) \<or> he_reason e then [EWait True] else [EWait True, EWait False])"

definition throws :: "call_outcome option \<Rightarrow> bool" where
  "throws x \<longleftrightarrow> (case x of None \<Rightarrow> False | Some (Returns _) \<Rightarrow> False | Some _ \<Rightarrow> True)"

definition called :: "host_event \<Rightarrow> call_outcome option \<Rightarrow> host_event list" where
  "called ev x = (if x = None then [] else [ev])"

text \<open>The order of the shutdown steps.\<close>

definition shutdown_trace :: "HostEnv \<Rightarrow> host_event list" where
  "shutdown_trace e =
     (if created e then
        EStopAccepting # waits e @
        (case drain_of e of
           Drained \<Rightarrow> called EDrainedHook (he_drained_hook e) @ EClose # called ERelease (he_release_hook e)
         | Interrupted \<Rightarrow> EClose # called ERelease (he_release_hook e)
         | Undrained \<Rightarrow> [])
      else called ERelease (he_release_hook e))"

definition run_trace :: "HostEnv \<Rightarrow> host_event list" where
  "run_trace e =
     (if \<not> accepted e then []
      else performed (start_calls e) @
        (if succeeds (start_calls e) \<and> \<not> he_requested e then [] else shutdown_trace e))"

definition timed_out :: "HostEnv \<Rightarrow> bool" where
  "timed_out e \<longleftrightarrow> code_of (he_wait e) = Some TimedOut \<and> \<not> he_reason e"

definition shutdown_failed :: "HostEnv \<Rightarrow> bool" where
  "shutdown_failed e \<longleftrightarrow>
     (\<not> is_ok (he_wait e) \<and> \<not> timed_out e) \<or> drain_of e = Interrupted \<or>
     (drain_of e = Drained \<and> throws (he_drained_hook e)) \<or> throws (he_release_hook e)"

definition run_code :: "HostEnv \<Rightarrow> int option" where
  "run_code e =
     (if \<not> accepted e then Some kExitRejected
      else if created e \<and> drain_of e = Undrained \<and> (succeeds (start_calls e) \<longrightarrow> he_requested e) then None
      else if \<not> succeeds (start_calls e) then Some kExitStartFailed
      else if \<not> he_requested e then None
      else if shutdown_failed e \<and> \<not> (drain_of e = Interrupted \<and> timed_out e) then Some kExitShutdownFailed
      else if timed_out e then Some kExitShutdownLate
      else Some kExitOk)"

subsection \<open>Lemmas\<close>

lemmas lifecycle_setters = event_def SetPhase_def AddFailure_def EnterIncomplete_def LeaveIncomplete_def

lemma Wait_spec:
  assumes "WaitHandlersDone e h = (d, h')"
  shows "d = drain_of e" and "m_trace h' = m_trace h @ waits e"
    and "m_failures h' = [] \<longleftrightarrow> m_failures h = [] \<and> (is_ok (he_wait e) \<or> timed_out e \<or> he_reason e) \<and> d \<noteq> Undrained"
    and "d \<noteq> Undrained \<Longrightarrow> m_exceeded_budget h' \<longleftrightarrow> m_exceeded_budget h \<or> timed_out e"
    and "d \<noteq> Undrained \<Longrightarrow> m_incomplete h' = m_incomplete h \<or> wait_step \<in> set (m_incomplete h)"
  using assms
  by (auto simp: WaitHandlersDone_def Let_def drain_of_def waits_def lifecycle_setters timed_out_def remove1_append
      split: sum.splits if_splits)

lemma release_hook_spec:
  "m_trace (release_hook e h) = m_trace h @ called ERelease (he_release_hook e)"
  "m_failures (release_hook e h) = [] \<longleftrightarrow> m_failures h = [] \<and> \<not> throws (he_release_hook e)"
  "m_exceeded_budget (release_hook e h) = m_exceeded_budget h"
  "m_phase (release_hook e h) = m_phase h"
  by (auto simp: release_hook_def lifecycle_setters called_def throws_def split: option.splits call_outcome.splits)

lemma OnHandlersDrained_spec:
  "m_trace (OnHandlersDrained e h) = m_trace h @ called EDrainedHook (he_drained_hook e)"
  "m_failures (OnHandlersDrained e h) = [] \<longleftrightarrow> m_failures h = [] \<and> \<not> throws (he_drained_hook e)"
  "m_exceeded_budget (OnHandlersDrained e h) = m_exceeded_budget h"
  by (auto simp: OnHandlersDrained_def lifecycle_setters called_def throws_def split: option.splits call_outcome.splits)

lemma start_spec:
  assumes "guarded_start e h = (r, h')"
  shows "m_trace h' = m_trace h @ performed (start_calls e)"
    and "is_ok r \<longleftrightarrow> succeeds (start_calls e)"
    and "\<not> m_host_created h \<Longrightarrow> m_host_created h' \<longleftrightarrow> created e"
    and "m_failures h' = m_failures h" and "m_exceeded_budget h' = m_exceeded_budget h"
  using assms
  by (auto simp: guarded_start_def StartUp_def Let_def start_calls_def created_def is_ok_def caught_def fail_def
      lifecycle_setters split: option.splits sum.splits if_splits call_outcome.splits)

lemma ShutDown_spec:
  assumes sd: "ShutDown e h = (r, h')" and created: "m_host_created h \<longleftrightarrow> created e" and ex: "\<not> m_exceeded_budget h"
  shows "m_trace h' = m_trace h @ shutdown_trace e"
    and "r = None \<longleftrightarrow> created e \<and> drain_of e = Undrained"
    and "r = Some rc \<Longrightarrow> m_failures h = [] \<Longrightarrow> created e \<Longrightarrow> rc =
      (if shutdown_failed e \<and> \<not> (drain_of e = Interrupted \<and> timed_out e) then kExitShutdownFailed
       else if timed_out e then kExitShutdownLate else kExitOk)"
    and "r = None \<Longrightarrow> m_phase h' = ShutdownIncomplete \<and> m_state h' = StShutdownIncomplete \<and>
      m_incomplete h' = m_incomplete h @ [wait_step]"
proof -
  obtain d h2 where w: "WaitHandlersDone e (event EStopAccepting (SetPhase Closing h)) = (d, h2)"
    by fastforce
  note W = Wait_spec [OF w]
  note defs = ShutDown_def Let_def lifecycle_setters shutdown_trace_def W(1) [symmetric]
  have "m_trace h' = m_trace h @ shutdown_trace e" if "created e"
    using sd that created w W(2)
    by (cases d) (auto simp: defs release_hook_spec OnHandlersDrained_spec)
  moreover have "m_trace h' = m_trace h @ shutdown_trace e" if "\<not> created e"
    using sd that created by (auto simp: defs release_hook_spec)
  ultimately show "m_trace h' = m_trace h @ shutdown_trace e" by blast
  show "r = None \<longleftrightarrow> created e \<and> drain_of e = Undrained"
    using sd created w W(1) by (cases d) (auto simp: ShutDown_def Let_def lifecycle_setters)
  show "rc = (if shutdown_failed e \<and> \<not> (drain_of e = Interrupted \<and> timed_out e) then kExitShutdownFailed
       else if timed_out e then kExitShutdownLate else kExitOk)"
    if rc: "r = Some rc" and f: "m_failures h = []" and c: "created e"
  proof -
    have h2: "m_failures h2 = [] \<longleftrightarrow> (is_ok (he_wait e) \<or> timed_out e \<or> he_reason e) \<and> d \<noteq> Undrained"
      using W(3) f by (simp add: lifecycle_setters)
    show ?thesis
    proof (cases d)
      case Drained
      then have "m_exceeded_budget h2 \<longleftrightarrow> timed_out e" using W(4) ex by (simp add: lifecycle_setters)
      moreover have "he_reason e \<Longrightarrow> is_ok (he_wait e)" using W(1) Drained by (auto simp: drain_of_def split: if_splits)
      ultimately show ?thesis using sd rc c created w W(1) h2 Drained
        by (auto simp: ShutDown_def Let_def shutdown_code_def shutdown_failed_def release_hook_spec
            OnHandlersDrained_spec lifecycle_setters)
    next
      case Interrupted
      then have "m_exceeded_budget h2 \<longleftrightarrow> timed_out e" using W(4) ex by (simp add: lifecycle_setters)
      then show ?thesis using sd rc c created w W(1) h2 Interrupted
        by (auto simp: ShutDown_def Let_def shutdown_code_def shutdown_failed_def release_hook_spec lifecycle_setters)
    next
      case Undrained
      then show ?thesis using sd rc c created w by (simp add: ShutDown_def Let_def lifecycle_setters)
    qed
  qed
  show "m_phase h' = ShutdownIncomplete \<and> m_state h' = StShutdownIncomplete \<and>
      m_incomplete h' = m_incomplete h @ [wait_step]" if "r = None"
    using sd that created w
    by (cases d) (auto simp: ShutDown_def WaitHandlersDone_def Let_def lifecycle_setters split: if_splits sum.splits)
qed

subsection \<open>Properties\<close>

lemma Run_accepted:
  assumes acc: "accepted e" and st: "guarded_start e (SetPhase Starting (new_lifecycle\<lparr>m_started := True\<rparr>)) = (r, h)"
  shows "Run e new_lifecycle =
    (case r of
       Inl er \<Rightarrow>
         (case ShutDown e (AddFailure (''startup: '' @ err_message er) h) of
            (None, h2) \<Rightarrow> (None, h2) | (Some _, h2) \<Rightarrow> (Some kExitStartFailed, SetPhase Failed h2))
     | Inr _ \<Rightarrow>
         if \<not> he_requested e then (None, SetPhase Running h)
         else case ShutDown e (SetPhase Running h) of
             (None, h3) \<Rightarrow> (None, h3)
           | (Some rc, h3) \<Rightarrow> (Some rc, SetPhase (if rc = kExitShutdownFailed then Failed else PhaseClosed) h3))"
  using assms by (simp add: Run_def accepted_def new_lifecycle_def Let_def split: sum.splits)

lemma succeeds_created: "succeeds (start_calls e) \<Longrightarrow> created e"
  by (auto simp: succeeds.simps created_def start_calls_def split: option.splits)

lemma Run_exact:
  "fst (Run e new_lifecycle) = run_code e \<and> m_trace (snd (Run e new_lifecycle)) = run_trace e"
proof (cases "accepted e")
  case False
  then show ?thesis
    by (auto simp: Run_def accepted_def new_lifecycle_def run_code_def run_trace_def lifecycle_setters Let_def)
next
  case True
  obtain r h where st: "guarded_start e (SetPhase Starting (new_lifecycle\<lparr>m_started := True\<rparr>)) = (r, h)" by fastforce
  note S = start_spec [OF st]
  have h: "m_trace h = performed (start_calls e)" "m_host_created h \<longleftrightarrow> created e"
    "m_failures h = []" "\<not> m_exceeded_budget h"
    using S by (auto simp: lifecycle_setters new_lifecycle_def)
  note R = Run_accepted [OF True st]
  show ?thesis
  proof (cases r)
    case (Inl er)
    then have ns: "\<not> succeeds (start_calls e)" using S(2) by simp
    obtain c h2 where sd: "ShutDown e (AddFailure (''startup: '' @ err_message er) h) = (c, h2)" by fastforce
    note D = ShutDown_spec [OF sd, simplified AddFailure_def, simplified]
    show ?thesis using R Inl ns sd True h D(1,2)
      by (cases c) (auto simp: run_code_def run_trace_def lifecycle_setters)
  next
    case (Inr u)
    then have s: "succeeds (start_calls e)" "created e" using S(2) succeeds_created by auto
    obtain c h2 where sd: "ShutDown e (SetPhase Running h) = (c, h2)" by fastforce
    note D = ShutDown_spec [OF sd, simplified SetPhase_def, simplified]
    show ?thesis using R Inr s sd True h D(1,2) D(3) [of "the c"]
      by (cases c) (auto simp: run_code_def run_trace_def lifecycle_setters)
  qed
qed

text \<open>C21: The lifecycle follows its fixed order, whatever the scheduler, the hooks and the network
  host do. The calls of a run are exactly: the start steps up to the first failure; then,
  when the host was created, stop accepting, the wait with the budget, at most one unbounded
  wait, the drained hook only when the drain was proved, close, release. The exit code is
  exactly the documented one, and \<open>Run\<close> does not return exactly when no shutdown is requested
  or the drain of a created host was never proved.\<close>

theorem lifecycle_order_and_exit_code:
  "fst (Run e new_lifecycle) = run_code e \<and> m_trace (snd (Run e new_lifecycle)) = run_trace e"
  by (rule Run_exact)

text \<open>C22: Resources are kept until the drain is proved. When a created host can neither be drained
  nor is closed by someone else, \<open>Run\<close> does not return: it stays in \<open>ShutdownIncomplete\<close> and
  names the missing step, and neither the drained hook, nor \<open>Close\<close>, nor the release hook has
  been called.\<close>

theorem undrained_host_keeps_resources:
  assumes "accepted e" and "created e" and "drain_of e = Undrained"
    and "succeeds (start_calls e) \<Longrightarrow> he_requested e"
  shows "fst (Run e new_lifecycle) = None \<and>
    set (m_trace (snd (Run e new_lifecycle))) \<inter> {EDrainedHook, EClose, ERelease} = {} \<and>
    m_state (snd (Run e new_lifecycle)) = StShutdownIncomplete \<and>
    m_incomplete (snd (Run e new_lifecycle)) = [''WaitHandlersDone'']"
proof -
  obtain r h where st: "guarded_start e (SetPhase Starting (new_lifecycle\<lparr>m_started := True\<rparr>)) = (r, h)" by fastforce
  note S = start_spec [OF st]
  have h: "m_host_created h \<longleftrightarrow> created e" "\<not> m_exceeded_budget h"
    using S by (auto simp: lifecycle_setters new_lifecycle_def)
  have inc: "m_incomplete h = []"
    using st by (auto simp: guarded_start_def StartUp_def Let_def lifecycle_setters new_lifecycle_def
        split: option.splits sum.splits if_splits)
  note R = Run_accepted [OF assms(1) st]
  have state: "m_state (snd (Run e new_lifecycle)) = StShutdownIncomplete \<and>
      m_incomplete (snd (Run e new_lifecycle)) = [wait_step]"
  proof (cases r)
    case (Inl er)
    obtain c h2 where sd: "ShutDown e (AddFailure (''startup: '' @ err_message er) h) = (c, h2)" by fastforce
    note D = ShutDown_spec [OF sd, simplified AddFailure_def, simplified]
    show ?thesis using R Inl sd h inc assms D(2,4) by (cases c) (auto simp: lifecycle_setters)
  next
    case (Inr u)
    then have "succeeds (start_calls e)" using S(2) by simp
    obtain c h2 where sd: "ShutDown e (SetPhase Running h) = (c, h2)" by fastforce
    note D = ShutDown_spec [OF sd, simplified SetPhase_def, simplified]
    show ?thesis using R Inr sd h inc assms D(2,4) \<open>succeeds (start_calls e)\<close>
      by (cases c) (auto simp: lifecycle_setters)
  qed
  have "fst (Run e new_lifecycle) = None \<and> m_trace (snd (Run e new_lifecycle)) = run_trace e"
    using Run_exact [of e] assms by (simp add: run_code_def)
  moreover have "set (run_trace e) \<inter> {EDrainedHook, EClose, ERelease} = {}"
    using assms by (auto simp: run_trace_def shutdown_trace_def waits_def start_calls_def split: option.splits)
  ultimately show ?thesis using state by (simp add: wait_step_def)
qed

definition demo_host :: HostEnv where
  "demo_host = \<lparr>he_host = True, he_step_budget = 5, he_scheduler = Some (Returns (Inr ())), he_start_hook = None,
     he_create = Returns (Inr ()), he_start = Returns (Inr ()), he_requested = True,
     he_wait = fail TimedOut ''t'', he_reason = False, he_late_wait = fail InternalError ''x'',
     he_late_reason = False, he_drained_hook = Some (Returns (Inr ())), he_release_hook = Some (Returns (Inr ()))\<rparr>"

theorem undrained_host_keeps_resources_witness:
  "fst (Run demo_host new_lifecycle) = None \<and>
   m_trace (snd (Run demo_host new_lifecycle)) =
     [ESchedulerStart, ECreate, EStart, EStopAccepting, EWait True, EWait False] \<and>
   m_incomplete (snd (Run demo_host new_lifecycle)) = [''WaitHandlersDone'']"
proof -
  have "accepted demo_host" "created demo_host" "drain_of demo_host = Undrained" "he_requested demo_host"
    by code_simp+
  moreover have "m_trace (snd (Run demo_host new_lifecycle)) =
     [ESchedulerStart, ECreate, EStart, EStopAccepting, EWait True, EWait False]" by code_simp
  ultimately show ?thesis using undrained_host_keeps_resources [of demo_host] by simp
qed

end
