(* ===== verification/Objects.thy ===== *)
theory Objects
  imports Prelude
begin

text \<open>
  The registry of managed objects: \<open>internal/Registry.hpp\<close>, \<open>src/host/Registry.cc\<close>, the value
  types of \<open>Object.hpp\<close> and \<open>Address.hpp\<close>. A pointer or reference to an entry, which the code
  obtains from \<open>FindEntryLocked\<close> and uses under the lock, is the position of the entry. A
  managed object is a number, a \<open>std::type_info\<close> its name, an observer callback a number. The
  counters of ids, generations and tokens are unbounded (64 bits in the code: they would wrap
  after \<open>2^64\<close> objects). Every operation holds \<open>m_mtx\<close> for its body and is one step; the
  wake-ups of waiters have no counterpart, the predicates they re-check do.
\<close>

subsection \<open>Values\<close>

datatype ObjectState =
    Created | Installing | Installed | Starting | Running | Paused | Stopping | Stopped
  | InstallFailed | Failed | StopIncomplete | Uninstalling | UninstallIncomplete | Destroyed
  | Invalidated | Unknown

datatype ComponentScope = AppScope | ServiceScope | ActorScope

datatype ObjectKind = KApp | KService | KActor | KComponent

record ObjectError =
  oe_code :: error_code
  oe_phase :: string
  oe_message :: string

datatype AddressKind = AddrService | AddrActor

record AppObjectAddress =
  ad_kind :: AddressKind
  ad_type :: string
  ad_key :: string
  ad_app :: string

definition ServiceAddress :: "string \<Rightarrow> string \<Rightarrow> AppObjectAddress" where
  "ServiceAddress n app = \<lparr>ad_kind = AddrService, ad_type = n, ad_key = [], ad_app = app\<rparr>"

definition ActorAddress :: "string \<Rightarrow> string \<Rightarrow> string \<Rightarrow> AppObjectAddress" where
  "ActorAddress t k app = \<lparr>ad_kind = AddrActor, ad_type = t, ad_key = k, ad_app = app\<rparr>"

definition ValidateAddress :: "AppObjectAddress \<Rightarrow> unit result" where
  "ValidateAddress a =
     (case ad_kind a of
        AddrService \<Rightarrow>
          if ad_type a = [] then fail InvalidArgument ''AppObjectAddress: service name empty'' else Inr ()
      | AddrActor \<Rightarrow>
          if ad_type a = [] \<or> ad_key a = []
          then fail InvalidArgument ''AppObjectAddress: actor type/key empty'' else Inr ())"

record ObjectInfo =
  oi_id :: string
  oi_generation :: nat
  oi_kind :: ObjectKind
  oi_type_name :: string
  oi_name :: string
  oi_scope :: ComponentScope
  oi_owner_id :: string
  oi_state :: ObjectState
  oi_last_error :: "ObjectError option"
  oi_observed_at :: int

record ActorInfo =
  ai_info :: ObjectInfo
  ai_actor_id :: "string \<times> string"
  ai_mailbox :: AppObjectAddress

record ObjectStateEvent =
  ev_id :: string
  ev_generation :: nat
  ev_state :: ObjectState
  ev_revision :: nat
  ev_observed_at :: int
  ev_error :: "ObjectError option"
  ev_actor :: "ActorInfo option"

text \<open>A handle; the registry it belongs to is a number, \<open>None\<close> when that registry is gone.\<close>

record ObjectHandle =
  h_reg :: "nat option"
  h_id :: string
  h_generation :: nat
  h_kind :: ObjectKind

subsection \<open>The registry\<close>

record Binding =
  b_subject :: string
  b_generation :: nat
  b_active :: bool
  b_retiring :: bool
  b_borrows :: nat

record RegistryEntry =
  re_id :: string
  re_generation :: nat
  re_kind :: ObjectKind
  re_type_name :: string
  re_name :: string
  re_scope :: ComponentScope
  re_owner_id :: string
  re_state :: ObjectState
  re_last_error :: "ObjectError option"
  re_revision :: nat
  re_object :: nat
  re_object_type :: string
  re_bindings :: "Binding list"
  re_component_borrows :: nat
  re_exec_leases :: nat
  re_hooks_in_flight :: nat
  re_op_in_progress :: bool
  re_gate_closed :: bool
  re_destroy_phase :: string

record ObserverRecord =
  or_id :: nat
  or_observer_id :: string
  or_observer_generation :: nat
  or_target_id :: string
  or_target_generation :: nat
  or_callback :: nat
  or_active :: bool
  or_in_flight :: nat

record LifecycleFailure =
  lf_object_id :: string
  lf_generation :: nat
  lf_operation :: string
  lf_phase :: string
  lf_code :: error_code
  lf_at :: int
  lf_message :: string

record CleanupInfo =
  ci_object_id :: string
  ci_generation :: nat
  ci_phase :: string
  ci_pending_borrows :: nat
  ci_pending_tasks :: nat
  ci_code :: error_code

record Limits =
  lim_objects :: nat
  lim_bindings :: nat
  lim_observers :: nat

record Registry =
  rg_self :: nat
  rg_limits :: Limits
  rg_entries :: "RegistryEntry list"
  rg_index :: "(string \<times> nat) list"
  rg_observers :: "(nat \<times> ObserverRecord) list"
  rg_next_observer_id :: nat
  rg_next_generation :: nat
  rg_next_id_seq :: nat
  rg_failures :: "LifecycleFailure list"
  rg_failures_dropped :: nat

definition new_registry :: "nat \<Rightarrow> Limits \<Rightarrow> Registry" where
  "new_registry self l =
     \<lparr>rg_self = self, rg_limits = l, rg_entries = [], rg_index = [], rg_observers = [],
      rg_next_observer_id = 1, rg_next_generation = 1, rg_next_id_seq = 0, rg_failures = [],
      rg_failures_dropped = 0\<rparr>"

subsection \<open>Entries\<close>

definition KindPrefix :: "ObjectKind \<Rightarrow> string" where
  "KindPrefix k = (case k of KApp \<Rightarrow> ''app'' | KService \<Rightarrow> ''service'' | KActor \<Rightarrow> ''actor'' | KComponent \<Rightarrow> ''component'')"

definition NextIdLocked :: "ObjectKind \<Rightarrow> Registry \<Rightarrow> string \<times> Registry" where
  "NextIdLocked k r = (KindPrefix k @ '':'' @ to_string (rg_next_id_seq r), r\<lparr>rg_next_id_seq := rg_next_id_seq r + 1\<rparr>)"

definition CountObjectsLocked :: "Registry \<Rightarrow> nat" where
  "CountObjectsLocked r = length (rg_entries r)"

definition new_entry :: "string \<Rightarrow> nat \<Rightarrow> ObjectKind \<Rightarrow> string \<Rightarrow> string \<Rightarrow> ComponentScope \<Rightarrow> string \<Rightarrow> string \<Rightarrow> nat
    \<Rightarrow> RegistryEntry" where
  "new_entry i g k tn n sc ow ty ob =
     \<lparr>re_id = i, re_generation = g, re_kind = k, re_type_name = tn, re_name = n, re_scope = sc,
      re_owner_id = ow, re_state = Created, re_last_error = None, re_revision = 0, re_object = ob,
      re_object_type = ty, re_bindings = [], re_component_borrows = 0, re_exec_leases = 0,
      re_hooks_in_flight = 0, re_op_in_progress = False, re_gate_closed = False, re_destroy_phase = []\<rparr>"

definition CreateEntryLocked :: "ObjectKind \<Rightarrow> string \<Rightarrow> string \<Rightarrow> ComponentScope \<Rightarrow> string \<Rightarrow> string \<Rightarrow> nat \<Rightarrow> Registry
    \<Rightarrow> nat result \<times> Registry" where
  "CreateEntryLocked k tn n sc ow ty ob r =
     (if lim_objects (rg_limits r) \<le> CountObjectsLocked r then
        (fail Overloaded ''registry: object limit reached'', r)
      else
        (case NextIdLocked k r of
           (i, r1) \<Rightarrow>
             let e = new_entry i (rg_next_generation r1) k tn n sc ow ty ob;
                 idx = length (rg_entries r1)
             in (Inr idx, r1\<lparr>rg_entries := rg_entries r1 @ [e], rg_index := emplace i idx (rg_index r1),
                   rg_next_generation := rg_next_generation r1 + 1\<rparr>)))"

definition FindEntryLocked :: "string \<Rightarrow> Registry \<Rightarrow> nat option" where
  "FindEntryLocked i r = map_of (rg_index r) i"

text \<open>The scans return the first position that matches.\<close>

fun first_index :: "('a \<Rightarrow> bool) \<Rightarrow> 'a list \<Rightarrow> nat option" where
  "first_index P [] = None"
| "first_index P (x # xs) = (if P x then Some 0 else map_option Suc (first_index P xs))"

definition FindComponentLocked :: "ComponentScope \<Rightarrow> string \<Rightarrow> string \<Rightarrow> string \<Rightarrow> Registry \<Rightarrow> nat option" where
  "FindComponentLocked sc ow ty n r =
     first_index (\<lambda>e. re_kind e = KComponent \<and> re_scope e = sc \<and>
       (re_scope e = AppScope \<or> re_owner_id e = ow) \<and> re_object_type e = ty \<and> re_name e = n) (rg_entries r)"

definition FindActorLocked :: "string \<Rightarrow> string \<Rightarrow> Registry \<Rightarrow> nat option" where
  "FindActorLocked ty k r =
     first_index (\<lambda>e. re_kind e = KActor \<and> re_type_name e = ty \<and> re_name e = k) (rg_entries r)"

definition FindByTypeNameLocked :: "ObjectKind \<Rightarrow> string \<Rightarrow> Registry \<Rightarrow> nat option" where
  "FindByTypeNameLocked k tn r = first_index (\<lambda>e. re_kind e = k \<and> re_type_name e = tn) (rg_entries r)"

definition CountBindingsLocked :: "Registry \<Rightarrow> nat" where
  "CountBindingsLocked r = sum_list (map (\<lambda>e. length (re_bindings e)) (rg_entries r))"

definition MakeHandleLocked :: "RegistryEntry \<Rightarrow> Registry \<Rightarrow> ObjectHandle" where
  "MakeHandleLocked e r =
     \<lparr>h_reg = Some (rg_self r), h_id = re_id e, h_generation = re_generation e, h_kind = re_kind e\<rparr>"

definition ListIds :: "Registry \<Rightarrow> string list" where
  "ListIds r = map re_id (rg_entries r)"

definition ListIdsState :: "ObjectKind \<Rightarrow> ObjectState \<Rightarrow> Registry \<Rightarrow> string list" where
  "ListIdsState k s r = map re_id (filter (\<lambda>e. re_kind e = k \<and> re_state e = s) (rg_entries r))"

definition ListIdsByKind :: "ObjectKind \<Rightarrow> Registry \<Rightarrow> string list" where
  "ListIdsByKind k r = map re_id (filter (\<lambda>e. re_kind e = k) (rg_entries r))"

definition upd_entry :: "nat \<Rightarrow> (RegistryEntry \<Rightarrow> RegistryEntry) \<Rightarrow> Registry \<Rightarrow> Registry" where
  "upd_entry i f r = r\<lparr>rg_entries := (rg_entries r)[i := f (rg_entries r ! i)]\<rparr>"

subsection \<open>State events\<close>

definition AddressOf :: "RegistryEntry \<Rightarrow> AppObjectAddress result" where
  "AddressOf e =
     (case re_kind e of
        KService \<Rightarrow> Inr (ServiceAddress (re_type_name e) [])
      | KActor \<Rightarrow> Inr (ActorAddress (re_type_name e) (re_name e) [])
      | _ \<Rightarrow> fail InvalidArgument ''GetMailBox: only Service and Actor objects have addresses'')"

definition info_of :: "int \<Rightarrow> RegistryEntry \<Rightarrow> ObjectInfo" where
  "info_of now e =
     \<lparr>oi_id = re_id e, oi_generation = re_generation e, oi_kind = re_kind e, oi_type_name = re_type_name e,
      oi_name = re_name e, oi_scope = re_scope e, oi_owner_id = re_owner_id e, oi_state = re_state e,
      oi_last_error = re_last_error e, oi_observed_at = now\<rparr>"

definition empty_address :: AppObjectAddress where
  "empty_address = \<lparr>ad_kind = AddrService, ad_type = [], ad_key = [], ad_app = []\<rparr>"

definition advance :: "ObjectState \<Rightarrow> ObjectError option \<Rightarrow> RegistryEntry \<Rightarrow> RegistryEntry" where
  "advance s err e =
     e\<lparr>re_state := s, re_last_error := (if err = None then re_last_error e else err),
       re_revision := re_revision e + 1\<rparr>"

definition state_event :: "int \<Rightarrow> RegistryEntry \<Rightarrow> ObjectStateEvent" where
  "state_event now e =
     \<lparr>ev_id = re_id e, ev_generation = re_generation e, ev_state = re_state e, ev_revision = re_revision e,
      ev_observed_at = now, ev_error = re_last_error e,
      ev_actor = (if re_kind e = KActor
        then Some \<lparr>ai_info = info_of now e, ai_actor_id = (re_type_name e, re_name e),
               ai_mailbox = (case AddressOf e of Inr a \<Rightarrow> a | Inl _ \<Rightarrow> empty_address)\<rparr>
        else None)\<rparr>"

type_synonym pending_event = "ObserverRecord \<times> ObjectStateEvent"

definition SetStateLocked :: "int \<Rightarrow> nat \<Rightarrow> ObjectState \<Rightarrow> ObjectError option \<Rightarrow> Registry
    \<Rightarrow> pending_event list \<times> Registry" where
  "SetStateLocked now i s err r =
     (let e = advance s err (rg_entries r ! i);
          ev = state_event now e
      in (map (\<lambda>(_, rec). (rec, ev))
            (filter (\<lambda>(_, rec). or_active rec \<and> or_target_id rec = re_id e \<and>
               or_target_generation rec = re_generation e) (rg_observers r)),
          upd_entry i (advance s err) r))"

definition SetStateAndGetEvents :: "int \<Rightarrow> string \<Rightarrow> ObjectState \<Rightarrow> ObjectError option \<Rightarrow> Registry
    \<Rightarrow> pending_event list \<times> Registry" where
  "SetStateAndGetEvents now i s err r =
     (case FindEntryLocked i r of None \<Rightarrow> ([], r) | Some p \<Rightarrow> SetStateLocked now p s err r)"

definition BeginOpLocked :: "nat \<Rightarrow> Registry \<Rightarrow> bool \<times> Registry" where
  "BeginOpLocked i r =
     (if re_op_in_progress (rg_entries r ! i) then (False, r)
      else (True, upd_entry i (re_op_in_progress_update (\<lambda>_. True)) r))"

definition EndOpLocked :: "nat \<Rightarrow> Registry \<Rightarrow> Registry" where
  "EndOpLocked i r = upd_entry i (re_op_in_progress_update (\<lambda>_. False)) r"

subsection \<open>Failures\<close>

text \<open>The bounded ring. \<open>pop_front\<close> on an empty deque is undefined behaviour: then the result is \<open>None\<close>.\<close>

definition RecordFailure :: "LifecycleFailure \<Rightarrow> Registry \<Rightarrow> Registry option" where
  "RecordFailure f r =
     (if lim_objects (rg_limits r) \<le> length (rg_failures r) then
        (case rg_failures r of
           [] \<Rightarrow> None
         | _ # fs \<Rightarrow> Some (r\<lparr>rg_failures := fs @ [f], rg_failures_dropped := rg_failures_dropped r + 1\<rparr>))
      else Some (r\<lparr>rg_failures := rg_failures r @ [f]\<rparr>))"

subsection \<open>Observers\<close>

definition upd_observer :: "nat \<Rightarrow> (ObserverRecord \<Rightarrow> ObserverRecord) \<Rightarrow> Registry \<Rightarrow> Registry" where
  "upd_observer t f r = r\<lparr>rg_observers := map (\<lambda>(k, rec). (k, if k = t then f rec else rec)) (rg_observers r)\<rparr>"

definition Observe :: "ObjectHandle \<Rightarrow> ObjectHandle \<Rightarrow> nat option \<Rightarrow> Registry \<Rightarrow> nat result \<times> Registry" where
  "Observe obs tgt callback r =
     (case callback of
        None \<Rightarrow> (fail InvalidArgument ''Observe: null callback'', r)
      | Some cb \<Rightarrow>
          if h_reg obs \<noteq> Some (rg_self r) \<or> h_reg tgt \<noteq> Some (rg_self r) then
            (fail InvalidArgument ''Observe: handle belongs to another registry'', r)
          else if lim_observers (rg_limits r) \<le> length (filter (\<lambda>(_, rec). or_active rec) (rg_observers r)) then
            (fail Overloaded ''Observe: observer limit reached'', r)
          else
            (case FindEntryLocked (h_id obs) r of
               None \<Rightarrow> (fail NotFound ''Observe: observer not found or generation stale'', r)
             | Some p \<Rightarrow>
                 if re_generation (rg_entries r ! p) \<noteq> h_generation obs then
                   (fail NotFound ''Observe: observer not found or generation stale'', r)
                 else
                   (case FindEntryLocked (h_id tgt) r of
                      None \<Rightarrow> (fail NotFound ''Observe: target not found or generation stale'', r)
                    | Some q \<Rightarrow>
                        if re_generation (rg_entries r ! q) \<noteq> h_generation tgt then
                          (fail NotFound ''Observe: target not found or generation stale'', r)
                        else
                          let t = rg_next_observer_id r
                          in (Inr t, r\<lparr>rg_next_observer_id := t + 1,
                                rg_observers := emplace t
                                  \<lparr>or_id = t, or_observer_id = h_id obs, or_observer_generation = h_generation obs,
                                   or_target_id = h_id tgt, or_target_generation = h_generation tgt,
                                   or_callback = cb, or_active = True, or_in_flight = 0\<rparr> (rg_observers r)\<rparr>))))"

text \<open>\<open>DispatchEvents\<close>, one event: take the lease, or skip; after the callback give it back.\<close>

definition take_lease :: "nat \<Rightarrow> Registry \<Rightarrow> nat option \<times> Registry" where
  "take_lease t r =
     (case map_of (rg_observers r) t of
        None \<Rightarrow> (None, r)
      | Some rec \<Rightarrow>
          if \<not> or_active rec then (None, r)
          else (Some (or_callback rec), upd_observer t (\<lambda>rec. rec\<lparr>or_in_flight := or_in_flight rec + 1\<rparr>) r))"

definition return_lease :: "nat \<Rightarrow> Registry \<Rightarrow> Registry" where
  "return_lease t r =
     upd_observer t (\<lambda>rec. rec\<lparr>or_in_flight := or_in_flight rec - 1\<rparr>) r"

definition callback_failure :: "int \<Rightarrow> ObserverRecord \<Rightarrow> LifecycleFailure" where
  "callback_failure now rec =
     \<lparr>lf_object_id = or_target_id rec, lf_generation = or_target_generation rec, lf_operation = ''observe'',
      lf_phase = ''dispatch'', lf_code = InternalError, lf_at = now, lf_message = ''observer callback threw''\<rparr>"

text \<open>
  \<open>RevokeObserver\<close>: mark, then wait until \<open>revoke_ready\<close>, then erase; three critical sections.
\<close>

definition revoke_mark :: "nat \<Rightarrow> Registry \<Rightarrow> bool \<times> Registry" where
  "revoke_mark t r =
     (case map_of (rg_observers r) t of
        None \<Rightarrow> (False, r)
      | Some _ \<Rightarrow> (True, upd_observer t (\<lambda>rec. rec\<lparr>or_active := False\<rparr>) r))"

definition revoke_ready :: "nat \<Rightarrow> Registry \<Rightarrow> bool" where
  "revoke_ready t r \<longleftrightarrow> (case map_of (rg_observers r) t of None \<Rightarrow> True | Some rec \<Rightarrow> or_in_flight rec = 0)"

definition revoke_erase :: "nat \<Rightarrow> Registry \<Rightarrow> Registry" where
  "revoke_erase t r = r\<lparr>rg_observers := filter (\<lambda>(k, _). k \<noteq> t) (rg_observers r)\<rparr>"

definition ObserverActive :: "nat \<Rightarrow> Registry \<Rightarrow> bool" where
  "ObserverActive t r \<longleftrightarrow> (case map_of (rg_observers r) t of None \<Rightarrow> False | Some rec \<Rightarrow> or_active rec)"

definition RevokeObserversOfLocked :: "string \<Rightarrow> Registry \<Rightarrow> Registry" where
  "RevokeObserversOfLocked ob r =
     r\<lparr>rg_observers := map (\<lambda>(k, rec). (k, if or_observer_id rec = ob then rec\<lparr>or_active := False\<rparr> else rec))
       (rg_observers r)\<rparr>"

text \<open>\<open>DrainInactiveObservers\<close>: scan, then wait until \<open>drain_ready\<close>, then erase; three critical sections.\<close>

definition drain_scan :: "Registry \<Rightarrow> Registry" where
  "drain_scan r = r\<lparr>rg_observers := filter (\<lambda>(_, rec). or_active rec \<or> or_in_flight rec \<noteq> 0) (rg_observers r)\<rparr>"

definition drain_ready :: "Registry \<Rightarrow> bool" where
  "drain_ready r \<longleftrightarrow> list_all (\<lambda>(_, rec). or_active rec \<or> or_in_flight rec = 0) (rg_observers r)"

definition drain_erase :: "Registry \<Rightarrow> Registry" where
  "drain_erase r = r\<lparr>rg_observers := filter (\<lambda>(_, rec). or_active rec) (rg_observers r)\<rparr>"

subsection \<open>Handles\<close>

definition OwnsHandle :: "ObjectHandle \<Rightarrow> Registry \<Rightarrow> bool" where
  "OwnsHandle h r \<longleftrightarrow> h_reg h = Some (rg_self r)"

definition Info :: "int \<Rightarrow> ObjectHandle \<Rightarrow> Registry \<Rightarrow> ObjectInfo result" where
  "Info now h r =
     (case FindEntryLocked (h_id h) r of
        None \<Rightarrow> fail NotFound ''ObjectHandle: object destroyed''
      | Some p \<Rightarrow>
          if re_generation (rg_entries r ! p) \<noteq> h_generation h
          then fail InvalidArgument ''ObjectHandle: generation stale''
          else Inr (info_of now (rg_entries r ! p)))"

definition HandleValid :: "ObjectHandle \<Rightarrow> Registry \<Rightarrow> bool" where
  "HandleValid h r \<longleftrightarrow>
     (case FindEntryLocked (h_id h) r of
        None \<Rightarrow> False
      | Some p \<Rightarrow>
          re_generation (rg_entries r ! p) = h_generation h \<and>
          re_state (rg_entries r ! p) \<noteq> Destroyed \<and> re_state (rg_entries r ! p) \<noteq> Invalidated)"

definition MailBoxOf :: "ObjectHandle \<Rightarrow> Registry \<Rightarrow> AppObjectAddress result" where
  "MailBoxOf h r =
     (case FindEntryLocked (h_id h) r of
        None \<Rightarrow> fail NotFound ''GetMailBox: object destroyed''
      | Some p \<Rightarrow>
          if re_generation (rg_entries r ! p) \<noteq> h_generation h
          then fail InvalidArgument ''GetMailBox: generation stale''
          else AddressOf (rg_entries r ! p))"

subsection \<open>Bindings and borrows\<close>

text \<open>
  A lease of a borrow; its \<open>owner\<close> keeps the object alive. A bound generation is returned in the
  result where the code writes it through a pointer.
\<close>

record BindingLease =
  bl_owner :: nat
  bl_component :: string
  bl_subject :: string
  bl_generation :: nat

definition subject_closing :: "RegistryEntry \<Rightarrow> bool" where
  "subject_closing e \<longleftrightarrow> re_gate_closed e \<or> re_op_in_progress e \<or>
     re_state e \<in> {Stopping, Stopped, Uninstalling, Destroyed, Invalidated, StopIncomplete, UninstallIncomplete}"

definition BindLocked :: "nat \<Rightarrow> nat \<Rightarrow> string \<Rightarrow> Registry \<Rightarrow> nat result \<times> Registry" where
  "BindLocked c s subject r =
     (let ce = rg_entries r ! c
      in if re_kind ce \<noteq> KComponent then (fail InvalidArgument ''BindComponent: target is not a component'', r)
         else if re_gate_closed ce then (fail Closed ''BindComponent: component gate closed'', r)
         else if subject_closing (rg_entries r ! s) then (fail Closed ''BindComponent: subject is closing'', r)
         else if lim_bindings (rg_limits r) \<le> CountBindingsLocked r then
           (fail Overloaded ''BindComponent: binding limit reached'', r)
         else if list_ex (\<lambda>b. b_subject b = subject \<and> \<not> b_retiring b) (re_bindings ce) then
           (fail InvalidArgument ''BindComponent: duplicate binding'', r)
         else
           let g = rg_next_generation r;
               b = \<lparr>b_subject = subject, b_generation = g, b_active = True, b_retiring = False, b_borrows = 0\<rparr>
           in (Inr g, (upd_entry c (\<lambda>e. e\<lparr>re_bindings := re_bindings e @ [b]\<rparr>) r)\<lparr>rg_next_generation := g + 1\<rparr>))"

text \<open>The first element that satisfies a test, changed in place or removed.\<close>

fun update_first :: "('a \<Rightarrow> bool) \<Rightarrow> ('a \<Rightarrow> 'a) \<Rightarrow> 'a list \<Rightarrow> 'a list" where
  "update_first P f [] = []"
| "update_first P f (x # xs) = (if P x then f x # xs else x # update_first P f xs)"

fun remove_first :: "('a \<Rightarrow> bool) \<Rightarrow> 'a list \<Rightarrow> 'a list" where
  "remove_first P [] = []"
| "remove_first P (x # xs) = (if P x then xs else x # remove_first P xs)"

definition BeginUnbindLocked :: "nat \<Rightarrow> string \<Rightarrow> Registry \<Rightarrow> nat result \<times> Registry" where
  "BeginUnbindLocked c subject r =
     (let P = (\<lambda>b. b_subject b = subject \<and> \<not> b_retiring b)
      in case List.find P (re_bindings (rg_entries r ! c)) of
          None \<Rightarrow> (fail NotFound ''UnbindComponent: binding not found'', r)
        | Some b \<Rightarrow>
            (Inr (b_generation b),
             upd_entry c (\<lambda>e. e\<lparr>re_bindings :=
               update_first P (\<lambda>b. b\<lparr>b_active := False, b_retiring := True\<rparr>) (re_bindings e)\<rparr>) r))"

definition ReleaseBorrow :: "string \<Rightarrow> string \<Rightarrow> nat \<Rightarrow> Registry \<Rightarrow> Registry" where
  "ReleaseBorrow cid subject g r =
     (case FindEntryLocked cid r of
        None \<Rightarrow> r
      | Some c \<Rightarrow>
          upd_entry c (\<lambda>e. e\<lparr>
            re_bindings := update_first (\<lambda>b. b_subject b = subject \<and> b_generation b = g)
              (\<lambda>b. b\<lparr>b_borrows := b_borrows b - 1\<rparr>) (re_bindings e),
            re_component_borrows := re_component_borrows e - 1\<rparr>) r)"

definition not_borrowable :: "ObjectState \<Rightarrow> error_code" where
  "not_borrowable s =
     (if s \<in> {Installing, Starting, Paused} then Overloaded
      else if s \<in> {Destroyed, Invalidated} then Closed
      else if s \<in> {InstallFailed, Failed} then Closed
      else if s \<in> {Created, Installed} then Overloaded
      else Closed)"

definition AcquireBorrowLocked :: "nat \<Rightarrow> string \<Rightarrow> nat \<Rightarrow> bool \<Rightarrow> Registry \<Rightarrow> BindingLease result \<times> Registry" where
  "AcquireBorrowLocked c subject g allow r =
     (let ce = rg_entries r ! c;
          installing = (allow \<or> (case FindEntryLocked subject r of
             None \<Rightarrow> False | Some p \<Rightarrow> re_state (rg_entries r ! p) = Installing));
          P = (\<lambda>b. b_subject b = subject \<and> b_generation b = g)
      in if re_gate_closed ce then (fail Closed ''Borrow: component gate closed'', r)
         else if \<not> (re_state ce = Running \<or> installing \<and> re_state ce = Installed) then
           (fail (not_borrowable (re_state ce)) ''Borrow: component not borrowable in current state'', r)
         else
           (case List.find P (re_bindings ce) of
              None \<Rightarrow> (fail Closed ''Borrow: binding invalidated'', r)
            | Some b \<Rightarrow>
                if \<not> b_active b \<or> b_retiring b then (fail Closed ''Borrow: binding invalidated'', r)
                else
                  (Inr \<lparr>bl_owner = re_object ce, bl_component = re_id ce, bl_subject = subject, bl_generation = g\<rparr>,
                   upd_entry c (\<lambda>e. e\<lparr>
                     re_bindings := update_first P (\<lambda>b. b\<lparr>b_borrows := b_borrows b + 1\<rparr>) (re_bindings e),
                     re_component_borrows := re_component_borrows e + 1\<rparr>) r)))"

definition borrows_drained :: "string \<Rightarrow> Registry \<Rightarrow> bool" where
  "borrows_drained cid r \<longleftrightarrow>
     (case FindEntryLocked cid r of None \<Rightarrow> True | Some c \<Rightarrow> re_component_borrows (rg_entries r ! c) = 0)"

definition binding_drained :: "string \<Rightarrow> string \<Rightarrow> nat \<Rightarrow> Registry \<Rightarrow> bool" where
  "binding_drained cid subject g r \<longleftrightarrow>
     (case FindEntryLocked cid r of
        None \<Rightarrow> True
      | Some c \<Rightarrow>
          (case List.find (\<lambda>b. b_subject b = subject \<and> b_generation b = g) (re_bindings (rg_entries r ! c)) of
             None \<Rightarrow> True
           | Some b \<Rightarrow> b_borrows b = 0))"

definition FindRetiringBindingLocked :: "nat \<Rightarrow> string \<Rightarrow> Registry \<Rightarrow> nat option" where
  "FindRetiringBindingLocked c subject r =
     map_option b_generation (List.find (\<lambda>b. b_subject b = subject \<and> b_retiring b) (re_bindings (rg_entries r ! c)))"

definition EraseBindingLocked :: "nat \<Rightarrow> string \<Rightarrow> nat \<Rightarrow> Registry \<Rightarrow> Registry" where
  "EraseBindingLocked c subject g r =
     upd_entry c (\<lambda>e. e\<lparr>re_bindings :=
       remove_first (\<lambda>b. b_subject b = subject \<and> b_generation b = g \<and> b_retiring b) (re_bindings e)\<rparr>) r"

definition EraseSubjectBindingsLocked :: "nat \<Rightarrow> string \<Rightarrow> Registry \<Rightarrow> Registry" where
  "EraseSubjectBindingsLocked c subject r =
     upd_entry c (\<lambda>e. e\<lparr>re_bindings := filter (\<lambda>b. \<not> (b_subject b = subject \<and> b_retiring b)) (re_bindings e)\<rparr>) r"

definition NoteHookSettled :: "string \<Rightarrow> Registry \<Rightarrow> Registry" where
  "NoteHookSettled i r =
     (case FindEntryLocked i r of
        None \<Rightarrow> r
      | Some p \<Rightarrow> upd_entry p (\<lambda>e. e\<lparr>re_hooks_in_flight := re_hooks_in_flight e - 1\<rparr>) r)"

text \<open>The type-erased half of \<open>ComponentHandle::Borrow\<close>; \<open>alive\<close>: the registry of the handle exists.\<close>

definition BorrowImpl :: "ObjectHandle \<Rightarrow> nat \<Rightarrow> bool \<Rightarrow> Registry \<Rightarrow> (BindingLease \<times> nat) result \<times> Registry" where
  "BorrowImpl h g allow r =
     (if h_reg h = None then (fail Closed ''Borrow: registry closed'', r)
      else case FindEntryLocked (h_id h) r of
          None \<Rightarrow> (fail Closed ''Borrow: object destroyed'', r)
        | Some c \<Rightarrow>
            let e = rg_entries r ! c
            in if re_generation e \<noteq> h_generation h then (fail Closed ''Borrow: generation stale'', r)
               else case List.find (\<lambda>b. b_generation b = g) (re_bindings e) of
                   None \<Rightarrow> (fail Closed ''Borrow: binding invalidated'', r)
                 | Some b \<Rightarrow>
                     (case AcquireBorrowLocked c (b_subject b) g allow r of
                        (Inl er, r') \<Rightarrow> (Inl er, r')
                      | (Inr l, r') \<Rightarrow> (Inr (l, re_object e), r')))"

subsection \<open>Destruction and diagnosis\<close>

definition BeginDestroyLocked :: "string \<Rightarrow> Registry \<Rightarrow> nat result \<times> Registry" where
  "BeginDestroyLocked i r =
     (case FindEntryLocked i r of
        None \<Rightarrow> (fail NotFound ''BeginDestroy: object not found'', r)
      | Some p \<Rightarrow>
          let e = rg_entries r ! p
          in if re_kind e = KComponent \<and> re_bindings e \<noteq> [] then
               (fail Overloaded ''UninstallComponent: active bindings remain'', r)
             else if re_op_in_progress e then (fail Overloaded ''BeginDestroy: operation in progress'', r)
             else (Inr p, upd_entry p (\<lambda>e. e\<lparr>re_op_in_progress := True, re_gate_closed := True\<rparr>) r))"

fun index_from :: "nat \<Rightarrow> RegistryEntry list \<Rightarrow> (string \<times> nat) list \<Rightarrow> (string \<times> nat) list" where
  "index_from n [] m = m"
| "index_from n (e # es) m = index_from (Suc n) es (emplace (re_id e) n m)"

definition FinishDestroyLocked :: "int \<Rightarrow> nat \<Rightarrow> Registry \<Rightarrow> (nat option \<times> pending_event list) \<times> Registry" where
  "FinishDestroyLocked now p r =
     (case SetStateLocked now p Destroyed None r of
        (evs, r1) \<Rightarrow>
          let i = re_id (rg_entries r1 ! p)
          in (case first_index (\<lambda>e. re_id e = i) (rg_entries r1) of
                None \<Rightarrow> ((None, evs), r1\<lparr>rg_index := index_from 0 (rg_entries r1) []\<rparr>)
              | Some j \<Rightarrow>
                  let es = take j (rg_entries r1) @ drop (Suc j) (rg_entries r1)
                  in ((Some (re_object (rg_entries r1 ! j)), evs),
                      r1\<lparr>rg_entries := es, rg_index := index_from 0 es []\<rparr>)))"

definition cleanup_of :: "RegistryEntry \<Rightarrow> CleanupInfo" where
  "cleanup_of e =
     \<lparr>ci_object_id = re_id e, ci_generation = re_generation e, ci_phase = re_destroy_phase e,
      ci_pending_borrows = re_component_borrows e, ci_pending_tasks = re_exec_leases e + re_hooks_in_flight e,
      ci_code = (case re_last_error e of Some x \<Rightarrow> oe_code x | None \<Rightarrow> TimedOut)\<rparr>"

definition PendingCleanup :: "Registry \<Rightarrow> CleanupInfo list" where
  "PendingCleanup r = map cleanup_of (filter (\<lambda>e. 0 < re_component_borrows e \<or> 0 < re_exec_leases e \<or>
     0 < re_hooks_in_flight e \<or> re_destroy_phase e \<noteq> [] \<or> re_state e = StopIncomplete \<or>
     re_state e = UninstallIncomplete) (rg_entries r))"

end
