(* ===== verification/ObjectProps.thy ===== *)
theory ObjectProps
  imports Objects
begin

text \<open>
  What the registry guarantees: lookups are exact, identities are never reused, and the borrow
  counters are exactly the number of live leases, whatever the order of the operations. A
  history is a list of operations on the registry and on the leases that its clients hold; a
  pointer is obtained by \<open>FindEntryLocked\<close> in the same step, as in the code.
\<close>

subsection \<open>Positions and identities\<close>

lemma first_index_Some:
  "first_index P xs = Some j \<longleftrightarrow> j < length xs \<and> P (xs ! j) \<and> (\<forall>k < j. \<not> P (xs ! k))"
proof (induction xs arbitrary: j)
  case (Cons x xs)
  show ?case
  proof (cases "P x")
    case True
    then show ?thesis by (cases j) auto
  next
    case False
    then show ?thesis using Cons.IH by (cases j) (auto simp: less_Suc_eq_0_disj)
  qed
qed simp

lemma first_index_None: "first_index P xs = None \<longleftrightarrow> (\<forall>x \<in> set xs. \<not> P x)"
  by (induction xs) auto

lemma first_index_map: "first_index (\<lambda>e. f e = i) xs = first_index (\<lambda>x. x = i) (map f xs)"
  by (induction xs) auto

lemma first_index_append:
  "first_index P (xs @ ys) =
     (case first_index P xs of Some j \<Rightarrow> Some j | None \<Rightarrow> map_option ((+) (length xs)) (first_index P ys))"
  by (induction xs; cases "first_index P ys") (auto split: option.splits)

definition ids :: "Registry \<Rightarrow> string list" where
  "ids r = map re_id (rg_entries r)"

text \<open>The identifiers handed out so far.\<close>

definition issued_id :: "nat \<Rightarrow> string \<Rightarrow> bool" where
  "issued_id n i \<longleftrightarrow> (\<exists>k m. m < n \<and> i = KindPrefix k @ '':'' @ to_string m)"

definition index_ok :: "Registry \<Rightarrow> bool" where
  "index_ok r \<longleftrightarrow> (\<forall>i. map_of (rg_index r) i = first_index (\<lambda>x. x = i) (ids r))"

definition ids_ok :: "Registry \<Rightarrow> bool" where
  "ids_ok r \<longleftrightarrow> index_ok r \<and> distinct (ids r) \<and> (\<forall>i \<in> set (ids r). issued_id (rg_next_id_seq r) i)"

lemma id_text_inj:
  "KindPrefix k @ '':'' @ to_string m = KindPrefix k' @ '':'' @ to_string m' \<Longrightarrow> m = m'"
  by (cases k; cases k') (simp_all add: KindPrefix_def to_string_inj)

lemma fresh_id: "\<not> issued_id n (KindPrefix k @ '':'' @ to_string n)"
  by (auto simp: issued_id_def dest!: id_text_inj simp del: append.simps)

lemma issued_id_mono: "issued_id n i \<Longrightarrow> n \<le> m \<Longrightarrow> issued_id m i"
  using less_le_trans by (fastforce simp: issued_id_def)

lemma FindEntry_iff:
  assumes "ids_ok r"
  shows "FindEntryLocked i r = Some p \<longleftrightarrow> p < length (rg_entries r) \<and> re_id (rg_entries r ! p) = i"
proof -
  have d: "distinct (ids r)" using assms by (simp add: ids_ok_def)
  have "ids r ! k \<noteq> ids r ! p" if "k < p" "p < length (rg_entries r)" for k
    using that nth_eq_iff_index_eq [OF d, of k p] by (simp add: ids_def)
  then show ?thesis using assms
    by (auto simp: ids_ok_def index_ok_def FindEntryLocked_def first_index_Some ids_def)
qed

lemma ids_upd_entry [simp]: "(\<And>e. re_id (f e) = re_id e) \<Longrightarrow> ids (upd_entry p f r) = ids r"
  by (cases "p < length (rg_entries r)")
     (auto simp: ids_def upd_entry_def list_eq_iff_nth_eq nth_list_update list_update_beyond)

lemma upd_entry_frame [simp]:
  "rg_index (upd_entry p f r) = rg_index r" "rg_next_id_seq (upd_entry p f r) = rg_next_id_seq r"
  "rg_next_generation (upd_entry p f r) = rg_next_generation r" "rg_limits (upd_entry p f r) = rg_limits r"
  "rg_observers (upd_entry p f r) = rg_observers r" "rg_self (upd_entry p f r) = rg_self r"
  "length (rg_entries (upd_entry p f r)) = length (rg_entries r)"
  "rg_next_observer_id (upd_entry p f r) = rg_next_observer_id r"
  "rg_failures (upd_entry p f r) = rg_failures r"
  by (simp_all add: upd_entry_def)

lemma ids_ok_upd [inv_intros]: "ids_ok r \<Longrightarrow> (\<And>e. re_id (f e) = re_id e) \<Longrightarrow> ids_ok (upd_entry p f r)"
  by (simp add: ids_ok_def index_ok_def)

lemma ids_ok_cong:
  "ids_ok r \<Longrightarrow> ids r' = ids r \<Longrightarrow> rg_index r' = rg_index r \<Longrightarrow> rg_next_id_seq r' = rg_next_id_seq r \<Longrightarrow> ids_ok r'"
  by (simp add: ids_ok_def index_ok_def)

lemma map_of_index_from:
  "map_of (index_from n es m) i =
     (case map_of m i of Some x \<Rightarrow> Some x | None \<Rightarrow> map_option ((+) n) (first_index (\<lambda>x. x = i) (map re_id es)))"
proof (induction es arbitrary: n m)
  case Nil
  then show ?case by (simp split: option.splits)
next
  case (Cons e es)
  then show ?case
    by (cases "first_index (\<lambda>x. x = i) (map re_id es)") (auto simp: map_of_emplace split: option.splits)
qed

lemma CreateEntry_ids_ok:
  assumes "ids_ok r" and "CreateEntryLocked k tn n sc ow ty ob r = (x, r')"
  shows "ids_ok r'"
proof (cases "lim_objects (rg_limits r) \<le> CountObjectsLocked r")
  case True
  then show ?thesis using assms by (auto simp: CreateEntryLocked_def)
next
  case False
  let ?i = "KindPrefix k @ '':'' @ to_string (rg_next_id_seq r)"
  have ni: "?i \<notin> set (ids r)" using assms(1) fresh_id by (auto simp: ids_ok_def)
  then have none: "first_index (\<lambda>x. x = ?i) (ids r) = None" by (auto simp: first_index_None)
  have e: "ids r' = ids r @ [?i]" "rg_index r' = emplace ?i (length (rg_entries r)) (rg_index r)"
    "rg_next_id_seq r' = rg_next_id_seq r + 1"
    using assms(2) False by (auto simp: CreateEntryLocked_def NextIdLocked_def Let_def ids_def new_entry_def)
  have len: "length (rg_entries r) = length (ids r)" by (simp add: ids_def)
  have "map_of (rg_index r') i = first_index (\<lambda>x. x = i) (ids r')" for i
    using assms(1) none
    by (cases "i = ?i")
       (auto simp: e len map_of_emplace first_index_append ids_ok_def index_ok_def split: option.splits)
  moreover have "issued_id (rg_next_id_seq r + 1) i" if "i \<in> set (ids r @ [?i])" for i
  proof (cases "i = ?i")
    case True
    then show ?thesis unfolding issued_id_def by (intro exI [of _ k] exI [of _ "rg_next_id_seq r"]) simp
  next
    case False
    then show ?thesis using that assms(1) issued_id_mono by (fastforce simp: ids_ok_def)
  qed
  ultimately show ?thesis using assms(1) ni unfolding ids_ok_def index_ok_def e by auto
qed

lemma distinct_take_drop:
  assumes "distinct xs"
  shows "distinct (take p xs @ drop (Suc p) xs)"
  using assms set_take_disj_set_drop_if_distinct [of xs p "Suc p"] by simp

lemma map_option_plus_0: "map_option ((+) (0::nat)) x = x"
  by (cases x) simp_all

lemma FinishDestroy_entries:
  assumes ok: "ids_ok r" and p: "p < length (rg_entries r)"
    and f: "FinishDestroyLocked now p r = ((ob, evs), r')"
  shows "rg_entries r' = take p (rg_entries r) @ drop (Suc p) (rg_entries r)"
    and "ob = Some (re_object (rg_entries r ! p))" and "ids_ok r'"
    and "rg_next_generation r' = rg_next_generation r" and "rg_next_id_seq r' = rg_next_id_seq r"
proof -
  obtain evs1 r1 where S: "SetStateLocked now p Destroyed None r = (evs1, r1)" by fastforce
  have r1: "r1 = upd_entry p (advance Destroyed None) r" using S by (simp add: SetStateLocked_def Let_def)
  have i1: "ids r1 = ids r" by (simp add: r1 advance_def)
  have same: "rg_entries r1 ! p = advance Destroyed None (rg_entries r ! p)"
    using p by (simp add: r1 upd_entry_def)
  have d: "distinct (ids r)" using ok by (simp add: ids_ok_def)
  have j: "first_index (\<lambda>e. re_id e = re_id (rg_entries r1 ! p)) (rg_entries r1) = Some p"
  proof -
    have "ids r ! k \<noteq> ids r ! p" if "k < p" for k
      using that p nth_eq_iff_index_eq [OF d, of k p] by (simp add: ids_def)
    then have "first_index (\<lambda>x. x = ids r ! p) (ids r) = Some p"
      using p by (auto simp: first_index_Some ids_def)
    moreover have "re_id (rg_entries r1 ! p) = ids r ! p" using p by (simp add: same advance_def ids_def)
    ultimately show ?thesis using i1
      by (simp only: first_index_map [where f = re_id] ids_def [of r1, symmetric])
  qed
  have tk: "take p (rg_entries r1) @ drop (Suc p) (rg_entries r1) = take p (rg_entries r) @ drop (Suc p) (rg_entries r)"
    by (simp add: r1 upd_entry_def)
  have R: "r' = r1\<lparr>rg_entries := take p (rg_entries r) @ drop (Suc p) (rg_entries r),
      rg_index := index_from 0 (take p (rg_entries r) @ drop (Suc p) (rg_entries r)) []\<rparr>"
    "ob = Some (re_object (rg_entries r1 ! p))"
    using f by (simp_all add: FinishDestroyLocked_def S j Let_def tk)
  show "rg_entries r' = take p (rg_entries r) @ drop (Suc p) (rg_entries r)" by (simp add: R)
  show "ob = Some (re_object (rg_entries r ! p))" by (simp add: R same advance_def)
  show "rg_next_generation r' = rg_next_generation r" "rg_next_id_seq r' = rg_next_id_seq r"
    by (simp_all add: R r1)
  have ir: "ids r' = take p (ids r) @ drop (Suc p) (ids r)" by (simp add: R ids_def take_map drop_map)
  have dk: "distinct (take p (ids r) @ drop (Suc p) (ids r))" by (rule distinct_take_drop [OF d])
  have "index_ok r'" by (simp add: index_ok_def R map_of_index_from ids_def map_option_plus_0 del: map_append)
  moreover have "distinct (ids r')" unfolding ir by (rule dk)
  moreover have "set (ids r') \<subseteq> set (ids r)" by (auto simp: ir dest: in_set_takeD in_set_dropD)
  ultimately show "ids_ok r'" using ok by (auto simp: ids_ok_def R r1)
qed

subsection \<open>Leases\<close>

text \<open>The live leases are those handed out and not yet destroyed.\<close>

record object_world =
  w_reg :: Registry
  w_leases :: "BindingLease list"

definition leases_on :: "string \<Rightarrow> BindingLease list \<Rightarrow> nat" where
  "leases_on i ls = length (filter (\<lambda>l. bl_component l = i) ls)"

definition leases_of :: "string \<Rightarrow> string \<Rightarrow> nat \<Rightarrow> BindingLease list \<Rightarrow> nat" where
  "leases_of i s g ls = length (filter (\<lambda>l. bl_component l = i \<and> bl_subject l = s \<and> bl_generation l = g) ls)"

definition binding_ok :: "nat \<Rightarrow> string \<Rightarrow> BindingLease list \<Rightarrow> Binding \<Rightarrow> bool" where
  "binding_ok n i ls b \<longleftrightarrow> b_generation b < n \<and> b_borrows b = leases_of i (b_subject b) (b_generation b) ls"

definition entry_ok :: "nat \<Rightarrow> BindingLease list \<Rightarrow> RegistryEntry \<Rightarrow> bool" where
  "entry_ok n ls e \<longleftrightarrow>
     re_generation e < n \<and> re_component_borrows e = leases_on (re_id e) ls \<and>
     distinct (map b_generation (re_bindings e)) \<and> (\<forall>b \<in> set (re_bindings e). binding_ok n (re_id e) ls b)"

definition world_ok :: "object_world \<Rightarrow> bool" where
  "world_ok w \<longleftrightarrow>
     ids_ok (w_reg w) \<and> (\<forall>e \<in> set (rg_entries (w_reg w)). entry_ok (rg_next_generation (w_reg w)) (w_leases w) e) \<and>
     (\<forall>l \<in> set (w_leases w). issued_id (rg_next_id_seq (w_reg w)) (bl_component l) \<and>
        bl_generation l < rg_next_generation (w_reg w))"

lemma leases_append [simp]:
  "leases_on i (ls @ [l]) = leases_on i ls + (if bl_component l = i then 1 else 0)"
  "leases_of i s g (ls @ [l]) = leases_of i s g ls + (if bl_component l = i \<and> bl_subject l = s \<and> bl_generation l = g then 1 else 0)"
  by (simp_all add: leases_on_def leases_of_def)

lemma filter_drop_nth:
  assumes "k < length ls"
  shows "length (filter P ls) =
     length (filter P (take k ls @ drop (Suc k) ls)) + (if P (ls ! k) then 1 else 0)"
proof -
  have "length (filter P ls) = length (filter P (take k ls @ ls ! k # drop (Suc k) ls))"
    using id_take_nth_drop [OF assms] by simp
  then show ?thesis by simp
qed

lemma leases_remove:
  assumes "k < length ls"
  shows "leases_on i ls = leases_on i (take k ls @ drop (Suc k) ls) + (if bl_component (ls ! k) = i then 1 else 0)"
    and "leases_of i s g ls = leases_of i s g (take k ls @ drop (Suc k) ls) +
      (if bl_component (ls ! k) = i \<and> bl_subject (ls ! k) = s \<and> bl_generation (ls ! k) = g then 1 else 0)"
  using filter_drop_nth [OF assms] unfolding leases_on_def leases_of_def by blast+

lemma entry_ok_mono: "entry_ok n ls e \<Longrightarrow> n \<le> m \<Longrightarrow> entry_ok m ls e"
  by (auto simp: entry_ok_def binding_ok_def)

text \<open>With distinct generations, at most one binding matches subject and generation.\<close>

lemma update_first_unique:
  assumes "distinct (map b_generation bs)" and "\<And>b. P b \<Longrightarrow> b_generation b = g"
  shows "update_first P f bs = map (\<lambda>b. if P b then f b else b) bs"
  using assms(1)
proof (induction bs)
  case (Cons b bs)
  show ?case
  proof (cases "P b")
    case True
    then have "\<not> P c" if "c \<in> set bs" for c using that Cons.prems assms(2) by force
    then have "map (\<lambda>b. if P b then f b else b) bs = bs" by (simp add: map_idI)
    with True show ?thesis by simp
  qed (use Cons in simp)
qed simp

lemma remove_first_set: "set (remove_first P xs) \<subseteq> set xs"
  by (induction xs) auto

lemma remove_first_distinct: "distinct (map f xs) \<Longrightarrow> distinct (map f (remove_first P xs))"
  using remove_first_set by (induction xs) (auto, fastforce)

subsection \<open>Every operation keeps the accounts\<close>

lemma entry_in: "p < length (rg_entries r) \<Longrightarrow> rg_entries r ! p \<in> set (rg_entries r)"
  by simp

lemma entry_ok_other:
  assumes "entry_ok n ls e" and "leases_on (re_id e) ls' = leases_on (re_id e) ls"
    and "\<And>s g. leases_of (re_id e) s g ls' = leases_of (re_id e) s g ls" and "n \<le> m"
  shows "entry_ok m ls' e"
  using assms by (auto simp: entry_ok_def binding_ok_def)

text \<open>An update of one entry that may add or remove leases on it.\<close>

lemma world_upd:
  assumes ok: "world_ok w" and p: "p < length (rg_entries (w_reg w))"
    and f: "\<And>e. re_id (f e) = re_id e"
    and others: "\<And>i. i \<noteq> re_id (rg_entries (w_reg w) ! p) \<Longrightarrow> leases_on i ls = leases_on i (w_leases w)"
      "\<And>i s g. i \<noteq> re_id (rg_entries (w_reg w) ! p) \<Longrightarrow> leases_of i s g ls = leases_of i s g (w_leases w)"
    and new: "entry_ok n ls (f (rg_entries (w_reg w) ! p))"
    and n: "rg_next_generation (w_reg w) \<le> n"
    and ls: "\<And>l. l \<in> set ls \<Longrightarrow> issued_id (rg_next_id_seq (w_reg w)) (bl_component l) \<and> bl_generation l < n"
  shows "world_ok \<lparr>w_reg = (upd_entry p f (w_reg w))\<lparr>rg_next_generation := n\<rparr>, w_leases = ls\<rparr>"
proof -
  let ?r = "w_reg w"
  have ids: "ids_ok ?r" using ok by (simp add: world_ok_def)
  have d: "distinct (ids ?r)" using ids by (simp add: ids_ok_def)
  have "ids_ok ((upd_entry p f ?r)\<lparr>rg_next_generation := n\<rparr>)"
    by (rule ids_ok_cong [OF ids_ok_upd [OF ids f]]) (simp_all add: ids_def)
  moreover have "entry_ok n ls e" if "e \<in> set (rg_entries (upd_entry p f ?r))" for e
  proof -
    obtain k where k: "k < length (rg_entries ?r)" "e = rg_entries (upd_entry p f ?r) ! k"
      using \<open>e \<in> set (rg_entries (upd_entry p f ?r))\<close> by (auto simp: in_set_conv_nth)
    show ?thesis
    proof (cases "k = p")
      case True
      then show ?thesis using k new by (simp add: upd_entry_def)
    next
      case False
      then have e: "e = rg_entries ?r ! k" using k by (simp add: upd_entry_def)
      have "re_id e \<noteq> re_id (rg_entries ?r ! p)"
        using nth_eq_iff_index_eq [OF d, of k p] False k(1) p e by (simp add: ids_def)
      moreover have "entry_ok (rg_next_generation ?r) (w_leases w) e"
        using ok k(1) e by (simp add: world_ok_def)
      ultimately show ?thesis by (blast intro: entry_ok_other others n)
    qed
  qed
  ultimately show ?thesis using ls by (simp add: world_ok_def)
qed

text \<open>An update that touches neither the accounts nor the bindings.\<close>

definition account_of :: "RegistryEntry \<Rightarrow> string \<times> nat \<times> nat \<times> Binding list" where
  "account_of e = (re_id e, re_generation e, re_component_borrows e, re_bindings e)"

lemma entry_ok_account: "account_of e' = account_of e \<Longrightarrow> entry_ok n ls e' = entry_ok n ls e"
  by (simp add: account_of_def entry_ok_def)

lemma upd_entry_beyond: "\<not> p < length (rg_entries r) \<Longrightarrow> upd_entry p f r = r"
  by (simp add: upd_entry_def list_update_beyond)

lemma world_leases: "world_ok w \<Longrightarrow> l \<in> set (w_leases w) \<Longrightarrow>
    issued_id (rg_next_id_seq (w_reg w)) (bl_component l) \<and> bl_generation l < rg_next_generation (w_reg w)"
  by (simp add: world_ok_def)

lemma world_upd_neutral:
  assumes ok: "world_ok w" and f: "\<And>e. account_of (f e) = account_of e"
  shows "world_ok (w\<lparr>w_reg := upd_entry p f (w_reg w)\<rparr>)"
proof (cases "p < length (rg_entries (w_reg w))")
  case True
  have "world_ok \<lparr>w_reg = (upd_entry p f (w_reg w))\<lparr>rg_next_generation := rg_next_generation (w_reg w)\<rparr>,
      w_leases = w_leases w\<rparr>"
  proof (rule world_upd [OF ok True])
    show "re_id (f e) = re_id e" for e using f [of e] by (simp add: account_of_def)
    show "entry_ok (rg_next_generation (w_reg w)) (w_leases w) (f (rg_entries (w_reg w) ! p))"
      using ok True by (simp add: entry_ok_account [OF f] world_ok_def)
  qed (use ok world_leases in auto)
  then show ?thesis by (cases w) (simp add: upd_entry_def)
qed (use ok in \<open>simp add: upd_entry_beyond\<close>)

text \<open>The operations of the observers do not touch the entries.\<close>

definition entries_same :: "Registry \<Rightarrow> Registry \<Rightarrow> bool" where
  "entries_same r r' \<longleftrightarrow> rg_entries r' = rg_entries r \<and> rg_index r' = rg_index r \<and>
     rg_next_id_seq r' = rg_next_id_seq r \<and> rg_next_generation r' = rg_next_generation r"

lemma world_entries_same:
  "world_ok w \<Longrightarrow> entries_same (w_reg w) r \<Longrightarrow> world_ok (w\<lparr>w_reg := r\<rparr>)"
  unfolding world_ok_def entries_same_def by (auto intro: ids_ok_cong simp: ids_def)

text \<open>A change of the binding list to a part of it, or to one with other marks.\<close>

lemma world_upd_bindings:
  assumes ok: "world_ok w"
    and sub: "\<And>bs. distinct (map b_generation bs) \<Longrightarrow> distinct (map b_generation (F bs))"
      "\<And>bs b. b \<in> set (F bs) \<Longrightarrow> \<exists>c \<in> set bs. b_subject b = b_subject c \<and> b_generation b = b_generation c \<and> b_borrows b = b_borrows c"
  shows "world_ok (w\<lparr>w_reg := upd_entry p (\<lambda>e. e\<lparr>re_bindings := F (re_bindings e)\<rparr>) (w_reg w)\<rparr>)"
proof (cases "p < length (rg_entries (w_reg w))")
  case True
  let ?f = "\<lambda>e. e\<lparr>re_bindings := F (re_bindings e)\<rparr>"
  have "world_ok \<lparr>w_reg = (upd_entry p ?f (w_reg w))\<lparr>rg_next_generation := rg_next_generation (w_reg w)\<rparr>,
      w_leases = w_leases w\<rparr>"
  proof (rule world_upd [OF ok True])
    have e: "entry_ok (rg_next_generation (w_reg w)) (w_leases w) (rg_entries (w_reg w) ! p)"
      using ok True by (simp add: world_ok_def)
    have "binding_ok (rg_next_generation (w_reg w)) (re_id (rg_entries (w_reg w) ! p)) (w_leases w) b"
      if "b \<in> set (F (re_bindings (rg_entries (w_reg w) ! p)))" for b
      using sub(2) [OF that] e by (auto simp: entry_ok_def binding_ok_def)
    then show "entry_ok (rg_next_generation (w_reg w)) (w_leases w) (?f (rg_entries (w_reg w) ! p))"
      using e sub(1) by (simp add: entry_ok_def)
  qed (use ok world_leases in auto)
  then show ?thesis by (cases w) (simp add: upd_entry_def)
qed (use ok in \<open>simp add: upd_entry_beyond\<close>)

lemma update_first_keeps:
  assumes "\<And>b. g (f b) = g b"
  shows "map g (update_first P f bs) = map g bs"
  by (induction bs) (simp_all add: assms)

lemma update_first_member: "b \<in> set (update_first P f bs) \<Longrightarrow> b \<in> set bs \<or> (\<exists>c \<in> set bs. P c \<and> b = f c)"
  by (induction bs) (auto split: if_splits)

lemma BindLocked_ok:
  assumes ok: "world_ok w" and "BindLocked c s subject (w_reg w) = (x, r')" and c: "c < length (rg_entries (w_reg w))"
  shows "world_ok (w\<lparr>w_reg := r'\<rparr>)"
proof (cases x)
  case (Inl e)
  then have "r' = w_reg w" using assms(2) by (auto simp: BindLocked_def Let_def split: if_splits)
  then show ?thesis using ok by simp
next
  case (Inr g)
  let ?r = "w_reg w"
  let ?b = "\<lparr>b_subject = subject, b_generation = g, b_active = True, b_retiring = False, b_borrows = 0\<rparr>"
  let ?f = "\<lambda>e. e\<lparr>re_bindings := re_bindings e @ [?b]\<rparr>"
  have g: "g = rg_next_generation ?r" and r': "r' = (upd_entry c ?f ?r)\<lparr>rg_next_generation := Suc g\<rparr>"
    using assms(2) Inr by (auto simp: BindLocked_def Let_def split: if_splits)
  have none: "leases_of i s g (w_leases w) = 0" for i s
    by (auto simp: leases_of_def g filter_empty_conv dest!: world_leases [OF ok])
  have "world_ok \<lparr>w_reg = (upd_entry c ?f ?r)\<lparr>rg_next_generation := Suc g\<rparr>, w_leases = w_leases w\<rparr>"
  proof (rule world_upd [OF ok c])
    show "rg_next_generation ?r \<le> Suc g" by (simp add: g)
    have "entry_ok g (w_leases w) (rg_entries ?r ! c)" using ok c by (simp add: world_ok_def g)
    then show "entry_ok (Suc g) (w_leases w) (?f (rg_entries ?r ! c))"
      using none by (auto simp: entry_ok_def binding_ok_def)
    show "issued_id (rg_next_id_seq ?r) (bl_component l) \<and> bl_generation l < Suc g"
      if "l \<in> set (w_leases w)" for l using world_leases [OF ok that] by (simp add: g)
  qed simp_all
  then show ?thesis by (cases w) (simp add: r')
qed

lemma BeginUnbind_ok:
  assumes ok: "world_ok w" and "BeginUnbindLocked c subject (w_reg w) = (x, r')"
  shows "world_ok (w\<lparr>w_reg := r'\<rparr>)"
proof -
  let ?F = "update_first (\<lambda>b. b_subject b = subject \<and> \<not> b_retiring b) (\<lambda>b. b\<lparr>b_active := False, b_retiring := True\<rparr>)"
  have "r' = w_reg w \<or> r' = upd_entry c (\<lambda>e. e\<lparr>re_bindings := ?F (re_bindings e)\<rparr>) (w_reg w)"
    using assms(2) by (auto simp: BeginUnbindLocked_def Let_def split: option.splits)
  moreover have "world_ok (w\<lparr>w_reg := upd_entry c (\<lambda>e. e\<lparr>re_bindings := ?F (re_bindings e)\<rparr>) (w_reg w)\<rparr>)"
    by (rule world_upd_bindings [OF ok])
       (simp add: update_first_keeps, drule update_first_member, fastforce)
  ultimately show ?thesis using ok by auto
qed

lemma EraseBinding_ok: "world_ok w \<Longrightarrow> world_ok (w\<lparr>w_reg := EraseBindingLocked c subject g (w_reg w)\<rparr>)"
  unfolding EraseBindingLocked_def
  by (rule world_upd_bindings) (auto simp: remove_first_distinct dest: subsetD [OF remove_first_set])

lemma EraseSubject_ok: "world_ok w \<Longrightarrow> world_ok (w\<lparr>w_reg := EraseSubjectBindingsLocked c subject (w_reg w)\<rparr>)"
  unfolding EraseSubjectBindingsLocked_def
  by (rule world_upd_bindings) (auto simp: distinct_map_filter)

lemma world_found:
  assumes "world_ok w" and "FindEntryLocked i (w_reg w) = Some p"
  shows "p < length (rg_entries (w_reg w))" "re_id (rg_entries (w_reg w) ! p) = i"
    "entry_ok (rg_next_generation (w_reg w)) (w_leases w) (rg_entries (w_reg w) ! p)"
  using assms FindEntry_iff [of "w_reg w" i p] by (auto simp: world_ok_def)

lemma find_Some: "List.find P xs = Some b \<Longrightarrow> b \<in> set xs \<and> P b"
  by (auto simp: find_Some_iff)

lemma map_if_keeps: "(\<And>b. g (f b) = g b) \<Longrightarrow> map (g \<circ> (\<lambda>b. if P b then f b else b)) bs = map g bs"
  by simp

text \<open>One more, one less lease on the binding of a generation.\<close>

lemma entry_ok_borrow:
  assumes e: "entry_ok n ls e" and b: "b \<in> set (re_bindings e)" "b_subject b = s" "b_generation b = g"
    and l: "bl_component l = re_id e" "bl_subject l = s" "bl_generation l = g"
  shows "entry_ok n (ls @ [l]) (e\<lparr>re_bindings := update_first (\<lambda>b. b_subject b = s \<and> b_generation b = g)
      (\<lambda>b. b\<lparr>b_borrows := b_borrows b + 1\<rparr>) (re_bindings e), re_component_borrows := re_component_borrows e + 1\<rparr>)"
proof -
  have d: "distinct (map b_generation (re_bindings e))" using e by (simp add: entry_ok_def)
  have A: "leases_on (re_id e) (ls @ [l]) = Suc (leases_on (re_id e) ls)" using l by simp
  have B: "leases_of (re_id e) s' g' (ls @ [l]) = leases_of (re_id e) s' g' ls + (if s' = s \<and> g' = g then 1 else 0)" for s' g'
    using l by auto
  show ?thesis using e
    unfolding entry_ok_def binding_ok_def update_first_unique [OF d, where P = "\<lambda>b. b_subject b = s \<and> b_generation b = g" and g = g, simplified]
    by (auto simp: A B map_if_keeps simp del: leases_append)
qed

lemma entry_ok_release:
  assumes e: "entry_ok n ls e" and k: "k < length ls"
    and l: "bl_component (ls ! k) = re_id e" "bl_subject (ls ! k) = s" "bl_generation (ls ! k) = g"
  shows "entry_ok n (take k ls @ drop (Suc k) ls) (e\<lparr>
      re_bindings := update_first (\<lambda>b. b_subject b = s \<and> b_generation b = g)
        (\<lambda>b. b\<lparr>b_borrows := b_borrows b - 1\<rparr>) (re_bindings e), re_component_borrows := re_component_borrows e - 1\<rparr>)"
proof -
  have d: "distinct (map b_generation (re_bindings e))" using e by (simp add: entry_ok_def)
  have A: "leases_on (re_id e) ls = Suc (leases_on (re_id e) (take k ls @ drop (Suc k) ls))"
    using leases_remove(1) [OF k, of "re_id e"] l by simp
  have B: "leases_of (re_id e) s' g' ls =
      leases_of (re_id e) s' g' (take k ls @ drop (Suc k) ls) + (if s' = s \<and> g' = g then 1 else 0)" for s' g'
    using leases_remove(2) [OF k, of "re_id e" s' g'] l by auto
  show ?thesis using e
    unfolding entry_ok_def binding_ok_def update_first_unique [OF d, where P = "\<lambda>b. b_subject b = s \<and> b_generation b = g" and g = g, simplified]
    by (auto simp: A B map_if_keeps)
qed

lemma AcquireBorrow_ok:
  assumes ok: "world_ok w" and A: "AcquireBorrowLocked c subject g allow (w_reg w) = (Inr l, r')"
    and c: "c < length (rg_entries (w_reg w))"
  shows "world_ok \<lparr>w_reg = r', w_leases = w_leases w @ [l]\<rparr>"
proof -
  let ?r = "w_reg w" and ?e = "rg_entries (w_reg w) ! c"
  let ?P = "\<lambda>b. b_subject b = subject \<and> b_generation b = g"
  let ?f = "\<lambda>e. e\<lparr>re_bindings := update_first ?P (\<lambda>b. b\<lparr>b_borrows := b_borrows b + 1\<rparr>) (re_bindings e),
      re_component_borrows := re_component_borrows e + 1\<rparr>"
  obtain b where b: "List.find ?P (re_bindings ?e) = Some b"
    and l: "l = \<lparr>bl_owner = re_object ?e, bl_component = re_id ?e, bl_subject = subject, bl_generation = g\<rparr>"
    and r': "r' = upd_entry c ?f ?r"
    using A by (auto simp: AcquireBorrowLocked_def Let_def split: if_splits option.splits)
  have e: "entry_ok (rg_next_generation ?r) (w_leases w) ?e" using ok c by (simp add: world_ok_def)
  have bg: "b \<in> set (re_bindings ?e)" "b_subject b = subject" "b_generation b = g" using find_Some [OF b] by auto
  have "world_ok \<lparr>w_reg = (upd_entry c ?f ?r)\<lparr>rg_next_generation := rg_next_generation ?r\<rparr>, w_leases = w_leases w @ [l]\<rparr>"
  proof (rule world_upd [OF ok c])
    show "entry_ok (rg_next_generation ?r) (w_leases w @ [l]) (?f ?e)"
      by (rule entry_ok_borrow [OF e bg]) (simp_all add: l)
    have "issued_id (rg_next_id_seq ?r) (re_id ?e)" using ok c by (simp add: world_ok_def ids_ok_def ids_def)
    moreover have "g < rg_next_generation ?r" using e bg by (auto simp: entry_ok_def binding_ok_def)
    ultimately show "issued_id (rg_next_id_seq ?r) (bl_component k) \<and> bl_generation k < rg_next_generation ?r"
      if "k \<in> set (w_leases w @ [l])" for k
      using that world_leases [OF ok] by (auto simp: l)
  qed (simp_all add: l)
  then show ?thesis by (simp add: r' upd_entry_def)
qed

lemma AcquireBorrow_fail: "AcquireBorrowLocked c s g a r = (Inl e, r') \<Longrightarrow> r' = r"
  by (auto simp: AcquireBorrowLocked_def Let_def split: if_splits option.splits)

lemma BorrowImpl_fail: "BorrowImpl h g a r = (Inl e, r') \<Longrightarrow> r' = r"
  by (auto simp: BorrowImpl_def Let_def dest: AcquireBorrow_fail split: if_splits option.splits prod.splits sum.splits)

text \<open>What a successful borrow found.\<close>

lemma BorrowImpl_success:
  assumes "BorrowImpl h g a r = (Inr (l, ob), r')"
  obtains c b where "FindEntryLocked (h_id h) r = Some c" "re_generation (rg_entries r ! c) = h_generation h"
    "List.find (\<lambda>b. b_generation b = g) (re_bindings (rg_entries r ! c)) = Some b"
    "AcquireBorrowLocked c (b_subject b) g a r = (Inr l, r')" "ob = re_object (rg_entries r ! c)"
  using assms by (auto simp: BorrowImpl_def Let_def split: if_splits option.splits prod.splits sum.splits)

lemma BorrowImpl_ok:
  assumes ok: "world_ok w" and B: "BorrowImpl h g a (w_reg w) = (Inr (l, ob), r')"
  shows "world_ok \<lparr>w_reg = r', w_leases = w_leases w @ [l]\<rparr>"
proof -
  obtain c b where F: "FindEntryLocked (h_id h) (w_reg w) = Some c"
    and "re_generation (rg_entries (w_reg w) ! c) = h_generation h"
    and "List.find (\<lambda>b. b_generation b = g) (re_bindings (rg_entries (w_reg w) ! c)) = Some b"
    and A: "AcquireBorrowLocked c (b_subject b) g a (w_reg w) = (Inr l, r')"
    and "ob = re_object (rg_entries (w_reg w) ! c)"
    by (rule BorrowImpl_success [OF B])
  show ?thesis by (rule AcquireBorrow_ok [OF ok A world_found(1) [OF ok F]])
qed

definition drop_lease :: "nat \<Rightarrow> BindingLease list \<Rightarrow> BindingLease list" where
  "drop_lease k ls = take k ls @ drop (Suc k) ls"

lemma drop_lease_subset: "set (drop_lease k ls) \<subseteq> set ls"
  by (auto simp: drop_lease_def dest: in_set_takeD in_set_dropD)

lemma drop_lease_other:
  assumes "k < length ls" and "i \<noteq> bl_component (ls ! k)"
  shows "leases_on i (drop_lease k ls) = leases_on i ls" "leases_of i s g (drop_lease k ls) = leases_of i s g ls"
  using leases_remove [OF assms(1), of i] assms(2) by (simp_all add: drop_lease_def)

lemma ReleaseBorrow_ok:
  assumes ok: "world_ok w" and k: "k < length (w_leases w)"
    and l: "w_leases w ! k = l"
  shows "world_ok \<lparr>w_reg = ReleaseBorrow (bl_component l) (bl_subject l) (bl_generation l) (w_reg w),
      w_leases = drop_lease k (w_leases w)\<rparr>"
proof (cases "FindEntryLocked (bl_component l) (w_reg w)")
  case None
  have "re_id e \<noteq> bl_component l" if "e \<in> set (rg_entries (w_reg w))" for e
    using that ok None FindEntry_iff [of "w_reg w" "bl_component l"] by (auto simp: world_ok_def in_set_conv_nth)
  then have "entry_ok (rg_next_generation (w_reg w)) (drop_lease k (w_leases w)) e" if "e \<in> set (rg_entries (w_reg w))" for e
    using that ok l k by (auto simp: world_ok_def drop_lease_other intro: entry_ok_other)
  then show ?thesis using ok None subsetD [OF drop_lease_subset, of _ k "w_leases w"]
    by (simp add: world_ok_def ReleaseBorrow_def)
next
  case (Some c)
  let ?f = "\<lambda>e. e\<lparr>re_bindings := update_first (\<lambda>b. b_subject b = bl_subject l \<and> b_generation b = bl_generation l)
      (\<lambda>b. b\<lparr>b_borrows := b_borrows b - 1\<rparr>) (re_bindings e), re_component_borrows := re_component_borrows e - 1\<rparr>"
  note F = world_found [OF ok Some]
  have "world_ok \<lparr>w_reg = (upd_entry c ?f (w_reg w))\<lparr>rg_next_generation := rg_next_generation (w_reg w)\<rparr>,
      w_leases = drop_lease k (w_leases w)\<rparr>"
  proof (rule world_upd [OF ok F(1)])
    show "entry_ok (rg_next_generation (w_reg w)) (drop_lease k (w_leases w)) (?f (rg_entries (w_reg w) ! c))"
      unfolding drop_lease_def by (rule entry_ok_release [OF F(3) k]) (simp_all add: l F(2))
  qed (use k l F(2) world_leases [OF ok] drop_lease_subset in \<open>auto simp: drop_lease_other\<close>)
  then show ?thesis by (simp add: ReleaseBorrow_def Some upd_entry_def)
qed

lemma Create_ok:
  assumes ok: "world_ok w" and "CreateEntryLocked k tn n sc ow ty ob (w_reg w) = (x, r')"
  shows "world_ok (w\<lparr>w_reg := r'\<rparr>)"
proof (cases "lim_objects (rg_limits (w_reg w)) \<le> CountObjectsLocked (w_reg w)")
  case True
  then have "r' = w_reg w" using assms(2) by (simp add: CreateEntryLocked_def)
  then show ?thesis using ok by simp
next
  case False
  let ?r = "w_reg w"
  let ?i = "KindPrefix k @ '':'' @ to_string (rg_next_id_seq ?r)"
  have r': "rg_entries r' = rg_entries ?r @ [new_entry ?i (rg_next_generation ?r) k tn n sc ow ty ob]"
    "rg_next_generation r' = rg_next_generation ?r + 1" "rg_next_id_seq r' = rg_next_id_seq ?r + 1"
    using assms(2) False by (auto simp: CreateEntryLocked_def NextIdLocked_def Let_def)
  have "ids_ok r'" using CreateEntry_ids_ok [OF _ assms(2)] ok by (simp add: world_ok_def)
  moreover have "leases_on ?i (w_leases w) = 0"
    using world_leases [OF ok] fresh_id unfolding leases_on_def filter_empty_conv length_0_conv by metis
  then have "entry_ok (rg_next_generation ?r + 1) (w_leases w) (new_entry ?i (rg_next_generation ?r) k tn n sc ow ty ob)"
    by (simp add: entry_ok_def new_entry_def)
  moreover have "issued_id (rg_next_id_seq ?r + 1) (bl_component l) \<and> bl_generation l < rg_next_generation ?r + 1"
    if "l \<in> set (w_leases w)" for l
    using world_leases [OF ok that] by (auto intro: issued_id_mono)
  ultimately show ?thesis using ok by (auto simp: world_ok_def r' intro: entry_ok_mono)
qed

lemma FinishDestroy_ok:
  assumes ok: "world_ok w" and p: "p < length (rg_entries (w_reg w))"
    and F: "FinishDestroyLocked now p (w_reg w) = ((ob, evs), r')"
  shows "world_ok (w\<lparr>w_reg := r'\<rparr>)"
  using FinishDestroy_entries [OF _ p F] ok
  by (auto simp: world_ok_def dest: in_set_takeD in_set_dropD)

end
