(* ===== verification/Dependencies.thy ===== *)
theory Dependencies
  imports ObjectProps
begin

text \<open>
  The graph of dependencies between components: \<open>deps_of\<close> of \<open>src/host/Registry.cc\<close> and the search
  for a cycle, \<open>_WouldFormCycleLocked\<close> of \<open>src/host/App.cc\<close>, which a binding runs before it adds an
  edge. A component that is the subject of a binding depends on the target. The recursive
  \<open>std::function\<close> has fuel; the number of components is proved to be enough, and the answer exact.
\<close>

subsection \<open>The graph\<close>

definition is_component :: "RegistryEntry \<Rightarrow> bool" where
  "is_component e \<longleftrightarrow> re_kind e = KComponent"

definition component_ids :: "Registry \<Rightarrow> string list" where
  "component_ids r = map re_id (filter is_component (rg_entries r))"

definition deps_of :: "Registry \<Rightarrow> string \<Rightarrow> string list" where
  "deps_of r i =
     concat (map (\<lambda>ce. map (\<lambda>_. re_id ce) (filter (\<lambda>b. b_subject b = i) (re_bindings ce)))
       (filter is_component (rg_entries r)))"

definition depends :: "Registry \<Rightarrow> string \<Rightarrow> string \<Rightarrow> bool" where
  "depends r x d \<longleftrightarrow> (\<exists>ce \<in> set (rg_entries r). re_kind ce = KComponent \<and> re_id ce = d \<and>
     (\<exists>b \<in> set (re_bindings ce). b_subject b = x))"

definition graph :: "Registry \<Rightarrow> (string \<times> string) set" where
  "graph r = {e. fst e \<in> set (component_ids r) \<and> depends r (fst e) (snd e)}"

definition dependency_cycle :: "Registry \<Rightarrow> bool" where
  "dependency_cycle r \<longleftrightarrow> (\<exists>x. (x, x) \<in> (graph r)\<^sup>+)"

lemma deps_of_iff: "d \<in> set (deps_of r x) \<longleftrightarrow> depends r x d"
  by (auto simp: deps_of_def depends_def is_component_def)

lemma deps_closed: "set (deps_of r x) \<subseteq> set (component_ids r)"
  by (auto simp: deps_of_def component_ids_def)

lemma cycle_graph: "dependency_cycle r \<longleftrightarrow> \<not> acyclic (graph r)"
  by (auto simp: dependency_cycle_def acyclic_def)

subsection \<open>The search for a cycle\<close>

text \<open>
  Whether \<open>subject\<close> is reachable from a component along its dependencies: depth-first with marks.
  The fuel is the number of the components and one more for the target.
\<close>

fun reach :: "(string \<Rightarrow> string list) \<Rightarrow> string \<Rightarrow> nat \<Rightarrow> string \<Rightarrow> string list \<Rightarrow> (bool \<times> string list) option"
  and reach_deps :: "(string \<Rightarrow> string list) \<Rightarrow> string \<Rightarrow> nat \<Rightarrow> string list \<Rightarrow> string list \<Rightarrow> (bool \<times> string list) option" where
  "reach D s 0 i mark = (if i = s then Some (True, mark) else None)"
| "reach D s (Suc n) i mark = (if i = s then Some (True, mark) else reach_deps D s n (D i) (i # mark))"
| "reach_deps D s n [] mark = Some (False, mark)"
| "reach_deps D s n (d # ds) mark =
     (if d \<in> set mark then reach_deps D s n ds mark
      else case reach D s n d mark of
          None \<Rightarrow> None
        | Some (True, mark') \<Rightarrow> Some (True, mark')
        | Some (False, mark') \<Rightarrow> reach_deps D s n ds mark')"

definition component_deps :: "Registry \<Rightarrow> string \<Rightarrow> string list" where
  "component_deps r x = (if x \<in> set (ListIdsByKind KComponent r) then deps_of r x else [])"

definition WouldFormCycleLocked :: "string \<Rightarrow> string \<Rightarrow> Registry \<Rightarrow> bool option" where
  "WouldFormCycleLocked subject target r =
     (if subject = target then Some True
      else map_option fst (reach (component_deps r) subject (Suc (length (ListIdsByKind KComponent r))) target []))"

text \<open>
  The check of \<open>_BindComponentImpl\<close>: a component that becomes a subject may not be reachable from the
  target. A Service needs no check, for nothing depends on it.
\<close>

definition edge_permitted :: "string \<Rightarrow> string \<Rightarrow> nat \<Rightarrow> Registry \<Rightarrow> bool" where
  "edge_permitted c s q r \<longleftrightarrow>
     (re_kind (rg_entries r ! q) = KComponent \<longrightarrow> WouldFormCycleLocked s c r = Some False)"

text \<open>What a search from the nodes of \<open>V\<close> returns: a path, or a closed set of marks without \<open>s\<close>.\<close>

abbreviation links :: "(string \<Rightarrow> string list) \<Rightarrow> (string \<times> string) set" where
  "links D \<equiv> {e. snd e \<in> set (D (fst e))}"

definition closed_marks :: "(string \<Rightarrow> string list) \<Rightarrow> string \<Rightarrow> string list \<Rightarrow> string list \<Rightarrow> bool" where
  "closed_marks D s mark mark' \<longleftrightarrow> set mark \<subseteq> set mark' \<and> (\<forall>x \<in> set mark' - set mark. x \<noteq> s \<and> set (D x) \<subseteq> set mark')"

definition search_answer :: "(string \<Rightarrow> string list) \<Rightarrow> string \<Rightarrow> string set \<Rightarrow> string list \<Rightarrow> string list
    \<Rightarrow> (bool \<times> string list) option \<Rightarrow> bool" where
  "search_answer D s V from mark ans \<longleftrightarrow>
     (case ans of
        None \<Rightarrow> False
      | Some (b, mark') \<Rightarrow>
          (if b then \<exists>d \<in> set from. (d, s) \<in> (links D)\<^sup>*
           else set from \<subseteq> set mark' \<and> set mark' \<subseteq> V \<and> closed_marks D s mark mark'))"

lemma closed_marks_trans:
  assumes "closed_marks D s m m1" and "closed_marks D s m1 m2"
  shows "closed_marks D s m m2"
  unfolding closed_marks_def
proof (intro conjI ballI)
  show "set m \<subseteq> set m2" using assms by (auto simp: closed_marks_def)
  fix x assume "x \<in> set m2 - set m"
  then have x: "x \<in> set m1 - set m \<or> x \<in> set m2 - set m1" by blast
  then show "x \<noteq> s" and "set (D x) \<subseteq> set m2" using assms unfolding closed_marks_def by blast+
qed

lemma reach_search:
  assumes fin: "finite V"
  shows "\<forall>x \<in> V. set (D x) \<subseteq> V \<Longrightarrow> i \<in> V \<Longrightarrow> i \<notin> set mark \<Longrightarrow> set mark \<subseteq> V \<Longrightarrow> card (V - set mark) \<le> n \<Longrightarrow>
      search_answer D s V [i] mark (reach D s n i mark)"
    and "\<forall>x \<in> V. set (D x) \<subseteq> V \<Longrightarrow> set ds \<subseteq> V \<Longrightarrow> set mark \<subseteq> V \<Longrightarrow> card (V - set mark) \<le> n \<Longrightarrow>
      search_answer D s V ds mark (reach_deps D s n ds mark)"
proof (induction D s n i mark and D s n ds mark rule: reach_reach_deps.induct)
  case (1 D s i mark)
  then have "V - set mark = {}" using fin by simp
  then show ?case using 1(2,3) by blast
next
  case (2 D s n i mark)
  show ?case
  proof (cases "i = s")
    case True
    then show ?thesis by (simp add: search_answer_def)
  next
    case False
    have "V - set (i # mark) = (V - set mark) - {i}" by auto
    then have "card (V - set (i # mark)) \<le> n" using 2(3,4,6) fin by simp
    then have IH: "search_answer D s V (D i) (i # mark) (reach_deps D s n (D i) (i # mark))"
      using 2(1) [OF False 2(2)] 2(2,3,5) by simp
    then obtain b mark' where R: "reach_deps D s n (D i) (i # mark) = Some (b, mark')"
      by (auto simp: search_answer_def split: option.splits prod.splits)
    show ?thesis
    proof (cases b)
      case True
      then obtain d where "d \<in> set (D i)" "(d, s) \<in> (links D)\<^sup>*" using IH R by (auto simp: search_answer_def)
      then have "(i, s) \<in> (links D)\<^sup>*" by (auto intro: converse_rtrancl_into_rtrancl)
      then show ?thesis using True R False by (simp add: search_answer_def)
    next
      case b: False
      then show ?thesis using IH R False by (auto simp: search_answer_def closed_marks_def)
    qed
  qed
next
  case (3 D s n mark)
  then show ?case by (simp add: search_answer_def closed_marks_def)
next
  case (4 D s n d ds mark)
  show ?case
  proof (cases "d \<in> set mark")
    case True
    have "search_answer D s V ds mark (reach_deps D s n ds mark)" using 4(1) [OF True 4(4)] 4(5-7) by simp
    then show ?thesis using True by (auto simp: search_answer_def closed_marks_def split: option.splits if_splits)
  next
    case False
    have IH: "search_answer D s V [d] mark (reach D s n d mark)" using 4(2) [OF False 4(4)] 4(5-7) False by simp
    then obtain b m1 where R: "reach D s n d mark = Some (b, m1)"
      by (auto simp: search_answer_def split: option.splits prod.splits)
    show ?thesis
    proof (cases b)
      case True
      then show ?thesis using IH R False by (simp add: search_answer_def)
    next
      case b: False
      have m1: "d \<in> set m1" "set m1 \<subseteq> V" "closed_marks D s mark m1" using IH R b by (simp_all add: search_answer_def)
      have "card (V - set m1) \<le> card (V - set mark)"
        using m1(3) fin by (intro card_mono) (auto simp: closed_marks_def)
      then have "card (V - set m1) \<le> n" using 4(7) by simp
      then have IH2: "search_answer D s V ds m1 (reach_deps D s n ds m1)"
        using 4(3) [OF False R _ _ 4(4)] 4(5) m1(2) b by simp
      then obtain b2 m2 where R2: "reach_deps D s n ds m1 = Some (b2, m2)"
        by (auto simp: search_answer_def split: option.splits prod.splits)
      have "reach_deps D s n (d # ds) mark = Some (b2, m2)" using R R2 b False by simp
      moreover have "closed_marks D s mark m2 \<and> set m1 \<subseteq> set m2" if "\<not> b2"
      proof -
        have c: "closed_marks D s m1 m2" using IH2 R2 that by (simp add: search_answer_def)
        then have "set m1 \<subseteq> set m2" by (simp add: closed_marks_def)
        with closed_marks_trans [OF m1(3) c] show ?thesis ..
      qed
      ultimately show ?thesis using IH2 R2 m1(1) by (cases b2) (auto simp: search_answer_def)
    qed
  qed
qed

lemma closed_unreachable:
  assumes "closed_marks D s [] mark" and "(x, y) \<in> (links D)\<^sup>*" and "x \<in> set mark"
  shows "y \<in> set mark \<and> y \<noteq> s"
  using assms(2,3)
proof (induction rule: rtrancl_induct)
  case base
  then show ?case using assms(1) by (auto simp: closed_marks_def)
next
  case (step y z)
  then have "z \<in> set mark" using assms(1) by (auto simp: closed_marks_def)
  then show ?case using assms(1) by (auto simp: closed_marks_def)
qed

lemma list_components: "ListIdsByKind KComponent r = component_ids r"
  by (simp add: ListIdsByKind_def component_ids_def is_component_def [abs_def])

lemma graph_iff: "(x, d) \<in> graph r \<longleftrightarrow> x \<in> set (component_ids r) \<and> depends r x d"
  by (simp add: graph_def)

lemma component_deps_iff: "d \<in> set (component_deps r x) \<longleftrightarrow> (x, d) \<in> graph r"
  by (cases "x \<in> set (component_ids r)") (simp_all only: graph_iff component_deps_def deps_of_iff list_components if_True if_False
    empty_iff list.set simp_thms)

lemma edges_graph: "links (component_deps r) = graph r"
  by (simp add: component_deps_iff)

lemma graph_components: "(x, d) \<in> graph r \<Longrightarrow> x \<in> set (component_ids r) \<and> d \<in> set (component_ids r)"
  unfolding graph_iff by (auto simp: depends_def component_ids_def is_component_def)

text \<open>The search ends, and says whether the new edge would close a cycle.\<close>

lemma cycle_search_exact:
  assumes "t \<in> set (component_ids r)"
  shows "WouldFormCycleLocked s t r = Some ((t, s) \<in> (graph r)\<^sup>*)"
proof (cases "s = t")
  case True
  then show ?thesis by (simp add: WouldFormCycleLocked_def)
next
  case False
  let ?V = "set (component_ids r)" and ?D = "component_deps r"
  let ?n = "Suc (length (ListIdsByKind KComponent r))"
  have n: "card (?V - set []) \<le> ?n" using card_length [of "component_ids r"] by (simp add: list_components)
  have "search_answer ?D s ?V [t] [] (reach ?D s ?n t [])"
    by (rule reach_search(1)) (use graph_components n assms in \<open>auto simp: component_deps_iff\<close>)
  then obtain b m where R: "reach ?D s ?n t [] = Some (b, m)"
    and b: "if b then (t, s) \<in> (graph r)\<^sup>* else t \<in> set m \<and> closed_marks ?D s [] m"
    by (auto simp: search_answer_def edges_graph split: option.splits prod.splits if_splits)
  have "b \<longleftrightarrow> (t, s) \<in> (graph r)\<^sup>*"
  proof
    assume "(t, s) \<in> (graph r)\<^sup>*"
    then show b using b closed_unreachable [of ?D s m t s] by (cases b) (auto simp: edges_graph)
  qed (use b in simp)
  then show ?thesis using False R by (simp add: WouldFormCycleLocked_def)
qed

end
