(* ===== verification/Borrows.thy ===== *)
theory Borrows
  imports Dependencies
begin

text \<open>
  Histories of the registry (\<open>src/host/Registry.cc\<close>) as its callers drive it: every operation of
  \<open>Objects\<close> that changes the registry, in any order, together with the leases that clients hold.
  An operation that names an object finds its entry in the same critical section, as the callers
  in \<open>App.cc\<close> do, and does nothing when there is none. The properties are about every history.
\<close>

subsection \<open>Operations\<close>

datatype observer_op =
    OpObserve ObjectHandle ObjectHandle "nat option"
  | OpTake nat
  | OpReturn nat
  | OpMark nat
  | OpErase nat
  | OpRevokeOf string
  | OpScan
  | OpDrain

definition observer_op_step :: "Registry \<Rightarrow> observer_op \<Rightarrow> Registry" where
  "observer_op_step r x =
     (case x of
        OpObserve obs tgt cb \<Rightarrow> snd (Observe obs tgt cb r)
      | OpTake t \<Rightarrow> snd (take_lease t r)
      | OpReturn t \<Rightarrow> return_lease t r
      | OpMark t \<Rightarrow> snd (revoke_mark t r)
      | OpErase t \<Rightarrow> revoke_erase t r
      | OpRevokeOf ob \<Rightarrow> RevokeObserversOfLocked ob r
      | OpScan \<Rightarrow> drain_scan r
      | OpDrain \<Rightarrow> drain_erase r)"

datatype obj_op =
    OpCreate ObjectKind string string ComponentScope string string nat
  | OpSetState int string ObjectState "ObjectError option"
  | OpBeginOp string
  | OpEndOp string
  | OpBind string string
  | OpUnbind string string
  | OpEraseBinding string string nat
  | OpEraseSubject string string
  | OpBorrow ObjectHandle nat bool
  | OpRelease nat
  | OpBeginHook string
  | OpHookSettled string
  | OpBeginDestroy string
  | OpSetPhase string string
  | OpFinishDestroy int string
  | OpFailure LifecycleFailure
  | OpObserver observer_op

definition at_entry :: "string \<Rightarrow> (nat \<Rightarrow> Registry \<Rightarrow> Registry) \<Rightarrow> Registry \<Rightarrow> Registry" where
  "at_entry i f r = (case FindEntryLocked i r of None \<Rightarrow> r | Some p \<Rightarrow> f p r)"

definition obj_step :: "object_world \<Rightarrow> obj_op \<Rightarrow> object_world" where
  "obj_step w x =
     (let r = w_reg w
      in case x of
          OpCreate k tn n sc ow ty ob \<Rightarrow> w\<lparr>w_reg := snd (CreateEntryLocked k tn n sc ow ty ob r)\<rparr>
        | OpSetState now i s err \<Rightarrow> w\<lparr>w_reg := snd (SetStateAndGetEvents now i s err r)\<rparr>
        | OpBeginOp i \<Rightarrow> w\<lparr>w_reg := at_entry i (\<lambda>p r. snd (BeginOpLocked p r)) r\<rparr>
        | OpEndOp i \<Rightarrow> w\<lparr>w_reg := at_entry i EndOpLocked r\<rparr>
        | OpBind c s \<Rightarrow>
            w\<lparr>w_reg := at_entry c (\<lambda>p. at_entry s (\<lambda>q r.
                if edge_permitted c s q r then snd (BindLocked p q s r) else r)) r\<rparr>
        | OpUnbind c s \<Rightarrow> w\<lparr>w_reg := at_entry c (\<lambda>p r. snd (BeginUnbindLocked p s r)) r\<rparr>
        | OpEraseBinding c s g \<Rightarrow> w\<lparr>w_reg := at_entry c (\<lambda>p. EraseBindingLocked p s g) r\<rparr>
        | OpEraseSubject c s \<Rightarrow> w\<lparr>w_reg := at_entry c (\<lambda>p. EraseSubjectBindingsLocked p s) r\<rparr>
        | OpBorrow h g a \<Rightarrow>
            (case BorrowImpl h g a r of
               (Inl _, r') \<Rightarrow> w\<lparr>w_reg := r'\<rparr>
             | (Inr (l, _), r') \<Rightarrow> \<lparr>w_reg = r', w_leases = w_leases w @ [l]\<rparr>)
        | OpRelease k \<Rightarrow>
            if k < length (w_leases w)
            then (let l = w_leases w ! k
                  in \<lparr>w_reg = ReleaseBorrow (bl_component l) (bl_subject l) (bl_generation l) r,
                      w_leases = drop_lease k (w_leases w)\<rparr>)
            else w
        | OpBeginHook i \<Rightarrow>
            w\<lparr>w_reg := at_entry i (\<lambda>p. upd_entry p (\<lambda>e. e\<lparr>re_hooks_in_flight := re_hooks_in_flight e + 1\<rparr>)) r\<rparr>
        | OpHookSettled i \<Rightarrow> w\<lparr>w_reg := NoteHookSettled i r\<rparr>
        | OpBeginDestroy i \<Rightarrow> w\<lparr>w_reg := snd (BeginDestroyLocked i r)\<rparr>
        | OpSetPhase i phase \<Rightarrow> w\<lparr>w_reg := at_entry i (\<lambda>p. upd_entry p (\<lambda>e. e\<lparr>re_destroy_phase := phase\<rparr>)) r\<rparr>
        | OpFinishDestroy now i \<Rightarrow> w\<lparr>w_reg := at_entry i (\<lambda>p r. snd (FinishDestroyLocked now p r)) r\<rparr>
        | OpFailure f \<Rightarrow> w\<lparr>w_reg := (case RecordFailure f r of None \<Rightarrow> r | Some r' \<Rightarrow> r')\<rparr>
        | OpObserver y \<Rightarrow> w\<lparr>w_reg := observer_op_step r y\<rparr>)"

definition new_world :: "nat \<Rightarrow> Limits \<Rightarrow> object_world" where
  "new_world self l = \<lparr>w_reg = new_registry self l, w_leases = []\<rparr>"

subsection \<open>The accounts over a history\<close>

lemma at_entry_ok:
  assumes "world_ok w"
    and "\<And>p. FindEntryLocked i (w_reg w) = Some p \<Longrightarrow> world_ok (w\<lparr>w_reg := f p (w_reg w)\<rparr>)"
  shows "world_ok (w\<lparr>w_reg := at_entry i f (w_reg w)\<rparr>)"
  using assms by (cases "FindEntryLocked i (w_reg w)") (simp_all add: at_entry_def)

lemma observer_op_same: "entries_same r (observer_op_step r x)"
  by (cases x)
     (auto simp: observer_op_step_def entries_same_def Observe_def take_lease_def return_lease_def revoke_mark_def
        revoke_erase_def RevokeObserversOfLocked_def drain_scan_def drain_erase_def upd_observer_def Let_def
        split: option.splits)

lemma RecordFailure_same: "RecordFailure f r = Some r' \<Longrightarrow> entries_same r r'"
  by (auto simp: RecordFailure_def entries_same_def split: if_splits list.splits)

lemma SetState_ok: "world_ok w \<Longrightarrow> world_ok (w\<lparr>w_reg := snd (SetStateAndGetEvents now i s err (w_reg w))\<rparr>)"
  by (cases "FindEntryLocked i (w_reg w)")
     (auto simp: SetStateAndGetEvents_def SetStateLocked_def Let_def advance_def account_of_def intro!: world_upd_neutral)

lemma BeginOp_ok: "world_ok w \<Longrightarrow> world_ok (w\<lparr>w_reg := snd (BeginOpLocked p (w_reg w))\<rparr>)"
  by (simp add: BeginOpLocked_def world_upd_neutral account_of_def)

lemma EndOp_ok: "world_ok w \<Longrightarrow> world_ok (w\<lparr>w_reg := EndOpLocked p (w_reg w)\<rparr>)"
  by (simp add: EndOpLocked_def world_upd_neutral account_of_def)

lemma HookSettled_ok: "world_ok w \<Longrightarrow> world_ok (w\<lparr>w_reg := NoteHookSettled i (w_reg w)\<rparr>)"
  by (cases "FindEntryLocked i (w_reg w)") (simp_all add: NoteHookSettled_def world_upd_neutral account_of_def)

lemma BeginDestroy_ok: "world_ok w \<Longrightarrow> world_ok (w\<lparr>w_reg := snd (BeginDestroyLocked i (w_reg w))\<rparr>)"
  by (cases "FindEntryLocked i (w_reg w)") (simp_all add: BeginDestroyLocked_def Let_def world_upd_neutral account_of_def)

lemma obj_step_ok [inv_intros]:
  assumes ok: "world_ok w"
  shows "world_ok (obj_step w x)"
proof (cases x)
  case (OpCreate k tn n sc ow ty ob)
  then show ?thesis using Create_ok [OF ok] by (simp add: obj_step_def prod_eq_iff)
next
  case (OpBind c s)
  have "world_ok (w\<lparr>w_reg := at_entry s (\<lambda>q r. if edge_permitted c s q r then snd (BindLocked p q s r) else r) (w_reg w)\<rparr>)"
    if "FindEntryLocked c (w_reg w) = Some p" for p
    by (rule at_entry_ok [OF ok])
      (use BindLocked_ok [OF ok prod.collapse [symmetric] world_found(1) [OF ok that]] ok in \<open>simp split: if_split\<close>)
  then show ?thesis unfolding OpBind obj_step_def Let_def obj_op.simps by (rule at_entry_ok [OF ok])
next
  case (OpBorrow h g a)
  then show ?thesis
  proof (cases "BorrowImpl h g a (w_reg w)")
    case (Pair y r')
    then show ?thesis using ok BorrowImpl_ok [OF ok] BorrowImpl_fail [of h g a "w_reg w"]
      by (cases y) (auto simp: OpBorrow obj_step_def)
  qed
next
  case (OpRelease k)
  then show ?thesis using ok ReleaseBorrow_ok [OF ok] by (simp add: obj_step_def Let_def)
next
  case (OpFinishDestroy now i)
  have "world_ok (w\<lparr>w_reg := snd (FinishDestroyLocked now p (w_reg w))\<rparr>)"
    if F: "FindEntryLocked i (w_reg w) = Some p" for p
  proof (cases "FinishDestroyLocked now p (w_reg w)")
    case (Pair y r')
    then show ?thesis using FinishDestroy_ok [OF ok world_found(1) [OF ok F], of now "fst y" "snd y" r'] by simp
  qed
  then show ?thesis unfolding OpFinishDestroy obj_step_def Let_def obj_op.simps by (rule at_entry_ok [OF ok])
next
  case (OpFailure f)
  then show ?thesis using ok world_entries_same [OF ok RecordFailure_same [of f "w_reg w"]]
    by (cases "RecordFailure f (w_reg w)") (simp_all add: obj_step_def)
next
  case (OpObserver y)
  then show ?thesis using world_entries_same [OF ok observer_op_same] by (simp add: obj_step_def)
next
  case (OpUnbind c s)
  then show ?thesis using BeginUnbind_ok [OF ok prod.collapse [symmetric]]
    by (simp add: obj_step_def at_entry_ok [OF ok])
qed (use ok in \<open>simp_all add: obj_step_def at_entry_ok SetState_ok BeginOp_ok EndOp_ok EraseBinding_ok EraseSubject_ok
        HookSettled_ok BeginDestroy_ok world_upd_neutral account_of_def\<close>)

lemma new_world_ok: "world_ok (new_world self l)"
  by (simp add: new_world_def new_registry_def world_ok_def ids_ok_def index_ok_def ids_def)

interpretation objects: machine "new_world self l" obj_step world_ok for self l
  by unfold_locales (simp_all add: new_world_ok obj_step_ok)

subsection \<open>How the registry evolves\<close>

text \<open>
  One step relates every entry of the new registry to an entry of the old one, or the entry is
  new: identifiers and generations are never reused and a retired binding stays retired.
\<close>

definition binding_from :: "nat \<Rightarrow> Binding list \<Rightarrow> Binding \<Rightarrow> bool" where
  "binding_from n bs b' \<longleftrightarrow> n \<le> b_generation b' \<or>
     (\<exists>b \<in> set bs. b_generation b' = b_generation b \<and> b_subject b' = b_subject b \<and> (b_retiring b \<longrightarrow> b_retiring b'))"

definition entry_from :: "nat \<Rightarrow> Registry \<Rightarrow> RegistryEntry \<Rightarrow> bool" where
  "entry_from n r e' \<longleftrightarrow>
     \<not> issued_id (rg_next_id_seq r) (re_id e') \<and> re_bindings e' = [] \<or>
     (\<exists>e \<in> set (rg_entries r). re_id e' = re_id e \<and> re_generation e' = re_generation e \<and> re_kind e' = re_kind e \<and>
        (re_gate_closed e \<longrightarrow> re_gate_closed e') \<and>
        (\<forall>b' \<in> set (re_bindings e'). binding_from n (re_bindings e) b'))"

text \<open>Bindings of a generation from \<open>n\<close> on may be new.\<close>

definition evolves :: "nat \<Rightarrow> Registry \<Rightarrow> Registry \<Rightarrow> bool" where
  "evolves n r r' \<longleftrightarrow> rg_next_id_seq r \<le> rg_next_id_seq r' \<and> rg_next_generation r \<le> rg_next_generation r' \<and>
     (\<forall>e' \<in> set (rg_entries r'). entry_from n r e')"

lemma binding_from_self: "b \<in> set bs \<Longrightarrow> binding_from n bs b"
  by (auto simp: binding_from_def)

lemma entry_from_self: "e \<in> set (rg_entries r) \<Longrightarrow> entry_from n r e"
  by (auto simp: entry_from_def intro!: binding_from_self)

lemma evolves_subset:
  "set (rg_entries r') \<subseteq> set (rg_entries r) \<Longrightarrow> rg_next_id_seq r \<le> rg_next_id_seq r' \<Longrightarrow>
   rg_next_generation r \<le> rg_next_generation r' \<Longrightarrow> evolves n r r'"
  by (auto simp: evolves_def entry_from_self)

lemma evolves_refl [simp]: "evolves n r r"
  by (simp add: evolves_subset)

lemma evolves_same: "entries_same r r' \<Longrightarrow> evolves n r r'"
  by (simp add: entries_same_def evolves_subset)

lemma evolves_upd_gen:
  assumes f: "\<And>e. re_id (f e) = re_id e" "\<And>e. re_generation (f e) = re_generation e" "\<And>e. re_kind (f e) = re_kind e"
    "\<And>e. re_gate_closed e \<Longrightarrow> re_gate_closed (f e)"
    "\<And>e b. b \<in> set (re_bindings (f e)) \<Longrightarrow> binding_from n (re_bindings e) b"
    and m: "rg_next_generation r \<le> m"
  shows "evolves n r ((upd_entry p f r)\<lparr>rg_next_generation := m\<rparr>)"
proof -
  have "entry_from n r e'" if "e' \<in> set ((rg_entries r)[p := f (rg_entries r ! p)])" for e'
  proof -
    consider "e' \<in> set (rg_entries r)" | "p < length (rg_entries r)" "e' = f (rg_entries r ! p)"
      using \<open>e' \<in> _\<close> by (metis insert_iff list_update_beyond not_le_imp_less set_update_subset_insert subsetD)
    then show ?thesis
    proof cases
      case 2
      then show ?thesis using f nth_mem [OF 2(1)] unfolding entry_from_def by blast
    qed (rule entry_from_self)
  qed
  then show ?thesis using m by (simp add: evolves_def upd_entry_def)
qed

lemma evolves_upd:
  assumes "\<And>e. re_id (f e) = re_id e" "\<And>e. re_generation (f e) = re_generation e" "\<And>e. re_kind (f e) = re_kind e"
    "\<And>e. re_gate_closed e \<Longrightarrow> re_gate_closed (f e)"
    "\<And>e b. b \<in> set (re_bindings (f e)) \<Longrightarrow> binding_from n (re_bindings e) b"
  shows "evolves n r (upd_entry p f r)"
  using evolves_upd_gen [OF assms order_refl] by (simp add: evolves_def upd_entry_def)

lemma evolves_at: "(\<And>p. evolves n r (f p r)) \<Longrightarrow> evolves n r (at_entry i f r)"
  by (simp add: at_entry_def split: option.splits)

lemma evolves_update_first:
  "b \<in> set (update_first P f bs) \<Longrightarrow> (\<And>b. b_generation (f b) = b_generation b) \<Longrightarrow> (\<And>b. b_subject (f b) = b_subject b) \<Longrightarrow>
   (\<And>b. b_retiring b \<Longrightarrow> b_retiring (f b)) \<Longrightarrow> binding_from n bs b"
  by (drule update_first_member) (auto simp: binding_from_def)

lemma Acquire_evolves: "AcquireBorrowLocked c s g a r = (x, r') \<Longrightarrow> evolves n r r'"
  by (auto simp: AcquireBorrowLocked_def Let_def intro!: evolves_upd split: if_splits option.splits
      elim!: evolves_update_first)

lemma Borrow_evolves: "BorrowImpl h g a r = (x, r') \<Longrightarrow> evolves n r r'"
  by (auto simp: BorrowImpl_def Let_def dest: Acquire_evolves split: if_splits option.splits prod.splits sum.splits)

lemma Release_evolves: "evolves n r (ReleaseBorrow i s g r)"
  by (auto simp: ReleaseBorrow_def intro!: evolves_upd split: option.splits elim!: evolves_update_first)

lemma Bind_evolves: "evolves (rg_next_generation r) r (snd (BindLocked p q s r))"
  by (auto simp: BindLocked_def Let_def binding_from_def intro!: evolves_upd_gen)

lemma Unbind_evolves: "evolves n r (snd (BeginUnbindLocked p s r))"
  by (auto simp: BeginUnbindLocked_def Let_def intro!: evolves_upd split: option.splits elim!: evolves_update_first)

lemma Create_evolves: "evolves m r (snd (CreateEntryLocked k tn n sc ow ty ob r))"
  using fresh_id by (auto simp: CreateEntryLocked_def NextIdLocked_def Let_def evolves_def entry_from_self new_entry_def
      entry_from_def intro: binding_from_self)

lemma FinishDestroy_evolves:
  assumes ok: "world_ok w" and p: "p < length (rg_entries (w_reg w))"
  shows "evolves n (w_reg w) (snd (FinishDestroyLocked now p (w_reg w)))"
proof (cases "FinishDestroyLocked now p (w_reg w)")
  case (Pair y r')
  have i: "ids_ok (w_reg w)" using ok by (simp add: world_ok_def)
  have F: "FinishDestroyLocked now p (w_reg w) = ((fst y, snd y), r')" using Pair by simp
  show ?thesis using FinishDestroy_entries [OF i p F] Pair
    by (auto intro!: evolves_subset dest: in_set_takeD in_set_dropD)
qed

lemma EraseBinding_evolves: "evolves n r (EraseBindingLocked p s g r)"
  unfolding EraseBindingLocked_def
  by (rule evolves_upd) (auto intro: binding_from_self subsetD [OF remove_first_set])

lemma obj_step_shrinks:
  assumes ok: "world_ok w" and x: "\<And>c s. x \<noteq> OpBind c s"
  shows "evolves n (w_reg w) (w_reg (obj_step w x))"
proof (cases x)
  case (OpFinishDestroy now i)
  then show ?thesis using FinishDestroy_evolves [OF ok world_found(1) [OF ok]]
    by (cases "FindEntryLocked i (w_reg w)") (simp_all add: obj_step_def at_entry_def)
next
  case (OpBorrow h g a)
  then show ?thesis using Borrow_evolves by (auto simp: obj_step_def split: prod.splits sum.splits)
next
  case (OpFailure f)
  then show ?thesis using RecordFailure_same [of f "w_reg w"]
    by (auto simp: obj_step_def Let_def evolves_same split: option.splits)
qed (use x in \<open>auto simp: obj_step_def Let_def Create_evolves Unbind_evolves Release_evolves evolves_same observer_op_same EraseBinding_evolves
    SetStateAndGetEvents_def SetStateLocked_def BeginOpLocked_def EndOpLocked_def advance_def
    EraseSubjectBindingsLocked_def NoteHookSettled_def BeginDestroyLocked_def
    intro!: evolves_at evolves_upd binding_from_self split: option.splits\<close>)

lemma obj_step_evolves:
  assumes ok: "world_ok w"
  shows "evolves (rg_next_generation (w_reg w)) (w_reg w) (w_reg (obj_step w x))"
proof (cases "\<exists>c s. x = OpBind c s")
  case True
  then obtain c s where x: "x = OpBind c s" by blast
  have "evolves (rg_next_generation (w_reg w)) (w_reg w) 
      (at_entry s (\<lambda>q r. if edge_permitted c s q r then snd (BindLocked p q s r) else r) (w_reg w))" for p
    by (rule evolves_at) (simp add: Bind_evolves evolves_refl)
  then show ?thesis by (simp add: x obj_step_def evolves_at)
next
  case False
  then show ?thesis by (intro obj_step_shrinks [OF ok]) blast
qed

subsection \<open>Dead generations and dead identities\<close>

definition dead_binding :: "string \<Rightarrow> nat \<Rightarrow> Registry \<Rightarrow> bool" where
  "dead_binding i g r \<longleftrightarrow> issued_id (rg_next_id_seq r) i \<and> g < rg_next_generation r \<and>
     (\<forall>e \<in> set (rg_entries r). re_id e = i \<longrightarrow> (\<forall>b \<in> set (re_bindings e). b_generation b = g \<longrightarrow> b_retiring b))"

definition dead_id :: "string \<Rightarrow> Registry \<Rightarrow> bool" where
  "dead_id i r \<longleftrightarrow> issued_id (rg_next_id_seq r) i \<and> i \<notin> set (ids r)"

lemma entry_from_issued:
  assumes "entry_from n r e'" and "issued_id (rg_next_id_seq r) (re_id e')"
  obtains e where "e \<in> set (rg_entries r)" "re_id e' = re_id e"
    "\<And>b'. b' \<in> set (re_bindings e') \<Longrightarrow> binding_from n (re_bindings e) b'"
  using assms unfolding entry_from_def by blast

lemma dead_binding_evolves:
  assumes d: "dead_binding i g r" and e: "evolves (rg_next_generation r) r r'"
  shows "dead_binding i g r'"
  unfolding dead_binding_def
proof (intro conjI ballI impI)
  show "issued_id (rg_next_id_seq r') i" "g < rg_next_generation r'"
    using d e by (auto simp: dead_binding_def evolves_def intro: issued_id_mono)
  fix e' b'
  assume e': "e' \<in> set (rg_entries r')" "re_id e' = i" and b': "b' \<in> set (re_bindings e')" "b_generation b' = g"
  have "entry_from (rg_next_generation r) r e'" "issued_id (rg_next_id_seq r) (re_id e')"
    using e e' d by (simp_all add: evolves_def dead_binding_def)
  then obtain e0 where "e0 \<in> set (rg_entries r)" "re_id e' = re_id e0"
    "binding_from (rg_next_generation r) (re_bindings e0) b'"
    using b'(1) by (metis entry_from_issued)
  then show "b_retiring b'" using d b'(2) e'(2) by (auto simp: dead_binding_def binding_from_def)
qed

lemma dead_id_evolves:
  assumes "dead_id i r" and "evolves n r r'"
  shows "dead_id i r'"
proof -
  have "re_id e' \<noteq> i" if "e' \<in> set (rg_entries r')" for e'
  proof
    assume i: "re_id e' = i"
    then have "issued_id (rg_next_id_seq r) (re_id e')" "entry_from n r e'"
      using assms that by (simp_all add: dead_id_def evolves_def)
    then show False using assms(1) i by (metis entry_from_issued dead_id_def ids_def image_eqI list.set_map)
  qed
  then show ?thesis using assms by (auto simp: dead_id_def ids_def evolves_def intro: issued_id_mono)
qed

text \<open>A predicate that every evolution keeps holds along a history.\<close>

lemma evolves_run:
  assumes "\<And>r r'. P r \<Longrightarrow> evolves (rg_next_generation r) r r' \<Longrightarrow> P r'" and "world_ok w" and "P (w_reg w)"
  shows "P (w_reg (run_ops obj_step w ys))"
  using assms(2,3)
proof (induction ys arbitrary: w)
  case (Cons y ys)
  then show ?case using assms(1) obj_step_evolves obj_step_ok by (metis run_ops.simps(2))
qed simp

lemma dead_binding_no_borrow:
  assumes ok: "ids_ok r" and d: "dead_binding (h_id h) g r"
  shows "\<not> is_ok (fst (BorrowImpl h g a r))"
proof
  assume "is_ok (fst (BorrowImpl h g a r))"
  then obtain l ob r' where "BorrowImpl h g a r = (Inr (l, ob), r')"
    by (cases "BorrowImpl h g a r") (auto simp: is_ok_def split: sum.splits)
  then show False
  proof (rule BorrowImpl_success)
    fix c b
    assume F: "FindEntryLocked (h_id h) r = Some c" and A: "AcquireBorrowLocked c (b_subject b) g a r = (Inr l, r')"
    have c: "rg_entries r ! c \<in> set (rg_entries r)" "re_id (rg_entries r ! c) = h_id h"
      using F FindEntry_iff [OF ok] by auto
    obtain b2 where "List.find (\<lambda>b'. b_subject b' = b_subject b \<and> b_generation b' = g) (re_bindings (rg_entries r ! c)) = Some b2"
      "\<not> b_retiring b2"
      using A by (auto simp: AcquireBorrowLocked_def Let_def split: if_splits option.splits)
    then show False using c d find_Some by (fastforce simp: dead_binding_def)
  qed
qed

text \<open>Leases of a dead generation are only given back.\<close>

definition leases_gen :: "string \<Rightarrow> nat \<Rightarrow> BindingLease list \<Rightarrow> nat" where
  "leases_gen i g ls = length (filter (\<lambda>l. bl_component l = i \<and> bl_generation l = g) ls)"

lemma obj_step_leases:
  "w_leases (obj_step w x) = w_leases w \<or> (\<exists>k < length (w_leases w). w_leases (obj_step w x) = drop_lease k (w_leases w)) \<or>
   (\<exists>h g a l ob r'. x = OpBorrow h g a \<and> BorrowImpl h g a (w_reg w) = (Inr (l, ob), r') \<and>
      w_leases (obj_step w x) = w_leases w @ [l])"
  by (cases x) (auto simp: obj_step_def Let_def split: prod.splits sum.splits)

lemma Borrow_lease:
  assumes ok: "ids_ok r" and B: "BorrowImpl h g a r = (Inr (l, ob), r')"
  shows "bl_component l = h_id h" "bl_generation l = g"
proof -
  obtain c b where F: "FindEntryLocked (h_id h) r = Some c" "re_generation (rg_entries r ! c) = h_generation h"
    "List.find (\<lambda>b. b_generation b = g) (re_bindings (rg_entries r ! c)) = Some b"
    and A: "AcquireBorrowLocked c (b_subject b) g a r = (Inr l, r')" and "ob = re_object (rg_entries r ! c)"
    by (rule BorrowImpl_success [OF B])
  then show "bl_component l = h_id h" "bl_generation l = g"
    using FindEntry_iff [OF ok]
    by (auto simp: AcquireBorrowLocked_def Let_def split: if_splits option.splits)
qed

lemma leases_gen_step:
  assumes ok: "world_ok w" and d: "dead_binding i g (w_reg w)"
  shows "leases_gen i g (w_leases (obj_step w x)) \<le> leases_gen i g (w_leases w)"
proof -
  have ids: "ids_ok (w_reg w)" using ok by (simp add: world_ok_def)
  consider "w_leases (obj_step w x) = w_leases w"
    | k where "k < length (w_leases w)" "w_leases (obj_step w x) = drop_lease k (w_leases w)"
    | h g' a l ob r' where "BorrowImpl h g' a (w_reg w) = (Inr (l, ob), r')" "w_leases (obj_step w x) = w_leases w @ [l]"
    using obj_step_leases [of w x] by blast
  then show ?thesis
  proof cases
    case 2
    then show ?thesis using filter_drop_nth [OF 2(1)] by (simp add: leases_gen_def drop_lease_def)
  next
    case 3
    have "\<not> (h_id h = i \<and> g' = g)"
      using dead_binding_no_borrow [OF ids, of h g' a] d 3(1) by auto
    then show ?thesis using Borrow_lease [OF ids 3(1)] 3(2) by (auto simp: leases_gen_def)
  qed simp
qed

lemma leases_gen_run:
  "world_ok w \<Longrightarrow> dead_binding i g (w_reg w) \<Longrightarrow>
   leases_gen i g (w_leases (run_ops obj_step w ys)) \<le> leases_gen i g (w_leases w)"
proof (induction ys arbitrary: w)
  case (Cons y ys)
  have "leases_gen i g (w_leases (run_ops obj_step (obj_step w y) ys)) \<le> leases_gen i g (w_leases (obj_step w y))"
    by (rule Cons.IH) (use Cons.prems in \<open>auto intro: obj_step_ok dead_binding_evolves obj_step_evolves\<close>)
  then show ?case using leases_gen_step [OF Cons.prems, of y] by simp
qed simp

lemma retired_by_update:
  assumes "distinct (map b_generation bs)"
    and "List.find P bs = Some b"
    and "b' \<in> set (update_first P (\<lambda>b. b\<lparr>b_active := False, b_retiring := True\<rparr>) bs)" and "b_generation b' = b_generation b"
  shows "b_retiring b'"
  using assms
proof (induction bs)
  case (Cons c bs)
  show ?case
  proof (cases "P c")
    case True
    then show ?thesis using Cons.prems by (force simp: image_iff)
  next
    case False
    then have "b_generation c \<noteq> b_generation b" using Cons.prems(1,2) find_Some [of P bs b] by force
    then show ?thesis using False Cons by auto
  qed
qed simp

lemma unbind_dead:
  assumes ok: "world_ok w" and F: "FindEntryLocked i (w_reg w) = Some c"
    and U: "fst (BeginUnbindLocked c s (w_reg w)) = Inr g"
  shows "dead_binding i g (snd (BeginUnbindLocked c s (w_reg w)))"
proof -
  let ?r = "w_reg w" and ?e = "rg_entries (w_reg w) ! c"
  let ?P = "\<lambda>b. b_subject b = s \<and> \<not> b_retiring b"
  let ?F = "\<lambda>b. b\<lparr>b_active := False, b_retiring := True\<rparr>"
  note W = world_found [OF ok F]
  obtain b where b: "List.find ?P (re_bindings ?e) = Some b" and g: "b_generation b = g"
    and r': "snd (BeginUnbindLocked c s ?r) = upd_entry c (\<lambda>e. e\<lparr>re_bindings := update_first ?P ?F (re_bindings e)\<rparr>) ?r"
    using U by (auto simp: BeginUnbindLocked_def Let_def split: option.splits)
  have ids: "ids_ok ?r" using ok by (simp add: world_ok_def)
  have d: "distinct (map b_generation (re_bindings ?e))" using W(3) by (simp add: entry_ok_def)
  have gl: "g < rg_next_generation ?r"
    using W(3) find_Some [OF b] g by (auto simp: entry_ok_def binding_ok_def)
  have "issued_id (rg_next_id_seq ?r) i" using ids W(1,2) by (auto simp: ids_ok_def ids_def)
  moreover have "b_retiring b'"
    if e': "e' \<in> set ((rg_entries ?r)[c := ?e\<lparr>re_bindings := update_first ?P ?F (re_bindings ?e)\<rparr>])"
      "re_id e' = i" and b': "b' \<in> set (re_bindings e')" "b_generation b' = g" for e' b'
  proof -
    have "e' = ?e\<lparr>re_bindings := update_first ?P ?F (re_bindings ?e)\<rparr>"
    proof -
      obtain k where k: "k < length (rg_entries ?r)" "e' = (if k = c then ?e\<lparr>re_bindings := update_first ?P ?F (re_bindings ?e)\<rparr> else rg_entries ?r ! k)"
        using e'(1) by (auto simp: in_set_conv_nth nth_list_update)
      have "k = c" if "re_id (rg_entries ?r ! k) = i"
        using FindEntry_iff [OF ids, of i k] k(1) F that by simp
      then show ?thesis using k(2) e'(2) by (cases "k = c") auto
    qed
    then show ?thesis using b' retired_by_update [OF d b] g by simp
  qed
  ultimately show ?thesis using gl by (simp add: dead_binding_def r' upd_entry_def)
qed

lemma destroy_dead:
  assumes ok: "world_ok w" and F: "FindEntryLocked i (w_reg w) = Some p"
  shows "dead_id i (w_reg (obj_step w (OpFinishDestroy now i)))"
proof (cases "FinishDestroyLocked now p (w_reg w)")
  case (Pair y r')
  let ?r = "w_reg w"
  have ids: "ids_ok ?r" using ok by (simp add: world_ok_def)
  note W = world_found [OF ok F]
  have y: "FinishDestroyLocked now p ?r = ((fst y, snd y), r')" using Pair by simp
  note D = FinishDestroy_entries [OF ids W(1) y]
  have "ids r' = take p (ids ?r) @ drop (Suc p) (ids ?r)" by (simp add: ids_def D(1) take_map drop_map)
  moreover have A: "ids ?r = take p (ids ?r) @ i # drop (Suc p) (ids ?r)"
    using id_take_nth_drop [of p "ids ?r"] W(1,2) by (simp add: ids_def)
  moreover have d: "distinct (ids ?r)" using ids by (simp add: ids_ok_def)
  have "distinct (take p (ids ?r) @ i # drop (Suc p) (ids ?r))" using d by (subst (asm) A)
  then have "i \<notin> set (take p (ids ?r)) \<union> set (drop (Suc p) (ids ?r))" by auto
  ultimately have "i \<notin> set (ids r')" by simp
  moreover have "issued_id (rg_next_id_seq ?r) i" using ids W(1,2) by (auto simp: ids_ok_def ids_def)
  ultimately show ?thesis using F Pair D(5) by (simp add: obj_step_def at_entry_def dead_id_def)
qed

lemma dead_id_not_found:
  assumes "ids_ok r" and "dead_id i r"
  shows "FindEntryLocked i r = None"
proof (cases "FindEntryLocked i r")
  case (Some p)
  then have "rg_entries r ! p \<in> set (rg_entries r)" "re_id (rg_entries r ! p) = i"
    using FindEntry_iff [OF assms(1)] by simp_all
  then show ?thesis using assms(2) unfolding dead_id_def ids_def by auto
qed simp

subsection \<open>Properties\<close>

text \<open>C23: The borrow counters are exact. After any history of the registry (objects created,
  bound, unbound, destroyed, state changes, borrows and returns in any order, observers coming
  and going), the counter of borrows of every component is the number of leases on it that are
  still alive, and the counter of every binding is the number of live leases of that subject and
  generation. So the predicate that uninstalling waits for holds exactly when nobody holds a
  lease of the component or the component is gone.\<close>

theorem borrow_accounting_exact:
  shows "(let w = run_ops obj_step (new_world self l) xs in
     (\<forall>e \<in> set (rg_entries (w_reg w)).
        re_component_borrows e = leases_on (re_id e) (w_leases w) \<and>
        (\<forall>b \<in> set (re_bindings e). b_borrows b = leases_of (re_id e) (b_subject b) (b_generation b) (w_leases w))) \<and>
     (borrows_drained i (w_reg w) \<longleftrightarrow> FindEntryLocked i (w_reg w) = None \<or> leases_on i (w_leases w) = 0))"
proof -
  let ?w = "run_ops obj_step (new_world self l) xs"
  have ok: "world_ok ?w" by (rule objects.inv_run)
  have acc: "re_component_borrows e = leases_on (re_id e) (w_leases ?w)" if "e \<in> set (rg_entries (w_reg ?w))" for e
    using ok that by (simp add: world_ok_def entry_ok_def)
  have "borrows_drained i (w_reg ?w) \<longleftrightarrow> FindEntryLocked i (w_reg ?w) = None \<or> leases_on i (w_leases ?w) = 0"
    using world_found [OF ok, of i] by (auto simp: borrows_drained_def entry_ok_def split: option.splits)
  moreover have "b_borrows b = leases_of (re_id e) (b_subject b) (b_generation b) (w_leases ?w)"
    if "e \<in> set (rg_entries (w_reg ?w))" "b \<in> set (re_bindings e)" for e b
    using ok that by (auto simp: world_ok_def entry_ok_def binding_ok_def)
  ultimately show ?thesis using acc by (simp add: Let_def)
qed

definition demo_limits :: Limits where
  "demo_limits = \<lparr>lim_objects = 8, lim_bindings = 8, lim_observers = 8\<rparr>"

definition demo_handle :: ObjectHandle where
  "demo_handle = \<lparr>h_reg = Some 0, h_id = ''component:0'', h_generation = 1, h_kind = KComponent\<rparr>"

text \<open>A component, a service bound to it, and two borrows of which one is returned.\<close>

definition demo_history :: "obj_op list" where
  "demo_history =
     [OpCreate KComponent ''db'' ''main'' AppScope [] ''Db'' 10, OpCreate KService ''users'' [] AppScope [] ''Users'' 11,
      OpSetState 0 ''component:0'' Running None, OpBind ''component:0'' ''service:1'',
      OpBorrow demo_handle 3 False, OpBorrow demo_handle 3 False, OpRelease 0]"

theorem borrow_accounting_exact_witness:
  "(let w = run_ops obj_step (new_world 0 demo_limits) demo_history in
     leases_on ''component:0'' (w_leases w) = 1 \<and> \<not> borrows_drained ''component:0'' (w_reg w) \<and>
     list_all (\<lambda>e. re_component_borrows e = leases_on (re_id e) (w_leases w)) (rg_entries (w_reg w)))"
proof -
  have "(let w = run_ops obj_step (new_world 0 demo_limits) demo_history in
      leases_on ''component:0'' (w_leases w) = 1 \<and> \<not> borrows_drained ''component:0'' (w_reg w))"
    by code_simp
  then show ?thesis
    using borrow_accounting_exact [of 0 demo_limits demo_history "''component:0''"] by (simp add: Let_def list_all_iff)
qed

text \<open>C24: A binding that was unbound is dead. Once unbinding a subject from a component returned the
  generation of the binding, then whatever happens afterwards (rebinding the same subject, objects
  destroyed and created, state changes) no borrow through that generation succeeds any more, and
  the live leases of that generation only become fewer.\<close>

theorem retired_binding_never_borrowed:
  assumes "FindEntryLocked i (w_reg (run_ops obj_step (new_world self l) xs)) = Some c"
    and "fst (BeginUnbindLocked c s (w_reg (run_ops obj_step (new_world self l) xs))) = Inr g"
    and "h_id h = i"
  shows "\<not> is_ok (fst (BorrowImpl h g a (w_reg (run_ops obj_step (new_world self l) (xs @ OpUnbind i s # ys))))) \<and>
    leases_gen i g (w_leases (run_ops obj_step (new_world self l) (xs @ OpUnbind i s # ys))) \<le>
      leases_gen i g (w_leases (run_ops obj_step (new_world self l) xs))"
proof
  let ?w = "run_ops obj_step (new_world self l) xs"
  let ?w1 = "obj_step ?w (OpUnbind i s)"
  have ok: "world_ok ?w" by (rule objects.inv_run)
  have ok1: "world_ok ?w1" by (rule obj_step_ok [OF ok])
  have w1: "?w1 = ?w\<lparr>w_reg := snd (BeginUnbindLocked c s (w_reg ?w))\<rparr>"
    using assms(1) by (simp add: obj_step_def at_entry_def)
  have d: "dead_binding i g (w_reg ?w1)"
    unfolding w1 using unbind_dead [OF ok assms(1,2)] by simp
  have run: "run_ops obj_step (new_world self l) (xs @ OpUnbind i s # ys) = run_ops obj_step ?w1 ys"
    by (simp add: run_ops_append)
  have "dead_binding i g (w_reg (run_ops obj_step ?w1 ys))"
    by (rule evolves_run [where P = "dead_binding i g"]) (use ok1 d in \<open>auto intro: dead_binding_evolves\<close>)
  moreover have "ids_ok (w_reg (run_ops obj_step ?w1 ys))"
    using objects.inv_run_from [OF ok1, of ys] by (simp add: world_ok_def)
  ultimately show "\<not> is_ok (fst (BorrowImpl h g a (w_reg (run_ops obj_step (new_world self l) (xs @ OpUnbind i s # ys)))))"
    unfolding run using dead_binding_no_borrow assms(3) by blast
  show "leases_gen i g (w_leases (run_ops obj_step (new_world self l) (xs @ OpUnbind i s # ys))) \<le> leases_gen i g (w_leases ?w)"
    unfolding run using leases_gen_run [OF ok1 d, of ys] w1 by simp
qed

theorem retired_binding_never_borrowed_witness:
  "is_ok (fst (BorrowImpl demo_handle 3 False (w_reg (run_ops obj_step (new_world 0 demo_limits) demo_history)))) \<and>
   \<not> is_ok (fst (BorrowImpl demo_handle 3 False (w_reg (run_ops obj_step (new_world 0 demo_limits)
      (demo_history @ [OpUnbind ''component:0'' ''service:1'', OpBind ''component:0'' ''service:1''])))))"
proof
  show "is_ok (fst (BorrowImpl demo_handle 3 False (w_reg (run_ops obj_step (new_world 0 demo_limits) demo_history))))"
    by code_simp
  show "\<not> is_ok (fst (BorrowImpl demo_handle 3 False (w_reg (run_ops obj_step (new_world 0 demo_limits)
      (demo_history @ [OpUnbind ''component:0'' ''service:1'', OpBind ''component:0'' ''service:1''])))))"
    by (rule conjunct1 [OF retired_binding_never_borrowed [where c = 0]]) (simp add: demo_handle_def | code_simp)+
qed

text \<open>A destroyed identity never comes back. After an object is destroyed, then whatever objects
  are created later, its identifier resolves to nothing and every handle with that identifier is
  invalid, has no information (\<open>NotFound\<close>) and cannot be borrowed (\<open>Closed\<close>).\<close>

lemma destroyed_identity_never_returns:
  assumes "FindEntryLocked i (w_reg (run_ops obj_step (new_world self l) xs)) = Some p" and "h_id h = i"
  shows "let r = w_reg (run_ops obj_step (new_world self l) (xs @ OpFinishDestroy now i # ys))
     in FindEntryLocked i r = None \<and> \<not> HandleValid h r \<and> code_of (Info now' h r) = Some NotFound \<and>
        code_of (fst (BorrowImpl h g a r)) = Some Closed"
proof -
  let ?w = "run_ops obj_step (new_world self l) xs"
  let ?w1 = "obj_step ?w (OpFinishDestroy now i)"
  have ok: "world_ok ?w" by (rule objects.inv_run)
  have ok1: "world_ok ?w1" by (rule obj_step_ok [OF ok])
  have d: "dead_id i (w_reg ?w1)" using destroy_dead [OF ok assms(1)] by simp
  let ?r = "w_reg (run_ops obj_step ?w1 ys)"
  have "dead_id i ?r" by (rule evolves_run [where P = "dead_id i"]) (use ok1 d in \<open>auto intro: dead_id_evolves\<close>)
  moreover have "ids_ok ?r" using objects.inv_run_from [OF ok1, of ys] by (simp add: world_ok_def)
  ultimately have "FindEntryLocked i ?r = None" by (simp add: dead_id_not_found)
  then show ?thesis using assms(2)
    by (simp add: run_ops_append Let_def HandleValid_def Info_def BorrowImpl_def)
qed

lemma destroyed_identity_never_returns_witness:
  "HandleValid demo_handle (w_reg (run_ops obj_step (new_world 0 demo_limits) demo_history)) \<and>
   \<not> HandleValid demo_handle (w_reg (run_ops obj_step (new_world 0 demo_limits) (demo_history @
      OpFinishDestroy 5 ''component:0'' # [OpCreate KComponent ''db'' ''main'' AppScope [] ''Db'' 12])))"
proof -
  have "HandleValid demo_handle (w_reg (run_ops obj_step (new_world 0 demo_limits) demo_history))" by code_simp
  moreover have "FindEntryLocked ''component:0'' (w_reg (run_ops obj_step (new_world 0 demo_limits) demo_history)) = Some 0"
    by code_simp
  moreover have "h_id demo_handle = ''component:0''" by (simp add: demo_handle_def)
  ultimately show ?thesis
    using destroyed_identity_never_returns [of "''component:0''" 0 demo_limits demo_history 0 demo_handle 5] unfolding Let_def
    by blast
qed

end
