(* ===== verification/StartOrder.thy ===== *)
theory StartOrder
  imports Borrows
begin

text \<open>
  \<open>ComponentStartOrderLocked\<close> of \<open>src/host/Registry.cc\<close>: the depth-first search over the
  components that fixes the order in which they start (and, reversed, stop). The recursive
  \<open>std::function\<close> has fuel; the number of components is proved to be enough. Marks: 1 on the
  stack, 2 finished.
\<close>

subsection \<open>The search\<close>

record topo_state =
  t_mark :: "string \<rightharpoonup> nat"
  t_order :: "string list"
  t_cycle :: bool

fun dfs :: "(string \<Rightarrow> string list) \<Rightarrow> string list \<Rightarrow> nat \<Rightarrow> string \<Rightarrow> topo_state \<Rightarrow> topo_state option"
  and visit :: "(string \<Rightarrow> string list) \<Rightarrow> string list \<Rightarrow> nat \<Rightarrow> string list \<Rightarrow> topo_state \<Rightarrow> topo_state option" where
  "dfs D V 0 i st = None"
| "dfs D V (Suc n) i st =
     (case visit D V n (D i) (st\<lparr>t_mark := (t_mark st)(i \<mapsto> 1)\<rparr>) of
        None \<Rightarrow> None
      | Some st' \<Rightarrow> Some (st'\<lparr>t_mark := (t_mark st')(i \<mapsto> 2), t_order := t_order st' @ [i]\<rparr>))"
| "visit D V n [] st = Some st"
| "visit D V n (d # ds) st =
     (if t_mark st d = Some 2 then visit D V n ds st
      else if t_mark st d = Some 1 then visit D V n ds (st\<lparr>t_cycle := True\<rparr>)
      else if d \<notin> set V then visit D V n ds st
      else case dfs D V n d st of None \<Rightarrow> None | Some st' \<Rightarrow> visit D V n ds st')"

fun dfs_roots :: "(string \<Rightarrow> string list) \<Rightarrow> string list \<Rightarrow> nat \<Rightarrow> string list \<Rightarrow> topo_state \<Rightarrow> topo_state option" where
  "dfs_roots D V n [] st = Some st"
| "dfs_roots D V n (i # is) st =
     (if t_mark st i = None
      then (case dfs D V n i st of None \<Rightarrow> None | Some st' \<Rightarrow> dfs_roots D V n is st')
      else dfs_roots D V n is st)"

text \<open>The order, and whether a cycle was seen.\<close>

definition ComponentStartOrderLocked :: "Registry \<Rightarrow> (string list \<times> bool) option" where
  "ComponentStartOrderLocked r =
     map_option (\<lambda>st. (t_order st, t_cycle st))
       (dfs_roots (deps_of r) (component_ids r) (length (component_ids r)) (component_ids r)
         \<lparr>t_mark = Map.empty, t_order = [], t_cycle = False\<rparr>)"

subsection \<open>What the search keeps\<close>

definition dep_rel :: "(string \<Rightarrow> string list) \<Rightarrow> string list \<Rightarrow> (string \<times> string) set" where
  "dep_rel D V = {(x, d). x \<in> set V \<and> d \<in> set (D x)}"

text \<open>Every element comes after its dependencies.\<close>

definition topo :: "(string \<Rightarrow> string list) \<Rightarrow> string list \<Rightarrow> bool" where
  "topo D xs \<longleftrightarrow> (\<forall>k < length xs. set (D (xs ! k)) \<subseteq> set (take k xs))"

lemma topo_Nil [simp]: "topo D []"
  by (simp add: topo_def)

lemma topo_snoc [simp]: "topo D (xs @ [x]) \<longleftrightarrow> topo D xs \<and> set (D x) \<subseteq> set xs"
proof
  assume t: "topo D (xs @ [x])"
  have "set (D (xs ! k)) \<subseteq> set (take k xs)" if "k < length xs" for k
    using t that by (force simp: topo_def nth_append dest: spec [of _ k])
  moreover have "set (D x) \<subseteq> set xs" using t by (force simp: topo_def dest: spec [of _ "length xs"])
  ultimately show "topo D xs \<and> set (D x) \<subseteq> set xs" by (simp add: topo_def)
qed (auto simp: topo_def nth_append less_Suc_eq)

definition grey :: "topo_state \<Rightarrow> string set" where
  "grey st = {x. t_mark st x = Some 1}"

definition topo_inv :: "(string \<Rightarrow> string list) \<Rightarrow> string list \<Rightarrow> topo_state \<Rightarrow> bool" where
  "topo_inv D V st \<longleftrightarrow>
     (\<forall>x. t_mark st x = Some 2 \<longleftrightarrow> x \<in> set (t_order st)) \<and> (\<forall>x m. t_mark st x = Some m \<longrightarrow> m = 1 \<or> m = 2) \<and>
     distinct (t_order st) \<and> dom (t_mark st) \<subseteq> set V \<and> (t_cycle st \<or> topo D (t_order st)) \<and>
     (t_cycle st \<longrightarrow> (\<exists>x. (x, x) \<in> (dep_rel D V)\<^sup>+))"

definition extends :: "topo_state \<Rightarrow> topo_state \<Rightarrow> bool" where
  "extends st st' \<longleftrightarrow> grey st' = grey st \<and> dom (t_mark st) \<subseteq> dom (t_mark st') \<and>
     set (t_order st) \<subseteq> set (t_order st') \<and> (t_cycle st \<longrightarrow> t_cycle st')"

lemma extends_refl [simp]: "extends st st"
  by (simp add: extends_def)

lemma extends_trans: "extends a b \<Longrightarrow> extends b c \<Longrightarrow> extends a c"
  unfolding extends_def by (metis subset_trans)

lemma white_extends: "extends st st' \<Longrightarrow> card (set V - dom (t_mark st')) \<le> card (set V - dom (t_mark st))"
  by (rule card_mono) (auto simp: extends_def)

text \<open>Marking a white node, and finishing it.\<close>

lemma topo_inv_mark:
  "topo_inv D V st \<Longrightarrow> t_mark st i = None \<Longrightarrow> i \<in> set V \<Longrightarrow> topo_inv D V (st\<lparr>t_mark := (t_mark st)(i \<mapsto> 1)\<rparr>)"
  unfolding topo_inv_def by simp (metis option.distinct(1))

lemma grey_mark: "grey (st\<lparr>t_mark := (t_mark st)(i \<mapsto> 1)\<rparr>) = insert i (grey st)"
  by (auto simp: grey_def)

lemma grey_mark_Suc: "grey (st\<lparr>t_mark := (t_mark st)(i \<mapsto> Suc 0)\<rparr>) = insert i (grey st)"
  by (simp add: grey_def) auto

lemma in_order: "topo_inv D V st \<Longrightarrow> x \<in> set (t_order st) \<Longrightarrow> t_mark st x = Some 2"
  by (simp add: topo_inv_def)

lemma topo_inv_finish:
  assumes "topo_inv D V st" and "i \<in> grey st" and "t_cycle st \<or> set (D i) \<subseteq> set (t_order st)"
  shows "topo_inv D V (st\<lparr>t_mark := (t_mark st)(i \<mapsto> 2), t_order := t_order st @ [i]\<rparr>)"
proof -
  have "i \<notin> set (t_order st)" using in_order [OF assms(1), of i] assms(2) by (auto simp: grey_def)
  moreover have "i \<in> set V" using assms(1,2) by (auto simp: topo_inv_def grey_def)
  ultimately show ?thesis using assms by (auto simp: topo_inv_def)
qed

lemma topo_inv_cycle:
  "topo_inv D V st \<Longrightarrow> (x, x) \<in> (dep_rel D V)\<^sup>+ \<Longrightarrow> topo_inv D V (st\<lparr>t_cycle := True\<rparr>)"
  by (auto simp: topo_inv_def)

definition dfs_spec :: "(string \<Rightarrow> string list) \<Rightarrow> string list \<Rightarrow> nat \<Rightarrow> string \<Rightarrow> topo_state \<Rightarrow> bool" where
  "dfs_spec D V n i st \<longleftrightarrow>
     ((\<forall>x. set (D x) \<subseteq> set V) \<and> topo_inv D V st \<and> t_mark st i = None \<and> i \<in> set V \<and>
      (\<forall>g \<in> grey st. (g, i) \<in> (dep_rel D V)\<^sup>+) \<and> card (set V - dom (t_mark st)) \<le> n \<longrightarrow>
      (\<exists>st'. dfs D V n i st = Some st' \<and> topo_inv D V st' \<and> extends st st' \<and> i \<in> set (t_order st')))"

definition visit_spec :: "(string \<Rightarrow> string list) \<Rightarrow> string list \<Rightarrow> nat \<Rightarrow> string list \<Rightarrow> topo_state \<Rightarrow> bool" where
  "visit_spec D V n ds st \<longleftrightarrow>
     (\<forall>x. (\<forall>x. set (D x) \<subseteq> set V) \<and> topo_inv D V st \<and> x \<in> grey st \<and> (\<forall>g \<in> grey st. (g, x) \<in> (dep_rel D V)\<^sup>*) \<and>
      set ds \<subseteq> set (D x) \<and> card (set V - dom (t_mark st)) \<le> n \<longrightarrow>
      (\<exists>st'. visit D V n ds st = Some st' \<and> topo_inv D V st' \<and> extends st st' \<and>
        (t_cycle st' \<or> set ds \<subseteq> set (t_order st'))))"

lemma dep_relI: "x \<in> set V \<Longrightarrow> d \<in> set (D x) \<Longrightarrow> (x, d) \<in> dep_rel D V"
  by (simp add: dep_rel_def)

lemma grey_in: "topo_inv D V st \<Longrightarrow> x \<in> grey st \<Longrightarrow> x \<in> set V"
  by (auto simp: topo_inv_def grey_def)

text \<open>The search at a white node: its dependencies are visited with the node on the stack.\<close>

lemma dfs_step:
  assumes IH: "visit_spec D V n (D i) (st\<lparr>t_mark := (t_mark st)(i \<mapsto> 1)\<rparr>)"
  shows "dfs_spec D V (Suc n) i st"
  unfolding dfs_spec_def
proof
  let ?st1 = "st\<lparr>t_mark := (t_mark st)(i \<mapsto> 1)\<rparr>"
  assume A: "(\<forall>x. set (D x) \<subseteq> set V) \<and> topo_inv D V st \<and> t_mark st i = None \<and> i \<in> set V \<and>
      (\<forall>g \<in> grey st. (g, i) \<in> (dep_rel D V)\<^sup>+) \<and> card (set V - dom (t_mark st)) \<le> Suc n"
  have inv1: "topo_inv D V ?st1" using A by (intro topo_inv_mark) auto
  have "set V - dom (t_mark ?st1) = (set V - dom (t_mark st)) - {i}" by auto
  moreover have "i \<in> set V - dom (t_mark st)" using A by auto
  ultimately have "card (set V - dom (t_mark ?st1)) = card (set V - dom (t_mark st)) - 1"
    by (simp only: card_Diff_singleton)
  then have "card (set V - dom (t_mark ?st1)) \<le> n" using A by linarith
  moreover have "\<forall>g \<in> grey ?st1. (g, i) \<in> (dep_rel D V)\<^sup>*"
    unfolding grey_mark using A by (blast intro: trancl_into_rtrancl)
  moreover have "i \<in> grey ?st1" by (simp add: grey_mark_Suc)
  ultimately obtain st' where V: "visit D V n (D i) ?st1 = Some st'" "topo_inv D V st'" "extends ?st1 st'"
    "t_cycle st' \<or> set (D i) \<subseteq> set (t_order st')"
    using IH inv1 A unfolding visit_spec_def by blast
  have ig: "i \<in> grey st'" using V(3) by (simp add: extends_def grey_mark_Suc)
  let ?st2 = "st'\<lparr>t_mark := (t_mark st')(i \<mapsto> 2), t_order := t_order st' @ [i]\<rparr>"
  have "topo_inv D V ?st2" by (rule topo_inv_finish [OF V(2) ig V(4)])
  moreover have "extends st ?st2"
  proof -
    have "grey ?st2 = grey st' - {i}" by (auto simp: grey_def)
    also have "\<dots> = grey st"
    proof -
      have "i \<notin> grey st" using A by (simp add: grey_def)
      then show ?thesis using V(3) by (auto simp: extends_def grey_mark_Suc)
    qed
    finally show ?thesis using V(3) unfolding extends_def by auto
  qed
  ultimately show "\<exists>st'. dfs D V (Suc n) i st = Some st' \<and> topo_inv D V st' \<and> extends st st' \<and> i \<in> set (t_order st')"
    using V(1) by simp
qed

text \<open>One dependency: finished, on the stack (a cycle), or white.\<close>

lemma visit_step:
  assumes finished: "t_mark st d = Some 2 \<Longrightarrow> visit_spec D V n ds st"
    and stack: "t_mark st d = Some 1 \<Longrightarrow> visit_spec D V n ds (st\<lparr>t_cycle := True\<rparr>)"
    and white: "t_mark st d = None \<Longrightarrow> d \<in> set V \<Longrightarrow> dfs_spec D V n d st"
      "\<And>st'. t_mark st d = None \<Longrightarrow> d \<in> set V \<Longrightarrow> dfs D V n d st = Some st' \<Longrightarrow> visit_spec D V n ds st'"
  shows "visit_spec D V n (d # ds) st"
  unfolding visit_spec_def
proof (intro allI impI)
  fix x
  assume A: "(\<forall>x. set (D x) \<subseteq> set V) \<and> topo_inv D V st \<and> x \<in> grey st \<and> (\<forall>g \<in> grey st. (g, x) \<in> (dep_rel D V)\<^sup>*) \<and>
      set (d # ds) \<subseteq> set (D x) \<and> card (set V - dom (t_mark st)) \<le> n"
  have dV: "d \<in> set V" using A by auto
  have e: "(x, d) \<in> dep_rel D V" using A grey_in by (auto intro: dep_relI)
  have "t_mark st d = Some m \<longrightarrow> m = 1 \<or> m = 2" for m using A by (simp add: topo_inv_def)
  then consider (fin) "t_mark st d = Some 2" | (stk) "t_mark st d = Some 1" | (wh) "t_mark st d = None"
    by (cases "t_mark st d") auto
  then show "\<exists>st'. visit D V n (d # ds) st = Some st' \<and> topo_inv D V st' \<and> extends st st' \<and>
        (t_cycle st' \<or> set (d # ds) \<subseteq> set (t_order st'))"
  proof cases
    case fin
    then obtain st' where S: "visit D V n ds st = Some st'" "topo_inv D V st'" "extends st st'"
      "t_cycle st' \<or> set ds \<subseteq> set (t_order st')"
      using finished [OF fin] A unfolding visit_spec_def by auto
    have "d \<in> set (t_order st)" using fin A by (simp add: topo_inv_def)
    then show ?thesis using S fin by (auto simp: extends_def)
  next
    case stk
    let ?st1 = "st\<lparr>t_cycle := True\<rparr>"
    have "d \<in> grey st" using stk by (simp add: grey_def)
    then have "(d, d) \<in> (dep_rel D V)\<^sup>+" using A e by (blast intro: rtrancl_into_trancl1)
    then have inv1: "topo_inv D V ?st1" using A topo_inv_cycle by blast
    have g: "grey ?st1 = grey st" by (simp add: grey_def)
    have x1: "extends st ?st1" by (simp add: extends_def g)
    obtain st' where S: "visit D V n ds ?st1 = Some st'" "topo_inv D V st'" "extends ?st1 st'"
      using stack [OF stk] A inv1 g unfolding visit_spec_def by auto
    then have "t_cycle st'" by (simp add: extends_def)
    then show ?thesis using S stk extends_trans [OF x1 S(3)] by auto
  next
    case wh
    have "\<forall>g \<in> grey st. (g, d) \<in> (dep_rel D V)\<^sup>+" using A e by (blast intro: rtrancl_into_trancl1)
    then obtain st1 where S1: "dfs D V n d st = Some st1" "topo_inv D V st1" "extends st st1" "d \<in> set (t_order st1)"
      using white(1) [OF wh dV] A wh dV unfolding dfs_spec_def by blast
    have "grey st1 = grey st" using S1(3) by (simp add: extends_def)
    moreover have "card (set V - dom (t_mark st1)) \<le> n" using white_extends [OF S1(3), of V] A by linarith
    ultimately obtain st' where S: "visit D V n ds st1 = Some st'" "topo_inv D V st'" "extends st1 st'"
      "t_cycle st' \<or> set ds \<subseteq> set (t_order st')"
      using white(2) [OF wh dV S1(1)] A S1(2) unfolding visit_spec_def by auto
    then show ?thesis using S1 wh dV extends_trans [OF S1(3) S(3)] by (auto simp: extends_def)
  qed
qed

lemma dfs_visit_spec: "dfs_spec D V n i st" "visit_spec D V n ds st"
proof (induction D V n i st and D V n ds st rule: dfs_visit.induct)
  case (1 D V i st)
  have "False" if "i \<in> set V" "t_mark st i = None" "card (set V - dom (t_mark st)) \<le> 0"
    using that by (auto simp: card_eq_0_iff)
  then show ?case by (auto simp: dfs_spec_def)
next
  case (2 D V n i st)
  then show ?case by (rule dfs_step)
next
  case (3 D V n st)
  then show ?case by (simp add: visit_spec_def)
next
  case (4 D V n d ds st)
  then show ?case by (intro visit_step) auto
qed

lemma dfs_roots_ok:
  assumes closed: "\<And>x. set (D x) \<subseteq> set V" and "set is \<subseteq> set V" and "topo_inv D V st" and "grey st = {}"
    and "card (set V - dom (t_mark st)) \<le> n"
  shows "\<exists>st'. dfs_roots D V n is st = Some st' \<and> topo_inv D V st' \<and> grey st' = {} \<and>
    set (t_order st) \<union> set is \<subseteq> set (t_order st')"
  using assms(2-)
proof (induction "is" arbitrary: st)
  case (Cons i "is")
  show ?case
  proof (cases "t_mark st i")
    case None
    have "dfs_spec D V n i st" by (rule dfs_visit_spec)
    then obtain st1 where S1: "dfs D V n i st = Some st1" "topo_inv D V st1" "extends st st1" "i \<in> set (t_order st1)"
      using None closed Cons.prems unfolding dfs_spec_def by auto
    have "card (set V - dom (t_mark st1)) \<le> n" using white_extends [OF S1(3), of V] Cons.prems(4) by linarith
    then obtain st' where "dfs_roots D V n is st1 = Some st' \<and> topo_inv D V st' \<and> grey st' = {} \<and>
        set (t_order st1) \<union> set is \<subseteq> set (t_order st')"
      using Cons.IH [of st1] Cons.prems S1 by (auto simp: extends_def)
    then show ?thesis using None S1 by (auto simp: extends_def)
  next
    case (Some m)
    then have "m = 2" using Cons.prems(2,3) by (auto simp: topo_inv_def grey_def)
    then have "i \<in> set (t_order st)" using Some Cons.prems(2) by (auto simp: topo_inv_def)
    then show ?thesis using Cons.IH [of st] Cons.prems Some by auto
  qed
qed simp

subsection \<open>The order of the registry\<close>

text \<open>\<open>x\<close> depends on \<open>d\<close>: the component \<open>d\<close> has a binding whose subject is \<open>x\<close>.\<close>

lemma dep_rel_depends: "dep_rel (deps_of r) (component_ids r) = graph r"
proof (rule set_eqI)
  show "e \<in> dep_rel (deps_of r) (component_ids r) \<longleftrightarrow> e \<in> graph r" for e
    by (cases e) (simp add: dep_rel_def graph_iff deps_of_iff)
qed

lemma topo_dep:
  assumes "topo D xs" and "k < length xs" and "y \<in> set (D (xs ! k))"
  shows "\<exists>j < k. xs ! j = y"
proof -
  have "y \<in> set (take k xs)" using assms unfolding topo_def by blast
  then show ?thesis using assms(2) by (auto simp: in_set_conv_nth)
qed

lemma topo_trancl:
  assumes "(x, y) \<in> (dep_rel D V)\<^sup>+" and "topo D xs"
  shows "\<forall>k < length xs. xs ! k = x \<longrightarrow> (\<exists>j < k. xs ! j = y)"
  using assms(1)
proof (induction rule: trancl_induct)
  case (base y)
  then show ?case using topo_dep [OF assms(2)] by (simp add: dep_rel_def)
next
  case (step y z)
  show ?case
  proof (intro allI impI)
    fix k
    assume k: "k < length xs" "xs ! k = x"
    then obtain j where j: "j < k" "xs ! j = y" using step.IH by blast
    have "z \<in> set (D (xs ! j))" using step.hyps(2) j(2) by (simp add: dep_rel_def)
    then obtain i where "i < j" "xs ! i = z" using topo_dep [OF assms(2), of j z] j(1) k(1) by auto
    then show "\<exists>i < k. xs ! i = z" using j(1) by (intro exI [of _ i]) simp
  qed
qed

lemma topo_acyclic:
  assumes "topo D xs" and "distinct xs" and "set xs = set V"
  shows "(x, x) \<notin> (dep_rel D V)\<^sup>+"
proof
  assume c: "(x, x) \<in> (dep_rel D V)\<^sup>+"
  then have "x \<in> set xs" using assms(3) by (auto dest!: tranclD simp: dep_rel_def)
  then obtain k where k: "k < length xs" "xs ! k = x" by (auto simp: in_set_conv_nth)
  then obtain j where "j < k" "xs ! j = x" using topo_trancl [OF c assms(1)] by blast
  then show False using assms(2) k by (auto simp: nth_eq_iff_index_eq)
qed

lemma start_order_result:
  obtains st where "ComponentStartOrderLocked r = Some (t_order st, t_cycle st)"
    "topo_inv (deps_of r) (component_ids r) st" "set (t_order st) = set (component_ids r)"
proof -
  let ?st0 = "\<lparr>t_mark = Map.empty, t_order = [], t_cycle = False\<rparr>"
  have "card (set (component_ids r) - dom (t_mark ?st0)) \<le> length (component_ids r)" by (simp add: card_length)
  moreover have "topo_inv (deps_of r) (component_ids r) ?st0" by (simp add: topo_inv_def)
  moreover have "grey ?st0 = {}" by (simp add: grey_def)
  ultimately obtain st where S: "dfs_roots (deps_of r) (component_ids r) (length (component_ids r)) (component_ids r) ?st0 = Some st"
    "topo_inv (deps_of r) (component_ids r) st" "set (component_ids r) \<subseteq> set (t_order st)"
    using dfs_roots_ok [of "deps_of r" "component_ids r" "component_ids r" ?st0 "length (component_ids r)",
      OF deps_closed order_refl] by auto
  have "set (t_order st) \<subseteq> set (component_ids r)"
    using S(2) in_order [OF S(2)] unfolding topo_inv_def by blast
  then show ?thesis using S that by (simp add: ComponentStartOrderLocked_def)
qed

subsection \<open>Properties\<close>

text \<open>The start order. The search always ends (its recursion is bounded by the number of
  components) and returns every component of the registry exactly once; it reports a cycle
  precisely when the graph of the components and their bindings has one, and when there is none,
  every component comes after all the components it depends on.\<close>

lemma start_order_respects_dependencies:
  shows "(case ComponentStartOrderLocked r of
     None \<Rightarrow> False
   | Some (ord, cyc) \<Rightarrow>
       distinct ord \<and> set ord = set (component_ids r) \<and> (cyc \<longleftrightarrow> dependency_cycle r) \<and>
       (\<not> cyc \<longrightarrow> (\<forall>k < length ord. \<forall>d. depends r (ord ! k) d \<longrightarrow> (\<exists>j < k. ord ! j = d))))"
proof -
  obtain st where S: "ComponentStartOrderLocked r = Some (t_order st, t_cycle st)"
    "topo_inv (deps_of r) (component_ids r) st" "set (t_order st) = set (component_ids r)"
    by (rule start_order_result)
  have T: "\<exists>j < k. t_order st ! j = d" if "\<not> t_cycle st" "k < length (t_order st)" "depends r (t_order st ! k) d" for k d
  proof -
    have t: "topo (deps_of r) (t_order st)" using S(2) that(1) by (simp add: topo_inv_def)
    show ?thesis by (rule topo_dep [OF t that(2)]) (simp add: deps_of_iff that(3))
  qed
  have C: "t_cycle st \<longleftrightarrow> dependency_cycle r"
    using S(2) topo_acyclic [of "deps_of r" "t_order st" "component_ids r"] S(3)
    by (auto simp: topo_inv_def dependency_cycle_def dep_rel_depends)
  have "distinct (t_order st)" using S(2) by (simp add: topo_inv_def)
  then show ?thesis unfolding S(1) option.case prod.case using C T S(3) by blast
qed

text \<open>Three components: \<open>component:2\<close> uses \<open>component:0\<close>, which uses \<open>component:1\<close>.\<close>

definition demo_components :: "obj_op list" where
  "demo_components =
     [OpCreate KComponent ''a'' [] AppScope [] ''A'' 1, OpCreate KComponent ''b'' [] AppScope [] ''B'' 2,
      OpCreate KComponent ''c'' [] AppScope [] ''C'' 3,
      OpBind ''component:0'' ''component:2'', OpBind ''component:1'' ''component:0'']"

definition demo_graph :: "obj_op list \<Rightarrow> Registry" where
  "demo_graph xs = w_reg (run_ops obj_step (new_world 0 \<lparr>lim_objects = 8, lim_bindings = 8, lim_observers = 8\<rparr>) xs)"

lemma start_order_respects_dependencies_witness:
  "ComponentStartOrderLocked (demo_graph demo_components) = Some ([''component:1'', ''component:0'', ''component:2''], False) \<and>
   (\<exists>j < 2. [''component:1'', ''component:0'', ''component:2''] ! j = ''component:0'')"
proof
  show O: "ComponentStartOrderLocked (demo_graph demo_components) = Some ([''component:1'', ''component:0'', ''component:2''], False)"
    by code_simp
  have d: "depends (demo_graph demo_components) ''component:2'' ''component:0''"
    unfolding deps_of_iff [symmetric] by code_simp
  let ?ord = "[''component:1'', ''component:0'', ''component:2'']"
  have "\<forall>k < length ?ord. \<forall>d. depends (demo_graph demo_components) (?ord ! k) d \<longrightarrow> (\<exists>j < k. ?ord ! j = d)"
    using start_order_respects_dependencies [of "demo_graph demo_components"] O by (simp only: option.case prod.case) blast
  from this [rule_format, of 2 "''component:0''"] d
  show "\<exists>j < 2. ?ord ! j = ''component:0''" by (simp only: list.size nth_Cons_0 nth_Cons_Suc numeral_2_eq_2)
qed

end
