(* ===== verification/Observers.thy ===== *)
theory Observers
  imports ObjectProps
begin

text \<open>
  The observer protocol of \<open>src/host/Registry.cc\<close> under every interleaving of its critical sections:
  threads that dispatch events (\<open>DispatchEvents\<close> takes a lease, runs the callback outside the lock
  and gives the lease back), that revoke a token (\<open>RevokeObserver\<close> marks, waits, erases) and that
  drain (\<open>DrainInactiveObservers\<close> scans, waits, erases). A thread is the position it waits at; a
  token is known to a caller only after \<open>Observe\<close> returned it.
\<close>

subsection \<open>Threads\<close>

text \<open>
  \<open>ow_running\<close>: the tokens of the callbacks being run; \<open>ow_revoking\<close>: the calls of \<open>RevokeObserver\<close>
  under way, with whether their wait is over; \<open>ow_returned\<close>: the tokens whose revocation returned;
  \<open>ow_draining\<close>: the calls of \<open>DrainInactiveObservers\<close> after their scan, with whether their wait is over.
\<close>

record observer_world =
  ow_reg :: Registry
  ow_running :: "nat list"
  ow_revoking :: "(nat \<times> bool) list"
  ow_returned :: "nat list"
  ow_draining :: "bool list"

datatype thread_op =
    TObserve ObjectHandle ObjectHandle "nat option"
  | TTake nat
  | TReturn nat
  | TRevokeMark nat
  | TRevokeWait nat
  | TRevokeErase nat
  | TRevokeOf string
  | TDrainScan
  | TDrainWait nat
  | TDrainErase nat

definition drop_nth :: "nat \<Rightarrow> 'a list \<Rightarrow> 'a list" where
  "drop_nth k xs = take k xs @ drop (Suc k) xs"

definition observer_step :: "observer_world \<Rightarrow> thread_op \<Rightarrow> observer_world" where
  "observer_step w x =
     (let r = ow_reg w
      in case x of
          TObserve obs tgt cb \<Rightarrow> w\<lparr>ow_reg := snd (Observe obs tgt cb r)\<rparr>
        | TTake t \<Rightarrow>
            (case take_lease t r of
               (None, r') \<Rightarrow> w\<lparr>ow_reg := r'\<rparr>
             | (Some _, r') \<Rightarrow> w\<lparr>ow_reg := r', ow_running := t # ow_running w\<rparr>)
        | TReturn k \<Rightarrow>
            if k < length (ow_running w)
            then w\<lparr>ow_reg := return_lease (ow_running w ! k) r, ow_running := drop_nth k (ow_running w)\<rparr>
            else w
        | TRevokeMark t \<Rightarrow>
            if t < rg_next_observer_id r
            then (case revoke_mark t r of
                (False, r') \<Rightarrow> w\<lparr>ow_reg := r', ow_returned := t # ow_returned w\<rparr>
              | (True, r') \<Rightarrow> w\<lparr>ow_reg := r', ow_revoking := (t, False) # ow_revoking w\<rparr>)
            else w
        | TRevokeWait k \<Rightarrow>
            if k < length (ow_revoking w) \<and> revoke_ready (fst (ow_revoking w ! k)) r
            then w\<lparr>ow_revoking := (ow_revoking w)[k := (fst (ow_revoking w ! k), True)]\<rparr>
            else w
        | TRevokeErase k \<Rightarrow>
            if k < length (ow_revoking w) \<and> snd (ow_revoking w ! k)
            then w\<lparr>ow_reg := revoke_erase (fst (ow_revoking w ! k)) r,
                   ow_revoking := drop_nth k (ow_revoking w),
                   ow_returned := fst (ow_revoking w ! k) # ow_returned w\<rparr>
            else w
        | TRevokeOf ob \<Rightarrow> w\<lparr>ow_reg := RevokeObserversOfLocked ob r\<rparr>
        | TDrainScan \<Rightarrow> w\<lparr>ow_reg := drain_scan r, ow_draining := False # ow_draining w\<rparr>
        | TDrainWait k \<Rightarrow>
            if k < length (ow_draining w) \<and> drain_ready r
            then w\<lparr>ow_draining := (ow_draining w)[k := True]\<rparr> else w
        | TDrainErase k \<Rightarrow>
            if k < length (ow_draining w) \<and> ow_draining w ! k
            then w\<lparr>ow_reg := drain_erase r, ow_draining := drop_nth k (ow_draining w)\<rparr> else w)"

definition is_drain_erase :: "thread_op \<Rightarrow> bool" where
  "is_drain_erase x = (case x of TDrainErase _ \<Rightarrow> True | _ \<Rightarrow> False)"

definition observer_start :: "Registry \<Rightarrow> observer_world" where
  "observer_start r = \<lparr>ow_reg = r, ow_running = [], ow_revoking = [], ow_returned = [], ow_draining = []\<rparr>"

subsection \<open>The invariant\<close>

definition runs :: "nat \<Rightarrow> observer_world \<Rightarrow> nat" where
  "runs t w = length (filter (\<lambda>x. x = t) (ow_running w))"

text \<open>A record counts its running callbacks; every running callback has its record.\<close>

definition counted :: "observer_world \<Rightarrow> bool" where
  "counted w \<longleftrightarrow> keys_distinct (rg_observers (ow_reg w)) \<and>
     (\<forall>t. case map_of (rg_observers (ow_reg w)) t of
        None \<Rightarrow> runs t w = 0
      | Some rec \<Rightarrow> or_in_flight rec = runs t w \<and> t < rg_next_observer_id (ow_reg w))"

definition gone_or :: "(ObserverRecord \<Rightarrow> bool) \<Rightarrow> nat \<Rightarrow> Registry \<Rightarrow> bool" where
  "gone_or P t r \<longleftrightarrow> t < rg_next_observer_id r \<and> (case map_of (rg_observers r) t of None \<Rightarrow> True | Some rec \<Rightarrow> P rec)"

definition revoking_ok :: "observer_world \<Rightarrow> bool" where
  "revoking_ok w \<longleftrightarrow>
     (\<forall>(t, waited) \<in> set (ow_revoking w).
        gone_or (\<lambda>rec. \<not> or_active rec \<and> (waited \<longrightarrow> or_in_flight rec = 0)) t (ow_reg w)) \<and>
     (\<forall>t \<in> set (ow_returned w). gone_or (\<lambda>_. False) t (ow_reg w))"

lemma map_of_upd_observer:
  "map_of (rg_observers (upd_observer t f r)) k = (if k = t then map_option f (map_of (rg_observers r) k) else map_of (rg_observers r) k)"
proof -
  have "map_of (map (\<lambda>(k, rec). (k, if k = t then f rec else rec)) m) k =
      (if k = t then map_option f (map_of m k) else map_of m k)" for m :: "(nat \<times> ObserverRecord) list"
    by (induction m) auto
  then show ?thesis by (simp add: upd_observer_def)
qed

lemma map_of_filter_keep:
  "distinct (map fst m) \<Longrightarrow> map_of (filter (\<lambda>(k, v). P k v) m) k =
     (case map_of m k of None \<Rightarrow> None | Some v \<Rightarrow> if P k v then Some v else None)"
  by (induction m) (auto simp: map_of_eq_None_iff split: option.splits dest: map_of_SomeD)

lemma keys_map_snd: "map fst (map (\<lambda>(k, v). (k, f k v)) m) = map fst m"
  by (induction m) auto

lemma keys_distinct_map_snd [simp]: "keys_distinct (map (\<lambda>(k, v). (k, f k v)) m) = keys_distinct m"
  by (simp only: keys_distinct_def keys_map_snd)

lemma keys_distinct_filter: "keys_distinct m \<Longrightarrow> keys_distinct (filter P m)"
  by (simp add: keys_distinct_def distinct_map_filter)

lemma next_observer_upd [simp]: "rg_next_observer_id (upd_observer t f r) = rg_next_observer_id r"
  by (simp add: upd_observer_def)

lemma keys_distinct_upd_observer [simp]: "keys_distinct (rg_observers (upd_observer t f r)) = keys_distinct (rg_observers r)"
  by (simp add: upd_observer_def)

text \<open>An update of the records by a function that may close them but keeps the leases.\<close>

lemma gone_or_mono:
  "gone_or P t r \<Longrightarrow> rg_next_observer_id r \<le> rg_next_observer_id r' \<Longrightarrow>
   (\<And>rec'. map_of (rg_observers r') t = Some rec' \<Longrightarrow>
      \<exists>rec. map_of (rg_observers r) t = Some rec \<and> (P rec \<longrightarrow> Q rec')) \<Longrightarrow> gone_or Q t r'"
  unfolding gone_or_def by (cases "map_of (rg_observers r') t") fastforce+

lemma revoking_ok_step:
  assumes "revoking_ok w" and "set (ow_revoking w') \<subseteq> set (ow_revoking w)" and "ow_returned w' = ow_returned w"
    and "rg_next_observer_id (ow_reg w) \<le> rg_next_observer_id (ow_reg w')"
    and keep: "\<And>t rec'. t < rg_next_observer_id (ow_reg w) \<Longrightarrow> map_of (rg_observers (ow_reg w')) t = Some rec' \<Longrightarrow>
      \<exists>rec. map_of (rg_observers (ow_reg w)) t = Some rec \<and>
        (\<not> or_active rec \<longrightarrow> \<not> or_active rec' \<and> or_in_flight rec' \<le> or_in_flight rec)"
  shows "revoking_ok w'"
  unfolding revoking_ok_def
proof (intro conjI ballI, clarify)
  fix t waited
  assume "(t, waited) \<in> set (ow_revoking w')"
  then have g: "gone_or (\<lambda>rec. \<not> or_active rec \<and> (waited \<longrightarrow> or_in_flight rec = 0)) t (ow_reg w)"
    using assms(1,2) by (auto simp: revoking_ok_def)
  then have "t < rg_next_observer_id (ow_reg w)" by (simp add: gone_or_def)
  then show "gone_or (\<lambda>rec. \<not> or_active rec \<and> (waited \<longrightarrow> or_in_flight rec = 0)) t (ow_reg w')"
    using keep [of t] by (intro gone_or_mono [OF g assms(4)]) fastforce
next
  fix t
  assume "t \<in> set (ow_returned w')"
  then have g: "gone_or (\<lambda>_. False) t (ow_reg w)" using assms(1,3) by (simp add: revoking_ok_def)
  then have "t < rg_next_observer_id (ow_reg w)" by (simp add: gone_or_def)
  then show "gone_or (\<lambda>_. False) t (ow_reg w')"
    using keep [of t] by (intro gone_or_mono [OF g assms(4)]) fastforce
qed

lemma Observe_effect:
  assumes "Observe obs tgt cb r = (x, r')" "r' \<noteq> r"
  obtains rec where "rg_observers r' = emplace (rg_next_observer_id r) rec (rg_observers r)"
    "rg_next_observer_id r' = Suc (rg_next_observer_id r)" "or_in_flight rec = 0" "or_active rec"
proof -
  have "\<exists>rec. rg_observers r' = emplace (rg_next_observer_id r) rec (rg_observers r) \<and>
    rg_next_observer_id r' = Suc (rg_next_observer_id r) \<and> or_in_flight rec = 0 \<and> or_active rec"
    using assms by (simp add: Observe_def Let_def split: option.splits if_splits) (auto intro!: exI)
  then show ?thesis using that by blast
qed

lemma counted_case: "counted w \<Longrightarrow>
    (case map_of (rg_observers (ow_reg w)) t of None \<Rightarrow> runs t w = 0
     | Some rec \<Rightarrow> or_in_flight rec = runs t w \<and> t < rg_next_observer_id (ow_reg w))"
  by (simp add: counted_def)

lemma counted_rec: "counted w \<Longrightarrow> map_of (rg_observers (ow_reg w)) t = Some rec \<Longrightarrow>
    or_in_flight rec = runs t w \<and> t < rg_next_observer_id (ow_reg w)"
  using counted_case [of w t] by simp

lemma counted_none: "counted w \<Longrightarrow> map_of (rg_observers (ow_reg w)) t = None \<Longrightarrow> runs t w = 0"
  using counted_case [of w t] by simp

lemma counted_fresh: "counted w \<Longrightarrow> map_of (rg_observers (ow_reg w)) (rg_next_observer_id (ow_reg w)) = None"
  using counted_rec by (cases "map_of (rg_observers (ow_reg w)) (rg_next_observer_id (ow_reg w))") fastforce+

lemma counted_keys: "counted w \<Longrightarrow> keys_distinct (rg_observers (ow_reg w))"
  by (simp add: counted_def)

lemma countedI:
  assumes "keys_distinct (rg_observers (ow_reg w))"
    and "\<And>t. map_of (rg_observers (ow_reg w)) t = None \<Longrightarrow> runs t w = 0"
    and "\<And>t rec. map_of (rg_observers (ow_reg w)) t = Some rec \<Longrightarrow> or_in_flight rec = runs t w \<and> t < rg_next_observer_id (ow_reg w)"
  shows "counted w"
  unfolding counted_def using assms by (simp split: option.splits)

definition observer_ok :: "observer_world \<Rightarrow> bool" where
  "observer_ok w \<longleftrightarrow> counted w \<and> revoking_ok w"

lemma TObserve_ok:
  assumes ok: "observer_ok w"
  shows "observer_ok (w\<lparr>ow_reg := snd (Observe obs tgt cb (ow_reg w))\<rparr>)"
proof (cases "snd (Observe obs tgt cb (ow_reg w)) = ow_reg w")
  case False
  let ?r = "ow_reg w" and ?r' = "snd (Observe obs tgt cb (ow_reg w))"
  obtain rec where E: "rg_observers ?r' = emplace (rg_next_observer_id ?r) rec (rg_observers ?r)"
    "rg_next_observer_id ?r' = Suc (rg_next_observer_id ?r)" "or_in_flight rec = 0" "or_active rec"
    by (rule Observe_effect [OF prod.collapse [symmetric] False])
  have fresh: "map_of (rg_observers ?r) (rg_next_observer_id ?r) = None"
    using ok by (simp add: observer_ok_def counted_fresh)
  have c: "counted w" using ok by (simp add: observer_ok_def)
  have "counted (w\<lparr>ow_reg := ?r'\<rparr>)"
  proof (rule countedI)
    show "keys_distinct (rg_observers (ow_reg (w\<lparr>ow_reg := ?r'\<rparr>)))" using counted_keys [OF c] E(1) by simp
    show "runs t (w\<lparr>ow_reg := ?r'\<rparr>) = 0" if "map_of (rg_observers (ow_reg (w\<lparr>ow_reg := ?r'\<rparr>))) t = None" for t
      using that counted_none [OF c, of t] by (auto simp: E map_of_emplace runs_def split: if_splits)
    show "or_in_flight k = runs t (w\<lparr>ow_reg := ?r'\<rparr>) \<and> t < rg_next_observer_id (ow_reg (w\<lparr>ow_reg := ?r'\<rparr>))"
      if "map_of (rg_observers (ow_reg (w\<lparr>ow_reg := ?r'\<rparr>))) t = Some k" for t k
      using that counted_rec [OF c, of t k] counted_none [OF c fresh] fresh E
      by (auto simp: map_of_emplace runs_def split: if_splits)
  qed
  moreover have "revoking_ok (w\<lparr>ow_reg := ?r'\<rparr>)"
    by (rule revoking_ok_step [of w]) (use ok E in \<open>auto simp: observer_ok_def map_of_emplace\<close>)
  ultimately show ?thesis by (simp add: observer_ok_def)
qed (use ok in simp)

lemma runs_Cons: "ow_running w' = t # ow_running w \<Longrightarrow> runs k w' = runs k w + (if k = t then 1 else 0)"
  by (simp add: runs_def)

lemma runs_drop:
  assumes "k < length (ow_running w)" and "ow_running w' = drop_nth k (ow_running w)"
  shows "runs t w = runs t w' + (if ow_running w ! k = t then 1 else 0)"
  using filter_drop_nth [OF assms(1), of "\<lambda>x. x = t"] assms(2) by (simp add: runs_def drop_nth_def)

lemma runs_same: "ow_running w' = ow_running w \<Longrightarrow> runs t w' = runs t w"
  by (simp add: runs_def)

lemma TTake_ok:
  assumes ok: "observer_ok w"
  shows "observer_ok (observer_step w (TTake t))"
proof (cases "map_of (rg_observers (ow_reg w)) t")
  case None
  then show ?thesis using ok by (simp add: observer_step_def take_lease_def)
next
  case (Some rec)
  show ?thesis
  proof (cases "or_active rec")
    case False
    then show ?thesis using ok Some by (simp add: observer_step_def take_lease_def)
  next
    case True
    let ?w = "w\<lparr>ow_reg := upd_observer t (\<lambda>rec. rec\<lparr>or_in_flight := or_in_flight rec + 1\<rparr>) (ow_reg w),
        ow_running := t # ow_running w\<rparr>"
    have w: "observer_step w (TTake t) = ?w" using Some True by (simp add: observer_step_def take_lease_def)
    have c: "counted w" using ok by (simp add: observer_ok_def)
    have "counted ?w"
    proof (rule countedI)
      show "keys_distinct (rg_observers (ow_reg ?w))" using counted_keys [OF c] by simp
      show "runs k ?w = 0" if "map_of (rg_observers (ow_reg ?w)) k = None" for k
        using that counted_none [OF c, of k] Some runs_Cons [of ?w t w k] by (auto simp: map_of_upd_observer split: if_splits)
      show "or_in_flight x = runs k ?w \<and> k < rg_next_observer_id (ow_reg ?w)"
        if "map_of (rg_observers (ow_reg ?w)) k = Some x" for k x
        using that counted_rec [OF c, of k] runs_Cons [of ?w t w k] by (auto simp: map_of_upd_observer split: if_splits)
    qed
    moreover have "revoking_ok ?w"
      by (rule revoking_ok_step [of w]) (use ok Some True in \<open>auto simp: observer_ok_def map_of_upd_observer split: if_splits\<close>)
    ultimately show ?thesis by (simp add: w observer_ok_def)
  qed
qed

lemma TReturn_ok:
  assumes ok: "observer_ok w"
  shows "observer_ok (observer_step w (TReturn k))"
proof (cases "k < length (ow_running w)")
  case False
  then show ?thesis using ok by (simp add: observer_step_def)
next
  case True
  let ?t = "ow_running w ! k"
  let ?w = "w\<lparr>ow_reg := upd_observer ?t (\<lambda>rec. rec\<lparr>or_in_flight := or_in_flight rec - 1\<rparr>) (ow_reg w),
      ow_running := drop_nth k (ow_running w)\<rparr>"
  have w: "observer_step w (TReturn k) = ?w" using True by (simp add: observer_step_def return_lease_def Let_def)
  have c: "counted w" using ok by (simp add: observer_ok_def)
  have rd: "runs j w = runs j ?w + (if ?t = j then 1 else 0)" for j by (rule runs_drop [OF True]) simp
  have "counted ?w"
  proof (rule countedI)
    show "keys_distinct (rg_observers (ow_reg ?w))" using counted_keys [OF c] by simp
    show "runs j ?w = 0" if "map_of (rg_observers (ow_reg ?w)) j = None" for j
      using that counted_none [OF c, of j] rd [of j] by (auto simp: map_of_upd_observer split: if_splits)
    show "or_in_flight x = runs j ?w \<and> j < rg_next_observer_id (ow_reg ?w)"
      if "map_of (rg_observers (ow_reg ?w)) j = Some x" for j x
      using that counted_rec [OF c, of j] rd [of j] by (auto simp: map_of_upd_observer split: if_splits)
  qed
  moreover have "revoking_ok ?w"
    by (rule revoking_ok_step [of w]) (use ok in \<open>auto simp: observer_ok_def map_of_upd_observer split: if_splits\<close>)
  ultimately show ?thesis by (simp add: w observer_ok_def)
qed

text \<open>Steps that close records, or drop some of those without leases, and touch nothing else.\<close>

lemma observer_ok_restrict:
  assumes ok: "observer_ok w"
    and same: "ow_running w' = ow_running w" "ow_returned w' = ow_returned w" "set (ow_revoking w') \<subseteq> set (ow_revoking w)"
      "rg_next_observer_id (ow_reg w') = rg_next_observer_id (ow_reg w)"
    and keys: "keys_distinct (rg_observers (ow_reg w'))"
    and sub: "\<And>t rec'. map_of (rg_observers (ow_reg w')) t = Some rec' \<Longrightarrow>
      \<exists>rec. map_of (rg_observers (ow_reg w)) t = Some rec \<and> or_in_flight rec' = or_in_flight rec \<and>
        (or_active rec' \<longrightarrow> or_active rec)"
    and gone: "\<And>t rec. map_of (rg_observers (ow_reg w')) t = None \<Longrightarrow> map_of (rg_observers (ow_reg w)) t = Some rec \<Longrightarrow>
      or_in_flight rec = 0"
  shows "observer_ok w'"
proof -
  have c: "counted w" using ok by (simp add: observer_ok_def)
  have "counted w'"
  proof (rule countedI [OF keys])
    show "runs t w' = 0" if n: "map_of (rg_observers (ow_reg w')) t = None" for t
    proof (cases "map_of (rg_observers (ow_reg w)) t")
      case None
      then show ?thesis using counted_none [OF c] runs_same [OF same(1)] by simp
    next
      case (Some rec)
      then show ?thesis using gone [OF n Some] counted_rec [OF c Some] runs_same [OF same(1)] by simp
    qed
    show "or_in_flight rec' = runs t w' \<and> t < rg_next_observer_id (ow_reg w')"
      if "map_of (rg_observers (ow_reg w')) t = Some rec'" for t rec'
      using sub [OF that] counted_rec [OF c, of t] runs_same [OF same(1), of t] same(4) by auto
  qed
  moreover have "revoking_ok w'"
  proof (rule revoking_ok_step [of w])
    show "\<exists>rec. map_of (rg_observers (ow_reg w)) t = Some rec \<and>
        (\<not> or_active rec \<longrightarrow> \<not> or_active rec' \<and> or_in_flight rec' \<le> or_in_flight rec)"
      if "map_of (rg_observers (ow_reg w')) t = Some rec'" for t rec'
      using sub [OF that] by auto
  qed (use ok same in \<open>simp_all add: observer_ok_def\<close>)
  ultimately show ?thesis by (simp add: observer_ok_def)
qed

lemma runs_frame [simp]:
  "runs t (w\<lparr>ow_reg := r\<rparr>) = runs t w" "runs t (w\<lparr>ow_returned := a\<rparr>) = runs t w"
  "runs t (w\<lparr>ow_revoking := b\<rparr>) = runs t w" "runs t (w\<lparr>ow_draining := c\<rparr>) = runs t w"
  by (simp_all add: runs_def)

lemma counted_frame [simp]:
  "counted (w\<lparr>ow_returned := a\<rparr>) = counted w" "counted (w\<lparr>ow_revoking := b\<rparr>) = counted w"
  "counted (w\<lparr>ow_draining := c\<rparr>) = counted w"
  by (simp_all add: counted_def cong: option.case_cong)

lemma revoking_gone:
  assumes "observer_ok w" and "k < length (ow_revoking w)"
  shows "gone_or (\<lambda>rec. \<not> or_active rec \<and> (snd (ow_revoking w ! k) \<longrightarrow> or_in_flight rec = 0)) (fst (ow_revoking w ! k)) (ow_reg w)"
proof -
  have "\<forall>(t, waited) \<in> set (ow_revoking w). gone_or (\<lambda>rec. \<not> or_active rec \<and> (waited \<longrightarrow> or_in_flight rec = 0)) t (ow_reg w)"
    using assms(1) by (simp add: observer_ok_def revoking_ok_def)
  from bspec [OF this nth_mem [OF assms(2)]] show ?thesis by (simp add: case_prod_beta)
qed

lemma map_of_RevokeOf:
  "map_of (rg_observers (RevokeObserversOfLocked ob r)) t =
     map_option (\<lambda>rec. if or_observer_id rec = ob then rec\<lparr>or_active := False\<rparr> else rec) (map_of (rg_observers r) t)"
proof -
  have "map_of (map (\<lambda>(k, rec). (k, f rec)) m) t = map_option f (map_of m t)" for f and m :: "(nat \<times> ObserverRecord) list"
    by (induction m) auto
  then show ?thesis by (simp add: RevokeObserversOfLocked_def)
qed

lemma TRevokeOf_ok:
  assumes ok: "observer_ok w"
  shows "observer_ok (observer_step w (TRevokeOf ob))"
proof (rule observer_ok_restrict [OF ok])
  show "keys_distinct (rg_observers (ow_reg (observer_step w (TRevokeOf ob))))"
    using ok by (simp add: observer_step_def Let_def RevokeObserversOfLocked_def observer_ok_def counted_keys)
qed (auto simp: observer_step_def Let_def map_of_RevokeOf, auto simp: RevokeObserversOfLocked_def split: if_splits)

lemma TDrainScan_ok:
  assumes ok: "observer_ok w"
  shows "observer_ok (observer_step w TDrainScan)"
proof -
  have d: "distinct (map fst (rg_observers (ow_reg w)))" using ok by (simp add: observer_ok_def counted_def keys_distinct_def)
  note M = map_of_filter_keep [OF d, of "\<lambda>_ rec. or_active rec \<or> or_in_flight rec \<noteq> 0", simplified]
  show ?thesis
  proof (rule observer_ok_restrict [OF ok])
    show "keys_distinct (rg_observers (ow_reg (observer_step w TDrainScan)))"
      using d by (simp add: observer_step_def Let_def drain_scan_def keys_distinct_def distinct_map_filter)
  qed (auto simp: observer_step_def Let_def drain_scan_def M split: option.splits if_splits)
qed

text \<open>The three sections of \<open>RevokeObserver\<close>.\<close>

lemma TRevokeMark_ok:
  assumes ok: "observer_ok w"
  shows "observer_ok (observer_step w (TRevokeMark t))"
proof (cases "t < rg_next_observer_id (ow_reg w)")
  case False
  then show ?thesis using ok by (simp add: observer_step_def Let_def)
next
  case t: True
  show ?thesis
  proof (cases "map_of (rg_observers (ow_reg w)) t")
    case None
    then show ?thesis using ok t
      by (simp add: observer_step_def Let_def revoke_mark_def observer_ok_def revoking_ok_def gone_or_def)
  next
    case (Some rec)
    let ?w0 = "w\<lparr>ow_reg := upd_observer t (\<lambda>rec. rec\<lparr>or_active := False\<rparr>) (ow_reg w)\<rparr>"
    have w: "observer_step w (TRevokeMark t) = ?w0\<lparr>ow_revoking := (t, False) # ow_revoking w\<rparr>"
      using Some t by (simp add: observer_step_def Let_def revoke_mark_def)
    have "observer_ok ?w0"
      by (rule observer_ok_restrict [OF ok])
         (use ok in \<open>auto simp: map_of_upd_observer observer_ok_def counted_keys split: if_splits\<close>)
    moreover have "gone_or (\<lambda>rec. \<not> or_active rec \<and> (False \<longrightarrow> or_in_flight rec = 0)) t (ow_reg ?w0)"
      using t Some by (simp add: gone_or_def map_of_upd_observer)
    ultimately show ?thesis unfolding w
      by (simp add: observer_ok_def revoking_ok_def)
  qed
qed

lemma TRevokeWait_ok:
  assumes ok: "observer_ok w"
  shows "observer_ok (observer_step w (TRevokeWait k))"
proof (cases "k < length (ow_revoking w) \<and> revoke_ready (fst (ow_revoking w ! k)) (ow_reg w)")
  case False
  then show ?thesis using ok unfolding observer_step_def Let_def thread_op.simps if_not_P [OF False] by simp
next
  case True
  let ?t = "fst (ow_revoking w ! k)"
  let ?w = "w\<lparr>ow_revoking := (ow_revoking w)[k := (?t, True)]\<rparr>"
  have w: "observer_step w (TRevokeWait k) = ?w" using True by (simp add: observer_step_def Let_def)
  have "gone_or (\<lambda>rec. \<not> or_active rec \<and> (True \<longrightarrow> or_in_flight rec = 0)) ?t (ow_reg w)"
    using True revoking_gone [OF ok, of k] by (auto simp: gone_or_def revoke_ready_def split: option.splits)
  then show ?thesis using ok set_update_subset_insert [of "ow_revoking w" k "(?t, True)"]
    unfolding w by (auto simp: observer_ok_def revoking_ok_def)
qed

lemma TRevokeErase_ok:
  assumes ok: "observer_ok w"
  shows "observer_ok (observer_step w (TRevokeErase k))"
proof (cases "k < length (ow_revoking w) \<and> snd (ow_revoking w ! k)")
  case False
  then show ?thesis using ok unfolding observer_step_def Let_def thread_op.simps if_not_P [OF False] by simp
next
  case True
  let ?t = "fst (ow_revoking w ! k)"
  let ?w0 = "w\<lparr>ow_reg := revoke_erase ?t (ow_reg w), ow_revoking := drop_nth k (ow_revoking w)\<rparr>"
  have w: "observer_step w (TRevokeErase k) = ?w0\<lparr>ow_returned := ?t # ow_returned w\<rparr>"
    using True by (simp add: observer_step_def Let_def)
  have d: "distinct (map fst (rg_observers (ow_reg w)))" using ok by (simp add: observer_ok_def counted_def keys_distinct_def)
  note M = map_of_filter_keep [OF d, of "\<lambda>j _. j \<noteq> ?t"]
  have g: "gone_or (\<lambda>rec. or_in_flight rec = 0) ?t (ow_reg w)"
    using revoking_gone [OF ok, of k] True by (auto simp: gone_or_def split: option.splits)
  have "observer_ok ?w0"
  proof (rule observer_ok_restrict [OF ok])
    show "keys_distinct (rg_observers (ow_reg ?w0))" using d by (simp add: revoke_erase_def keys_distinct_def distinct_map_filter)
    show "set (ow_revoking ?w0) \<subseteq> set (ow_revoking w)" by (auto simp: drop_nth_def dest: in_set_takeD in_set_dropD)
  qed (use g in \<open>auto simp: revoke_erase_def M gone_or_def split: option.splits if_splits\<close>)
  moreover have "gone_or (\<lambda>_. False) ?t (ow_reg ?w0)" using g by (simp add: gone_or_def revoke_erase_def M split: option.splits)
  ultimately show ?thesis unfolding w by (simp add: observer_ok_def revoking_ok_def)
qed

lemma observer_step_ok [inv_intros]:
  assumes ok: "observer_ok w" and "\<not> is_drain_erase x"
  shows "observer_ok (observer_step w x)"
proof (cases x)
  case (TObserve obs tgt cb)
  then show ?thesis using TObserve_ok [OF ok] by (simp add: observer_step_def Let_def)
next
  case (TDrainWait k)
  then show ?thesis using ok by (simp add: observer_step_def Let_def observer_ok_def revoking_ok_def)
qed (use assms in \<open>simp_all add: TTake_ok TReturn_ok TRevokeMark_ok TRevokeWait_ok TRevokeErase_ok TRevokeOf_ok TDrainScan_ok
      is_drain_erase_def\<close>)
lemma observer_run_ok: "observer_ok w \<Longrightarrow> list_all (\<lambda>x. \<not> is_drain_erase x) xs \<Longrightarrow> observer_ok (run_ops observer_step w xs)"
  by (induction xs arbitrary: w) (simp_all add: observer_step_ok)

lemma observer_start_ok: "rg_observers r = [] \<Longrightarrow> observer_ok (observer_start r)"
  by (simp add: observer_start_def observer_ok_def counted_def revoking_ok_def runs_def)

subsection \<open>Properties\<close>

text \<open>C25: Revocation is a barrier. Under every interleaving of subscriptions, event dispatches, revocations
  of tokens and of whole observers, and the scan and the wait of drains (all but the last critical
  section of \<open>DrainInactiveObservers\<close>): once \<open>RevokeObserver\<close> has returned for a token, no callback
  of it is running, none is started by a later dispatch, and its record is gone.\<close>

theorem revoke_returns_after_callbacks:
  assumes "rg_observers r = []" and "list_all (\<lambda>x. \<not> is_drain_erase x) xs"
    and "t \<in> set (ow_returned (run_ops observer_step (observer_start r) xs))"
  shows "t \<notin> set (ow_running (run_ops observer_step (observer_start r) xs)) \<and>
    map_of (rg_observers (ow_reg (run_ops observer_step (observer_start r) xs))) t = None \<and>
    fst (take_lease t (ow_reg (run_ops observer_step (observer_start r) xs))) = None"
proof -
  let ?w = "run_ops observer_step (observer_start r) xs"
  have ok: "observer_ok ?w" by (rule observer_run_ok [OF observer_start_ok [OF assms(1)] assms(2)])
  then have "gone_or (\<lambda>_. False) t (ow_reg ?w)" using assms(3) by (simp add: observer_ok_def revoking_ok_def)
  then have n: "map_of (rg_observers (ow_reg ?w)) t = None" by (simp add: gone_or_def split: option.splits)
  then have "runs t ?w = 0" using ok counted_none by (simp add: observer_ok_def)
  then have "t \<notin> set (ow_running ?w)" by (auto simp: runs_def filter_empty_conv)
  then show ?thesis using n by (simp add: take_lease_def)
qed

text \<open>A registry with two services; the first observes the second.\<close>

definition two_services :: Registry where
  "two_services =
     snd (CreateEntryLocked KService ''b'' [] AppScope [] ''B'' 2
       (snd (CreateEntryLocked KService ''a'' [] AppScope [] ''A'' 1
         (new_registry 0 \<lparr>lim_objects = 8, lim_bindings = 8, lim_observers = 8\<rparr>))))"

definition watcher :: ObjectHandle where
  "watcher = \<lparr>h_reg = Some 0, h_id = ''service:0'', h_generation = 1, h_kind = KService\<rparr>"

definition watched :: ObjectHandle where
  "watched = \<lparr>h_reg = Some 0, h_id = ''service:1'', h_generation = 2, h_kind = KService\<rparr>"

definition revoke_during_callback :: "thread_op list" where
  "revoke_during_callback =
     [TObserve watcher watched (Some 7), TTake 1, TRevokeMark 1, TRevokeWait 0, TRevokeErase 0, TReturn 0,
      TRevokeWait 0, TRevokeErase 0]"

theorem revoke_returns_after_callbacks_witness:
  "1 \<in> set (ow_returned (run_ops observer_step (observer_start two_services) revoke_during_callback)) \<and>
   1 \<notin> set (ow_running (run_ops observer_step (observer_start two_services) revoke_during_callback))"
proof
  have "rg_observers two_services = []" by code_simp
  moreover have "list_all (\<lambda>x. \<not> is_drain_erase x) revoke_during_callback" by code_simp
  moreover show r: "1 \<in> set (ow_returned (run_ops observer_step (observer_start two_services) revoke_during_callback))"
    by code_simp
  ultimately show "1 \<notin> set (ow_running (run_ops observer_step (observer_start two_services) revoke_during_callback))"
    using revoke_returns_after_callbacks by blast
qed

text \<open>The last critical section of \<open>DrainInactiveObservers\<close> breaks the barrier. It erases every inactive
  record without looking at its leases again, so a token that is revoked between the end of the
  drain's wait and that erasure, while its callback runs, loses its record; its revocation then
  finds no record, takes the wait as over and returns with the callback still running. This is
  such an interleaving.\<close>

lemma drain_erase_breaks_revocation:
  "(let w = run_ops observer_step (observer_start two_services)
       [TObserve watcher watched (Some 7), TDrainScan, TDrainWait 0, TTake 1, TRevokeMark 1, TDrainErase 0,
        TRevokeWait 0, TRevokeErase 0]
    in 1 \<in> set (ow_returned w) \<and> 1 \<in> set (ow_running w))"
  by code_simp

end
