(* ===== verification/AppCore.thy ===== *)
theory AppCore
  imports Borrows "HOL-Library.State_Monad"
begin

text \<open>
  The ground of \<open>src/host/App.cc\<close>: the state of a \<open>CoApp\<close>, what its operations get from outside, the
  running of hooks and the waits. An operation of the application is a program of the state monad
  whose steps are the critical sections of the registry. Between two of them, other coroutines,
  hooks and clients may change the registry: \<open>en_ops\<close> gives the operations they perform there, any
  operations of \<open>Borrows\<close> whatever. Hooks, the scheduler and the clock are functions of the number of
  the section. A program that would use a null object, or that waits for ever, halts: nothing
  changes any more.
\<close>

subsection \<open>The world of an application\<close>

datatype CoAppState = AppCreated | AppStarting | AppRunning | AppPaused | AppStopping | AppStopIncomplete | AppStopped

datatype hook =
    OnInstall | OnStart | OnPause | OnResume | OnStop | OnUninstall | OnBindingChanged | OnCreate | OnDestroy

datatype hook_outcome = HookReturn "unit result" | HookThrew string | HookThrewOther

datatype submit_outcome = Submitted | Rejected | RegistThrew string | RegistThrewOther

datatype CoWaitStatus =
    CoCompleted | CoTimedOut | CoCancelled | CoInvalidContext | CoAlreadyWaiting | CoRuntimeUnavailable | CoUnknown

record BoundComponent =
  bc_type :: string
  bc_name :: string
  bc_object :: ObjectHandle
  bc_generation :: nat

text \<open>What is observed from outside: a hook called with the number of live leases of its object at
  that moment, an observer callback, the last owner of an object given up.\<close>

datatype app_event = AEHook hook string nat | AECallback nat ObjectStateEvent | AERelease nat

datatype halt = NullObject | EmptyRing | WaitsForever

record app_world =
  aw_objects :: object_world
  aw_state :: CoAppState
  aw_active :: bool
  aw_mine :: bool
  aw_self :: "ObjectHandle option"
  aw_bound :: "(nat \<times> BoundComponent list) list"
  aw_tick :: nat
  aw_trace :: "app_event list"
  aw_halted :: "halt option"

record app_env =
  en_ops :: "nat \<Rightarrow> obj_op list"
  en_state :: "nat \<Rightarrow> CoAppState option"
  en_hook :: "nat \<Rightarrow> hook_outcome"
  en_submit :: "nat \<Rightarrow> submit_outcome"
  en_wait :: "nat \<Rightarrow> CoWaitStatus"
  en_rounds :: "nat \<Rightarrow> (obj_op list \<times> CoWaitStatus) list"
  en_callback_throws :: "nat \<Rightarrow> bool"
  en_now :: "nat \<Rightarrow> int"
  en_coroutine :: nat
  en_hook_coroutine :: nat

type_synonym 'a app = "(app_world, 'a) state"

subsection \<open>Sections\<close>

definition sec :: "(app_world \<Rightarrow> 'a \<times> app_world) \<Rightarrow> 'a app" where
  "sec f = State (\<lambda>w. case f w of (x, w1) \<Rightarrow> (x, if aw_halted w = None then w1 else w))"

lemma sec_run: "run_state (sec f) w = (fst (f w), if aw_halted w = None then snd (f w) else w)"
  by (simp add: sec_def split: prod.splits)

definition aw_reg :: "app_world \<Rightarrow> Registry" where
  "aw_reg w = w_reg (aw_objects w)"

definition set_reg :: "Registry \<Rightarrow> app_world \<Rightarrow> app_world" where
  "set_reg r w = w\<lparr>aw_objects := (aw_objects w)\<lparr>w_reg := r\<rparr>\<rparr>"

text \<open>Others change the registry, and the state of the application while no transition of ours runs.\<close>

definition outside :: "app_env \<Rightarrow> unit app" where
  "outside E = sec (\<lambda>w. ((), w\<lparr>
     aw_objects := run_ops obj_step (aw_objects w) (en_ops E (aw_tick w)),
     aw_state := (if aw_mine w then aw_state w
       else case en_state E (aw_tick w) of None \<Rightarrow> aw_state w | Some s \<Rightarrow> s),
     aw_tick := aw_tick w + 1\<rparr>))"

text \<open>A critical section on the registry; the first argument is the time.\<close>

definition locked :: "app_env \<Rightarrow> (int \<Rightarrow> Registry \<Rightarrow> 'a \<times> Registry) \<Rightarrow> 'a app" where
  "locked E f = do {
     outside E;
     sec (\<lambda>w. case f (en_now E (aw_tick w)) (aw_reg w) of (x, r) \<Rightarrow> (x, set_reg r w)) }"

definition halt_with :: "halt \<Rightarrow> unit app" where
  "halt_with h = sec (\<lambda>w. ((), w\<lparr>aw_halted := Some h\<rparr>))"

definition emit :: "app_event \<Rightarrow> unit app" where
  "emit e = sec (\<lambda>w. ((), w\<lparr>aw_trace := aw_trace w @ [e]\<rparr>))"

definition tick_value :: "(nat \<Rightarrow> 'a) \<Rightarrow> 'a app" where
  "tick_value f = sec (\<lambda>w. (f (aw_tick w), w))"

definition load_state :: "app_env \<Rightarrow> CoAppState app" where
  "load_state E = do { outside E; sec (\<lambda>w. (aw_state w, w)) }"

definition store_state :: "CoAppState \<Rightarrow> unit app" where
  "store_state s = sec (\<lambda>w. ((), w\<lparr>aw_state := s\<rparr>))"

fun for_each :: "'a list \<Rightarrow> ('a \<Rightarrow> unit app) \<Rightarrow> unit app" where
  "for_each [] f = State_Monad.return ()"
| "for_each (x # xs) f = do { f x; for_each xs f }"

text \<open>A loop that returns at the first error.\<close>

fun for_each_ok :: "'a list \<Rightarrow> ('a \<Rightarrow> unit result app) \<Rightarrow> unit result app" where
  "for_each_ok [] f = State_Monad.return (Inr ())"
| "for_each_ok (x # xs) f = do {
     r \<leftarrow> f x;
     case r of Inl e \<Rightarrow> State_Monad.return (Inl e) | Inr _ \<Rightarrow> for_each_ok xs f }"

subsection \<open>Bound components of an object\<close>

definition bound_of :: "nat \<Rightarrow> app_world \<Rightarrow> BoundComponent list" where
  "bound_of ob w = (case map_of (aw_bound w) ob of None \<Rightarrow> [] | Some t \<Rightarrow> t)"

definition BindComponentEntry :: "string \<Rightarrow> string \<Rightarrow> ObjectHandle \<Rightarrow> nat \<Rightarrow> BoundComponent list \<Rightarrow> BoundComponent list" where
  "BindComponentEntry ty n h g t =
     (let P = (\<lambda>b. bc_type b = ty \<and> bc_name b = n)
      in if list_ex P t then update_first P (\<lambda>b. b\<lparr>bc_object := h, bc_generation := g\<rparr>) t
         else t @ [\<lparr>bc_type = ty, bc_name = n, bc_object = h, bc_generation = g\<rparr>])"

definition UnbindComponentEntry :: "string \<Rightarrow> string \<Rightarrow> BoundComponent list \<Rightarrow> BoundComponent list" where
  "UnbindComponentEntry ty n t = remove_first (\<lambda>b. bc_type b = ty \<and> bc_name b = n) t"

definition FindBoundCopy :: "string \<Rightarrow> string \<Rightarrow> BoundComponent list \<Rightarrow> BoundComponent option" where
  "FindBoundCopy ty n t = List.find (\<lambda>b. bc_type b = ty \<and> bc_name b = n) t"

text \<open>A table is changed through the object pointer of the entry; number 0 is the null pointer.\<close>

definition on_bound :: "nat \<Rightarrow> (BoundComponent list \<Rightarrow> BoundComponent list) \<Rightarrow> unit app" where
  "on_bound ob f =
     (if ob = 0 then halt_with NullObject
      else sec (\<lambda>w. ((), w\<lparr>aw_bound := AList.update ob (f (bound_of ob w)) (aw_bound w)\<rparr>)))"

subsection \<open>Failures and events\<close>

definition record_failure :: "app_env \<Rightarrow> (int \<Rightarrow> LifecycleFailure) \<Rightarrow> unit app" where
  "record_failure E f = do {
     ok \<leftarrow> locked E (\<lambda>now r. case RecordFailure (f now) r of None \<Rightarrow> (False, r) | Some r' \<Rightarrow> (True, r'));
     if ok then State_Monad.return () else halt_with EmptyRing }"

fun DispatchEvents :: "app_env \<Rightarrow> pending_event list \<Rightarrow> unit app" where
  "DispatchEvents E [] = State_Monad.return ()"
| "DispatchEvents E ((rec, ev) # es) = do {
     cb \<leftarrow> locked E (\<lambda>_. take_lease (or_id rec));
     (case cb of
        None \<Rightarrow> State_Monad.return ()
      | Some c \<Rightarrow> do {
          emit (AECallback c ev);
          throws \<leftarrow> tick_value (en_callback_throws E);
          (if throws then record_failure E (\<lambda>now. callback_failure now rec) else State_Monad.return ());
          locked E (\<lambda>_ r. ((), return_lease (or_id rec) r)) });
     DispatchEvents E es }"

definition SetStateAndDispatch :: "app_env \<Rightarrow> string \<Rightarrow> ObjectState \<Rightarrow> ObjectError option \<Rightarrow> unit app" where
  "SetStateAndDispatch E i s err = do {
     evs \<leftarrow> locked E (\<lambda>now. SetStateAndGetEvents now i s err);
     DispatchEvents E evs }"

text \<open>Scan, wait until no inactive record has a lease, erase; the wait has no deadline.\<close>

definition DrainInactiveObservers :: "app_env \<Rightarrow> unit app" where
  "DrainInactiveObservers E = do {
     locked E (\<lambda>_ r. ((), drain_scan r));
     ready \<leftarrow> locked E (\<lambda>_ r. (drain_ready r, r));
     if ready then locked E (\<lambda>_ r. ((), drain_erase r)) else halt_with WaitsForever }"

definition failure_of :: "string \<Rightarrow> string \<Rightarrow> string \<Rightarrow> error_code \<Rightarrow> string \<Rightarrow> int \<Rightarrow> LifecycleFailure" where
  "failure_of i operation phase code msg now =
     \<lparr>lf_object_id = i, lf_generation = 0, lf_operation = operation, lf_phase = phase, lf_code = code,
      lf_at = now, lf_message = msg\<rparr>"

subsection \<open>Hooks\<close>

definition hook_error :: "string \<Rightarrow> error" where
  "hook_error m = (MakeError InternalError m)\<lparr>err_domain := Some ''framework''\<rparr>"

definition RunHookCaught :: "hook_outcome \<Rightarrow> unit result" where
  "RunHookCaught h =
     (case h of
        HookReturn r \<Rightarrow> r
      | HookThrew m \<Rightarrow> Inl (hook_error (''hook threw: '' @ m))
      | HookThrewOther \<Rightarrow> Inl (hook_error ''hook threw (non-std)''))"

text \<open>The hook of the object \<open>i\<close> is called: it sees the leases that are alive at that moment.\<close>

definition call_hook :: "app_env \<Rightarrow> hook \<Rightarrow> string \<Rightarrow> hook_outcome app" where
  "call_hook E h i = sec (\<lambda>w. (en_hook E (aw_tick w),
     w\<lparr>aw_trace := aw_trace w @ [AEHook h i (leases_on i (w_leases (aw_objects w)))]\<rparr>))"

text \<open>The owner of the object \<open>i\<close>, copied under the lock; \<open>None\<close> when it is gone.\<close>

definition owner_of :: "app_env \<Rightarrow> string \<Rightarrow> nat option app" where
  "owner_of E i = locked E (\<lambda>_ r. (map_option (\<lambda>p. re_object (rg_entries r ! p)) (FindEntryLocked i r), r))"

definition CheckCoContext :: "app_env \<Rightarrow> unit result" where
  "CheckCoContext E =
     (if en_coroutine E = 0 then
        fail InvalidContext ''lifecycle: Co* entry points require a managed coroutine context''
      else if en_hook_coroutine E = en_coroutine E then
        fail InvalidContext ''lifecycle: a lifecycle entry point called by its own hook would wait on itself''
      else Inr ())"

definition wait_error :: "CoWaitStatus \<Rightarrow> string \<Rightarrow> string \<Rightarrow> string \<Rightarrow> string \<Rightarrow> error" where
  "wait_error s timed cancelled context occupied =
     (case s of
        CoTimedOut \<Rightarrow> MakeError TimedOut timed
      | CoCancelled \<Rightarrow> MakeError Cancelled cancelled
      | CoInvalidContext \<Rightarrow> MakeError InvalidContext context
      | CoAlreadyWaiting \<Rightarrow> MakeError Overloaded occupied
      | CoRuntimeUnavailable \<Rightarrow> MakeError RuntimeUnavailable ''lifecycle: coroutine wait runtime unavailable''
      | _ \<Rightarrow> MakeError InternalError ''lifecycle: unknown wait status'')"

definition FinishCoHookWait :: "unit result \<Rightarrow> CoWaitStatus \<Rightarrow> unit result" where
  "FinishCoHookWait rc s =
     (if s = CoCompleted then rc
      else Inl (wait_error s ''lifecycle hook deadline exceeded'' ''lifecycle hook wait cancelled''
        ''lifecycle: CoWaiter must be awaited from a managed coroutine'' ''lifecycle: hook wait slot already occupied''))"

definition hooks_settled :: "string \<Rightarrow> Registry \<Rightarrow> bool" where
  "hooks_settled i r \<longleftrightarrow> (case FindEntryLocked i r of None \<Rightarrow> True | Some p \<Rightarrow> re_hooks_in_flight (rg_entries r ! p) = 0)"

text \<open>The typographic apostrophe of the messages, in UTF-8.\<close>

definition apostrophe :: string where
  "apostrophe = [CHR 0xE2, CHR 0x80, CHR 0x99]"

definition WaitHooksSettledCo :: "app_env \<Rightarrow> string \<Rightarrow> unit result app" where
  "WaitHooksSettledCo E i = do {
     settled \<leftarrow> locked E (\<lambda>_ r. (hooks_settled i r, r));
     if settled then State_Monad.return (Inr ())
     else do {
       outside E;
       s \<leftarrow> tick_value (en_wait E);
       State_Monad.return
         (if s = CoCompleted then Inr ()
          else Inl (wait_error s ''lifecycle: prior hook still in flight at deadline''
            ''lifecycle: hook-settle wait cancelled'' ''lifecycle: hook-settle wait requires a managed coroutine''
            (''lifecycle: another coroutine is already waiting for this object'' @ apostrophe @ ''s hooks to settle''))) } }"

text \<open>
  \<open>_RunServiceHookCo\<close> and \<open>_RunComponentHookCo\<close>. The hook runs in a coroutine of its own, which
  settles its entry when it ends. When the wait completes, it has ended; otherwise it ends later,
  and its \<open>NoteHookSettled\<close> is then among what happens outside.
\<close>

definition run_submitted :: "app_env \<Rightarrow> string \<Rightarrow> hook \<Rightarrow> string \<Rightarrow> unit result app" where
  "run_submitted E i h phase = do {
     out \<leftarrow> call_hook E h i;
     outside E;
     s \<leftarrow> tick_value (en_wait E);
     (if s = CoCompleted then locked E (\<lambda>_ r. ((), NoteHookSettled i r)) else State_Monad.return ());
     (case FinishCoHookWait (RunHookCaught out) s of
        Inr _ \<Rightarrow> State_Monad.return (Inr ())
      | Inl e \<Rightarrow> do {
          record_failure E (failure_of i phase phase (err_code e) (err_message e));
          State_Monad.return (Inl e) }) }"

definition begin_hook :: "string \<Rightarrow> Registry \<Rightarrow> bool \<times> Registry" where
  "begin_hook i r =
     (case FindEntryLocked i r of
        None \<Rightarrow> (False, r)
      | Some p \<Rightarrow> (True, upd_entry p (\<lambda>e. e\<lparr>re_hooks_in_flight := re_hooks_in_flight e + 1\<rparr>) r))"

definition submit_hook :: "app_env \<Rightarrow> string \<Rightarrow> hook \<Rightarrow> string \<Rightarrow> unit result app" where
  "submit_hook E i h phase = do {
     sub \<leftarrow> tick_value (en_submit E);
     case sub of
       Submitted \<Rightarrow> run_submitted E i h phase
     | Rejected \<Rightarrow> do {
         locked E (\<lambda>_ r. ((), NoteHookSettled i r));
         State_Monad.return (fail RuntimeUnavailable ''lifecycle: hook task rejected'') }
     | RegistThrew m \<Rightarrow> do {
         locked E (\<lambda>_ r. ((), NoteHookSettled i r));
         State_Monad.return (fail RuntimeUnavailable (''lifecycle: hook task regist failed: '' @ m)) }
     | RegistThrewOther \<Rightarrow> do {
         locked E (\<lambda>_ r. ((), NoteHookSettled i r));
         State_Monad.return (fail RuntimeUnavailable ''lifecycle: hook task regist failed (non-std)'') } }"

definition run_hook_co :: "app_env \<Rightarrow> string \<Rightarrow> hook \<Rightarrow> string \<Rightarrow> unit result app" where
  "run_hook_co E i h phase = do {
     settled \<leftarrow> WaitHooksSettledCo E i;
     case settled of
       Inl e \<Rightarrow> State_Monad.return (Inl e)
     | Inr _ \<Rightarrow> do {
         present \<leftarrow> locked E (\<lambda>_. begin_hook i);
         if present then submit_hook E i h phase else State_Monad.return (Inr ()) } }"

definition RunServiceHookCo :: "app_env \<Rightarrow> string \<Rightarrow> hook \<Rightarrow> string \<Rightarrow> unit result app" where
  "RunServiceHookCo = run_hook_co"

definition RunComponentHookCo :: "app_env \<Rightarrow> string \<Rightarrow> hook \<Rightarrow> string \<Rightarrow> unit result app" where
  "RunComponentHookCo = run_hook_co"

text \<open>Hooks run by the calling coroutine itself, outside the lock.\<close>

definition run_hook :: "app_env \<Rightarrow> string \<Rightarrow> hook \<Rightarrow> string \<Rightarrow> unit result app" where
  "run_hook E i h phase = do {
     ob \<leftarrow> owner_of E i;
     case ob of
       None \<Rightarrow> State_Monad.return (Inr ())
     | Some _ \<Rightarrow> do {
         outside E;
         out \<leftarrow> call_hook E h i;
         (case RunHookCaught out of
            Inr _ \<Rightarrow> State_Monad.return (Inr ())
          | Inl e \<Rightarrow> do {
              record_failure E (failure_of i phase phase (err_code e) (err_message e));
              State_Monad.return (Inl e) }) } }"

definition RunServiceHook :: "app_env \<Rightarrow> string \<Rightarrow> hook \<Rightarrow> string \<Rightarrow> unit result app" where
  "RunServiceHook = run_hook"

definition RunComponentHook :: "app_env \<Rightarrow> string \<Rightarrow> hook \<Rightarrow> string \<Rightarrow> unit result app" where
  "RunComponentHook = run_hook"

text \<open>Hooks without a result: only an exception is a failure.\<close>

definition thrown :: "hook_outcome \<Rightarrow> string option" where
  "thrown h =
     (case h of
        HookReturn _ \<Rightarrow> None
      | HookThrew m \<Rightarrow> Some (''void hook threw: '' @ m)
      | HookThrewOther \<Rightarrow> Some ''void hook threw (non-std)'')"

definition run_void_hook :: "app_env \<Rightarrow> string \<Rightarrow> hook \<Rightarrow> string \<Rightarrow> unit app" where
  "run_void_hook E i h phase = do {
     ob \<leftarrow> owner_of E i;
     case ob of
       None \<Rightarrow> State_Monad.return ()
     | Some _ \<Rightarrow> do {
         outside E;
         out \<leftarrow> call_hook E h i;
         (case thrown out of
            None \<Rightarrow> State_Monad.return ()
          | Some m \<Rightarrow> record_failure E (failure_of i phase phase InternalError m)) } }"

definition RunServiceVoidHook :: "app_env \<Rightarrow> string \<Rightarrow> hook \<Rightarrow> string \<Rightarrow> unit app" where
  "RunServiceVoidHook = run_void_hook"

definition RunComponentVoidHook :: "app_env \<Rightarrow> string \<Rightarrow> hook \<Rightarrow> string \<Rightarrow> unit app" where
  "RunComponentVoidHook = run_void_hook"

text \<open>Number 0 is the object of an actor type, which has no instance.\<close>

definition RunActorDestroy :: "app_env \<Rightarrow> string \<Rightarrow> unit app" where
  "RunActorDestroy E i = do {
     ob \<leftarrow> owner_of E i;
     case ob of
       None \<Rightarrow> State_Monad.return ()
     | Some a \<Rightarrow>
         if a = 0 then State_Monad.return ()
         else do {
           outside E;
           out \<leftarrow> call_hook E OnDestroy i;
           (if thrown out = None then State_Monad.return ()
            else record_failure E (failure_of i ''destroy'' ''destroy'' InternalError ''OnDestroy threw'')) } }"

definition RunActorCreate :: "app_env \<Rightarrow> string \<Rightarrow> unit result app" where
  "RunActorCreate E i = do {
     ob \<leftarrow> owner_of E i;
     case ob of
       None \<Rightarrow> State_Monad.return (fail NotFound ''OnCreate: actor entry gone'')
     | Some a \<Rightarrow>
         if a = 0 then State_Monad.return (fail NotFound ''OnCreate: actor type has no instance'')
         else do {
           outside E;
           out \<leftarrow> call_hook E OnCreate i;
           State_Monad.return (RunHookCaught out) } }"

subsection \<open>Waiting for borrows\<close>

text \<open>
  \<open>_WaitBorrows\<close>: the predicate is checked in a section, then the coroutine waits; the list holds
  what happens outside in each round and how the wait ends. The deadline is finite, so the rounds
  end: after the last of them the wait times out.
\<close>

definition borrow_wait_error :: "CoWaitStatus \<Rightarrow> error" where
  "borrow_wait_error s =
     MakeError (if s = CoTimedOut then TimedOut else if s = CoCancelled then Cancelled else RuntimeUnavailable)
       ''borrow wait did not complete''"

definition apply_ops :: "obj_op list \<Rightarrow> unit app" where
  "apply_ops xs = sec (\<lambda>w. ((), w\<lparr>aw_objects := run_ops obj_step (aw_objects w) xs\<rparr>))"

fun borrow_rounds :: "(Registry \<Rightarrow> bool) \<Rightarrow> (obj_op list \<times> CoWaitStatus) list \<Rightarrow> unit result app" where
  "borrow_rounds ready [] = do {
     b \<leftarrow> sec (\<lambda>w. (ready (aw_reg w), w));
     State_Monad.return (if b then Inr () else Inl (borrow_wait_error CoTimedOut)) }"
| "borrow_rounds ready ((xs, s) # rs) = do {
     b \<leftarrow> sec (\<lambda>w. (ready (aw_reg w), w));
     if b then State_Monad.return (Inr ())
     else do {
       apply_ops xs;
       if s = CoCompleted then borrow_rounds ready rs
       else State_Monad.return (Inl (borrow_wait_error s)) } }"

definition WaitBorrows :: "app_env \<Rightarrow> (Registry \<Rightarrow> bool) \<Rightarrow> unit result app" where
  "WaitBorrows E ready =
     (if en_coroutine E = 0 then State_Monad.return (fail InvalidContext ''borrow wait requires coroutine context'')
      else do {
        outside E;
        rs \<leftarrow> tick_value (en_rounds E);
        borrow_rounds ready rs })"

definition WaitBorrowsDrained :: "app_env \<Rightarrow> string \<Rightarrow> unit result app" where
  "WaitBorrowsDrained E i = WaitBorrows E (borrows_drained i)"

definition WaitBindingDrained :: "app_env \<Rightarrow> string \<Rightarrow> string \<Rightarrow> nat \<Rightarrow> unit result app" where
  "WaitBindingDrained E i s g = WaitBorrows E (binding_drained i s g)"

end
