(* ===== verification/AppLife.thy ===== *)
theory AppLife
  imports AppCore StartOrder
begin

text \<open>
  The life of an application (\<open>src/host/App.cc\<close>): start, pause, resume, stop, and the destruction of
  services, actors and components by a stop. An operation holds the transition flag from its first
  step to its last.
\<close>

subsection \<open>Destroying an object\<close>

text \<open>The common exit of a step that failed: the owner is kept.\<close>

definition abort_section :: "string \<Rightarrow> string \<Rightarrow> string \<Rightarrow> error \<Rightarrow> ObjectState \<Rightarrow> int \<Rightarrow> Registry
    \<Rightarrow> (pending_event list option) \<times> Registry" where
  "abort_section i operation phase err s now r =
     (case RecordFailure (failure_of i operation phase (err_code err) (err_message err) now) r of
        None \<Rightarrow> (None, r)
      | Some r1 \<Rightarrow>
          (case FindEntryLocked i r1 of
             None \<Rightarrow> (Some [], r1)
           | Some p \<Rightarrow>
               let r2 = EndOpLocked p (upd_entry p (\<lambda>e. e\<lparr>re_destroy_phase := phase\<rparr>) r1);
                   q = SetStateLocked now p s None r2
               in (Some (fst q), snd q)))"

definition AbortDestroy :: "app_env \<Rightarrow> string \<Rightarrow> string \<Rightarrow> string \<Rightarrow> error \<Rightarrow> ObjectState \<Rightarrow> unit app" where
  "AbortDestroy E i operation phase err s = do {
     evs \<leftarrow> locked E (abort_section i operation phase err s);
     (case evs of None \<Rightarrow> halt_with EmptyRing | Some es \<Rightarrow> DispatchEvents E es) }"

text \<open>The last section: the observers of the object are revoked and its entry is removed.\<close>

definition finish_entry :: "string \<Rightarrow> int \<Rightarrow> Registry \<Rightarrow> (nat option \<times> pending_event list) \<times> Registry" where
  "finish_entry i now r =
     (let r1 = RevokeObserversOfLocked i r
      in case FindEntryLocked i r1 of
          None \<Rightarrow> ((None, []), r1)
        | Some p \<Rightarrow>
            FinishDestroyLocked now p (EndOpLocked p (upd_entry p (\<lambda>e. e\<lparr>re_destroy_phase := []\<rparr>) r1)))"

definition release_owner :: "nat option \<Rightarrow> unit app" where
  "release_owner ob =
     (case ob of None \<Rightarrow> State_Monad.return () | Some x \<Rightarrow> if x = 0 then State_Monad.return () else emit (AERelease x))"

definition hooks_busy :: "app_env \<Rightarrow> string \<Rightarrow> bool app" where
  "hooks_busy E i = locked E (\<lambda>_ r. (\<not> hooks_settled i r, r))"

definition begin_stop :: "string \<Rightarrow> int \<Rightarrow> Registry \<Rightarrow> pending_event list option \<times> Registry" where
  "begin_stop i now r =
     (case FindEntryLocked i r of
        None \<Rightarrow> (None, r)
      | Some p \<Rightarrow>
          (case BeginOpLocked p r of
             (False, r1) \<Rightarrow> (None, r1)
           | (True, r1) \<Rightarrow>
               let q = SetStateLocked now p Stopping None (upd_entry p (\<lambda>e. e\<lparr>re_destroy_phase := ''stop''\<rparr>) r1)
               in (Some (fst q), snd q)))"

definition close_component :: "app_env \<Rightarrow> string \<Rightarrow> unit app" where
  "close_component E i = do {
     r1 \<leftarrow> WaitBorrowsDrained E i;
     case r1 of
       Inl e \<Rightarrow> AbortDestroy E i ''stop'' ''borrow_drain'' e StopIncomplete
     | Inr _ \<Rightarrow> do {
         r2 \<leftarrow> RunComponentHookCo E i OnStop ''stop'';
         case r2 of
           Inl e \<Rightarrow> AbortDestroy E i ''stop'' ''onstop'' e StopIncomplete
         | Inr _ \<Rightarrow> do {
             busy \<leftarrow> hooks_busy E i;
             if busy then
               AbortDestroy E i ''stop'' ''hook_in_flight''
                 (MakeError TimedOut ''stop: prior hook still in flight'') StopIncomplete
             else do {
               RunComponentVoidHook E i OnUninstall ''uninstall'';
               fin \<leftarrow> locked E (finish_entry i);
               DrainInactiveObservers E;
               DispatchEvents E (snd fin);
               release_owner (fst fin) } } } }"

definition DestroyComponent :: "app_env \<Rightarrow> string \<Rightarrow> unit app" where
  "DestroyComponent E i = do {
     begun \<leftarrow> locked E (begin_stop i);
     case begun of
       None \<Rightarrow> State_Monad.return ()
     | Some evs \<Rightarrow> do { DispatchEvents E evs; close_component E i } }"

text \<open>The edges on which a service is the subject: closed one by one, then awaited, then erased.\<close>

definition seal_edge :: "string \<Rightarrow> string \<Rightarrow> Registry \<Rightarrow> Registry" where
  "seal_edge i c r =
     (case FindEntryLocked c r of
        None \<Rightarrow> r
      | Some x \<Rightarrow>
          if list_ex (\<lambda>b. b_subject b = i \<and> \<not> b_retiring b) (re_bindings (rg_entries r ! x))
          then snd (BeginUnbindLocked x i r) else r)"

definition seal_edges :: "string \<Rightarrow> Registry \<Rightarrow> Registry" where
  "seal_edges i r = fold (seal_edge i) (ListIdsByKind KComponent r) r"

definition retiring_edges :: "string \<Rightarrow> Registry \<Rightarrow> (string \<times> nat) list" where
  "retiring_edges i r =
     concat (map (\<lambda>c. case FindEntryLocked c r of
         None \<Rightarrow> []
       | Some x \<Rightarrow> map (\<lambda>b. (c, b_generation b))
           (filter (\<lambda>b. b_subject b = i \<and> b_retiring b) (re_bindings (rg_entries r ! x))))
       (ListIdsByKind KComponent r))"

definition erase_edges :: "string \<Rightarrow> string list \<Rightarrow> Registry \<Rightarrow> Registry" where
  "erase_edges i cs r =
     fold (\<lambda>c r. case FindEntryLocked c r of None \<Rightarrow> r | Some x \<Rightarrow> EraseSubjectBindingsLocked x i r) cs r"

definition DestroyService :: "app_env \<Rightarrow> string \<Rightarrow> unit app" where
  "DestroyService E i = do {
     begun \<leftarrow> locked E (\<lambda>now r. case begin_stop i now r of
         (None, r1) \<Rightarrow> (None, r1) | (Some evs, r1) \<Rightarrow> (Some evs, seal_edges i r1));
     case begun of
       None \<Rightarrow> State_Monad.return ()
     | Some evs \<Rightarrow> do {
         DispatchEvents E evs;
         edges \<leftarrow> locked E (\<lambda>_ r. (retiring_edges i r, r));
         r1 \<leftarrow> for_each_ok edges (\<lambda>(c, g). WaitBindingDrained E c i g);
         case r1 of
           Inl e \<Rightarrow> AbortDestroy E i ''stop'' ''borrow_drain'' e StopIncomplete
         | Inr _ \<Rightarrow> do {
             r2 \<leftarrow> RunServiceHookCo E i OnStop ''stop'';
             case r2 of
               Inl e \<Rightarrow> AbortDestroy E i ''stop'' ''onstop'' e StopIncomplete
             | Inr _ \<Rightarrow> do {
                 busy \<leftarrow> hooks_busy E i;
                 if busy then
                   AbortDestroy E i ''stop'' ''hook_in_flight''
                     (MakeError TimedOut ''stop: prior hook still in flight'') StopIncomplete
                 else do {
                   locked E (\<lambda>_ r. ((), erase_edges i (ListIdsByKind KComponent r) r));
                   RunServiceVoidHook E i OnUninstall ''uninstall'';
                   fin \<leftarrow> locked E (finish_entry i);
                   (case fst fin of None \<Rightarrow> State_Monad.return () | Some ob \<Rightarrow> on_bound ob (\<lambda>_. []));
                   DrainInactiveObservers E;
                   DispatchEvents E (snd fin);
                   release_owner (fst fin) } } } } }"

text \<open>An actor is destroyed without the mutual exclusion of control operations.\<close>

definition finish_actor :: "string \<Rightarrow> int \<Rightarrow> Registry \<Rightarrow> (nat option \<times> pending_event list) \<times> Registry" where
  "finish_actor i now r =
     (let r1 = RevokeObserversOfLocked i r
      in case FindEntryLocked i r1 of
          None \<Rightarrow> ((None, []), r1)
        | Some p \<Rightarrow> FinishDestroyLocked now p r1)"

definition DestroyActor :: "app_env \<Rightarrow> string \<Rightarrow> unit app" where
  "DestroyActor E i = do {
     RunActorDestroy E i;
     fin \<leftarrow> locked E (finish_actor i);
     DrainInactiveObservers E;
     DispatchEvents E (snd fin);
     release_owner (fst fin) }"

subsection \<open>Options\<close>

record AppOptions =
  ao_listen :: "string option"
  ao_max_objects :: nat
  ao_max_bindings :: nat
  ao_max_observers :: nat
  ao_observer_queue_capacity :: nat
  ao_shutdown_budget :: int
  ao_lifecycle_budget :: int

definition AppOptionsValidate :: "AppOptions \<Rightarrow> unit result" where
  "AppOptionsValidate a =
     (if ao_max_objects a = 0 \<or> ao_max_bindings a = 0 \<or> ao_max_observers a = 0 \<or> ao_observer_queue_capacity a = 0
      then fail InvalidArgument ''AppOptions: SetLimits requires all four limits to be positive''
      else if ao_shutdown_budget a \<le> 0
      then fail InvalidArgument ''AppOptions: SetShutdownBudget must be a finite positive value''
      else if ao_lifecycle_budget a \<le> 0
      then fail InvalidArgument ''AppOptions: SetLifecycleBudget must be a finite positive value''
      else Inr ())"

subsection \<open>Transitions\<close>

definition begin_transition :: "string \<Rightarrow> unit result app" where
  "begin_transition m = sec (\<lambda>w.
     if aw_active w then (fail Overloaded m, w) else (Inr (), w\<lparr>aw_active := True, aw_mine := True\<rparr>))"

definition end_transition :: "unit app" where
  "end_transition = sec (\<lambda>w. ((), w\<lparr>aw_active := False, aw_mine := False\<rparr>))"

text \<open>The flag is released on every path, as the guard object of the code does.\<close>

definition in_transition :: "app_env \<Rightarrow> string \<Rightarrow> unit result app \<Rightarrow> unit result app" where
  "in_transition E m body = do {
     outside E;
     b \<leftarrow> begin_transition m;
     case b of
       Inl e \<Rightarrow> State_Monad.return (Inl e)
     | Inr _ \<Rightarrow> do {
         r \<leftarrow> body;
         end_transition;
         State_Monad.return r } }"

definition own_state :: "CoAppState app" where
  "own_state = sec (\<lambda>w. (aw_state w, w))"

definition object_error :: "error \<Rightarrow> string \<Rightarrow> ObjectError" where
  "object_error e phase = \<lparr>oe_code = err_code e, oe_phase = phase, oe_message = err_message e\<rparr>"

subsection \<open>Start\<close>

definition topo_failure :: "int \<Rightarrow> LifecycleFailure" where
  "topo_failure now = failure_of [] ''start'' ''topo'' InternalError ''component dependency cycle residual'' now"

text \<open>The objects to start: installed components in dependency order, then installed services.\<close>

definition start_lists :: "int \<Rightarrow> Registry \<Rightarrow> (string list \<times> string list) option \<times> Registry" where
  "start_lists now r =
     (case ComponentStartOrderLocked r of
        None \<Rightarrow> (None, r)
      | Some (order, cyc) \<Rightarrow>
          (case (if cyc then RecordFailure (topo_failure now) r else Some r) of
             None \<Rightarrow> (None, r)
           | Some r1 \<Rightarrow>
               (Some (filter (\<lambda>i. case FindEntryLocked i r1 of
                     None \<Rightarrow> False | Some p \<Rightarrow> re_state (rg_entries r1 ! p) = Installed) order,
                   ListIdsState KService Installed r1), r1)))"

definition start_one :: "app_env \<Rightarrow> (string \<Rightarrow> unit result app) \<Rightarrow> string \<Rightarrow> unit result app" where
  "start_one E run i = do {
     SetStateAndDispatch E i Starting None;
     r \<leftarrow> run i;
     case r of
       Inl e \<Rightarrow> do {
         SetStateAndDispatch E i Failed (Some (object_error e ''start''));
         store_state AppRunning;
         State_Monad.return (Inl e) }
     | Inr _ \<Rightarrow> do {
         SetStateAndDispatch E i Running None;
         State_Monad.return (Inr ()) } }"

definition StartObjects :: "app_env \<Rightarrow> string list \<Rightarrow> string list \<Rightarrow> unit result app" where
  "StartObjects E comps svcs = do {
     r1 \<leftarrow> for_each_ok comps (start_one E (\<lambda>i. RunComponentHookCo E i OnStart ''start''));
     case r1 of
       Inl e \<Rightarrow> State_Monad.return (Inl e)
     | Inr _ \<Rightarrow> do {
         r2 \<leftarrow> for_each_ok svcs (start_one E (\<lambda>i. RunServiceHookCo E i OnStart ''start''));
         case r2 of
           Inl e \<Rightarrow> State_Monad.return (Inl e)
         | Inr _ \<Rightarrow> do {
             store_state AppRunning;
             State_Monad.return (Inr ()) } } }"

definition StartBody :: "app_env \<Rightarrow> AppOptions \<Rightarrow> unit result app" where
  "StartBody E opts = do {
     s \<leftarrow> own_state;
     if s = AppStopped \<or> s = AppStopIncomplete then State_Monad.return (fail Closed ''Start: app already stopped'')
     else if s \<noteq> AppCreated \<and> s \<noteq> AppPaused then
       State_Monad.return (fail Overloaded ''Start: app not in Created/Paused state'')
     else case AppOptionsValidate opts of
       Inl e \<Rightarrow> State_Monad.return (Inl e)
     | Inr _ \<Rightarrow> do {
         store_state AppStarting;
         lists \<leftarrow> locked E start_lists;
         case lists of
           None \<Rightarrow> do { halt_with EmptyRing; State_Monad.return (Inr ()) }
         | Some (comps, svcs) \<Rightarrow> StartObjects E comps svcs } }"

definition StartImpl :: "app_env \<Rightarrow> AppOptions \<Rightarrow> unit result app" where
  "StartImpl E opts = in_transition E ''Start: lifecycle transition in progress'' (StartBody E opts)"

text \<open>An entry point checks its context first.\<close>

definition co_entry :: "app_env \<Rightarrow> 'a result app \<Rightarrow> 'a result app" where
  "co_entry E m = (case CheckCoContext E of Inl e \<Rightarrow> State_Monad.return (Inl e) | Inr _ \<Rightarrow> m)"

definition CoStart :: "app_env \<Rightarrow> AppOptions \<Rightarrow> unit result app" where
  "CoStart E opts = co_entry E (StartImpl E opts)"

subsection \<open>Pause and resume\<close>

definition switch_one :: "app_env \<Rightarrow> hook \<Rightarrow> string \<Rightarrow> ObjectState \<Rightarrow> string \<Rightarrow> unit result app" where
  "switch_one E h phase s i = do {
     r \<leftarrow> RunServiceHookCo E i h phase;
     case r of
       Inl e \<Rightarrow> do {
         SetStateAndDispatch E i Failed (Some (object_error e phase));
         State_Monad.return (Inl e) }
     | Inr _ \<Rightarrow> do {
         SetStateAndDispatch E i s None;
         State_Monad.return (Inr ()) } }"

definition PauseBody :: "app_env \<Rightarrow> unit result app" where
  "PauseBody E = do {
     s \<leftarrow> own_state;
     if s \<noteq> AppRunning then State_Monad.return (fail InvalidArgument ''Pause: app not Running'')
     else do {
       svcs \<leftarrow> locked E (\<lambda>_ r. (ListIdsState KService Running r, r));
       r \<leftarrow> for_each_ok svcs (switch_one E OnPause ''pause'' Paused);
       case r of
         Inl e \<Rightarrow> State_Monad.return (Inl e)
       | Inr _ \<Rightarrow> do {
           store_state AppPaused;
           State_Monad.return (Inr ()) } } }"

definition PauseImpl :: "app_env \<Rightarrow> unit result app" where
  "PauseImpl E = in_transition E ''Pause: lifecycle transition in progress'' (PauseBody E)"

definition CoPause :: "app_env \<Rightarrow> unit result app" where
  "CoPause E = co_entry E (PauseImpl E)"

definition ResumeBody :: "app_env \<Rightarrow> unit result app" where
  "ResumeBody E = do {
     s \<leftarrow> own_state;
     if s \<noteq> AppPaused then State_Monad.return (fail InvalidArgument ''Resume: app not Paused'')
     else do {
       svcs \<leftarrow> locked E (\<lambda>_ r. (ListIdsState KService Paused r, r));
       r \<leftarrow> for_each_ok svcs (switch_one E OnResume ''resume'' Running);
       case r of
         Inl e \<Rightarrow> State_Monad.return (Inl e)
       | Inr _ \<Rightarrow> do {
           store_state AppRunning;
           State_Monad.return (Inr ()) } } }"

definition ResumeImpl :: "app_env \<Rightarrow> unit result app" where
  "ResumeImpl E = in_transition E ''Resume: lifecycle transition in progress'' (ResumeBody E)"

definition CoResume :: "app_env \<Rightarrow> unit result app" where
  "CoResume E = co_entry E (ResumeImpl E)"

subsection \<open>Stop\<close>

text \<open>Services, actors, scoped components and components of the application, each in its order.\<close>

definition stop_lists :: "Registry \<Rightarrow> string list \<times> string list \<times> string list \<times> string list" where
  "stop_lists r =
     (let order = (case ComponentStartOrderLocked r of None \<Rightarrow> [] | Some (ord, _) \<Rightarrow> List.rev ord);
          in_scope = (\<lambda>P i. case FindEntryLocked i r of None \<Rightarrow> False | Some p \<Rightarrow> P (re_scope (rg_entries r ! p)))
      in (ListIdsByKind KService r, ListIdsByKind KActor r,
          filter (in_scope (\<lambda>s. s \<noteq> AppScope)) order, filter (in_scope (\<lambda>s. s = AppScope)) order))"

definition StopLists :: "app_env \<Rightarrow> string list \<times> string list \<times> string list \<times> string list \<Rightarrow> unit app" where
  "StopLists E ls =
     (case ls of
        (svcs, actors, scoped, apps) \<Rightarrow> do {
          for_each svcs (DestroyService E);
          for_each actors (DestroyActor E);
          for_each scoped (DestroyComponent E);
          for_each apps (DestroyComponent E) })"

definition StopAll :: "app_env \<Rightarrow> unit app" where
  "StopAll E = do {
     lists \<leftarrow> locked E (\<lambda>_ r. (stop_lists r, r));
     StopLists E lists }"

definition StopBody :: "app_env \<Rightarrow> unit result app" where
  "StopBody E = do {
     s \<leftarrow> own_state;
     if s = AppStopped then State_Monad.return (Inr ())
     else do {
       store_state AppStopping;
       StopAll E;
       incomplete \<leftarrow> locked E (\<lambda>_ r. (PendingCleanup r \<noteq> [], r));
       store_state (if incomplete then AppStopIncomplete else AppStopped);
       State_Monad.return (Inr ()) } }"

definition StopImpl :: "app_env \<Rightarrow> unit result app" where
  "StopImpl E = in_transition E ''Stop: lifecycle transition in progress'' (StopBody E)"

definition CoStop :: "app_env \<Rightarrow> unit result app" where
  "CoStop E = co_entry E (StopImpl E)"

end
