(* ===== verification/AppProps.thy ===== *)
theory AppProps
  imports AppLife "HOL-Library.Sublist"
begin

text \<open>
  Reasoning about the programs of \<open>AppCore\<close>: what a program keeps of a predicate on the world, and
  the hooks it calls, both composed along the structure of the program; then the orders in which
  a start and a stop call the hooks.
\<close>

subsection \<open>Predicates that a program keeps\<close>

named_theorems app_keeps \<open>a program keeps a predicate\<close>
named_theorems app_traces \<open>the hooks that a program calls\<close>

definition keeps :: "(app_world \<Rightarrow> bool) \<Rightarrow> 'a app \<Rightarrow> bool" where
  "keeps P m \<longleftrightarrow> (\<forall>w. P w \<longrightarrow> P (snd (run_state m w)))"

lemma keepsD: "keeps P m \<Longrightarrow> P w \<Longrightarrow> P (snd (run_state m w))"
  by (simp add: keeps_def)

lemma keeps_return [app_keeps]: "keeps P (State_Monad.return x)"
  by (simp add: keeps_def)

lemma keeps_bind [app_keeps]:
  assumes "keeps P m" and "\<And>x. keeps P (f x)"
  shows "keeps P (State_Monad.bind m f)"
  using assms by (simp add: keeps_def split: prod.splits) (metis snd_conv)

lemma keeps_sec: "(\<And>w. aw_halted w = None \<Longrightarrow> P w \<Longrightarrow> P (snd (f w))) \<Longrightarrow> keeps P (sec f)"
  by (simp add: keeps_def sec_run)

lemma keeps_for_each [app_keeps]: "(\<And>x. keeps P (f x)) \<Longrightarrow> keeps P (for_each xs f)"
  by (induction xs) (simp_all add: keeps_return keeps_bind)

lemma keeps_for_each_ok [app_keeps]:
  assumes f: "\<And>x. keeps P (f x)"
  shows "keeps P (for_each_ok xs f)"
proof (induction xs)
  case (Cons x xs)
  then show ?case by (auto intro!: keeps_bind f keeps_return split: sum.splits)
qed (simp add: keeps_return)

subsection \<open>The hooks that a program calls\<close>

definition hooks_of :: "app_event list \<Rightarrow> (hook \<times> string) list" where
  "hooks_of es = concat (map (\<lambda>e. case e of AEHook h i _ \<Rightarrow> [(h, i)] | _ \<Rightarrow> []) es)"

lemma hooks_of_append [simp]: "hooks_of (xs @ ys) = hooks_of xs @ hooks_of ys"
  by (simp add: hooks_of_def)

lemma hooks_of_simps [simp]:
  "hooks_of [] = []" "hooks_of [AEHook h i n] = [(h, i)]" "hooks_of [AECallback c ev] = []" "hooks_of [AERelease ob] = []"
  by (simp_all add: hooks_of_def)

definition traces :: "'a app \<Rightarrow> ('a \<Rightarrow> (hook \<times> string) list \<Rightarrow> bool) \<Rightarrow> bool" where
  "traces m R \<longleftrightarrow> (\<forall>w. \<exists>es. aw_trace (snd (run_state m w)) = aw_trace w @ es \<and> R (fst (run_state m w)) (hooks_of es))"

definition silent :: "'a app \<Rightarrow> bool" where
  "silent m \<longleftrightarrow> traces m (\<lambda>_ hs. hs = [])"

lemma traces_mono: "traces m R \<Longrightarrow> (\<And>a hs. R a hs \<Longrightarrow> S a hs) \<Longrightarrow> traces m S"
  unfolding traces_def by blast

lemma traces_bind:
  assumes m: "traces m R" and f: "\<And>a. traces (f a) (S a)"
    and T: "\<And>a b xs ys. R a xs \<Longrightarrow> S a b ys \<Longrightarrow> T b (xs @ ys)"
  shows "traces (State_Monad.bind m f) T"
  unfolding traces_def
proof
  fix w
  obtain a w1 where 1: "run_state m w = (a, w1)" by fastforce
  obtain b w2 where 2: "run_state (f a) w1 = (b, w2)" by fastforce
  obtain es where "aw_trace w1 = aw_trace w @ es" "R a (hooks_of es)"
    using m [unfolded traces_def, rule_format, of w] 1 by auto
  moreover obtain es' where "aw_trace w2 = aw_trace w1 @ es'" "S a b (hooks_of es')"
    using f [of a, unfolded traces_def, rule_format, of w1] 2 by auto
  ultimately have "aw_trace w2 = aw_trace w @ (es @ es')" "T b (hooks_of (es @ es'))" using T by simp_all
  then show "\<exists>es. aw_trace (snd (run_state (State_Monad.bind m f) w)) = aw_trace w @ es \<and>
      T (fst (run_state (State_Monad.bind m f) w)) (hooks_of es)"
    using 1 2 by (intro exI [of _ "es @ es'"]) simp
qed

lemma traces_return: "R x [] \<Longrightarrow> traces (State_Monad.return x) R"
  by (simp add: traces_def)

lemma silent_return [app_traces]: "silent (State_Monad.return x)"
  by (simp add: silent_def traces_return)

lemma silent_bind [app_traces]: "silent m \<Longrightarrow> (\<And>a. silent (f a)) \<Longrightarrow> silent (State_Monad.bind m f)"
  unfolding silent_def by (rule traces_bind [where R = "\<lambda>_ hs. hs = []" and S = "\<lambda>_ _ hs. hs = []"]) simp_all

lemma silent_sec: "(\<And>w. \<exists>es. aw_trace (snd (f w)) = aw_trace w @ es \<and> hooks_of es = []) \<Longrightarrow> silent (sec f)"
  by (simp add: silent_def traces_def sec_run)

lemma silent_traces: "silent m \<Longrightarrow> (\<And>a. R a []) \<Longrightarrow> traces m R"
  unfolding silent_def by (erule traces_mono) simp

lemma silent_outside [app_traces]: "silent (outside E)"
  unfolding outside_def by (rule silent_sec) simp

lemma silent_locked [app_traces]: "silent (locked E f)"
  unfolding locked_def by (intro silent_bind silent_outside silent_sec) (simp add: set_reg_def split: prod.splits)

lemma silent_emit [app_traces]: "(\<And>h i n. e \<noteq> AEHook h i n) \<Longrightarrow> silent (emit e)"
  unfolding emit_def by (rule silent_sec, cases e) auto

lemma silent_simple [app_traces]:
  "silent (halt_with h)" "silent (tick_value f)" "silent (store_state s)" "silent own_state" "silent (begin_transition m)"
  "silent end_transition" "silent (apply_ops xs)"
  unfolding halt_with_def tick_value_def store_state_def own_state_def begin_transition_def end_transition_def apply_ops_def
  by (rule silent_sec, simp)+

lemma silent_on_bound [app_traces]: "silent (on_bound ob f)"
  unfolding on_bound_def by (simp add: silent_simple silent_sec)

lemma silent_record_failure [app_traces]: "silent (record_failure E f)"
  unfolding record_failure_def by (auto intro!: app_traces)

lemma silent_DispatchEvents [app_traces]: "silent (DispatchEvents E es)"
  by (induction E es rule: DispatchEvents.induct) (auto intro!: app_traces split: option.splits)

lemma silent_SetStateAndDispatch [app_traces]: "silent (SetStateAndDispatch E i s err)"
  unfolding SetStateAndDispatch_def by (auto intro!: app_traces)

lemma silent_DrainInactiveObservers [app_traces]: "silent (DrainInactiveObservers E)"
  unfolding DrainInactiveObservers_def by (auto intro!: app_traces)

lemma silent_borrow_rounds [app_traces]: "silent (borrow_rounds P rs)"
  by (induction P rs rule: borrow_rounds.induct) (auto intro!: app_traces silent_sec)

lemma silent_waits [app_traces]:
  "silent (WaitHooksSettledCo E i)" "silent (WaitBorrowsDrained E i)" "silent (WaitBindingDrained E i s g)"
  unfolding WaitHooksSettledCo_def WaitBorrowsDrained_def WaitBindingDrained_def WaitBorrows_def
  by (auto intro!: app_traces)

lemma silent_AbortDestroy [app_traces]: "silent (AbortDestroy E i op ph e s)"
  unfolding AbortDestroy_def by (auto intro!: app_traces split: option.splits)

lemma silent_rest [app_traces]: "silent (release_owner ob)" "silent (hooks_busy E i)" "silent (owner_of E i)"
  unfolding release_owner_def hooks_busy_def owner_of_def by (auto intro!: app_traces split: option.splits)


text \<open>At most these hooks, in this order.\<close>

definition calls :: "'a app \<Rightarrow> (hook \<times> string) list \<Rightarrow> bool" where
  "calls m hs0 \<longleftrightarrow> traces m (\<lambda>_ hs. subseq hs hs0)"

lemma callsD:
  assumes "calls m hs0"
  obtains es where "aw_trace (snd (run_state m w)) = aw_trace w @ es" "subseq (hooks_of es) hs0"
  using assms that unfolding calls_def traces_def by blast

lemma calls_silent: "silent m \<Longrightarrow> calls m hs0"
  unfolding calls_def by (erule silent_traces) simp

lemma calls_bind: "calls m xs \<Longrightarrow> (\<And>a. calls (f a) ys) \<Longrightarrow> calls (State_Monad.bind m f) (xs @ ys)"
  unfolding calls_def
  by (rule traces_bind [where R = "\<lambda>_ hs. subseq hs xs" and S = "\<lambda>_ _ hs. subseq hs ys"]) (auto intro: list_emb_append_mono)

lemma calls_first: "silent m \<Longrightarrow> (\<And>a. calls (f a) ys) \<Longrightarrow> calls (State_Monad.bind m f) ys"
  using calls_bind [of m "[]" f ys] by (simp add: calls_silent)

lemma calls_last: "calls m xs \<Longrightarrow> (\<And>a. silent (f a)) \<Longrightarrow> calls (State_Monad.bind m f) xs"
  using calls_bind [of m xs f "[]"] by (simp add: calls_silent)

lemma calls_for_each_ok:
  assumes f: "\<And>x. calls (f x) (g x)"
  shows "calls (for_each_ok xs f) (concat (map g xs))"
proof (induction xs)
  case (Cons x xs)
  then show ?case by (auto intro!: calls_bind [OF f] calls_silent [OF silent_return] split: sum.splits)
qed (simp add: calls_silent silent_return)


lemmas calls_steps = calls_first [OF silent_outside] calls_first [OF silent_locked] calls_first [OF silent_simple(2)]
  calls_first [OF silent_rest(2)] calls_first [OF silent_rest(3)] calls_first [OF silent_waits(1)]
  calls_first [OF silent_waits(2)] calls_first [OF silent_DispatchEvents] calls_silent [OF silent_return]
  calls_silent [OF silent_AbortDestroy]

lemma calls_call_hook: "calls (call_hook E h i) [(h, i)]"
  unfolding calls_def traces_def call_hook_def sec_run
  by (auto intro: exI [of _ "[]"])

lemma calls_run_hook_co: "calls (run_hook_co E i h phase) [(h, i)]"
  unfolding run_hook_co_def submit_hook_def run_submitted_def
  by (auto intro!: calls_steps calls_last [OF calls_call_hook] app_traces split: sum.splits submit_outcome.splits)

lemma calls_run_hook: "calls (run_hook E i h phase) [(h, i)]"
  unfolding run_hook_def
  by (auto intro!: calls_steps calls_last [OF calls_call_hook] app_traces split: option.splits sum.splits)










lemma calls_start_one: "calls (start_one E (\<lambda>i. run_hook_co E i OnStart phase) i) [(OnStart, i)]"
  unfolding start_one_def
  by (rule calls_first [OF silent_SetStateAndDispatch], rule calls_last [OF calls_run_hook_co])
     (auto intro!: app_traces split: sum.splits)

lemma concat_singleton: "concat (map (\<lambda>x. [f x]) xs) = map f xs"
  by (induction xs) auto

subsection \<open>Orders\<close>

lemma topo_sorted:
  assumes "topo D xs" and "distinct xs"
  shows "sorted_wrt (\<lambda>a b. b \<notin> set (D a)) xs"
  unfolding sorted_wrt_iff_nth_less
proof (intro allI impI notI)
  fix i j
  assume ij: "i < j" "j < length xs" and d: "xs ! j \<in> set (D (xs ! i))"
  then obtain k where "k < i" "xs ! k = xs ! j" using topo_dep [OF assms(1) _ d] by auto
  then show False using assms(2) ij by (auto simp: nth_eq_iff_index_eq)
qed

lemma start_order_sorted:
  assumes "ComponentStartOrderLocked r = Some (ord, cyc)"
  shows "distinct ord" "set ord = set (component_ids r)" "cyc \<longleftrightarrow> dependency_cycle r"
    "\<not> dependency_cycle r \<Longrightarrow> sorted_wrt (\<lambda>a b. \<not> depends r a b) ord"
proof -
  obtain st where S: "ComponentStartOrderLocked r = Some (t_order st, t_cycle st)"
    "topo_inv (deps_of r) (component_ids r) st" "set (t_order st) = set (component_ids r)"
    by (rule start_order_result)
  have e: "ord = t_order st" "cyc = t_cycle st" using S(1) assms by auto
  show d: "distinct ord" and "set ord = set (component_ids r)" using S(2,3) by (simp_all add: e topo_inv_def)
  show c: "cyc \<longleftrightarrow> dependency_cycle r"
    using S(2) topo_acyclic [of "deps_of r" "t_order st" "component_ids r"] S(3)
    by (auto simp: e topo_inv_def dependency_cycle_def dep_rel_depends)
  show "sorted_wrt (\<lambda>a b. \<not> depends r a b) ord" if "\<not> dependency_cycle r"
    using topo_sorted [of "deps_of r" ord] d S(2) c that by (auto simp: e topo_inv_def deps_of_iff)
qed

lemma sorted_wrt_subseq: "subseq xs ys \<Longrightarrow> sorted_wrt P ys \<Longrightarrow> sorted_wrt P xs"
proof (induction xs ys rule: list_emb.induct)
  case (list_emb_Cons2 x y xs ys)
  then show ?case by (auto dest: list_emb_set)
qed auto


text \<open>The registry that a transition finds when it collects its lists: two sections after its call.\<close>

definition transition_registry :: "app_env \<Rightarrow> app_world \<Rightarrow> Registry" where
  "transition_registry E w =
     w_reg (run_ops obj_step (run_ops obj_step (aw_objects w) (en_ops E (aw_tick w))) (en_ops E (Suc (aw_tick w))))"

definition entry_of :: "Registry \<Rightarrow> string \<Rightarrow> RegistryEntry option" where
  "entry_of r i = map_option ((!) (rg_entries r)) (FindEntryLocked i r)"

lemma transition_world_ok: "world_ok (aw_objects w) \<Longrightarrow> ids_ok (transition_registry E w)"
  using objects.inv_run_from [OF objects.inv_run_from] by (simp add: transition_registry_def world_ok_def)

lemma entry_of_member:
  assumes "ids_ok r" and "e \<in> set (rg_entries r)"
  shows "entry_of r (re_id e) = Some e"
  using assms FindEntry_iff [OF assms(1)] by (auto simp: entry_of_def in_set_conv_nth)

lemma depends_component:
  assumes "ids_ok r" and "depends r a b"
  shows "\<exists>e. entry_of r b = Some e \<and> re_kind e = KComponent"
  using assms(2) entry_of_member [OF assms(1)] by (auto simp: depends_def)

lemma calls_StartObjects: "calls (StartObjects E comps svcs) (map (Pair OnStart) (comps @ svcs))"
proof -
  have L: "calls (for_each_ok xs (start_one E (\<lambda>i. run_hook_co E i OnStart ''start''))) (map (Pair OnStart) xs)" for xs
    using calls_for_each_ok [of "start_one E (\<lambda>i. run_hook_co E i OnStart ''start'')" "\<lambda>i. [(OnStart, i)]" xs] calls_start_one
    by (simp add: concat_singleton)
  show ?thesis unfolding StartObjects_def RunComponentHookCo_def RunServiceHookCo_def map_append
    by (rule calls_bind [OF L])
       (auto intro!: calls_last [OF L] calls_silent [OF silent_return] app_traces split: sum.splits)
qed



lemma run_bind: "run_state (State_Monad.bind m f) w = run_state (f (fst (run_state m w))) (snd (run_state m w))"
  by (simp split: prod.splits)

text \<open>A transition calls the hooks of its body, which starts after one window to the outside.\<close>

lemma in_transition_trace:
  assumes w: "aw_halted w = None"
    and body: "\<And>w1. aw_halted w1 = None \<Longrightarrow> aw_objects w1 = run_ops obj_step (aw_objects w) (en_ops E (aw_tick w)) \<Longrightarrow>
      aw_tick w1 = Suc (aw_tick w) \<Longrightarrow> aw_trace w1 = aw_trace w \<Longrightarrow>
      \<exists>es. aw_trace (snd (run_state body w1)) = aw_trace w @ es \<and> Q (hooks_of es)"
    and nil: "Q []"
  shows "\<exists>es. aw_trace (snd (run_state (in_transition E m body) w)) = aw_trace w @ es \<and> Q (hooks_of es)"
proof -
  let ?w1 = "snd (run_state (outside E) w)"
  have w1: "aw_halted ?w1 = None" "aw_objects ?w1 = run_ops obj_step (aw_objects w) (en_ops E (aw_tick w))"
    "aw_tick ?w1 = Suc (aw_tick w)" "aw_trace ?w1 = aw_trace w"
    using w by (simp_all add: outside_def sec_run)
  show ?thesis
  proof (cases "aw_active ?w1")
    case True
    then show ?thesis using w1 nil
      by (intro exI [of _ "[]"])
         (simp add: in_transition_def begin_transition_def sec_run fail_def run_bind del: run_state_bind)
  next
    case False
    let ?w2 = "?w1\<lparr>aw_active := True, aw_mine := True\<rparr>"
    have e: "aw_trace (snd (run_state (in_transition E m body) w)) = aw_trace (snd (run_state body ?w2))"
      using False w1(1)
      by (simp add: in_transition_def begin_transition_def end_transition_def sec_run run_bind del: run_state_bind)
    show ?thesis unfolding e by (rule body) (simp_all add: w1)
  qed
qed

lemma calls_from:
  assumes "calls m hs0" and "aw_trace w1 = tr"
  shows "\<exists>es. aw_trace (snd (run_state m w1)) = tr @ es \<and> subseq (hooks_of es) hs0"
  using callsD [OF assms(1), of w1] assms(2) by metis

lemma locked_run:
  assumes "aw_halted w = None"
  shows "run_state (locked E f) w =
    (let w1 = snd (run_state (outside E) w); p = f (en_now E (Suc (aw_tick w))) (w_reg (run_ops obj_step (aw_objects w) (en_ops E (aw_tick w))))
     in (fst p, set_reg (snd p) w1))"
  using assms by (simp add: locked_def outside_def sec_run aw_reg_def Let_def case_prod_beta)

lemma set_reg_trace [simp]: "aw_trace (set_reg r w) = aw_trace w" "aw_halted (set_reg r w) = aw_halted w"
  by (simp_all add: set_reg_def)

lemma outside_trace [simp]: "aw_trace (snd (run_state (outside E) w)) = aw_trace w"
  by (simp add: outside_def sec_run)

text \<open>What a start and a stop do once they have their lists.\<close>

lemma StartImpl_calls:
  assumes "aw_halted w = None"
  shows "\<exists>es. aw_trace (snd (run_state (StartImpl E opts) w)) = aw_trace w @ es \<and>
    (hooks_of es = [] \<or> (\<exists>comps svcs now r. start_lists now (transition_registry E w) = (Some (comps, svcs), r) \<and>
       subseq (hooks_of es) (map (Pair OnStart) (comps @ svcs))))"
  unfolding StartImpl_def
proof (rule in_transition_trace [OF assms])
  fix w1 :: app_world
  assume w1: "aw_halted w1 = None" "aw_objects w1 = run_ops obj_step (aw_objects w) (en_ops E (aw_tick w))"
    "aw_tick w1 = Suc (aw_tick w)" "aw_trace w1 = aw_trace w"
  let ?Q = "\<lambda>hs. hs = [] \<or> (\<exists>comps svcs now r. start_lists now (transition_registry E w) = (Some (comps, svcs), r) \<and>
       subseq hs (map (Pair OnStart) (comps @ svcs)))"
  let ?w2 = "w1\<lparr>aw_state := AppStarting\<rparr>"
  obtain x r where X: "start_lists (en_now E (Suc (aw_tick w1))) (transition_registry E w) = (x, r)" by fastforce
  have L: "run_state (locked E start_lists) ?w2 = (x, set_reg r (snd (run_state (outside E) ?w2)))"
    using X w1 by (simp add: locked_run Let_def transition_registry_def)
  show "\<exists>es. aw_trace (snd (run_state (StartBody E opts) w1)) = aw_trace w @ es \<and> ?Q (hooks_of es)"
  proof (cases "aw_state w1 \<in> {AppCreated, AppPaused} \<and> is_ok (AppOptionsValidate opts)")
    case False
    then have "aw_trace (snd (run_state (StartBody E opts) w1)) = aw_trace w"
      using w1(4) by (auto simp: StartBody_def own_state_def sec_run is_ok_def split: sum.splits)
    then show ?thesis by (intro exI [of _ "[]"]) simp
  next
    case True
    then have B: "run_state (StartBody E opts) w1 =
        run_state (case x of None \<Rightarrow> do { halt_with EmptyRing; State_Monad.return (Inr ()) }
          | Some (comps, svcs) \<Rightarrow> StartObjects E comps svcs) (set_reg r (snd (run_state (outside E) ?w2)))"
      using L w1(1) by (auto simp: StartBody_def own_state_def store_state_def sec_run is_ok_def split: sum.splits)
    show ?thesis
    proof (cases x)
      case None
      then show ?thesis unfolding B using w1 by (intro exI [of _ "[]"]) (simp add: halt_with_def sec_run)
    next
      case (Some cs)
      obtain comps svcs where cs: "cs = (comps, svcs)" by fastforce
      let ?w3 = "set_reg r (snd (run_state (outside E) ?w2))"
      obtain es where es: "aw_trace (snd (run_state (StartObjects E comps svcs) ?w3)) = aw_trace w @ es"
        "subseq (hooks_of es) (map (Pair OnStart) (comps @ svcs))"
        using calls_from [OF calls_StartObjects, of ?w3 "aw_trace w" E comps svcs] w1(4) by auto
      have "?Q (hooks_of es)" using es(2) X unfolding Some cs by blast
      then show ?thesis unfolding B using es(1) by (intro exI [of _ es]) (simp add: Some cs)
    qed
  qed
qed simp


lemma distinct_subseq: "subseq xs ys \<Longrightarrow> distinct ys \<Longrightarrow> distinct xs"
proof (induction xs ys rule: list_emb.induct)
  case (list_emb_Cons2 x y xs ys)
  then show ?case by (auto dest: list_emb_set)
qed auto

lemma co_entry_trace:
  assumes "\<exists>es. aw_trace (snd (run_state m w)) = aw_trace w @ es \<and> Q (hooks_of es)" and "Q []"
  shows "\<exists>es. aw_trace (snd (run_state (co_entry E m) w)) = aw_trace w @ es \<and> Q (hooks_of es)"
proof (cases "CheckCoContext E")
  case (Inl e)
  then show ?thesis using assms(2) by (intro exI [of _ "[]"]) (simp add: co_entry_def)
next
  case (Inr u)
  then show ?thesis using assms(1) by (simp add: co_entry_def)
qed

lemma entries_same_entry: "entries_same r r' \<Longrightarrow> entry_of r' i = entry_of r i \<and> ListIdsState k s r' = ListIdsState k s r"
  by (simp add: entries_same_def entry_of_def FindEntryLocked_def ListIdsState_def)

lemma in_list_state:
  assumes "ids_ok r" and "i \<in> set (ListIdsState k s r)"
  shows "\<exists>e. entry_of r i = Some e \<and> re_kind e = k \<and> re_state e = s"
  using assms(2) entry_of_member [OF assms(1)] by (auto simp: ListIdsState_def)


lemma in_component_ids:
  assumes "ids_ok r" and "i \<in> set (component_ids r)"
  shows "\<exists>e. entry_of r i = Some e \<and> re_kind e = KComponent"
  using assms(2) entry_of_member [OF assms(1)] by (auto simp: component_ids_def is_component_def)

lemma start_lists_facts:
  assumes ok: "ids_ok r" and S: "start_lists now r = (Some (comps, svcs), r')"
  shows "distinct (comps @ svcs)"
    and "i \<in> set (comps @ svcs) \<Longrightarrow> \<exists>e. entry_of r i = Some e \<and> re_state e = Installed"
    and "\<not> dependency_cycle r \<Longrightarrow> sorted_wrt (\<lambda>a b. \<not> depends r a b) (comps @ svcs)"
proof -
  obtain ord cyc r1 where O: "ComponentStartOrderLocked r = Some (ord, cyc)" and same: "entries_same r r1"
    and c: "comps = filter (\<lambda>i. case FindEntryLocked i r1 of None \<Rightarrow> False | Some p \<Rightarrow> re_state (rg_entries r1 ! p) = Installed) ord"
    and v: "svcs = ListIdsState KService Installed r1"
    using S by (auto simp: start_lists_def entries_same_def split: option.splits prod.splits if_splits dest: RecordFailure_same)
  note F = start_order_sorted [OF O]
  have cE: "comps = filter (\<lambda>i. \<exists>e. entry_of r i = Some e \<and> re_state e = Installed) ord"
    unfolding c using same by (intro filter_cong refl) (auto simp: entry_of_def entries_same_def FindEntryLocked_def split: option.splits)
  have vE: "svcs = ListIdsState KService Installed r" using entries_same_entry [OF same] v by simp
  have ck: "\<exists>e. entry_of r i = Some e \<and> re_kind e = KComponent" if "i \<in> set comps" for i
    using that F(2) in_component_ids [OF ok] by (auto simp: cE)
  have vk: "\<exists>e. entry_of r i = Some e \<and> re_kind e = KService \<and> re_state e = Installed" if "i \<in> set svcs" for i
    using that in_list_state [OF ok] by (simp add: vE)
  have "distinct svcs"
    using ok unfolding vE ListIdsState_def ids_ok_def ids_def by (simp add: distinct_map_filter)
  moreover have "distinct comps" using F(1) by (simp add: cE)
  moreover have "set comps \<inter> set svcs = {}" using ck vk by fastforce
  ultimately show "distinct (comps @ svcs)" by simp
  show "\<exists>e. entry_of r i = Some e \<and> re_state e = Installed" if "i \<in> set (comps @ svcs)"
    using that vk by (auto simp: cE)
  show "sorted_wrt (\<lambda>a b. \<not> depends r a b) (comps @ svcs)" if "\<not> dependency_cycle r"
  proof -
    have "sorted_wrt (\<lambda>a b. \<not> depends r a b) comps" using F(4) [OF that] by (simp add: cE sorted_wrt_filter)
    moreover have "\<not> depends r a b" if "b \<in> set svcs" for a b
      using vk [OF that] depends_component [OF ok] by fastforce
    moreover have "sorted_wrt (\<lambda>a b. \<not> depends r a b) svcs"
      using calculation(2) by (simp add: sorted_wrt_iff_nth_less)
    ultimately show ?thesis by (simp add: sorted_wrt_append)
  qed
qed

lemma subseq_pairs:
  assumes "subseq hs (map (Pair h) xs)"
  shows "list_all (\<lambda>p. fst p = h) hs" "subseq (map snd hs) xs"
proof -
  have "p \<in> set (map (Pair h) xs)" if "p \<in> set hs" for p using list_emb_set [OF assms that] by blast
  then show "list_all (\<lambda>p. fst p = h) hs" unfolding list_all_iff by fastforce
  show "subseq (map snd hs) xs" using subseq_map [OF assms, of snd] by (simp add: o_def)
qed

text \<open>C29: A start calls the right hooks in the right order. Whatever other coroutines do meanwhile and
  whatever the hooks, the scheduler and the waits answer, \<open>CoStart\<close> calls only \<open>OnStart\<close>, at most
  once per object, only of objects that were installed when it collected them, and, when the
  bindings have no cycle, never the hook of an object before that of one it depends on.\<close>

theorem start_hooks_in_order:
  assumes "aw_halted w = None" and "world_ok (aw_objects w)"
  shows "\<exists>es. aw_trace (snd (run_state (CoStart E opts) w)) = aw_trace w @ es \<and>
    list_all (\<lambda>p. fst p = OnStart) (hooks_of es) \<and> distinct (map snd (hooks_of es)) \<and>
    (\<forall>i \<in> set (map snd (hooks_of es)). \<exists>e. entry_of (transition_registry E w) i = Some e \<and> re_state e = Installed) \<and>
    (\<not> dependency_cycle (transition_registry E w) \<longrightarrow>
       sorted_wrt (\<lambda>i j. \<not> depends (transition_registry E w) i j) (map snd (hooks_of es)))"
  unfolding CoStart_def
proof (rule co_entry_trace)
  let ?r = "transition_registry E w"
  obtain es where es: "aw_trace (snd (run_state (StartImpl E opts) w)) = aw_trace w @ es"
    "hooks_of es = [] \<or> (\<exists>comps svcs now r. start_lists now ?r = (Some (comps, svcs), r) \<and>
       subseq (hooks_of es) (map (Pair OnStart) (comps @ svcs)))"
    using StartImpl_calls [OF assms(1)] by blast
  have ok: "ids_ok ?r" by (rule transition_world_ok [OF assms(2)])
  show "\<exists>es. aw_trace (snd (run_state (StartImpl E opts) w)) = aw_trace w @ es \<and>
      list_all (\<lambda>p. fst p = OnStart) (hooks_of es) \<and> distinct (map snd (hooks_of es)) \<and>
      (\<forall>i \<in> set (map snd (hooks_of es)). \<exists>e. entry_of ?r i = Some e \<and> re_state e = Installed) \<and>
      (\<not> dependency_cycle ?r \<longrightarrow> sorted_wrt (\<lambda>i j. \<not> depends ?r i j) (map snd (hooks_of es)))"
    using es(2)
  proof
    assume "hooks_of es = []"
    then show ?thesis using es(1) by (intro exI [of _ es]) simp
  next
    assume "\<exists>comps svcs now r. start_lists now ?r = (Some (comps, svcs), r) \<and>
       subseq (hooks_of es) (map (Pair OnStart) (comps @ svcs))"
    then obtain comps svcs now r where S: "start_lists now ?r = (Some (comps, svcs), r)"
      and sub: "subseq (hooks_of es) (map (Pair OnStart) (comps @ svcs))" by blast
    note F = start_lists_facts [OF ok S] and P = subseq_pairs [OF sub]
    have m: "i \<in> set (comps @ svcs)" if "i \<in> set (map snd (hooks_of es))" for i
      using list_emb_set [OF P(2) that] by blast
    show ?thesis
    proof (intro exI [of _ es] conjI ballI impI)
      show "distinct (map snd (hooks_of es))" by (rule distinct_subseq [OF P(2) F(1)])
      show "\<exists>e. entry_of ?r i = Some e \<and> re_state e = Installed" if "i \<in> set (map snd (hooks_of es))" for i
        by (rule F(2) [OF m [OF that]])
      show "sorted_wrt (\<lambda>i j. \<not> depends ?r i j) (map snd (hooks_of es))" if "\<not> dependency_cycle ?r"
        by (rule sorted_wrt_subseq [OF P(2) F(3) [OF that]])
    qed (use es(1) P(1) in simp_all)
  qed
qed simp

definition quiet_env :: app_env where
  "quiet_env =
     \<lparr>en_ops = (\<lambda>_. []), en_state = (\<lambda>_. None), en_hook = (\<lambda>_. HookReturn (Inr ())), en_submit = (\<lambda>_. Submitted),
      en_wait = (\<lambda>_. CoCompleted), en_rounds = (\<lambda>_. []), en_callback_throws = (\<lambda>_. False), en_now = int,
      en_coroutine = 1, en_hook_coroutine = 0\<rparr>"

definition demo_options :: AppOptions where
  "demo_options =
     \<lparr>ao_listen = None, ao_max_objects = 8, ao_max_bindings = 8, ao_max_observers = 8, ao_observer_queue_capacity = 8,
      ao_shutdown_budget = 1000, ao_lifecycle_budget = 1000\<rparr>"

definition world_with :: "obj_op list \<Rightarrow> CoAppState \<Rightarrow> app_world" where
  "world_with xs s =
     \<lparr>aw_objects = run_ops obj_step (new_world 0 demo_limits) xs, aw_state = s, aw_active = False, aw_mine = False,
      aw_self = None, aw_bound = [], aw_tick = 0, aw_trace = [], aw_halted = None\<rparr>"

definition installed_components :: "obj_op list" where
  "installed_components = demo_components @
     [OpSetState 0 ''component:0'' Installed None, OpSetState 0 ''component:1'' Installed None,
      OpSetState 0 ''component:2'' Installed None]"

text \<open>For a new application with three installed components, nothing else happening.\<close>

theorem start_hooks_in_order_witness:
  "\<exists>es. aw_trace (snd (run_state (CoStart quiet_env demo_options) (world_with installed_components AppCreated))) = es \<and>
     distinct (map snd (hooks_of es)) \<and>
     sorted_wrt (\<lambda>i j. \<not> depends (transition_registry quiet_env (world_with installed_components AppCreated)) i j)
       (map snd (hooks_of es))"
proof -
  let ?w = "world_with installed_components AppCreated"
  have h: "aw_halted ?w = None" "aw_trace ?w = []" by (simp_all add: world_with_def)
  have ok: "world_ok (aw_objects ?w)" by (simp add: world_with_def objects.inv_run)
  have "map_option snd (ComponentStartOrderLocked (transition_registry quiet_env ?w)) = Some False" by code_simp
  then have "\<not> dependency_cycle (transition_registry quiet_env ?w)" using start_order_sorted(3) by auto
  then show ?thesis using start_hooks_in_order [OF h(1) ok, of quiet_env demo_options] unfolding h(2) append_Nil by blast
qed

subsection \<open>The order of a stop\<close>





lemma set_pairs [simp]: "set (concat (map (\<lambda>i. [i, i]) xs)) = set xs"
  by auto











text \<open>
  Across the groups the dependencies do not count: an application component that uses a component
  of a service is stopped after it.
\<close>

definition scoped_dependency :: "obj_op list" where
  "scoped_dependency =
     [OpCreate KService ''s'' ''s'' AppScope [] ''S'' 1, OpCreate KComponent ''a'' ''a'' AppScope [] ''A'' 2,
      OpCreate KComponent ''b'' ''b'' ServiceScope ''service:0'' ''B'' 3, OpBind ''component:2'' ''component:1'']"

lemma scoped_dependency_stops_first:
  "stop_lists (demo_graph scoped_dependency) = ([''service:0''], [], [''component:2''], [''component:1'']) \<and>
   ''component:2'' \<in> set (deps_of (demo_graph scoped_dependency) ''component:1'')"
  by code_simp

end
