(* ===== verification/AppInstall.thy ===== *)
theory AppInstall
  imports AppLife
begin

text \<open>
  Installing, uninstalling, binding and unbinding (\<open>src/host/App.cc\<close>). A component type is its
  name. The constructor that an installation calls answers with the number of the new object or
  an exception; \<open>_AllowsComponent\<close> of a service is a parameter \<open>allows\<close> on the number of the service.
\<close>

subsection \<open>Owners and lookups\<close>

record ComponentOptions =
  co_scope :: ComponentScope
  co_owner :: "ObjectHandle option"

definition owner_in :: "ComponentScope \<Rightarrow> ObjectHandle \<Rightarrow> Registry \<Rightarrow> string result" where
  "owner_in scope h r =
     (case FindEntryLocked (h_id h) r of
        None \<Rightarrow> fail NotFound ''ComponentOptions: owner is not registered or its generation changed''
      | Some p \<Rightarrow>
          let e = rg_entries r ! p
          in if re_generation e \<noteq> h_generation h then
               fail NotFound ''ComponentOptions: owner is not registered or its generation changed''
             else if scope = ServiceScope \<and> re_kind e \<noteq> KService then
               fail InvalidArgument ''ComponentOptions: Service scope owner must be a Service''
             else if scope = ActorScope \<and> re_kind e \<noteq> KActor then
               fail InvalidArgument ''ComponentOptions: Actor scope owner must be an Actor''
             else Inr (h_id h))"

definition ValidateOwner :: "app_env \<Rightarrow> ComponentOptions \<Rightarrow> string result app" where
  "ValidateOwner E opt =
     (if co_scope opt = AppScope then
        State_Monad.return
          (if co_owner opt \<noteq> None
           then fail InvalidArgument ''ComponentOptions: App scope does not allow an explicit owner''
           else Inr [])
      else case co_owner opt of
        None \<Rightarrow>
          State_Monad.return (fail InvalidArgument ''ComponentOptions: Service/Actor scope requires an explicit owner'')
      | Some h \<Rightarrow> do {
          mine \<leftarrow> sec (\<lambda>w. (OwnsHandle h (aw_reg w), w));
          if \<not> mine then
            State_Monad.return (fail InvalidArgument ''ComponentOptions: owner handle belongs to another Registry'')
          else locked E (\<lambda>_ r. (owner_in (co_scope opt) h r, r)) })"

definition find_handle :: "(Registry \<Rightarrow> nat option) \<Rightarrow> string \<Rightarrow> Registry \<Rightarrow> ObjectHandle result" where
  "find_handle lookup msg r =
     (case lookup r of
        None \<Rightarrow> fail NotFound msg
      | Some p \<Rightarrow> Inr (MakeHandleLocked (rg_entries r ! p) r))"

definition FindService :: "app_env \<Rightarrow> string \<Rightarrow> ObjectHandle result app" where
  "FindService E s = locked E (\<lambda>_ r. (find_handle (FindByTypeNameLocked KService s) ''FindService: not found'' r, r))"

definition FindActor :: "app_env \<Rightarrow> string \<times> string \<Rightarrow> ObjectHandle result app" where
  "FindActor E i = locked E (\<lambda>_ r. (find_handle (FindActorLocked (fst i) (snd i)) ''FindActor: not found'' r, r))"

definition FindComponentImpl :: "app_env \<Rightarrow> string \<Rightarrow> string \<Rightarrow> ComponentOptions \<Rightarrow> ObjectHandle result app" where
  "FindComponentImpl E ty n opt = do {
     ow \<leftarrow> ValidateOwner E opt;
     case ow of
       Inl e \<Rightarrow> State_Monad.return (Inl e)
     | Inr i \<Rightarrow> locked E (\<lambda>_ r. (find_handle (FindComponentLocked (co_scope opt) i ty n) ''FindComponent: not found'' r, r)) }"

subsection \<open>Bind and unbind\<close>

record BindingEvent =
  be_subject :: string
  be_target :: string
  be_generation :: nat
  be_bound :: bool
  be_revision :: nat
  be_observed_at :: int

record bound_answer =
  ba_handle :: ObjectHandle
  ba_generation :: nat
  ba_subject :: nat
  ba_kind :: ObjectKind
  ba_event :: BindingEvent

text \<open>The section of \<open>_BindComponentImpl\<close>; \<open>None\<close>: the search for a cycle ran out of fuel.\<close>

definition bind_section :: "(nat \<Rightarrow> string \<Rightarrow> bool) \<Rightarrow> string \<Rightarrow> ObjectHandle \<Rightarrow> string \<Rightarrow> ComponentOptions \<Rightarrow> string
    \<Rightarrow> int \<Rightarrow> Registry \<Rightarrow> bound_answer result option \<times> Registry" where
  "bind_section allows ty subject n opt ow now r =
     (case FindEntryLocked (h_id subject) r of
        None \<Rightarrow> (Some (fail NotFound ''BindComponent: subject stale''), r)
      | Some s \<Rightarrow>
          let se = rg_entries r ! s
          in if re_generation se \<noteq> h_generation subject then (Some (fail NotFound ''BindComponent: subject stale''), r)
             else if re_kind se = KApp then
               (Some (fail InvalidArgument ''BindComponent: subject cannot be an App handle''), r)
             else if re_kind se = KService \<and> \<not> allows (re_object se) ty then
               (Some (fail InvalidArgument (''BindComponent: component type is not declared in this Service'' @ apostrophe @ ''s allowed set'')), r)
             else
               (case FindComponentLocked (co_scope opt) ow ty n r of
                  None \<Rightarrow> (Some (fail NotFound ''BindComponent: component not found''), r)
                | Some c \<Rightarrow>
                    let ce = rg_entries r ! c
                    in (case (if re_kind se = KComponent then WouldFormCycleLocked (h_id subject) (re_id ce) r else Some False) of
                          None \<Rightarrow> (None, r)
                        | Some True \<Rightarrow> (Some (fail InvalidArgument ''BindComponent: dependency would form a cycle''), r)
                        | Some False \<Rightarrow>
                            (case BindLocked c s (h_id subject) r of
                               (Inl e, r1) \<Rightarrow> (Some (Inl e), r1)
                             | (Inr g, r1) \<Rightarrow>
                                 (Some (Inr
                                   \<lparr>ba_handle = MakeHandleLocked ce r1, ba_generation = g, ba_subject = re_object se, ba_kind = re_kind se,
                                    ba_event = \<lparr>be_subject = h_id subject, be_target = re_id ce, be_generation = re_generation ce,
                                      be_bound = True, be_revision = re_revision ce, be_observed_at = now\<rparr>\<rparr>), r1)))))"

text \<open>The hook \<open>OnBindingChanged\<close> of the subject; only its exception matters.\<close>

definition binding_changed :: "app_env \<Rightarrow> string \<Rightarrow> string \<Rightarrow> unit app" where
  "binding_changed E i operation = do {
     outside E;
     out \<leftarrow> call_hook E OnBindingChanged i;
     (if thrown out = None then State_Monad.return ()
      else record_failure E (failure_of i operation ''binding_changed_hook'' InternalError ''OnBindingChanged threw'')) }"

definition BindComponentImpl :: "app_env \<Rightarrow> (nat \<Rightarrow> string \<Rightarrow> bool) \<Rightarrow> string \<Rightarrow> ObjectHandle \<Rightarrow> string \<Rightarrow> ComponentOptions
    \<Rightarrow> (ObjectHandle \<times> nat) result app" where
  "BindComponentImpl E allows ty subject n opt = do {
     mine \<leftarrow> sec (\<lambda>w. (OwnsHandle subject (aw_reg w), w));
     if \<not> mine then
       State_Monad.return (fail InvalidArgument ''BindComponent: subject handle belongs to another Registry'')
     else do {
       ow \<leftarrow> ValidateOwner E opt;
       case ow of
         Inl e \<Rightarrow> State_Monad.return (Inl e)
       | Inr i \<Rightarrow> do {
           ans \<leftarrow> locked E (bind_section allows ty subject n opt i);
           case ans of
             None \<Rightarrow> do { halt_with WaitsForever; State_Monad.return (fail InternalError []) }
           | Some (Inl e) \<Rightarrow> State_Monad.return (Inl e)
           | Some (Inr a) \<Rightarrow> do {
               on_bound (ba_subject a) (BindComponentEntry ty n (ba_handle a) (ba_generation a));
               binding_changed E (h_id subject) ''bind'';
               State_Monad.return (Inr (ba_handle a, ba_generation a)) } } } }"

text \<open>An edge left by an earlier unbinding that timed out is awaited again.\<close>

definition unbind_section :: "string \<Rightarrow> ObjectHandle \<Rightarrow> string \<Rightarrow> ComponentOptions \<Rightarrow> string \<Rightarrow> Registry
    \<Rightarrow> (string \<times> nat) result \<times> Registry" where
  "unbind_section ty subject n opt ow r =
     (case FindComponentLocked (co_scope opt) ow ty n r of
        None \<Rightarrow> (fail NotFound ''UnbindComponent: component not found'', r)
      | Some c \<Rightarrow>
          (case BeginUnbindLocked c (h_id subject) r of
             (Inr g, r1) \<Rightarrow> (Inr (re_id (rg_entries r ! c), g), r1)
           | (Inl e, r1) \<Rightarrow>
               if err_code e = NotFound
               then (case FindRetiringBindingLocked c (h_id subject) r1 of
                       Some g \<Rightarrow> (Inr (re_id (rg_entries r ! c), g), r1)
                     | None \<Rightarrow> (Inl e, r1))
               else (Inl e, r1)))"

definition erase_section :: "string \<Rightarrow> string \<Rightarrow> nat \<Rightarrow> Registry \<Rightarrow> nat option \<times> Registry" where
  "erase_section c s g r =
     (let r1 = (case FindEntryLocked c r of None \<Rightarrow> r | Some p \<Rightarrow> EraseBindingLocked p s g r)
      in (map_option (\<lambda>p. re_object (rg_entries r1 ! p)) (FindEntryLocked s r1), r1))"

definition UnbindComponentImpl :: "app_env \<Rightarrow> string \<Rightarrow> ObjectHandle \<Rightarrow> string \<Rightarrow> ComponentOptions \<Rightarrow> unit result app" where
  "UnbindComponentImpl E ty subject n opt = do {
     mine \<leftarrow> sec (\<lambda>w. (OwnsHandle subject (aw_reg w), w));
     if \<not> mine then
       State_Monad.return (fail InvalidArgument ''UnbindComponent: subject handle belongs to another Registry'')
     else do {
       ow \<leftarrow> ValidateOwner E opt;
       case ow of
         Inl e \<Rightarrow> State_Monad.return (Inl e)
       | Inr i \<Rightarrow> do {
           edge \<leftarrow> locked E (\<lambda>_. unbind_section ty subject n opt i);
           case edge of
             Inl e \<Rightarrow> State_Monad.return (Inl e)
           | Inr (c, g) \<Rightarrow> do {
               r \<leftarrow> WaitBindingDrained E c (h_id subject) g;
               case r of
                 Inl e \<Rightarrow> do {
                   record_failure E (failure_of c ''unbind'' ''borrow_drain'' (err_code e) (err_message e));
                   State_Monad.return (Inl e) }
               | Inr _ \<Rightarrow> do {
                   ob \<leftarrow> locked E (\<lambda>_. erase_section c (h_id subject) g);
                   case ob of
                     None \<Rightarrow> State_Monad.return (Inr ())
                   | Some s \<Rightarrow> do {
                       on_bound s (UnbindComponentEntry ty n);
                       binding_changed E (h_id subject) ''unbind'';
                       State_Monad.return (Inr ()) } } } } } }"

subsection \<open>Components\<close>

datatype ctor_outcome = Constructed nat | CtorThrew string | CtorThrewOther

definition create_section :: "ObjectKind \<Rightarrow> string \<Rightarrow> string \<Rightarrow> ComponentScope \<Rightarrow> string \<Rightarrow> string \<Rightarrow> nat \<Rightarrow> int \<Rightarrow> Registry
    \<Rightarrow> (string \<times> ObjectHandle \<times> pending_event list) result \<times> Registry" where
  "create_section k tn n sc ow ty ob now r =
     (case CreateEntryLocked k tn n sc ow ty ob r of
        (Inl e, r1) \<Rightarrow> (Inl e, r1)
      | (Inr p, r1) \<Rightarrow>
          let q = SetStateLocked now p Installing None r1
          in (Inr (re_id (rg_entries r1 ! p), MakeHandleLocked (rg_entries r1 ! p) r1, fst q), snd q))"

text \<open>Installed; when the application runs, started at once.\<close>

definition finish_install :: "app_env \<Rightarrow> (string \<Rightarrow> unit result app) \<Rightarrow> string \<Rightarrow> unit result \<Rightarrow> unit result app" where
  "finish_install E start i r =
     (case r of
        Inl e \<Rightarrow> do {
          SetStateAndDispatch E i InstallFailed (Some (object_error e ''install''));
          State_Monad.return (Inl e) }
      | Inr _ \<Rightarrow> do {
          SetStateAndDispatch E i Installed None;
          s \<leftarrow> load_state E;
          if s \<noteq> AppRunning then State_Monad.return (Inr ())
          else do {
            SetStateAndDispatch E i Starting None;
            r2 \<leftarrow> start i;
            case r2 of
              Inl e \<Rightarrow> do {
                SetStateAndDispatch E i Failed (Some (object_error e ''start''));
                State_Monad.return (Inl e) }
            | Inr _ \<Rightarrow> do {
                SetStateAndDispatch E i Running None;
                State_Monad.return (Inr ()) } } })"

definition InstallComponentImpl :: "app_env \<Rightarrow> string \<Rightarrow> string \<Rightarrow> ComponentOptions \<Rightarrow> ctor_outcome \<Rightarrow> unit result app" where
  "InstallComponentImpl E ty n opt ctor = do {
     s \<leftarrow> load_state E;
     if s = AppStopped then State_Monad.return (fail Closed ''InstallComponent: app stopped'')
     else if n = [] then State_Monad.return (fail InvalidArgument ''InstallComponent: empty name'')
     else do {
       ow \<leftarrow> ValidateOwner E opt;
       case ow of
         Inl e \<Rightarrow> State_Monad.return (Inl e)
       | Inr i \<Rightarrow>
           (case ctor of
              CtorThrew m \<Rightarrow> State_Monad.return (fail InternalError (''InstallComponent: ctor threw: '' @ m))
            | CtorThrewOther \<Rightarrow> State_Monad.return (fail InternalError ''InstallComponent: ctor threw (non-std)'')
            | Constructed ob \<Rightarrow> do {
                c \<leftarrow> locked E (\<lambda>now r.
                  if FindComponentLocked (co_scope opt) i ty n r \<noteq> None
                  then (fail InvalidArgument (''InstallComponent: duplicate component '' @ quoted n), r)
                  else create_section KComponent ty n (co_scope opt) i ty ob now r);
                case c of
                  Inl e \<Rightarrow> State_Monad.return (Inl e)
                | Inr (cid, _, evs) \<Rightarrow> do {
                    DispatchEvents E evs;
                    r \<leftarrow> RunComponentHook E cid OnInstall ''install'';
                    finish_install E (\<lambda>i. RunComponentHookCo E i OnStart ''start'') cid r } }) } }"

definition begin_uninstall :: "string \<Rightarrow> int \<Rightarrow> Registry \<Rightarrow> pending_event list result \<times> Registry" where
  "begin_uninstall i now r =
     (case BeginDestroyLocked i r of
        (Inl e, r1) \<Rightarrow> (Inl e, r1)
      | (Inr p, r1) \<Rightarrow>
          let q = SetStateLocked now p Uninstalling None (upd_entry p (\<lambda>e. e\<lparr>re_destroy_phase := ''uninstall''\<rparr>) r1)
          in (Inr (fst q), snd q))"

text \<open>From the closing of the object on; the argument awaits the borrows.\<close>

definition uninstall_rest :: "app_env \<Rightarrow> (unit result app) \<Rightarrow> (string \<Rightarrow> hook \<Rightarrow> string \<Rightarrow> unit result app)
    \<Rightarrow> (string \<Rightarrow> hook \<Rightarrow> string \<Rightarrow> unit app) \<Rightarrow> string \<Rightarrow> unit result app" where
  "uninstall_rest E drain run run_void i = do {
     r1 \<leftarrow> drain;
     case r1 of
       Inl e \<Rightarrow> do {
         AbortDestroy E i ''uninstall'' ''borrow_drain'' e UninstallIncomplete;
         State_Monad.return (Inl e) }
     | Inr _ \<Rightarrow> do {
         r2 \<leftarrow> run i OnStop ''stop'';
         case r2 of
           Inl e \<Rightarrow> do {
             AbortDestroy E i ''uninstall'' ''onstop'' e UninstallIncomplete;
             State_Monad.return (Inl e) }
         | Inr _ \<Rightarrow> do {
             busy \<leftarrow> hooks_busy E i;
             if busy then do {
               AbortDestroy E i ''uninstall'' ''hook_in_flight''
                 (MakeError TimedOut ''uninstall: prior hook still in flight'') UninstallIncomplete;
               State_Monad.return (fail TimedOut ''uninstall: prior hook still in flight'') }
             else do {
               run_void i OnUninstall ''uninstall'';
               fin \<leftarrow> locked E (finish_entry i);
               DrainInactiveObservers E;
               DispatchEvents E (snd fin);
               release_owner (fst fin);
               State_Monad.return (Inr ()) } } } }"

definition uninstall_section :: "string \<Rightarrow> string \<Rightarrow> ComponentOptions \<Rightarrow> string \<Rightarrow> int \<Rightarrow> Registry
    \<Rightarrow> (string \<times> pending_event list) result \<times> Registry" where
  "uninstall_section ty n opt ow now r =
     (case FindComponentLocked (co_scope opt) ow ty n r of
        None \<Rightarrow> (fail NotFound ''UninstallComponent: not found'', r)
      | Some p \<Rightarrow>
          (case begin_uninstall (re_id (rg_entries r ! p)) now r of
             (Inl e, r1) \<Rightarrow> (Inl e, r1)
           | (Inr evs, r1) \<Rightarrow> (Inr (re_id (rg_entries r ! p), evs), r1)))"

definition UninstallComponentImpl :: "app_env \<Rightarrow> string \<Rightarrow> string \<Rightarrow> ComponentOptions \<Rightarrow> unit result app" where
  "UninstallComponentImpl E ty n opt = do {
     ow \<leftarrow> ValidateOwner E opt;
     case ow of
       Inl e \<Rightarrow> State_Monad.return (Inl e)
     | Inr ow \<Rightarrow> do {
         b \<leftarrow> locked E (uninstall_section ty n opt ow);
         case b of
           Inl e \<Rightarrow> State_Monad.return (Inl e)
         | Inr (i, evs) \<Rightarrow> do {
             DispatchEvents E evs;
             uninstall_rest E (WaitBorrowsDrained E i) (RunComponentHookCo E) (RunComponentVoidHook E) i } } }"

subsection \<open>Services\<close>

type_synonym binding_decl = "string \<times> string"

text \<open>The declared bindings, one after the other; at a failure those made are unbound again.\<close>

fun apply_bindings :: "app_env \<Rightarrow> (nat \<Rightarrow> string \<Rightarrow> bool) \<Rightarrow> ObjectHandle \<Rightarrow> nat \<Rightarrow> binding_decl list \<Rightarrow> binding_decl list
    \<Rightarrow> unit result app" where
  "apply_bindings E allows h svc made [] = State_Monad.return (Inr ())"
| "apply_bindings E allows h svc made ((ty, n) # ds) = do {
     r \<leftarrow> (if \<not> allows svc ty then
         State_Monad.return (fail InvalidArgument (''BindComponent: component type is not declared in this Service'' @ apostrophe @ ''s allowed set''))
       else BindComponentImpl E allows ty h n \<lparr>co_scope = AppScope, co_owner = None\<rparr>);
     case r of
       Inl e \<Rightarrow> do {
         for_each made (\<lambda>(ty, n). do {
           UnbindComponentImpl E ty h n \<lparr>co_scope = AppScope, co_owner = None\<rparr>;
           State_Monad.return () });
         State_Monad.return (Inl e) }
     | Inr (hc, g) \<Rightarrow> do {
         on_bound svc (BindComponentEntry ty n hc g);
         apply_bindings E allows h svc (made @ [(ty, n)]) ds } }"

definition ApplyServiceBindings :: "app_env \<Rightarrow> (nat \<Rightarrow> string \<Rightarrow> bool) \<Rightarrow> ObjectHandle \<Rightarrow> binding_decl list \<Rightarrow> unit result app" where
  "ApplyServiceBindings E allows h ds = do {
     ob \<leftarrow> owner_of E (h_id h);
     case ob of
       None \<Rightarrow> State_Monad.return (fail InternalError ''_ApplyServiceBindings: service entry vanished'')
     | Some svc \<Rightarrow>
         if svc = 0 then State_Monad.return (fail InternalError ''_ApplyServiceBindings: service entry vanished'')
         else apply_bindings E allows h svc [] ds }"

definition InstallServiceImpl :: "app_env \<Rightarrow> (nat \<Rightarrow> string \<Rightarrow> bool) \<Rightarrow> string \<Rightarrow> string \<Rightarrow> ctor_outcome \<Rightarrow> binding_decl list
    \<Rightarrow> unit result app" where
  "InstallServiceImpl E allows ty n ctor ds = do {
     s \<leftarrow> load_state E;
     if s = AppStopped then State_Monad.return (fail Closed ''InstallService: app stopped'')
     else case ctor of
       CtorThrew m \<Rightarrow> State_Monad.return (fail InternalError (''InstallService: ctor threw: '' @ m))
     | CtorThrewOther \<Rightarrow> State_Monad.return (fail InternalError ''InstallService: ctor threw (non-std)'')
     | Constructed ob \<Rightarrow> do {
         c \<leftarrow> locked E (\<lambda>now r.
           if FindByTypeNameLocked KService n r \<noteq> None
           then (fail InvalidArgument (''InstallService: duplicate service '' @ quoted n), r)
           else create_section KService n n AppScope [] ty ob now r);
         case c of
           Inl e \<Rightarrow> State_Monad.return (Inl e)
         | Inr (i, h, evs) \<Rightarrow> do {
             DispatchEvents E evs;
             r1 \<leftarrow> ApplyServiceBindings E allows h ds;
             case r1 of
               Inl e \<Rightarrow> do {
                 SetStateAndDispatch E i InstallFailed (Some (object_error e ''install''));
                 State_Monad.return (Inl e) }
             | Inr _ \<Rightarrow> do {
                 r2 \<leftarrow> RunServiceHook E i OnInstall ''install'';
                 finish_install E (\<lambda>i. RunServiceHookCo E i OnStart ''start'') i r2 } } } }"

text \<open>The edges of a service in one component: the active one is closed, older retiring ones are kept.\<close>

definition close_edge :: "string \<Rightarrow> string \<Rightarrow> (string \<times> nat) list \<times> Registry \<Rightarrow> (string \<times> nat) list \<times> Registry" where
  "close_edge i c acc =
     (case acc of (es, r) \<Rightarrow>
        (case FindEntryLocked c r of
           None \<Rightarrow> (es, r)
         | Some x \<Rightarrow>
             let bs = filter (\<lambda>b. b_subject b = i) (re_bindings (rg_entries r ! x));
                 old = map (\<lambda>b. (c, b_generation b)) (filter b_retiring bs)
             in if list_ex (\<lambda>b. \<not> b_retiring b) bs
                then (case BeginUnbindLocked x i r of
                        (Inr g, r1) \<Rightarrow> (es @ (c, g) # old, r1)
                      | (Inl _, r1) \<Rightarrow> (es @ old, r1))
                else (es @ old, r)))"

definition close_edges :: "string \<Rightarrow> Registry \<Rightarrow> (string \<times> nat) list \<times> Registry" where
  "close_edges i r = fold (close_edge i) (ListIdsByKind KComponent r) ([], r)"

definition UninstallServiceImpl :: "app_env \<Rightarrow> string \<Rightarrow> unit result app" where
  "UninstallServiceImpl E n = do {
     b \<leftarrow> locked E (\<lambda>now r.
       case FindByTypeNameLocked KService n r of
         None \<Rightarrow> (fail NotFound ''UninstallService: not found'', r)
       | Some p \<Rightarrow>
           (case begin_uninstall (re_id (rg_entries r ! p)) now r of
              (Inl e, r1) \<Rightarrow> (Inl e, r1)
            | (Inr evs, r1) \<Rightarrow> (Inr (re_id (rg_entries r ! p), evs), r1)));
     case b of
       Inl e \<Rightarrow> State_Monad.return (Inl e)
     | Inr (i, evs) \<Rightarrow> do {
         DispatchEvents E evs;
         closed \<leftarrow> locked E (\<lambda>_ r. case close_edges i r of
             (es, r1) \<Rightarrow> ((es, map_option (\<lambda>p. re_object (rg_entries r1 ! p)) (FindEntryLocked i r1)), r1));
         (case snd closed of None \<Rightarrow> State_Monad.return () | Some ob \<Rightarrow> on_bound ob (\<lambda>_. []));
         uninstall_rest E
           (do {
              r \<leftarrow> for_each_ok (fst closed) (\<lambda>(c, g). WaitBindingDrained E c i g);
              case r of
                Inl e \<Rightarrow> State_Monad.return (Inl e)
              | Inr _ \<Rightarrow> do {
                  locked E (\<lambda>_ r. ((), erase_edges i (map fst (fst closed)) r));
                  State_Monad.return (Inr ()) } })
           (RunServiceHookCo E) (RunServiceVoidHook E) i } }"

subsection \<open>Actor types\<close>

definition InstallActorTypeImpl :: "app_env \<Rightarrow> string \<Rightarrow> string \<Rightarrow> unit result app" where
  "InstallActorTypeImpl E ty n = do {
     s \<leftarrow> load_state E;
     if s = AppStopped then State_Monad.return (fail Closed ''InstallActor: app stopped'')
     else do {
       c \<leftarrow> locked E (\<lambda>now r.
         if FindByTypeNameLocked KActor n r \<noteq> None
         then (fail InvalidArgument (''InstallActor: duplicate actor type '' @ quoted n), r)
         else (case CreateEntryLocked KActor n [] AppScope [] ty 0 r of
                 (Inl e, r1) \<Rightarrow> (Inl e, r1)
               | (Inr p, r1) \<Rightarrow> let q = SetStateLocked now p Installed None r1 in (Inr (fst q), snd q)));
       case c of
         Inl e \<Rightarrow> State_Monad.return (Inl e)
       | Inr evs \<Rightarrow> do {
           DispatchEvents E evs;
           State_Monad.return (Inr ()) } } }"

definition begin_uninstall_actor :: "string \<Rightarrow> int \<Rightarrow> Registry \<Rightarrow> (string \<times> pending_event list) result \<times> Registry" where
  "begin_uninstall_actor n now r =
     (case FindByTypeNameLocked KActor n r of
        None \<Rightarrow> (fail NotFound ''UninstallActor: type not registered'', r)
      | Some p \<Rightarrow>
          let i = re_id (rg_entries r ! p)
          in if list_ex (\<lambda>e. re_kind e = KActor \<and> re_id e \<noteq> i \<and> re_type_name e = n \<and> re_name e \<noteq> []) (rg_entries r)
             then (fail Overloaded ''UninstallActor: live actor instances remain'', r)
             else (case BeginDestroyLocked i r of
                     (Inl e, r1) \<Rightarrow> (Inl e, r1)
                   | (Inr q, r1) \<Rightarrow> let ev = SetStateLocked now q Uninstalling None r1 in (Inr (i, fst ev), snd ev)))"

definition UninstallActorTypeImpl :: "app_env \<Rightarrow> string \<Rightarrow> unit result app" where
  "UninstallActorTypeImpl E n = do {
     b \<leftarrow> locked E (begin_uninstall_actor n);
     case b of
       Inl e \<Rightarrow> State_Monad.return (Inl e)
     | Inr (i, evs) \<Rightarrow> do {
         DispatchEvents E evs;
         fin \<leftarrow> locked E (\<lambda>now r. case FindEntryLocked i r of
             None \<Rightarrow> ((None, []), r)
           | Some p \<Rightarrow> FinishDestroyLocked now p (EndOpLocked p (upd_entry p (\<lambda>e. e\<lparr>re_destroy_phase := []\<rparr>) r)));
         DispatchEvents E (snd fin);
         release_owner (fst fin);
         State_Monad.return (Inr ()) } }"

end
