(* ===== verification/AppEntry.thy ===== *)
theory AppEntry
  imports AppInstall
begin

text \<open>
  The surface of the application: its construction, the \<open>Co*\<close> entry points (\<open>App.hpp\<close>, \<open>App.cc\<close>),
  the options they validate (\<open>Object.cc\<close>), what an object and its handles offer (\<open>Service.cc\<close>,
  \<open>Service.hpp\<close>, \<open>Component.hpp\<close>, \<open>Actor.hpp\<close>, \<open>Object.hpp\<close>) and the request for a shutdown.
  The last subsection puts the calls together: an application is a sequence of calls, each in an
  environment of its own.
\<close>

subsection \<open>Options\<close>

record CoServiceOptions =
  cs_max_inflight :: nat
  cs_max_serial_keys :: nat
  cs_serial_queue_capacity :: nat
  cs_bindings :: "binding_decl list"

definition CoServiceOptionsValidate :: "CoServiceOptions \<Rightarrow> unit result" where
  "CoServiceOptionsValidate o' =
     (if cs_max_inflight o' = 0
      then fail InvalidArgument ''ServiceOptions: max_inflight must be a finite positive value'' else Inr ())"

record ActorOptions =
  at_max_actors :: nat
  at_mailbox_capacity :: nat
  at_aggregate_queue_capacity :: nat

definition ActorOptionsValidate :: "ActorOptions \<Rightarrow> unit result" where
  "ActorOptionsValidate o' =
     (if at_max_actors o' = 0
      then fail InvalidArgument ''ActorOptions: max_actors must be a finite positive value''
      else if at_mailbox_capacity o' = 0
      then fail InvalidArgument ''ActorOptions: mailbox_capacity must be a finite positive value''
      else if at_aggregate_queue_capacity o' = 0
      then fail InvalidArgument ''ActorOptions: aggregate_queue_capacity must be a finite positive value''
      else Inr ())"

subsection \<open>Construction\<close>

definition registry_limits :: "AppOptions \<Rightarrow> Limits" where
  "registry_limits a = \<lparr>lim_objects = ao_max_objects a, lim_bindings = ao_max_bindings a, lim_observers = ao_max_observers a\<rparr>"

definition blank_app :: "nat \<Rightarrow> AppOptions \<Rightarrow> app_world" where
  "blank_app self opts =
     \<lparr>aw_objects = new_world self (registry_limits opts), aw_state = AppCreated, aw_active = False, aw_mine = False,
      aw_self = None, aw_bound = [], aw_tick = 0, aw_trace = [], aw_halted = None\<rparr>"

definition RegisterAppObject :: "app_env \<Rightarrow> unit result app" where
  "RegisterAppObject E = do {
     c \<leftarrow> locked E (\<lambda>now r.
       case CreateEntryLocked KApp ''app'' [] AppScope [] ''CoApp'' 0 r of
         (Inl e, r1) \<Rightarrow> (Inl e, r1)
       | (Inr p, r1) \<Rightarrow>
           let q = SetStateLocked now p Running None r1
           in (Inr (fst q, MakeHandleLocked (rg_entries (snd q) ! p) (snd q)), snd q));
     case c of
       Inl e \<Rightarrow> State_Monad.return (Inl e)
     | Inr (evs, h) \<Rightarrow> do {
         sec (\<lambda>w. ((), w\<lparr>aw_self := Some h\<rparr>));
         DispatchEvents E evs;
         State_Monad.return (Inr ()) } }"

text \<open>\<open>None\<close>: the constructor throws. Outside a coroutine it refuses at once.\<close>

definition construct_app :: "app_env \<Rightarrow> nat \<Rightarrow> AppOptions \<Rightarrow> app_world option" where
  "construct_app E self opts =
     (if en_coroutine E = 0 then None
      else case run_state (RegisterAppObject E) (blank_app self opts) of
          (Inl _, _) \<Rightarrow> None
        | (Inr _, w) \<Rightarrow> Some w)"

subsection \<open>What an object offers\<close>

definition HandleInfo :: "int \<Rightarrow> Registry option \<Rightarrow> ObjectHandle \<Rightarrow> ObjectInfo result" where
  "HandleInfo now reg h =
     (case reg of None \<Rightarrow> fail Closed ''ObjectHandle: registry closed'' | Some r \<Rightarrow> Info now h r)"

definition HandleMailBox :: "Registry option \<Rightarrow> ObjectHandle \<Rightarrow> AppObjectAddress result" where
  "HandleMailBox reg h =
     (case reg of None \<Rightarrow> fail Closed ''ObjectHandle: registry closed'' | Some r \<Rightarrow> MailBoxOf h r)"

definition HandleIsValid :: "Registry option \<Rightarrow> ObjectHandle \<Rightarrow> bool" where
  "HandleIsValid reg h = (case reg of None \<Rightarrow> False | Some r \<Rightarrow> HandleValid h r)"

text \<open>The snapshot of an object that is gone keeps its identity and is \<open>Invalidated\<close>.\<close>

definition invalidated_info :: "int \<Rightarrow> ObjectHandle \<Rightarrow> ObjectInfo" where
  "invalidated_info now h =
     \<lparr>oi_id = h_id h, oi_generation = h_generation h, oi_kind = KApp, oi_type_name = [], oi_name = [],
      oi_scope = AppScope, oi_owner_id = [], oi_state = Invalidated, oi_last_error = None, oi_observed_at = now\<rparr>"

definition ObjectBaseInfo :: "int \<Rightarrow> Registry option \<Rightarrow> ObjectHandle \<Rightarrow> ObjectInfo" where
  "ObjectBaseInfo now reg h = (case HandleInfo now reg h of Inr i \<Rightarrow> i | Inl _ \<Rightarrow> invalidated_info now h)"

definition ActorInfoOf :: "int \<Rightarrow> Registry option \<Rightarrow> ObjectHandle \<Rightarrow> string \<times> string \<Rightarrow> AppObjectAddress \<Rightarrow> ActorInfo" where
  "ActorInfoOf now reg h i box = \<lparr>ai_info = ObjectBaseInfo now reg h, ai_actor_id = i, ai_mailbox = box\<rparr>"

text \<open>
  \<open>GetComponent\<close> of the object number \<open>ob\<close>: a component handle with the generation of its binding.
  Only services have a set of allowed types, checked at run time; for the others every type is allowed.
\<close>

definition GetComponent :: "app_env \<Rightarrow> (string \<Rightarrow> bool) \<Rightarrow> nat \<Rightarrow> string \<Rightarrow> string \<Rightarrow> (ObjectHandle \<times> nat) result app" where
  "GetComponent E allowed ob ty n =
     (if en_coroutine E = 0 then
        State_Monad.return (fail InvalidContext ''GetComponent requires coroutine context'')
      else if \<not> allowed ty then
        State_Monad.return (fail InvalidArgument
          (''GetComponent: component type is not declared in this Service'' @ apostrophe @ ''s allowed set''))
      else do {
        outside E;
        b \<leftarrow> sec (\<lambda>w. (FindBoundCopy ty n (bound_of ob w), w));
        State_Monad.return
          (case b of
             None \<Rightarrow> fail NotFound (''GetComponent: component '' @ quoted n @ '' is not bound'')
           | Some x \<Rightarrow> Inr (bc_object x, bc_generation x)) })"

text \<open>\<open>ComponentHandle::Borrow\<close>: the lease lives until it is returned; a null object is refused.\<close>

definition Borrow :: "app_env \<Rightarrow> ObjectHandle \<Rightarrow> nat \<Rightarrow> nat result app" where
  "Borrow E h g =
     (if en_coroutine E = 0 then State_Monad.return (fail InvalidContext ''Borrow requires coroutine context'')
      else do {
        outside E;
        sec (\<lambda>w.
          case BorrowImpl h g False (aw_reg w) of
            (Inl e, r) \<Rightarrow> (Inl e, set_reg r w)
          | (Inr (l, ob), r) \<Rightarrow>
              if ob = 0 then
                (fail InternalError ''MakeComponentBorrow: null lease/obj'',
                 set_reg (ReleaseBorrow (bl_component l) (bl_subject l) (bl_generation l) r) w)
              else (Inr ob, w\<lparr>aw_objects := \<lparr>w_reg = r, w_leases = w_leases (aw_objects w) @ [l]\<rparr>\<rparr>)) })"

definition ReturnBorrow :: "app_env \<Rightarrow> nat \<Rightarrow> unit app" where
  "ReturnBorrow E k = do { outside E; apply_ops [OpRelease k] }"

subsection \<open>Observers\<close>

definition CoObserve :: "app_env \<Rightarrow> ObjectHandle \<Rightarrow> ObjectHandle \<Rightarrow> nat option \<Rightarrow> nat result app" where
  "CoObserve E obs tgt cb = co_entry E (locked E (\<lambda>_. Observe obs tgt cb))"

text \<open>Mark, wait without a deadline until no callback of the token runs, erase. Token 0 is empty.\<close>

definition RevokeObserver :: "app_env \<Rightarrow> nat \<Rightarrow> unit app" where
  "RevokeObserver E t = do {
     found \<leftarrow> locked E (\<lambda>_. revoke_mark t);
     if \<not> found then State_Monad.return ()
     else do {
       ready \<leftarrow> locked E (\<lambda>_ r. (revoke_ready t r, r));
       if ready then locked E (\<lambda>_ r. ((), revoke_erase t r)) else halt_with WaitsForever } }"

definition TokenRevoke :: "app_env \<Rightarrow> nat \<Rightarrow> unit app" where
  "TokenRevoke E t = (if t = 0 then State_Monad.return () else RevokeObserver E t)"

subsection \<open>Entry points\<close>

definition CoInstallComponent :: "app_env \<Rightarrow> string \<Rightarrow> string \<Rightarrow> ComponentOptions \<Rightarrow> ctor_outcome \<Rightarrow> unit result app" where
  "CoInstallComponent E ty n opt ctor = co_entry E (InstallComponentImpl E ty n opt ctor)"

definition CoUninstallComponent :: "app_env \<Rightarrow> string \<Rightarrow> string \<Rightarrow> ComponentOptions \<Rightarrow> unit result app" where
  "CoUninstallComponent E ty n opt = co_entry E (UninstallComponentImpl E ty n opt)"

text \<open>The static name of a service or actor type is empty when the type declares none.\<close>

definition CoInstallService :: "app_env \<Rightarrow> (nat \<Rightarrow> string \<Rightarrow> bool) \<Rightarrow> string \<Rightarrow> string \<Rightarrow> CoServiceOptions \<Rightarrow> ctor_outcome
    \<Rightarrow> unit result app" where
  "CoInstallService E allows ty n opts ctor = co_entry E
     (case CoServiceOptionsValidate opts of
        Inl e \<Rightarrow> State_Monad.return (Inl e)
      | Inr _ \<Rightarrow>
          if n = [] then
            State_Monad.return (fail InvalidArgument ''CoInstallService: S must declare a non-empty kServiceName'')
          else InstallServiceImpl E allows ty n ctor (cs_bindings opts))"

definition CoUninstallService :: "app_env \<Rightarrow> string \<Rightarrow> unit result app" where
  "CoUninstallService E n = co_entry E
     (if n = [] then State_Monad.return (fail InvalidArgument ''CoUninstallService: S must declare kServiceName'')
      else UninstallServiceImpl E n)"

definition CoInstallActor :: "app_env \<Rightarrow> string \<Rightarrow> string \<Rightarrow> ActorOptions \<Rightarrow> unit result app" where
  "CoInstallActor E ty n opts = co_entry E
     (case ActorOptionsValidate opts of
        Inl e \<Rightarrow> State_Monad.return (Inl e)
      | Inr _ \<Rightarrow>
          if n = [] then
            State_Monad.return (fail InvalidArgument ''CoInstallActor: A must declare a non-empty kActorType'')
          else InstallActorTypeImpl E ty n)"

definition CoUninstallActor :: "app_env \<Rightarrow> string \<Rightarrow> unit result app" where
  "CoUninstallActor E n = co_entry E
     (if n = [] then State_Monad.return (fail InvalidArgument ''CoUninstallActor: A must declare kActorType'')
      else UninstallActorTypeImpl E n)"

definition CoBindComponent :: "app_env \<Rightarrow> (nat \<Rightarrow> string \<Rightarrow> bool) \<Rightarrow> string \<Rightarrow> ObjectHandle \<Rightarrow> string \<Rightarrow> ComponentOptions
    \<Rightarrow> (ObjectHandle \<times> nat) result app" where
  "CoBindComponent E allows ty subject n opt = co_entry E (BindComponentImpl E allows ty subject n opt)"

definition CoUnbindComponent :: "app_env \<Rightarrow> string \<Rightarrow> ObjectHandle \<Rightarrow> string \<Rightarrow> ComponentOptions \<Rightarrow> unit result app" where
  "CoUnbindComponent E ty subject n opt = co_entry E (UnbindComponentImpl E ty subject n opt)"

definition CoBindObject :: "app_env \<Rightarrow> ObjectHandle \<Rightarrow> ObjectHandle \<Rightarrow> unit result app" where
  "CoBindObject E subject target = co_entry E
     (State_Monad.return (fail UnsupportedRoute ''BindObject: non-owning relationship edges are not supported''))"

definition CoUnbindObject :: "app_env \<Rightarrow> ObjectHandle \<Rightarrow> ObjectHandle \<Rightarrow> unit result app" where
  "CoUnbindObject E subject target = co_entry E
     (State_Monad.return (fail UnsupportedRoute ''UnbindObject: non-owning relationship edges are not supported''))"

subsection \<open>Calls\<close>

datatype app_call =
    CallStart
  | CallPause
  | CallResume
  | CallStop
  | CallInstallComponent string string ComponentOptions ctor_outcome
  | CallUninstallComponent string string ComponentOptions
  | CallInstallService string string CoServiceOptions ctor_outcome
  | CallUninstallService string
  | CallInstallActor string string ActorOptions
  | CallUninstallActor string
  | CallBind string ObjectHandle string ComponentOptions
  | CallUnbind string ObjectHandle string ComponentOptions
  | CallObserve ObjectHandle ObjectHandle "nat option"
  | CallRevoke nat
  | CallBorrow ObjectHandle nat
  | CallReturn nat

definition ignore :: "'a app \<Rightarrow> unit app" where
  "ignore m = do { m; State_Monad.return () }"

definition perform :: "AppOptions \<Rightarrow> (nat \<Rightarrow> string \<Rightarrow> bool) \<Rightarrow> app_env \<Rightarrow> app_call \<Rightarrow> unit app" where
  "perform opts allows E c =
     (case c of
        CallStart \<Rightarrow> ignore (CoStart E opts)
      | CallPause \<Rightarrow> ignore (CoPause E)
      | CallResume \<Rightarrow> ignore (CoResume E)
      | CallStop \<Rightarrow> ignore (CoStop E)
      | CallInstallComponent ty n opt ctor \<Rightarrow> ignore (CoInstallComponent E ty n opt ctor)
      | CallUninstallComponent ty n opt \<Rightarrow> ignore (CoUninstallComponent E ty n opt)
      | CallInstallService ty n so ctor \<Rightarrow> ignore (CoInstallService E allows ty n so ctor)
      | CallUninstallService n \<Rightarrow> ignore (CoUninstallService E n)
      | CallInstallActor ty n ao \<Rightarrow> ignore (CoInstallActor E ty n ao)
      | CallUninstallActor n \<Rightarrow> ignore (CoUninstallActor E n)
      | CallBind ty h n opt \<Rightarrow> ignore (CoBindComponent E allows ty h n opt)
      | CallUnbind ty h n opt \<Rightarrow> ignore (CoUnbindComponent E ty h n opt)
      | CallObserve obs tgt cb \<Rightarrow> ignore (CoObserve E obs tgt cb)
      | CallRevoke t \<Rightarrow> TokenRevoke E t
      | CallBorrow h g \<Rightarrow> ignore (Borrow E h g)
      | CallReturn k \<Rightarrow> ReturnBorrow E k)"

fun run_calls :: "AppOptions \<Rightarrow> (nat \<Rightarrow> string \<Rightarrow> bool) \<Rightarrow> (app_env \<times> app_call) list \<Rightarrow> app_world \<Rightarrow> app_world" where
  "run_calls opts allows [] w = w"
| "run_calls opts allows ((E, c) # cs) w = run_calls opts allows cs (snd (run_state (perform opts allows E c) w))"

end
