(* ===== verification/Bounds.thy ===== *)
theory Bounds
  imports Borrows
begin

text \<open>
  The limits of the registry (\<open>src/host/Registry.cc\<close>): the objects, the bindings, the active
  observers and the ring of failures stay within the limits given at its construction, over every
  history of \<open>Borrows\<close>.
\<close>

definition active_observers :: "Registry \<Rightarrow> nat" where
  "active_observers r = length (filter (\<lambda>(_, rec). or_active rec) (rg_observers r))"

definition within_limits :: "Limits \<Rightarrow> Registry \<Rightarrow> bool" where
  "within_limits l r \<longleftrightarrow> rg_limits r = l \<and> CountObjectsLocked r \<le> lim_objects l \<and> CountBindingsLocked r \<le> lim_bindings l \<and>
     active_observers r \<le> lim_observers l \<and> length (rg_failures r) \<le> lim_objects l"

lemma sum_list_update_nat:
  "p < length xs \<Longrightarrow> sum_list (map h (xs[p := y])) + h (xs ! p) = sum_list (map h xs) + (h y :: nat)"
  by (induction xs arbitrary: p) (auto split: nat.splits)

lemma sum_list_remove_nat:
  "sum_list (map h (take j xs @ drop (Suc j) xs)) \<le> (sum_list (map h xs) :: nat)"
proof (induction xs arbitrary: j)
  case (Cons x xs)
  then show ?case using Cons.IH [of "j - 1"] by (cases j) auto
qed simp

lemma bindings_upd:
  assumes "\<And>e. length (re_bindings (f e)) \<le> length (re_bindings e) + k"
  shows "CountBindingsLocked (upd_entry p f r) \<le> CountBindingsLocked r + k"
proof (cases "p < length (rg_entries r)")
  case True
  show ?thesis
    using sum_list_update_nat [OF True, of "\<lambda>e. length (re_bindings e)" "f (rg_entries r ! p)"] assms [of "rg_entries r ! p"]
    by (simp add: CountBindingsLocked_def upd_entry_def)
qed (simp add: upd_entry_beyond)

lemma length_update_first [simp]: "length (update_first P f xs) = length xs"
  by (induction xs) auto

lemma length_remove_first_le: "length (remove_first P xs) \<le> length xs"
  by (induction xs) auto

lemma within_upd:
  assumes w: "within_limits l r" and f: "\<And>e. length (re_bindings (f e)) \<le> length (re_bindings e)"
  shows "within_limits l (upd_entry p f r)"
proof -
  have "CountBindingsLocked (upd_entry p f r) \<le> CountBindingsLocked r" using bindings_upd [of f 0 p r] f by simp
  then show ?thesis using w
    by (auto simp: within_limits_def CountObjectsLocked_def active_observers_def upd_entry_def)
qed

lemma within_at: "within_limits l r \<Longrightarrow> (\<And>p. within_limits l (f p r)) \<Longrightarrow> within_limits l (at_entry i f r)"
  by (simp add: at_entry_def split: option.splits)

lemma within_create: "within_limits l r \<Longrightarrow> within_limits l (snd (CreateEntryLocked k tn n sc ow ty ob r))"
  by (auto simp: CreateEntryLocked_def NextIdLocked_def Let_def within_limits_def CountObjectsLocked_def CountBindingsLocked_def
      active_observers_def new_entry_def)

lemma within_bind:
  assumes w: "within_limits l r"
  shows "within_limits l (snd (BindLocked c s sub r))"
proof -
  have "within_limits l ((upd_entry c (\<lambda>e. e\<lparr>re_bindings := re_bindings e @ [b]\<rparr>) r)\<lparr>rg_next_generation := n\<rparr>)"
    if "CountBindingsLocked r < lim_bindings l" for b n
  proof -
    have "CountBindingsLocked (upd_entry c (\<lambda>e. e\<lparr>re_bindings := re_bindings e @ [b]\<rparr>) r) \<le> lim_bindings l"
      using bindings_upd [of "\<lambda>e. e\<lparr>re_bindings := re_bindings e @ [b]\<rparr>" 1 c r] that by simp
    then show ?thesis using w
      by (simp add: within_limits_def CountObjectsLocked_def CountBindingsLocked_def active_observers_def upd_entry_def)
  qed
  then show ?thesis using w by (simp add: BindLocked_def Let_def within_limits_def not_le)
qed

lemma within_finish: "within_limits l r \<Longrightarrow> within_limits l (snd (FinishDestroyLocked now p r))"
proof -
  assume w: "within_limits l r"
  let ?r1 = "upd_entry p (advance Destroyed None) r"
  have w1: "within_limits l ?r1" by (rule within_upd [OF w]) (simp add: advance_def)
  have "within_limits l (?r1\<lparr>rg_entries := take j (rg_entries ?r1) @ drop (Suc j) (rg_entries ?r1), rg_index := m\<rparr>)" for j m
    using w1 sum_list_remove_nat [of "\<lambda>e. length (re_bindings e)" j "rg_entries ?r1"]
    by (auto simp: within_limits_def CountObjectsLocked_def CountBindingsLocked_def active_observers_def min_def)
  moreover have "within_limits l (?r1\<lparr>rg_index := m\<rparr>)" for m
    using w1 by (simp add: within_limits_def CountObjectsLocked_def CountBindingsLocked_def active_observers_def)
  ultimately show ?thesis
    by (simp add: FinishDestroyLocked_def SetStateLocked_def Let_def split: option.splits)
qed

lemma active_le:
  "(\<And>rec. or_active (f rec) \<Longrightarrow> or_active rec) \<Longrightarrow>
   length (filter (\<lambda>(_, rec). or_active rec) (map (\<lambda>(k, rec). (k, if Q k rec then f rec else rec)) xs)) \<le>
   length (filter (\<lambda>(_, rec). or_active rec) xs)"
  by (induction xs) (auto split: if_splits)

lemma active_filter: "length (filter (\<lambda>x. Q x \<and> P x) xs) \<le> length (filter P xs)"
  by (induction xs) auto

lemma active_emplace: "length (filter P (emplace k v xs)) \<le> Suc (length (filter P xs))"
  by (auto simp: emplace_def split: option.splits)

lemma within_observers:
  assumes w: "within_limits l r"
  shows "within_limits l (observer_op_step r x)"
proof -
  have keep: "within_limits l (r\<lparr>rg_observers := os\<rparr>)"
    if "length (filter (\<lambda>(_, rec). or_active rec) os) \<le> length (filter (\<lambda>(_, rec). or_active rec) (rg_observers r))" for os
    using w that by (simp add: within_limits_def CountObjectsLocked_def CountBindingsLocked_def active_observers_def)
  have upd: "within_limits l (upd_observer t f r)" if "\<And>rec. or_active (f rec) \<Longrightarrow> or_active rec" for t f
    unfolding upd_observer_def using active_le [of f "\<lambda>k _. k = t" "rg_observers r"] that by (intro keep) simp
  show ?thesis
  proof (cases x)
    case (OpObserve obs tgt cb)
    have "snd (Observe obs tgt cb r) = r \<or> (\<exists>rec. active_observers r < lim_observers l \<and>
        snd (Observe obs tgt cb r) = r\<lparr>rg_next_observer_id := rg_next_observer_id r + 1,
          rg_observers := emplace (rg_next_observer_id r) rec (rg_observers r)\<rparr>)"
      using w by (auto simp: Observe_def Let_def within_limits_def active_observers_def not_le split: option.splits)
    then show ?thesis
    proof
      assume "\<exists>rec. active_observers r < lim_observers l \<and> snd (Observe obs tgt cb r) = r\<lparr>rg_next_observer_id := rg_next_observer_id r + 1,
          rg_observers := emplace (rg_next_observer_id r) rec (rg_observers r)\<rparr>"
      then obtain rec where *: "active_observers r < lim_observers l"
        "snd (Observe obs tgt cb r) = r\<lparr>rg_next_observer_id := rg_next_observer_id r + 1,
          rg_observers := emplace (rg_next_observer_id r) rec (rg_observers r)\<rparr>" by blast
      then show ?thesis using w active_emplace [of "\<lambda>(_, rec). or_active rec" "rg_next_observer_id r" rec "rg_observers r"]
        by (simp add: OpObserve observer_op_step_def within_limits_def CountObjectsLocked_def CountBindingsLocked_def active_observers_def)
    qed (simp add: OpObserve observer_op_step_def w)
  next
    case (OpRevokeOf ob)
    have "length (filter (\<lambda>(_, rec). or_active rec) (map (\<lambda>(k, rec). (k, if or_observer_id rec = ob then rec\<lparr>or_active := False\<rparr> else rec)) (rg_observers r)))
        \<le> length (filter (\<lambda>(_, rec). or_active rec) (rg_observers r))"
      by (rule active_le [of "\<lambda>rec. rec\<lparr>or_active := False\<rparr>" "\<lambda>_ rec. or_observer_id rec = ob"]) simp
    then show ?thesis by (simp add: OpRevokeOf observer_op_step_def RevokeObserversOfLocked_def keep)
  qed (auto simp: observer_op_step_def take_lease_def return_lease_def revoke_mark_def revoke_erase_def drain_scan_def
      drain_erase_def w active_filter intro!: upd keep split: option.splits)
qed

lemma within_failure: "within_limits l r \<Longrightarrow> RecordFailure f r = Some r' \<Longrightarrow> within_limits l r'"
  by (auto simp: RecordFailure_def within_limits_def CountObjectsLocked_def CountBindingsLocked_def active_observers_def
      split: if_splits list.splits)

lemma within_borrow:
  assumes "within_limits l r"
  shows "within_limits l (snd (BorrowImpl h g a r))"
  using assms by (auto simp: BorrowImpl_def AcquireBorrowLocked_def Let_def intro!: within_upd
      split: option.splits prod.splits sum.splits if_splits)

lemma within_step:
  assumes w: "within_limits l (w_reg w)"
  shows "within_limits l (w_reg (obj_step w x))"
proof (cases x)
  case (OpBorrow h g a)
  then show ?thesis using within_borrow [OF w, of h g a] by (auto simp: obj_step_def split: prod.splits sum.splits)
next
  case (OpFailure f)
  then show ?thesis using within_failure [OF w, of f] w by (auto simp: obj_step_def Let_def split: option.splits)
qed (use w in \<open>auto simp: obj_step_def Let_def within_create within_bind within_finish within_observers
    SetStateAndGetEvents_def SetStateLocked_def advance_def BeginOpLocked_def EndOpLocked_def BeginUnbindLocked_def EraseBindingLocked_def
    EraseSubjectBindingsLocked_def ReleaseBorrow_def NoteHookSettled_def BeginDestroyLocked_def length_remove_first_le
    intro!: within_at within_upd split: option.splits\<close>)

end
