(* ===== verification/AppMoves.thy ===== *)
theory AppMoves
  imports AppProps AppEntry Bounds
begin

text \<open>
  Every operation of the application changes the registry only by operations of \<open>Borrows\<close>. A
  section is a path of them (\<open>leads\<close>), a program a sequence of paths of its own and of the
  environment (\<open>moves\<close>); so what every registry operation keeps, every program keeps, whatever runs
  beside it. The set \<open>A\<close> restricts the operations, for facts that only some of them keep.
\<close>

subsection \<open>Paths\<close>

named_theorems leads_intros \<open>a section is a path of registry operations\<close>
named_theorems app_moves \<open>a program is a sequence of paths\<close>

definition leads :: "(obj_op \<Rightarrow> bool) \<Rightarrow> object_world \<Rightarrow> Registry \<Rightarrow> bool" where
  "leads A o' r \<longleftrightarrow> (\<exists>xs. list_all A xs \<and> run_ops obj_step o' xs = o'\<lparr>w_reg := r\<rparr>)"

lemma leads_refl [leads_intros]: "leads A o' (w_reg o')"
  unfolding leads_def by (rule exI [of _ "[]"]) simp

lemma leads_op:
  assumes "leads A o' r" and "A x" and "obj_step (o'\<lparr>w_reg := r\<rparr>) x = o'\<lparr>w_reg := r'\<rparr>"
  shows "leads A o' r'"
proof -
  obtain xs where xs: "list_all A xs" "run_ops obj_step o' xs = o'\<lparr>w_reg := r\<rparr>" using assms(1) unfolding leads_def by blast
  have "run_ops obj_step o' (xs @ [x]) = o'\<lparr>w_reg := r'\<rparr>" by (simp add: run_ops_append xs(2) assms(3))
  then show ?thesis using xs(1) assms(2) unfolding leads_def by (intro exI [of _ "xs @ [x]"]) simp
qed

lemma leads_ok:
  assumes "world_ok o'" and "leads A o' r"
  shows "world_ok (o'\<lparr>w_reg := r\<rparr>)" "ids_ok r"
proof -
  obtain xs where "run_ops obj_step o' xs = o'\<lparr>w_reg := r\<rparr>" using assms(2) unfolding leads_def by blast
  then show "world_ok (o'\<lparr>w_reg := r\<rparr>)" using objects.inv_run_from [OF assms(1), of xs] by simp
  then show "ids_ok r" by (simp add: world_ok_def)
qed

text \<open>One rule per operation, at the position of the entry.\<close>

lemma leads_observer [leads_intros]: "leads A o' r \<Longrightarrow> A (OpObserver y) \<Longrightarrow> leads A o' (observer_op_step r y)"
  by (erule leads_op [where x = "OpObserver y"]) (simp_all add: obj_step_def)

lemma leads_failure:
  "leads A o' r \<Longrightarrow> A (OpFailure f) \<Longrightarrow> RecordFailure f r = Some r' \<Longrightarrow> leads A o' r'"
  by (erule leads_op [where x = "OpFailure f"]) (simp_all add: obj_step_def)

lemma leads_events [leads_intros]:
  "leads A o' r \<Longrightarrow> A (OpSetState now i s err) \<Longrightarrow> leads A o' (snd (SetStateAndGetEvents now i s err r))"
  by (erule leads_op [where x = "OpSetState now i s err"]) (simp_all add: obj_step_def)

lemma leads_state:
  "leads A o' r \<Longrightarrow> A (OpSetState now i s err) \<Longrightarrow> FindEntryLocked i r = Some p \<Longrightarrow>
   leads A o' (snd (SetStateLocked now p s err r))"
  by (drule (1) leads_events) (simp add: SetStateAndGetEvents_def)

lemma leads_settled [leads_intros]: "leads A o' r \<Longrightarrow> A (OpHookSettled i) \<Longrightarrow> leads A o' (NoteHookSettled i r)"
  by (erule leads_op [where x = "OpHookSettled i"]) (simp_all add: obj_step_def)

lemma leads_entry:
  assumes "leads A o' r" and "A x" and "FindEntryLocked i r = Some p"
    and "\<And>w. w_reg w = r \<Longrightarrow> obj_step w x = w\<lparr>w_reg := at_entry i f r\<rparr>"
  shows "leads A o' (f p r)"
  by (rule leads_op [OF assms(1,2)]) (simp add: assms(3,4) at_entry_def)

lemma leads_begin_op:
  "leads A o' r \<Longrightarrow> A (OpBeginOp i) \<Longrightarrow> FindEntryLocked i r = Some p \<Longrightarrow> leads A o' (snd (BeginOpLocked p r))"
  by (rule leads_entry [where x = "OpBeginOp i" and f = "\<lambda>p r. snd (BeginOpLocked p r)"]) (simp_all add: obj_step_def)

lemma leads_end_op:
  "leads A o' r \<Longrightarrow> A (OpEndOp i) \<Longrightarrow> FindEntryLocked i r = Some p \<Longrightarrow> leads A o' (EndOpLocked p r)"
  by (rule leads_entry [where x = "OpEndOp i" and f = EndOpLocked]) (simp_all add: obj_step_def)

lemma leads_phase:
  "leads A o' r \<Longrightarrow> A (OpSetPhase i ph) \<Longrightarrow> FindEntryLocked i r = Some p \<Longrightarrow>
   leads A o' (upd_entry p (\<lambda>e. e\<lparr>re_destroy_phase := ph\<rparr>) r)"
  by (rule leads_entry [where x = "OpSetPhase i ph" and f = "\<lambda>p. upd_entry p (\<lambda>e. e\<lparr>re_destroy_phase := ph\<rparr>)"]) (simp_all add: obj_step_def)

lemma leads_hook:
  "leads A o' r \<Longrightarrow> A (OpBeginHook i) \<Longrightarrow> FindEntryLocked i r = Some p \<Longrightarrow>
   leads A o' (upd_entry p (\<lambda>e. e\<lparr>re_hooks_in_flight := re_hooks_in_flight e + 1\<rparr>) r)"
  by (rule leads_entry [where x = "OpBeginHook i" and f = "\<lambda>p. upd_entry p (\<lambda>e. e\<lparr>re_hooks_in_flight := re_hooks_in_flight e + 1\<rparr>)"])
     (simp_all add: obj_step_def)

lemma leads_unbind:
  "leads A o' r \<Longrightarrow> A (OpUnbind c s) \<Longrightarrow> FindEntryLocked c r = Some p \<Longrightarrow> leads A o' (snd (BeginUnbindLocked p s r))"
  by (rule leads_entry [where x = "OpUnbind c s" and f = "\<lambda>p r. snd (BeginUnbindLocked p s r)"]) (simp_all add: obj_step_def)

lemma leads_erase:
  "leads A o' r \<Longrightarrow> A (OpEraseBinding c s g) \<Longrightarrow> FindEntryLocked c r = Some p \<Longrightarrow> leads A o' (EraseBindingLocked p s g r)"
  by (rule leads_entry [where x = "OpEraseBinding c s g" and f = "\<lambda>p. EraseBindingLocked p s g"]) (simp_all add: obj_step_def)

lemma leads_erase_subject:
  "leads A o' r \<Longrightarrow> A (OpEraseSubject c s) \<Longrightarrow> FindEntryLocked c r = Some p \<Longrightarrow> leads A o' (EraseSubjectBindingsLocked p s r)"
  by (rule leads_entry [where x = "OpEraseSubject c s" and f = "\<lambda>p. EraseSubjectBindingsLocked p s"]) (simp_all add: obj_step_def)

lemma leads_finish:
  "leads A o' r \<Longrightarrow> A (OpFinishDestroy now i) \<Longrightarrow> FindEntryLocked i r = Some p \<Longrightarrow>
   leads A o' (snd (FinishDestroyLocked now p r))"
  by (rule leads_entry [where x = "OpFinishDestroy now i" and f = "\<lambda>p r. snd (FinishDestroyLocked now p r)"]) (simp_all add: obj_step_def)

lemma leads_begin_destroy:
  "leads A o' r \<Longrightarrow> A (OpBeginDestroy i) \<Longrightarrow> leads A o' (snd (BeginDestroyLocked i r))"
  by (erule leads_op [where x = "OpBeginDestroy i"]) (simp_all add: obj_step_def)

lemma leads_create:
  "leads A o' r \<Longrightarrow> A (OpCreate k tn n sc ow ty ob) \<Longrightarrow> leads A o' (snd (CreateEntryLocked k tn n sc ow ty ob r))"
  by (erule leads_op [where x = "OpCreate k tn n sc ow ty ob"]) (simp_all add: obj_step_def)

lemma leads_bind:
  "leads A o' r \<Longrightarrow> A (OpBind c s) \<Longrightarrow> FindEntryLocked c r = Some p \<Longrightarrow> FindEntryLocked s r = Some q \<Longrightarrow>
   edge_permitted c s q r \<Longrightarrow> leads A o' (snd (BindLocked p q s r))"
  by (erule leads_op [where x = "OpBind c s"]) (simp_all add: obj_step_def at_entry_def)

text \<open>The operations that change entries keep the positions.\<close>

lemma Find_upd_entry [simp]: "FindEntryLocked i (upd_entry p f r) = FindEntryLocked i r"
  by (simp add: FindEntryLocked_def upd_entry_def)

lemma Find_EndOp [simp]: "FindEntryLocked i (EndOpLocked p r) = FindEntryLocked i r"
  by (simp add: EndOpLocked_def)

lemma Find_RevokeOf [simp]: "FindEntryLocked i (RevokeObserversOfLocked ob r) = FindEntryLocked i r"
  by (simp add: FindEntryLocked_def RevokeObserversOfLocked_def)

lemma Find_BeginUnbind [simp]: "FindEntryLocked i (snd (BeginUnbindLocked p s r)) = FindEntryLocked i r"
  by (simp add: BeginUnbindLocked_def Let_def split: option.splits)

lemma Find_EraseSubject [simp]: "FindEntryLocked i (EraseSubjectBindingsLocked p s r) = FindEntryLocked i r"
  by (simp add: EraseSubjectBindingsLocked_def)

lemma Find_position: "ids_ok r \<Longrightarrow> p < length (rg_entries r) \<Longrightarrow> FindEntryLocked (re_id (rg_entries r ! p)) r = Some p"
  by (simp add: FindEntry_iff)

lemma first_index_entry:
  "ids_ok r \<Longrightarrow> first_index P (rg_entries r) = Some p \<Longrightarrow> FindEntryLocked (re_id (rg_entries r ! p)) r = Some p"
  by (intro Find_position) (auto simp: first_index_Some)

subsection \<open>Programs\<close>

text \<open>A predicate on the objects that the operations of \<open>A\<close> keep.\<close>

definition stable :: "(obj_op \<Rightarrow> bool) \<Rightarrow> (object_world \<Rightarrow> bool) \<Rightarrow> bool" where
  "stable A P \<longleftrightarrow> (\<forall>o' x. A x \<longrightarrow> world_ok o' \<longrightarrow> P o' \<longrightarrow> P (obj_step o' x))"

definition on_objects :: "(object_world \<Rightarrow> bool) \<Rightarrow> app_world \<Rightarrow> bool" where
  "on_objects P w \<longleftrightarrow> world_ok (aw_objects w) \<and> P (aw_objects w)"

definition moves :: "(obj_op \<Rightarrow> bool) \<Rightarrow> 'a app \<Rightarrow> bool" where
  "moves A m \<longleftrightarrow> (\<forall>P. stable A P \<longrightarrow> keeps (on_objects P) m)"

text \<open>The environment performs operations of \<open>A\<close> only.\<close>

definition confined :: "(obj_op \<Rightarrow> bool) \<Rightarrow> app_env \<Rightarrow> bool" where
  "confined A E \<longleftrightarrow> (\<forall>t. list_all A (en_ops E t)) \<and> (\<forall>t. \<forall>p \<in> set (en_rounds E t). list_all A (fst p))"

text \<open>Observer callbacks, failure records and hooks that begin and settle: what waits and dispatches perform.\<close>

definition plain :: "(obj_op \<Rightarrow> bool) \<Rightarrow> bool" where
  "plain A \<longleftrightarrow> (\<forall>y. A (OpObserver y)) \<and> (\<forall>f. A (OpFailure f)) \<and> (\<forall>i. A (OpBeginHook i) \<and> A (OpHookSettled i))"

lemma plainD [simp]:
  "plain A \<Longrightarrow> A (OpObserver y)" "plain A \<Longrightarrow> A (OpFailure f)" "plain A \<Longrightarrow> A (OpBeginHook i)" "plain A \<Longrightarrow> A (OpHookSettled i)"
  by (simp_all add: plain_def)

lemma stable_run:
  assumes P: "stable A P" and xs: "list_all A xs" and ok: "world_ok o'" "P o'"
  shows "world_ok (run_ops obj_step o' xs) \<and> P (run_ops obj_step o' xs)"
  using xs ok
proof (induction xs arbitrary: o')
  case (Cons x xs)
  then show ?case using P obj_step_ok [of o' x] by (simp add: stable_def)
qed simp

lemma movesI: "(\<And>P. stable A P \<Longrightarrow> keeps (on_objects P) m) \<Longrightarrow> moves A m"
  by (simp add: moves_def)

lemma moves_return [app_moves]: "moves A (State_Monad.return x)"
  by (simp add: moves_def keeps_return)

lemma moves_bind [app_moves]: "moves A m \<Longrightarrow> (\<And>x. moves A (f x)) \<Longrightarrow> moves A (State_Monad.bind m f)"
  unfolding moves_def by (blast intro: keeps_bind)

lemma moves_for_each [app_moves]: "(\<And>x. moves A (f x)) \<Longrightarrow> moves A (for_each xs f)"
  unfolding moves_def by (blast intro: keeps_for_each)

lemma moves_for_each_ok [app_moves]: "(\<And>x. moves A (f x)) \<Longrightarrow> moves A (for_each_ok xs f)"
  unfolding moves_def by (blast intro: keeps_for_each_ok)

lemma moves_sec_same: "(\<And>w. aw_objects (snd (f w)) = aw_objects w) \<Longrightarrow> moves A (sec f)"
  by (intro movesI keeps_sec) (simp add: on_objects_def)

lemma moves_sec_run:
  assumes "\<And>w. \<exists>xs. list_all A xs \<and> aw_objects (snd (f w)) = run_ops obj_step (aw_objects w) xs"
  shows "moves A (sec f)"
proof (intro movesI keeps_sec)
  fix P w
  assume P: "stable A P" and w: "on_objects P w"
  obtain xs where xs: "list_all A xs" "aw_objects (snd (f w)) = run_ops obj_step (aw_objects w) xs" using assms by blast
  show "on_objects P (snd (f w))" using stable_run [OF P xs(1), of "aw_objects w"] w by (simp add: on_objects_def xs(2))
qed

lemma moves_outside [app_moves]: "confined A E \<Longrightarrow> moves A (outside E)"
  unfolding outside_def confined_def by (rule moves_sec_run) auto

lemma moves_sec_reg:
  assumes "\<And>w. world_ok (aw_objects w) \<Longrightarrow> leads A (aw_objects w) (snd (f w))"
  shows "moves A (sec (\<lambda>w. (fst (f w), set_reg (snd (f w)) w)))"
proof (intro movesI keeps_sec)
  fix P w
  assume P: "stable A P" and w: "on_objects P w"
  then obtain xs where xs: "list_all A xs" "run_ops obj_step (aw_objects w) xs = (aw_objects w)\<lparr>w_reg := snd (f w)\<rparr>"
    using assms [of w] by (auto simp: on_objects_def leads_def)
  show "on_objects P (snd (fst (f w), set_reg (snd (f w)) w))"
    using stable_run [OF P xs(1), of "aw_objects w"] w by (simp add: on_objects_def set_reg_def xs(2))
qed

lemma moves_locked:
  assumes "confined A E" and "\<And>now o'. world_ok o' \<Longrightarrow> leads A o' (snd (f now (w_reg o')))"
  shows "moves A (locked E f)"
  unfolding locked_def case_prod_unfold
  by (intro moves_bind moves_outside moves_sec_reg assms(1)) (simp add: aw_reg_def assms(2))

lemma moves_read [app_moves]: "confined A E \<Longrightarrow> moves A (locked E (\<lambda>now r. (f now r, r)))"
  by (rule moves_locked) (simp_all add: leads_refl)

lemma moves_simple [app_moves]:
  "moves A (halt_with h)" "moves A (tick_value f)" "moves A (store_state s)" "moves A own_state" "moves A (begin_transition m)"
  "moves A end_transition" "moves A (emit e)" "moves A (call_hook E hk i)" "moves A (sec (\<lambda>w. (g w, w)))"
  unfolding halt_with_def tick_value_def store_state_def own_state_def begin_transition_def end_transition_def emit_def call_hook_def
  by (rule moves_sec_same, simp)+

lemma moves_load_state [app_moves]: "confined A E \<Longrightarrow> moves A (load_state E)"
  unfolding load_state_def by (intro app_moves)

lemma moves_on_bound [app_moves]: "moves A (on_bound ob f)"
  unfolding on_bound_def by (auto intro!: app_moves moves_sec_same)

lemma moves_apply_ops: "list_all A xs \<Longrightarrow> moves A (apply_ops xs)"
  unfolding apply_ops_def by (rule moves_sec_run) auto

text \<open>Waits, dispatches and hooks.\<close>

lemma leads_recorded: "RecordFailure f r = Some r' \<Longrightarrow> plain A \<Longrightarrow> leads A o' r \<Longrightarrow> leads A o' r'"
  by (rule leads_failure) simp_all

lemma moves_record_failure [app_moves]: "confined A E \<Longrightarrow> plain A \<Longrightarrow> moves A (record_failure E f)"
  unfolding record_failure_def
  by (auto intro!: app_moves moves_locked leads_refl elim: leads_recorded split: option.splits)

lemma moves_observer_section:
  assumes "confined A E" and "plain A" and "\<And>r. snd (f r) = observer_op_step r y"
  shows "moves A (locked E (\<lambda>_. f))"
  by (rule moves_locked [OF assms(1)]) (simp add: assms leads_intros)

lemma observer_sections:
  "snd (take_lease t r) = observer_op_step r (OpTake t)"
  "return_lease t r = observer_op_step r (OpReturn t)"
  "snd (revoke_mark t r) = observer_op_step r (OpMark t)"
  "revoke_erase t r = observer_op_step r (OpErase t)"
  "drain_scan r = observer_op_step r OpScan"
  "drain_erase r = observer_op_step r OpDrain"
  "snd (Observe obs tgt cb r) = observer_op_step r (OpObserve obs tgt cb)"
  "RevokeObserversOfLocked ob r = observer_op_step r (OpRevokeOf ob)"
  by (simp_all add: observer_op_step_def)

lemma moves_observers [app_moves]:
  assumes "confined A E" and "plain A"
  shows "moves A (locked E (\<lambda>_. take_lease t))" "moves A (locked E (\<lambda>_ r. ((), return_lease t r)))"
    "moves A (locked E (\<lambda>_. revoke_mark t))" "moves A (locked E (\<lambda>_ r. ((), revoke_erase t r)))"
    "moves A (locked E (\<lambda>_ r. ((), drain_scan r)))" "moves A (locked E (\<lambda>_ r. ((), drain_erase r)))"
    "moves A (locked E (\<lambda>_. Observe obs tgt cb))"
  by (rule moves_observer_section [OF assms], (simp only: snd_conv)?, rule observer_sections)+

lemma moves_DispatchEvents [app_moves]: "confined A E \<Longrightarrow> plain A \<Longrightarrow> moves A (DispatchEvents E es)"
  by (induction E es rule: DispatchEvents.induct) (auto intro!: app_moves split: option.splits)

lemma moves_DrainInactiveObservers [app_moves]: "confined A E \<Longrightarrow> plain A \<Longrightarrow> moves A (DrainInactiveObservers E)"
  unfolding DrainInactiveObservers_def by (auto intro!: app_moves)

lemma moves_SetStateAndDispatch [app_moves]:
  "confined A E \<Longrightarrow> plain A \<Longrightarrow> (\<And>now. A (OpSetState now i s err)) \<Longrightarrow> moves A (SetStateAndDispatch E i s err)"
  unfolding SetStateAndDispatch_def by (intro app_moves moves_locked leads_intros) auto

lemma moves_borrow_rounds: "\<forall>p \<in> set rs. list_all A (fst p) \<Longrightarrow> moves A (borrow_rounds ready rs)"
  by (induction ready rs rule: borrow_rounds.induct) (auto intro!: app_moves moves_apply_ops)

lemma moves_tick_rounds:
  assumes "\<And>t. moves A (f (g t))"
  shows "moves A (State_Monad.bind (tick_value g) f)"
proof (intro movesI)
  fix P assume P: "stable A P"
  show "keeps (on_objects P) (State_Monad.bind (tick_value g) f)"
    unfolding keeps_def
  proof (intro allI impI)
    fix w assume "on_objects P w"
    then have "on_objects P (snd (run_state (f (g (aw_tick w))) w))"
      using assms [of "aw_tick w"] P by (simp add: moves_def keeps_def)
    then show "on_objects P (snd (run_state (State_Monad.bind (tick_value g) f) w))"
      by (simp add: tick_value_def sec_run)
  qed
qed

lemma moves_WaitBorrows [app_moves]: "confined A E \<Longrightarrow> moves A (WaitBorrows E ready)"
  unfolding WaitBorrows_def
  by (auto intro!: app_moves moves_tick_rounds moves_borrow_rounds simp: confined_def)

lemma moves_waits [app_moves]:
  "confined A E \<Longrightarrow> moves A (WaitBorrowsDrained E i)" "confined A E \<Longrightarrow> moves A (WaitBindingDrained E i s g)"
  "confined A E \<Longrightarrow> moves A (WaitHooksSettledCo E i)"
  unfolding WaitBorrowsDrained_def WaitBindingDrained_def WaitHooksSettledCo_def by (auto intro!: app_moves)

lemma moves_hook_begins [app_moves]: "confined A E \<Longrightarrow> plain A \<Longrightarrow> moves A (locked E (\<lambda>_. begin_hook i))"
  by (rule moves_locked) (auto simp: begin_hook_def leads_refl leads_hook [OF leads_refl, simplified] split: option.splits)

lemma moves_hook_settles [app_moves]:
  "confined A E \<Longrightarrow> plain A \<Longrightarrow> moves A (locked E (\<lambda>_ r. ((), NoteHookSettled i r)))"
  by (rule moves_locked) (simp_all add: leads_intros)

lemma moves_owner_of [app_moves]: "confined A E \<Longrightarrow> moves A (owner_of E i)"
  unfolding owner_of_def by (intro app_moves)

lemma moves_hooks [app_moves]:
  assumes "confined A E" and "plain A"
  shows "moves A (run_hook_co E i h ph)" "moves A (run_hook E i h ph)" "moves A (run_void_hook E i h ph)"
    "moves A (RunActorDestroy E i)" "moves A (binding_changed E i ph)"
  unfolding run_hook_co_def submit_hook_def run_submitted_def run_hook_def run_void_hook_def RunActorDestroy_def binding_changed_def
  using assms by (auto intro!: app_moves split: sum.splits submit_outcome.splits option.splits)

lemma moves_service_hooks [app_moves]:
  assumes "confined A E" and "plain A"
  shows "moves A (RunServiceHookCo E i h ph)" "moves A (RunComponentHookCo E i h ph)" "moves A (RunServiceHook E i h ph)"
    "moves A (RunComponentHook E i h ph)" "moves A (RunServiceVoidHook E i h ph)" "moves A (RunComponentVoidHook E i h ph)"
  unfolding RunServiceHookCo_def RunComponentHookCo_def RunServiceHook_def RunComponentHook_def RunServiceVoidHook_def
    RunComponentVoidHook_def using moves_hooks [OF assms] by blast+

lemma moves_rest [app_moves]:
  "moves A (release_owner ob)" "confined A E \<Longrightarrow> moves A (hooks_busy E i)"
  unfolding release_owner_def hooks_busy_def by (auto intro!: app_moves split: option.splits)

subsection \<open>All operations\<close>

abbreviation any_op :: "obj_op \<Rightarrow> bool" where
  "any_op \<equiv> \<lambda>_. True"

lemma any_op_simps [simp, app_moves]: "plain any_op" "confined any_op E"
  by (simp_all add: plain_def confined_def list_all_iff)

lemmas leads_any = leads_state leads_begin_op leads_end_op leads_phase leads_unbind leads_erase leads_erase_subject
  leads_finish leads_begin_destroy leads_create leads_bind

lemma leads_abort [leads_intros]:
  "leads any_op o' r \<Longrightarrow> leads any_op o' (snd (abort_section i op ph err s now r))"
  by (auto simp: abort_section_def Let_def split: option.splits intro!: leads_any elim: leads_recorded)

lemma leads_begin_stop [leads_intros]: "leads any_op o' r \<Longrightarrow> leads any_op o' (snd (begin_stop i now r))"
proof (cases "FindEntryLocked i r")
  case (Some p)
  assume r: "leads any_op o' r"
  have "leads any_op o' (snd (BeginOpLocked p r))" by (rule leads_begin_op [OF r _ Some]) simp
  moreover have "FindEntryLocked i (snd (BeginOpLocked p r)) = Some p" using Some by (simp add: BeginOpLocked_def)
  ultimately show ?thesis
    by (auto simp: begin_stop_def Some Let_def split: prod.splits bool.splits intro!: leads_state leads_phase)
qed (simp add: begin_stop_def)

lemma leads_revoke_of [leads_intros]:
  "leads A o' r \<Longrightarrow> A (OpObserver (OpRevokeOf i)) \<Longrightarrow> leads A o' (RevokeObserversOfLocked i r)"
  by (simp add: observer_sections leads_intros)

lemma leads_finish_entry [leads_intros]: "leads any_op o' r \<Longrightarrow> leads any_op o' (snd (finish_entry i now r))"
  by (auto simp: finish_entry_def Let_def split: option.splits intro!: leads_any leads_intros)

lemma leads_finish_actor [leads_intros]: "leads any_op o' r \<Longrightarrow> leads any_op o' (snd (finish_actor i now r))"
  by (auto simp: finish_actor_def Let_def split: option.splits intro!: leads_any leads_intros)

lemma leads_fold: "leads A o' r \<Longrightarrow> (\<And>x r. leads A o' r \<Longrightarrow> leads A o' (f x r)) \<Longrightarrow> leads A o' (fold f xs r)"
  by (induction xs arbitrary: r) simp_all

lemma leads_seal_edges [leads_intros]: "leads any_op o' r \<Longrightarrow> leads any_op o' (seal_edges i r)"
  unfolding seal_edges_def by (erule leads_fold) (auto simp: seal_edge_def split: option.splits intro!: leads_unbind)

lemma leads_erase_edges [leads_intros]: "leads any_op o' r \<Longrightarrow> leads any_op o' (erase_edges i cs r)"
  unfolding erase_edges_def by (erule leads_fold) (auto split: option.splits intro!: leads_erase_subject)

lemma leads_close_edges [leads_intros]: "leads any_op o' r \<Longrightarrow> leads any_op o' (snd (close_edges i r))"
proof -
  assume r: "leads any_op o' r"
  have "leads any_op o' (snd (fold (close_edge i) cs (es, r)))" for cs es
    using r
  proof (induction cs arbitrary: es r)
    case (Cons c cs)
    have "leads any_op o' (snd (close_edge i c (es, r)))"
    proof (cases "FindEntryLocked c r")
      case (Some x)
      then have "leads any_op o' (snd (BeginUnbindLocked x i r))" by (intro leads_unbind [OF Cons.prems]) simp_all
      then show ?thesis using Cons.prems Some by (auto simp: close_edge_def Let_def split: prod.splits sum.splits)
    qed (simp add: close_edge_def Cons.prems)
    then show ?case using Cons.IH [of "snd (close_edge i c (es, r))" "fst (close_edge i c (es, r))"] by simp
  qed simp
  then show ?thesis by (simp add: close_edges_def)
qed

lemma leads_start_lists [leads_intros]: "leads any_op o' r \<Longrightarrow> leads any_op o' (snd (start_lists now r))"
  by (auto simp: start_lists_def split: option.splits prod.splits if_splits elim: leads_recorded)

lemma moves_AbortDestroy [app_moves]: "moves any_op (AbortDestroy E i op ph e s)"
  unfolding AbortDestroy_def by (auto intro!: app_moves moves_locked leads_intros split: option.splits)

lemma moves_finish [app_moves]:
  "moves any_op (locked E (finish_entry i))" "moves any_op (locked E (finish_actor i))" "moves any_op (locked E start_lists)"
  "moves any_op (locked E (begin_stop i))" "moves any_op (locked E (\<lambda>_ r. ((), erase_edges i (cs r) r)))"
  by (rule moves_locked, simp, simp add: leads_intros)+

lemma moves_DestroyComponent [app_moves]: "moves any_op (DestroyComponent E i)"
  unfolding DestroyComponent_def close_component_def by (auto intro!: app_moves split: option.splits sum.splits)

lemma moves_DestroyService [app_moves]: "moves any_op (DestroyService E i)"
proof -
  have "leads any_op o' (snd (case begin_stop i now (w_reg o') of (None, r1) \<Rightarrow> (None, r1) | (Some evs, r1) \<Rightarrow> (Some evs, seal_edges i r1)))"
    for now o'
    using leads_begin_stop [OF leads_refl, of o' i now] by (auto split: prod.splits option.splits intro: leads_intros)
  then have "moves any_op (locked E (\<lambda>now r. case begin_stop i now r of (None, r1) \<Rightarrow> (None, r1) | (Some evs, r1) \<Rightarrow> (Some evs, seal_edges i r1)))"
    by (intro moves_locked) simp_all
  then show ?thesis
    unfolding DestroyService_def by (auto intro!: app_moves split: option.splits sum.splits)
qed

lemma moves_DestroyActor [app_moves]: "moves any_op (DestroyActor E i)"
  unfolding DestroyActor_def by (auto intro!: app_moves)

lemma moves_transition: "moves any_op m \<Longrightarrow> moves any_op (co_entry E (in_transition E msg m))"
  unfolding co_entry_def in_transition_def by (auto intro!: app_moves split: sum.splits)

lemma moves_start_one: "(\<And>i. moves any_op (run i)) \<Longrightarrow> moves any_op (start_one E run i)"
  unfolding start_one_def by (auto intro!: app_moves split: sum.splits)

lemma moves_StartBody: "moves any_op (StartBody E opts)"
  unfolding StartBody_def StartObjects_def
  by (auto intro!: app_moves moves_start_one split: sum.splits option.splits)

lemma moves_switch_one: "moves any_op (switch_one E h ph s i)"
  unfolding switch_one_def by (auto intro!: app_moves split: sum.splits)

lemma moves_PauseBody: "moves any_op (PauseBody E)"
  unfolding PauseBody_def by (auto intro!: app_moves moves_switch_one split: sum.splits)

lemma moves_ResumeBody: "moves any_op (ResumeBody E)"
  unfolding ResumeBody_def by (auto intro!: app_moves moves_switch_one split: sum.splits)

lemma moves_StopBody: "moves any_op (StopBody E)"
  unfolding StopBody_def StopAll_def StopLists_def by (auto intro!: app_moves split: prod.splits)

lemma moves_lifecycle [app_moves]:
  "moves any_op (CoStart E opts)" "moves any_op (CoPause E)" "moves any_op (CoResume E)" "moves any_op (CoStop E)"
  unfolding CoStart_def StartImpl_def CoPause_def PauseImpl_def CoResume_def ResumeImpl_def CoStop_def StopImpl_def
  by (intro moves_transition moves_StartBody moves_PauseBody moves_ResumeBody moves_StopBody)+

subsection \<open>Installing and binding\<close>

lemma created_found:
  assumes ok: "world_ok o'" and C: "CreateEntryLocked k tn n sc ow ty ob (w_reg o') = (Inr p, r1)"
  shows "FindEntryLocked (re_id (rg_entries r1 ! p)) r1 = Some p" "leads any_op o' r1"
proof -
  show L: "leads any_op o' r1" using leads_create [OF leads_refl, of any_op k tn n sc ow ty ob o'] C by simp
  have "p < length (rg_entries r1)"
    using C by (auto simp: CreateEntryLocked_def Let_def split: if_splits prod.splits)
  then show "FindEntryLocked (re_id (rg_entries r1 ! p)) r1 = Some p" by (rule Find_position [OF leads_ok(2) [OF ok L]])
qed

lemma leads_create_state:
  assumes ok: "world_ok o'" and C: "CreateEntryLocked k tn n sc ow ty ob (w_reg o') = (x, r1)"
  shows "leads any_op o' r1" "x = Inr p \<Longrightarrow> leads any_op o' (snd (SetStateLocked now p s err r1))"
proof -
  show "leads any_op o' r1" using leads_create [OF leads_refl, of any_op k tn n sc ow ty ob o'] C by simp
  show "leads any_op o' (snd (SetStateLocked now p s err r1))" if "x = Inr p"
    using created_found [OF ok C [unfolded that]] by (intro leads_state) simp_all
qed

lemma leads_create_section: "world_ok o' \<Longrightarrow> leads any_op o' (snd (create_section k tn n sc ow ty ob now (w_reg o')))"
  by (auto simp: create_section_def Let_def split: prod.splits sum.splits intro: leads_create_state)

lemma leads_begin_uninstall: "leads any_op o' (snd (begin_uninstall i now (w_reg o')))"
proof (cases "BeginDestroyLocked i (w_reg o')")
  case (Pair x r1)
  have L: "leads any_op o' r1" using leads_begin_destroy [OF leads_refl, of any_op i o'] Pair by simp
  have "FindEntryLocked i r1 = Some p" if "x = Inr p" for p
    using Pair that by (auto simp: BeginDestroyLocked_def Let_def split: option.splits if_splits)
  then show ?thesis
    by (auto simp: begin_uninstall_def Pair Let_def L split: sum.splits intro!: leads_state leads_phase)
qed

lemma leads_begin_uninstall_actor: "leads any_op o' (snd (begin_uninstall_actor n now (w_reg o')))"
proof (cases "FindByTypeNameLocked KActor n (w_reg o')")
  case (Some p)
  let ?i = "re_id (rg_entries (w_reg o') ! p)"
  show ?thesis
  proof (cases "BeginDestroyLocked ?i (w_reg o')")
    case (Pair x r1)
    have L: "leads any_op o' r1" using leads_begin_destroy [OF leads_refl, of any_op ?i o'] Pair by simp
    have "FindEntryLocked ?i r1 = Some q" if "x = Inr q" for q
      using Pair that by (auto simp: BeginDestroyLocked_def Let_def split: option.splits if_splits)
    then show ?thesis
      by (auto simp: begin_uninstall_actor_def Some Pair Let_def L leads_refl split: sum.splits intro!: leads_state)
  qed
qed (simp add: begin_uninstall_actor_def leads_refl)

lemma component_found:
  "world_ok o' \<Longrightarrow> FindComponentLocked sc ow ty n (w_reg o') = Some c \<Longrightarrow>
   FindEntryLocked (re_id (rg_entries (w_reg o') ! c)) (w_reg o') = Some c"
  unfolding FindComponentLocked_def world_ok_def by (rule first_index_entry) simp_all

lemma leads_bind_section:
  assumes ok: "world_ok o'"
  shows "leads any_op o' (snd (bind_section allows ty h n opt ow now (w_reg o')))"
proof (cases "FindEntryLocked (h_id h) (w_reg o')")
  case (Some s)
  have "leads any_op o' (snd (BindLocked c s (h_id h) (w_reg o')))"
    if "FindComponentLocked (co_scope opt) ow ty n (w_reg o') = Some c"
      "edge_permitted (re_id (rg_entries (w_reg o') ! c)) (h_id h) s (w_reg o')" for c
    by (rule leads_bind [OF leads_refl _ component_found [OF ok that(1)] Some that(2)]) simp
  then show ?thesis
    by (auto simp: bind_section_def edge_permitted_def Some Let_def leads_refl
        split: option.splits prod.splits sum.splits bool.splits if_splits)
qed (simp add: bind_section_def leads_refl)

lemma leads_unbind_section:
  assumes ok: "world_ok o'"
  shows "leads any_op o' (snd (unbind_section ty h n opt ow (w_reg o')))"
proof (cases "FindComponentLocked (co_scope opt) ow ty n (w_reg o')")
  case (Some c)
  have "leads any_op o' (snd (BeginUnbindLocked c (h_id h) (w_reg o')))"
    by (rule leads_unbind [OF leads_refl _ component_found [OF ok Some]]) simp
  then show ?thesis
    by (auto simp: unbind_section_def Some split: option.splits prod.splits sum.splits)
qed (simp add: unbind_section_def leads_refl)

lemma leads_erase_section: "leads any_op o' (snd (erase_section c s g (w_reg o')))"
  by (auto simp: erase_section_def Let_def leads_refl split: option.splits intro: leads_erase [OF leads_refl])

lemma moves_owner [app_moves]: "moves any_op (ValidateOwner E opt)"
  unfolding ValidateOwner_def by (auto intro!: app_moves split: option.splits)

lemma moves_sections [app_moves]:
  "moves any_op (locked E (bind_section allows ty h n opt ow))" "moves any_op (locked E (\<lambda>_. unbind_section ty h n opt ow))"
  "moves any_op (locked E (\<lambda>_. erase_section c s g))" "moves any_op (locked E (begin_uninstall_actor nm))"
  by (rule moves_locked, simp, simp add: leads_bind_section leads_unbind_section leads_erase_section leads_begin_uninstall_actor)+

lemma moves_binding [app_moves]:
  "moves any_op (BindComponentImpl E allows ty h n opt)" "moves any_op (UnbindComponentImpl E ty h n opt)"
  unfolding BindComponentImpl_def UnbindComponentImpl_def
  by (auto intro!: app_moves split: sum.splits option.splits)

lemma moves_finish_install [app_moves]: "(\<And>i. moves any_op (start i)) \<Longrightarrow> moves any_op (finish_install E start i r)"
  unfolding finish_install_def by (auto intro!: app_moves split: sum.splits)

lemma moves_uninstall_rest [app_moves]:
  "moves any_op drain \<Longrightarrow> (\<And>i h ph. moves any_op (run i h ph)) \<Longrightarrow> (\<And>i h ph. moves any_op (rv i h ph)) \<Longrightarrow>
   moves any_op (uninstall_rest E drain run rv i)"
  unfolding uninstall_rest_def by (auto intro!: app_moves split: sum.splits)

lemma moves_create [app_moves]:
  "moves any_op (locked E (\<lambda>now r. if b r then (c, r) else create_section k tn n sc ow ty ob now r))"
  by (rule moves_locked) (auto simp: leads_refl leads_create_section)

lemma moves_InstallComponent [app_moves]: "moves any_op (InstallComponentImpl E ty n opt ctor)"
  unfolding InstallComponentImpl_def by (auto intro!: app_moves split: sum.splits ctor_outcome.splits)

lemma moves_begin_uninstall [app_moves]:
  "moves any_op (locked E (\<lambda>now r. case f r of None \<Rightarrow> (c, r) | Some p \<Rightarrow>
     (case begin_uninstall (re_id (rg_entries r ! p)) now r of (Inl e, r1) \<Rightarrow> (Inl e, r1)
      | (Inr evs, r1) \<Rightarrow> (Inr (re_id (rg_entries r ! p), evs), r1))))"
proof (rule moves_locked)
  fix now o'
  have "leads any_op o' (snd (begin_uninstall (re_id (rg_entries (w_reg o') ! p)) now (w_reg o')))" for p
    by (rule leads_begin_uninstall)
  then show "leads any_op o' (snd (case f (w_reg o') of None \<Rightarrow> (c, w_reg o') | Some p \<Rightarrow>
     (case begin_uninstall (re_id (rg_entries (w_reg o') ! p)) now (w_reg o') of (Inl e, r1) \<Rightarrow> (Inl e, r1)
      | (Inr evs, r1) \<Rightarrow> (Inr (re_id (rg_entries (w_reg o') ! p), evs), r1))))"
    by (auto simp: leads_refl split: option.splits prod.splits sum.splits) (metis snd_conv)+
qed simp

lemma moves_UninstallComponent [app_moves]: "moves any_op (UninstallComponentImpl E ty n opt)"
  unfolding UninstallComponentImpl_def uninstall_section_def by (auto intro!: app_moves split: sum.splits)

lemma moves_apply_bindings: "moves any_op (apply_bindings E allows h svc made ds)"
  by (induction E allows h svc made ds rule: apply_bindings.induct)
     (auto intro!: app_moves split: sum.splits prod.splits)

lemma moves_InstallService [app_moves]: "moves any_op (InstallServiceImpl E allows ty n ctor ds)"
  unfolding InstallServiceImpl_def ApplyServiceBindings_def
  by (auto intro!: app_moves moves_apply_bindings split: sum.splits ctor_outcome.splits option.splits)

lemma moves_close_edges [app_moves]:
  "moves any_op (locked E (\<lambda>_ r. case close_edges i r of (es, r1) \<Rightarrow> ((es, g r1), r1)))"
proof (rule moves_locked)
  fix now :: int and o'
  show "leads any_op o' (snd (case close_edges i (w_reg o') of (es, r1) \<Rightarrow> ((es, g r1), r1)))"
    using leads_close_edges [OF leads_refl, of o' i] by (cases "close_edges i (w_reg o')") simp
qed simp

lemma moves_erase_list [app_moves]: "moves any_op (locked E (\<lambda>_ r. ((), erase_edges i cs r)))"
  by (rule moves_finish(5))

lemma moves_UninstallService [app_moves]: "moves any_op (UninstallServiceImpl E n)"
  unfolding UninstallServiceImpl_def by (auto intro!: app_moves split: sum.splits option.splits prod.splits)

lemma moves_InstallActorType [app_moves]: "moves any_op (InstallActorTypeImpl E ty n)"
proof -
  have "moves any_op (locked E (\<lambda>now r.
      if FindByTypeNameLocked KActor n r \<noteq> None
      then (fail InvalidArgument (''InstallActor: duplicate actor type '' @ quoted n), r)
      else (case CreateEntryLocked KActor n [] AppScope [] ty 0 r of
              (Inl e, r1) \<Rightarrow> (Inl e, r1)
            | (Inr p, r1) \<Rightarrow> let q = SetStateLocked now p Installed None r1 in (Inr (fst q), snd q))))"
    by (rule moves_locked)
       (auto simp: leads_refl Let_def split: prod.splits sum.splits intro: leads_create_state)
  then show ?thesis unfolding InstallActorTypeImpl_def by (auto intro!: app_moves split: sum.splits)
qed

lemma moves_UninstallActorType [app_moves]: "moves any_op (UninstallActorTypeImpl E n)"
proof -
  have "moves any_op (locked E (\<lambda>now r. case FindEntryLocked i r of
             None \<Rightarrow> ((None, []), r)
           | Some p \<Rightarrow> FinishDestroyLocked now p (EndOpLocked p (upd_entry p (\<lambda>e. e\<lparr>re_destroy_phase := []\<rparr>) r))))" for i
    by (rule moves_locked) (auto simp: leads_refl split: option.splits intro!: leads_any)
  then show ?thesis unfolding UninstallActorTypeImpl_def by (auto intro!: app_moves split: sum.splits)
qed

subsection \<open>Calls\<close>

lemma moves_co_entry [app_moves]: "moves A m \<Longrightarrow> moves A (co_entry E m)"
  unfolding co_entry_def by (auto intro!: app_moves split: sum.splits)

lemma moves_Borrow [app_moves]: "moves any_op (Borrow E h g)"
proof -
  let ?f = "\<lambda>w. case BorrowImpl h g False (aw_reg w) of
            (Inl e, r) \<Rightarrow> (Inl e, set_reg r w)
          | (Inr (l, ob), r) \<Rightarrow>
              if ob = 0 then
                (fail InternalError ''MakeComponentBorrow: null lease/obj'',
                 set_reg (ReleaseBorrow (bl_component l) (bl_subject l) (bl_generation l) r) w)
              else (Inr ob, w\<lparr>aw_objects := \<lparr>w_reg = r, w_leases = w_leases (aw_objects w) @ [l]\<rparr>\<rparr>)"
  have "moves any_op (sec ?f)"
  proof (rule moves_sec_run)
    fix w :: app_world
    let ?o = "aw_objects w"
    consider e r where "BorrowImpl h g False (aw_reg w) = (Inl e, r)"
      | l ob r where "BorrowImpl h g False (aw_reg w) = (Inr (l, ob), r)" by (metis prod.exhaust sum.exhaust)
    then show "\<exists>xs. list_all any_op xs \<and> aw_objects (snd (?f w)) = run_ops obj_step ?o xs"
    proof cases
      case 1
      then show ?thesis
        by (intro exI [of _ "[OpBorrow h g False]"]) (simp add: obj_step_def set_reg_def aw_reg_def Let_def)
    next
      case 2
      have "drop_lease (length (w_leases ?o)) (w_leases ?o @ [l]) = w_leases ?o" by (simp add: drop_lease_def)
      with 2 show ?thesis
        by (intro exI [of _ "OpBorrow h g False # (if ob = 0 then [OpRelease (length (w_leases ?o))] else [])"])
           (simp add: obj_step_def set_reg_def aw_reg_def Let_def)
    qed
  qed
  then show ?thesis unfolding Borrow_def by (auto intro!: app_moves)
qed

lemma moves_entries [app_moves]:
  "moves any_op (CoInstallComponent E ty n opt ctor)" "moves any_op (CoUninstallComponent E ty n opt)"
  "moves any_op (CoInstallService E allows ty n so ctor)" "moves any_op (CoUninstallService E n)"
  "moves any_op (CoInstallActor E ty n ao)" "moves any_op (CoUninstallActor E n)"
  "moves any_op (CoBindComponent E allows ty h n opt)" "moves any_op (CoUnbindComponent E ty h n opt)"
  "moves any_op (CoObserve E obs tgt cb)" "moves any_op (ReturnBorrow E k)" "moves any_op (TokenRevoke E t)"
  unfolding CoInstallComponent_def CoUninstallComponent_def CoInstallService_def CoUninstallService_def CoInstallActor_def
    CoUninstallActor_def CoBindComponent_def CoUnbindComponent_def CoObserve_def ReturnBorrow_def TokenRevoke_def RevokeObserver_def
  by (auto intro!: app_moves moves_apply_ops split: sum.splits)

lemma moves_perform [app_moves]: "moves any_op (perform opts allows E c)"
  unfolding perform_def ignore_def by (cases c) (auto intro!: app_moves)

lemma run_calls_keep:
  "stable any_op P \<Longrightarrow> on_objects P w \<Longrightarrow> on_objects P (run_calls opts allows cs w)"
proof (induction cs arbitrary: w)
  case (Cons c cs)
  obtain E x where c: "c = (E, x)" by (cases c)
  have "on_objects P (snd (run_state (perform opts allows E x) w))"
    using moves_perform [of opts allows E x] Cons.prems by (simp add: moves_def keeps_def)
  then show ?case using Cons c by simp
qed simp

lemma reached_stable: "stable any_op (\<lambda>o'. \<exists>xs. o' = run_ops obj_step o0 xs)"
  unfolding stable_def
proof (intro allI impI)
  fix o' x assume "\<exists>xs. o' = run_ops obj_step o0 xs"
  then obtain xs where "o' = run_ops obj_step o0 xs" ..
  then have "obj_step o' x = run_ops obj_step o0 (xs @ [x])" by (simp add: run_ops_append)
  then show "\<exists>xs. obj_step o' x = run_ops obj_step o0 xs" ..
qed

lemma moves_RegisterAppObject: "moves any_op (RegisterAppObject E)"
proof -
  have "moves any_op (locked E (\<lambda>now r.
       case CreateEntryLocked KApp ''app'' [] AppScope [] ''CoApp'' 0 r of
         (Inl e, r1) \<Rightarrow> (Inl e, r1)
       | (Inr p, r1) \<Rightarrow>
           let q = SetStateLocked now p Running None r1
           in (Inr (fst q, MakeHandleLocked (rg_entries (snd q) ! p) (snd q)), snd q)))"
    by (rule moves_locked)
       (auto simp: leads_refl Let_def split: prod.splits sum.splits intro: leads_create_state)
  then show ?thesis unfolding RegisterAppObject_def by (auto intro!: app_moves moves_sec_same split: sum.splits)
qed

lemma constructed_app:
  assumes "construct_app E self opts = Some w"
  shows "on_objects (\<lambda>o'. \<exists>xs. o' = run_ops obj_step (new_world self (registry_limits opts)) xs) w"
proof -
  let ?P = "\<lambda>o'. \<exists>xs. o' = run_ops obj_step (new_world self (registry_limits opts)) xs"
  have "on_objects ?P (blank_app self opts)"
    by (auto simp: on_objects_def blank_app_def new_world_ok intro: exI [of _ "[]"])
  then have "on_objects ?P (snd (run_state (RegisterAppObject E) (blank_app self opts)))"
    using moves_RegisterAppObject [of E] reached_stable by (simp add: moves_def keeps_def)
  moreover have "w = snd (run_state (RegisterAppObject E) (blank_app self opts))"
    using assms by (auto simp: construct_app_def split: if_splits prod.splits sum.splits)
  ultimately show ?thesis by simp
qed

text \<open>An application whose environment does nothing: a section runs at once.\<close>

lemma locked_quiet:
  "run_state (locked quiet_env f) w =
     (if aw_halted w = None
      then (fst (f (int (aw_tick w + 1)) (aw_reg w)),
            set_reg (snd (f (int (aw_tick w + 1)) (aw_reg w))) (w\<lparr>aw_tick := aw_tick w + 1\<rparr>))
      else (fst (f (int (aw_tick w)) (aw_reg w)), w))"
  by (simp add: locked_def outside_def quiet_env_def sec_run run_bind set_reg_def aw_reg_def split: prod.splits)

lemma quiet_coroutine [simp]: "en_coroutine quiet_env = 1"
  by (simp add: quiet_env_def)

lemma demo_app: "\<exists>w. construct_app quiet_env 0 demo_options = Some w \<and> aw_self w \<noteq> None"
  by (simp add: construct_app_def RegisterAppObject_def run_bind locked_quiet sec_run blank_app_def aw_reg_def new_world_def
      new_registry_def registry_limits_def demo_options_def CreateEntryLocked_def CountObjectsLocked_def NextIdLocked_def
      SetStateLocked_def Let_def set_reg_def run_state_return)

definition demo_calls :: "(app_env \<times> app_call) list" where
  "demo_calls =
     [(quiet_env, CallInstallComponent ''Db'' ''main'' \<lparr>co_scope = AppScope, co_owner = None\<rparr> (Constructed 1)),
      (quiet_env, CallStart), (quiet_env, CallStop)]"

text \<open>C26: The application refines the registry. Take an application as its constructor leaves it and
  call any sequence of its operations (start, pause, resume, stop, install and uninstall of
  components, services and actor types, bind, unbind, observe, revoke, borrow, return), each beside
  any operations of others and with any answers of hooks, scheduler and waits. The registry and the
  leases are then those of a history of registry operations from the empty registry; so the borrow
  counter of every component is the number of its live leases and every identifier is unique.\<close>

theorem application_refines_registry:
  assumes "construct_app E0 self opts = Some w0"
  shows "(\<exists>xs. aw_objects (run_calls opts allows cs w0) = run_ops obj_step (new_world self (registry_limits opts)) xs) \<and>
    (\<forall>e \<in> set (rg_entries (aw_reg (run_calls opts allows cs w0))).
       re_component_borrows e = leases_on (re_id e) (w_leases (aw_objects (run_calls opts allows cs w0)))) \<and>
    distinct (map re_id (rg_entries (aw_reg (run_calls opts allows cs w0))))"
proof -
  let ?w = "run_calls opts allows cs w0"
  obtain xs where xs: "aw_objects ?w = run_ops obj_step (new_world self (registry_limits opts)) xs" and ok: "world_ok (aw_objects ?w)"
    using run_calls_keep [OF reached_stable constructed_app [OF assms], of opts allows cs] by (auto simp: on_objects_def)
  moreover have "distinct (map re_id (rg_entries (aw_reg ?w)))"
    using ok by (simp add: world_ok_def ids_ok_def ids_def aw_reg_def)
  moreover have "re_component_borrows e = leases_on (re_id e) (w_leases (aw_objects ?w))" if "e \<in> set (rg_entries (aw_reg ?w))" for e
    using ok that by (auto simp: world_ok_def entry_ok_def aw_reg_def)
  ultimately show ?thesis by blast
qed

theorem application_refines_registry_witness:
  "\<exists>w0. construct_app quiet_env 0 demo_options = Some w0 \<and>
     (\<exists>xs. aw_objects (run_calls demo_options (\<lambda>_ _. True) demo_calls w0) =
        run_ops obj_step (new_world 0 (registry_limits demo_options)) xs)"
proof -
  obtain w where w: "construct_app quiet_env 0 demo_options = Some w" using demo_app by blast
  show ?thesis using application_refines_registry [OF w, of "\<lambda>_ _. True" demo_calls] w by blast
qed



end
