(* ===== verification/AppSafety.thy ===== *)
theory AppSafety
  imports AppMoves
begin

text \<open>
  No component is stopped while it is lent. The reasoning is that of a rely and a guarantee: once an
  object is shut, no operation of the environment lends it again, so from the moment its leases are
  drained none exists, and the hooks \<open>OnStop\<close> and \<open>OnUninstall\<close> are called without any. What shuts an
  object differs: uninstalling closes its gate, which nothing opens again; stopping only sets its
  state, which another operation could set back.
\<close>

subsection \<open>Triples\<close>

definition triple :: "(app_world \<Rightarrow> bool) \<Rightarrow> 'a app \<Rightarrow> ('a \<Rightarrow> app_world \<Rightarrow> bool) \<Rightarrow> bool" where
  "triple P m Q \<longleftrightarrow> (\<forall>w. P w \<longrightarrow> Q (fst (run_state m w)) (snd (run_state m w)))"

lemma triple_bind: "triple P m Q \<Longrightarrow> (\<And>x. triple (Q x) (f x) R) \<Longrightarrow> triple P (State_Monad.bind m f) R"
  by (simp add: triple_def run_bind del: run_state_bind)

lemma triple_return: "(\<And>w. P w \<Longrightarrow> Q x w) \<Longrightarrow> triple P (State_Monad.return x) Q"
  by (simp add: triple_def run_state_return)

lemma triple_keep: "keeps P m \<Longrightarrow> triple P m (\<lambda>_. P)"
  by (simp add: triple_def keeps_def)

lemma triple_pre: "triple P' m Q \<Longrightarrow> (\<And>w. P w \<Longrightarrow> P' w) \<Longrightarrow> triple P m Q"
  by (simp add: triple_def)

lemma triple_post: "triple P m Q' \<Longrightarrow> (\<And>x w. Q' x w \<Longrightarrow> Q x w) \<Longrightarrow> triple P m Q"
  by (simp add: triple_def)

lemma triple_first: "keeps P m \<Longrightarrow> (\<And>x. triple P (f x) R) \<Longrightarrow> triple P (State_Monad.bind m f) R"
  by (erule triple_bind [OF triple_keep])

lemma triple_sec:
  "(\<And>w. P w \<Longrightarrow> aw_halted w = None \<Longrightarrow> Q (fst (f w)) (snd (f w))) \<Longrightarrow>
   (\<And>w. P w \<Longrightarrow> aw_halted w \<noteq> None \<Longrightarrow> Q (fst (f w)) w) \<Longrightarrow> triple P (sec f) Q"
  by (simp add: triple_def sec_run)

text \<open>No hook called since the trace was \<open>t\<close> saw a live lease of its object.\<close>

definition clean :: "app_event list \<Rightarrow> app_world \<Rightarrow> bool" where
  "clean t w \<longleftrightarrow> (\<exists>es. aw_trace w = t @ es \<and> (\<forall>h j k. AEHook h j k \<in> set es \<longrightarrow> k = 0))"

definition within :: "app_event list \<Rightarrow> (object_world \<Rightarrow> bool) \<Rightarrow> app_world \<Rightarrow> bool" where
  "within t P w \<longleftrightarrow> on_objects P w \<and> clean t w"

lemma clean_start [simp]: "clean (aw_trace w) w"
  by (simp add: clean_def)

lemma hooks_of_none: "hooks_of es = [] \<Longrightarrow> AEHook h j k \<notin> set es"
  by (induction es) (auto simp: hooks_of_def split: app_event.splits)

lemma silent_clean:
  assumes "silent m"
  shows "keeps (clean t) m"
  unfolding keeps_def
proof (intro allI impI)
  fix w assume "clean t w"
  then obtain es where es: "aw_trace w = t @ es" "\<forall>h j k. AEHook h j k \<in> set es \<longrightarrow> k = 0" unfolding clean_def by blast
  obtain es' where es': "aw_trace (snd (run_state m w)) = aw_trace w @ es'" "hooks_of es' = []"
    using assms unfolding silent_def traces_def by blast
  then show "clean t (snd (run_state m w))"
    using es hooks_of_none [OF es'(2)] unfolding clean_def by (intro exI [of _ "es @ es'"]) auto
qed

lemma within_keeps: "silent m \<Longrightarrow> moves A m \<Longrightarrow> stable A P \<Longrightarrow> keeps (within t P) m"
  using silent_clean [of m t] by (simp add: keeps_def within_def moves_def)

lemma within_mono: "within t P w \<Longrightarrow> (\<And>o'. P o' \<Longrightarrow> Q o') \<Longrightarrow> within t Q w"
  by (auto simp: within_def on_objects_def)

lemma within_clean: "within t P w \<Longrightarrow> clean t w"
  by (simp add: within_def)

subsection \<open>An object that is shut\<close>

definition idle :: "string \<Rightarrow> (object_world \<Rightarrow> bool) \<Rightarrow> object_world \<Rightarrow> bool" where
  "idle i S o' \<longleftrightarrow> S o' \<and> leases_on i (w_leases o') = 0"

text \<open>Nobody holds a lease of it, or it is gone.\<close>

definition released :: "string \<Rightarrow> (object_world \<Rightarrow> bool) \<Rightarrow> object_world \<Rightarrow> bool" where
  "released i S o' \<longleftrightarrow> S o' \<and> (FindEntryLocked i (w_reg o') = None \<or> leases_on i (w_leases o') = 0)"

lemma leases_on_drop: "k < length ls \<Longrightarrow> leases_on i (drop_lease k ls) \<le> leases_on i ls"
  using filter_drop_nth [of k ls "\<lambda>l. bl_component l = i"] by (simp add: leases_on_def drop_lease_def)

lemma not_found_dead:
  "ids_ok r \<Longrightarrow> issued_id (rg_next_id_seq r) i \<Longrightarrow> FindEntryLocked i r = None \<Longrightarrow> dead_id i r"
  using FindEntry_iff [of r i] by (fastforce simp: dead_id_def ids_def in_set_conv_nth)

locale shut_object =
  fixes A :: "obj_op \<Rightarrow> bool" and i :: string and S :: "object_world \<Rightarrow> bool"
  assumes plain_ops: "plain A"
    and stays_shut: "stable A S"
    and was_issued: "S o' \<Longrightarrow> issued_id (rg_next_id_seq (w_reg o')) i"
    and not_lent: "world_ok o' \<Longrightarrow> S o' \<Longrightarrow> h_id h = i \<Longrightarrow> \<not> is_ok (fst (BorrowImpl h g a (w_reg o')))"
begin

lemma leases_shrink:
  assumes ok: "world_ok o'" and S: "S o'"
  shows "leases_on i (w_leases (obj_step o' x)) \<le> leases_on i (w_leases o')"
proof -
  have ids: "ids_ok (w_reg o')" using ok by (simp add: world_ok_def)
  consider "w_leases (obj_step o' x) = w_leases o'"
    | k where "k < length (w_leases o')" "w_leases (obj_step o' x) = drop_lease k (w_leases o')"
    | h g a l ob r' where "BorrowImpl h g a (w_reg o') = (Inr (l, ob), r')" "w_leases (obj_step o' x) = w_leases o' @ [l]"
    using obj_step_leases [of o' x] by blast
  then show ?thesis
  proof cases
    case 3
    then have "h_id h \<noteq> i" using not_lent [OF ok S, of h g a] by (auto simp: is_ok_def)
    then show ?thesis using Borrow_lease(1) [OF ids 3(1)] 3(2) by (simp add: leases_on_def)
  qed (simp_all add: leases_on_drop)
qed

lemma idle_stable: "stable A (idle i S)"
  using stays_shut leases_shrink by (fastforce simp: stable_def idle_def)

lemma released_stable: "stable A (released i S)"
  unfolding stable_def
proof (intro allI impI)
  fix o' x assume a: "A x" "world_ok o'" "released i S o'"
  then have S: "S o'" and S': "S (obj_step o' x)" using stays_shut by (auto simp: released_def stable_def)
  have ids: "ids_ok (w_reg o')" "ids_ok (w_reg (obj_step o' x))"
    using a(2) obj_step_ok [OF a(2), of x] by (simp_all add: world_ok_def)
  show "released i S (obj_step o' x)"
  proof (cases "FindEntryLocked i (w_reg o')")
    case None
    have "dead_id i (w_reg (obj_step o' x))"
      by (rule dead_id_evolves [OF not_found_dead [OF ids(1) was_issued [OF S] None] obj_step_evolves [OF a(2)]])
    then show ?thesis using S' dead_id_not_found [OF ids(2)] by (simp add: released_def)
  next
    case Some
    then show ?thesis using a(3) S' leases_shrink [OF a(2) S, of x] by (simp add: released_def)
  qed
qed

lemma drained:
  assumes "within t S w" and "borrows_drained i (aw_reg w)"
  shows "within t (released i S) w"
proof -
  have ok: "world_ok (aw_objects w)" using assms(1) by (simp add: within_def on_objects_def)
  have "FindEntryLocked i (aw_reg w) = None \<or> leases_on i (w_leases (aw_objects w)) = 0"
    using assms(2) world_found [OF ok, of i]
    by (auto simp: borrows_drained_def aw_reg_def entry_ok_def split: option.splits)
  then show ?thesis using assms(1) by (simp add: within_def on_objects_def released_def aw_reg_def)
qed

lemma found_idle:
  "within t (released i S) w \<Longrightarrow> FindEntryLocked i (aw_reg w) = Some p \<Longrightarrow> within t (idle i S) w"
  by (simp add: within_def on_objects_def released_def idle_def aw_reg_def)

lemma idle_released: "within t (idle i S) w \<Longrightarrow> within t (released i S) w"
  by (auto simp: within_def on_objects_def released_def idle_def)

lemma keep_rounds: "list_all A xs \<Longrightarrow> keeps (within t S) (apply_ops xs)"
  by (intro within_keeps [OF _ _ stays_shut] app_traces moves_apply_ops)

lemma triple_rounds:
  "\<forall>p \<in> set rs. list_all A (fst p) \<Longrightarrow>
   triple (within t S) (borrow_rounds (borrows_drained i) rs) (\<lambda>r w. clean t w \<and> (is_ok r \<longrightarrow> within t (released i S) w))"
proof (induction "borrows_drained i" rs rule: borrow_rounds.induct)
  case 1
  show ?case
    unfolding borrow_rounds.simps
    by (rule triple_bind [OF triple_sec [where Q = "\<lambda>b w. clean t w \<and> (b \<longrightarrow> within t (released i S) w)"]])
       (auto simp: within_clean drained intro!: triple_return)
next
  case (2 xs s rs)
  have xs: "list_all A xs" and rs: "\<forall>p \<in> set rs. list_all A (fst p)" using 2(2) by simp_all
  show ?case
    unfolding borrow_rounds.simps
  proof (rule triple_bind [OF triple_sec [where Q = "\<lambda>b w. within t S w \<and> (b \<longrightarrow> within t (released i S) w)"]])
    fix b
    show "triple (\<lambda>w. within t S w \<and> (b \<longrightarrow> within t (released i S) w))
        (if b then State_Monad.return (Inr ())
         else do { apply_ops xs; if s = CoCompleted then borrow_rounds (borrows_drained i) rs
                   else State_Monad.return (Inl (borrow_wait_error s)) })
        (\<lambda>r w. clean t w \<and> (is_ok r \<longrightarrow> within t (released i S) w))"
      by (auto simp: within_clean intro!: triple_return triple_pre [OF triple_first [OF keep_rounds [OF xs]]] 2(1) [OF _ _ rs])
  qed (auto simp: drained)
qed

lemma triple_wait:
  assumes "confined A E"
  shows "triple (within t S) (WaitBorrowsDrained E i) (\<lambda>r w. clean t w \<and> (is_ok r \<longrightarrow> within t (released i S) w))"
proof -
  have rounds: "triple (within t S) (State_Monad.bind (tick_value (en_rounds E)) (borrow_rounds (borrows_drained i)))
      (\<lambda>r w. clean t w \<and> (is_ok r \<longrightarrow> within t (released i S) w))"
    unfolding triple_def
  proof (intro allI impI)
    fix w assume "within t S w"
    then show "clean t (snd (run_state (State_Monad.bind (tick_value (en_rounds E)) (borrow_rounds (borrows_drained i))) w)) \<and>
        (is_ok (fst (run_state (State_Monad.bind (tick_value (en_rounds E)) (borrow_rounds (borrows_drained i))) w)) \<longrightarrow>
         within t (released i S) (snd (run_state (State_Monad.bind (tick_value (en_rounds E)) (borrow_rounds (borrows_drained i))) w)))"
      using triple_rounds [of "en_rounds E (aw_tick w)" t] assms
      by (simp add: triple_def run_bind tick_value_def sec_run confined_def)
  qed
  have out: "keeps (within t S) (outside E)"
    by (rule within_keeps [OF _ _ stays_shut]) (simp_all add: app_traces moves_outside assms)
  show ?thesis
    unfolding WaitBorrowsDrained_def WaitBorrows_def
    by (auto simp: within_clean fail_def intro!: triple_return triple_first [OF out rounds])
qed

text \<open>A hook of the object, run while it is released: it sees no lease.\<close>

lemma call_hook_idle: "triple (within t (idle i S)) (call_hook E h i) (\<lambda>_. within t (idle i S))"
  unfolding call_hook_def
proof (rule triple_sec)
  fix w assume w: "within t (idle i S) w"
  then obtain es where "aw_trace w = t @ es" "\<forall>h j k. AEHook h j k \<in> set es \<longrightarrow> k = 0" by (auto simp: within_def clean_def)
  then have "clean t (w\<lparr>aw_trace := aw_trace w @ [AEHook h i 0]\<rparr>)"
    unfolding clean_def by (intro exI [of _ "es @ [AEHook h i 0]"]) auto
  then show "within t (idle i S) (snd (en_hook E (aw_tick w),
      w\<lparr>aw_trace := aw_trace w @ [AEHook h i (leases_on i (w_leases (aw_objects w)))]\<rparr>))"
    using w by (simp add: within_def on_objects_def idle_def)
qed simp

lemma idle_keeps: "silent m \<Longrightarrow> moves A m \<Longrightarrow> keeps (within t (idle i S)) m"
  by (rule within_keeps [OF _ _ idle_stable])

lemma released_keeps: "silent m \<Longrightarrow> moves A m \<Longrightarrow> keeps (within t (released i S)) m"
  by (rule within_keeps [OF _ _ released_stable])

lemma to_released: "triple (within t (idle i S)) m (\<lambda>_. within t (idle i S)) \<Longrightarrow> triple (within t (idle i S)) m (\<lambda>_. within t (released i S))"
  by (erule triple_post) (rule idle_released)

lemma run_submitted_idle:
  assumes "confined A E"
  shows "triple (within t (idle i S)) (run_submitted E i h ph) (\<lambda>_. within t (released i S))"
proof -
  have rest: "keeps (within t (idle i S)) (do {
      outside E;
      s \<leftarrow> tick_value (en_wait E);
      (if s = CoCompleted then locked E (\<lambda>_ r. ((), NoteHookSettled i r)) else State_Monad.return ());
      (case FinishCoHookWait (RunHookCaught out) s of
        Inr _ \<Rightarrow> State_Monad.return (Inr ())
      | Inl e \<Rightarrow> do {
          record_failure E (failure_of i ph ph (err_code e) (err_message e));
          State_Monad.return (Inl e) }) })" for out
    by (rule idle_keeps) (auto intro!: app_traces app_moves assms plain_ops split: sum.splits)
  show ?thesis
    unfolding run_submitted_def
    by (rule to_released, rule triple_bind [OF call_hook_idle], rule triple_keep [OF rest])
qed

lemma section_found:
  assumes "confined A E" and "\<And>r. x_found (fst (f r)) \<Longrightarrow> \<exists>p. FindEntryLocked i r = Some p"
    and "moves A (locked E (\<lambda>_. f))" and "silent (locked E (\<lambda>_. f))"
    and "\<And>r. FindEntryLocked i (snd (f r)) = FindEntryLocked i r"
  shows "triple (within t (released i S)) (locked E (\<lambda>_. f))
    (\<lambda>x w. within t (released i S) w \<and> (x_found x \<longrightarrow> within t (idle i S) w))"
  unfolding triple_def
proof (intro allI impI)
  fix w assume w: "within t (released i S) w"
  let ?w' = "snd (run_state (locked E (\<lambda>_. f)) w)"
  have w': "within t (released i S) ?w'" using released_keeps [OF assms(4,3)] w by (simp add: keeps_def)
  let ?w1 = "snd (run_state (outside E) w)"
  have "fst (run_state (locked E (\<lambda>_. f)) w) = fst (f (aw_reg ?w1))"
    "aw_reg ?w' = aw_reg ?w1 \<or> aw_reg ?w' = snd (f (aw_reg ?w1))"
    by (auto simp: locked_def run_bind sec_run set_reg_def aw_reg_def split: prod.splits)
  then have "x_found (fst (run_state (locked E (\<lambda>_. f)) w)) \<Longrightarrow> \<exists>p. FindEntryLocked i (aw_reg ?w') = Some p"
    using assms(2,5) by metis
  then show "within t (released i S) ?w' \<and> (x_found (fst (run_state (locked E (\<lambda>_. f)) w)) \<longrightarrow> within t (idle i S) ?w')"
    using w' found_idle by blast
qed

lemma hook_begins_idle:
  assumes "confined A E"
  shows "triple (within t (released i S)) (locked E (\<lambda>_. begin_hook i))
    (\<lambda>present w. within t (released i S) w \<and> (present \<longrightarrow> within t (idle i S) w))"
  by (rule section_found [where x_found = "\<lambda>x. x", OF assms])
     (auto simp: begin_hook_def split: option.splits intro: app_traces moves_hook_begins assms plain_ops)

lemma owner_idle:
  assumes "confined A E"
  shows "triple (within t (released i S)) (owner_of E i)
    (\<lambda>ob w. within t (released i S) w \<and> (ob \<noteq> None \<longrightarrow> within t (idle i S) w))"
  unfolding owner_of_def
  by (rule section_found [where x_found = "\<lambda>ob. ob \<noteq> None", OF assms])
     (auto intro: app_traces moves_read assms)

lemma run_hook_released:
  assumes E: "confined A E"
  shows "triple (within t (released i S)) (run_hook_co E i h ph) (\<lambda>_. within t (released i S))"
proof -
  have settled: "keeps (within t (released i S)) (WaitHooksSettledCo E i)"
    by (rule released_keeps) (auto intro!: app_traces moves_waits E)
  have refused: "triple (within t (idle i S)) (do { locked E (\<lambda>_ r. ((), NoteHookSettled i r)); State_Monad.return x }) (\<lambda>_. within t (released i S))" for x
    by (rule to_released, rule triple_keep, rule idle_keeps) (auto intro!: app_traces app_moves E plain_ops)
  have sub: "keeps (within t (idle i S)) (tick_value (en_submit E))"
    by (rule idle_keeps) (auto intro!: app_traces app_moves)
  have go: "triple (within t (idle i S)) (submit_hook E i h ph) (\<lambda>_. within t (released i S))"
    unfolding submit_hook_def
    by (rule triple_first [OF sub])
       (auto simp: refused run_submitted_idle [OF E] split: submit_outcome.splits)
  show ?thesis
    unfolding run_hook_co_def
    by (rule triple_first [OF settled])
       (auto split: sum.splits intro!: triple_return triple_bind [OF hook_begins_idle [OF E]] triple_pre [OF go])
qed

lemma void_hook_released:
  assumes E: "confined A E"
  shows "triple (within t (released i S)) (run_void_hook E i h ph) (\<lambda>_. within t (released i S))"
proof -
  have out: "keeps (within t (idle i S)) (outside E)"
    by (rule idle_keeps) (auto intro!: app_traces app_moves E)
  have rest: "keeps (within t (idle i S)) (case thrown out of None \<Rightarrow> State_Monad.return ()
      | Some m \<Rightarrow> record_failure E (failure_of i ph ph InternalError m))" for out
    by (rule idle_keeps) (auto intro!: app_traces app_moves E plain_ops split: option.splits)
  have call: "triple (within t (idle i S)) (do { outside E; out \<leftarrow> call_hook E h i;
      (case thrown out of None \<Rightarrow> State_Monad.return ()
       | Some m \<Rightarrow> record_failure E (failure_of i ph ph InternalError m)) }) (\<lambda>_. within t (released i S))"
    by (rule to_released, rule triple_first [OF out], rule triple_bind [OF call_hook_idle], rule triple_keep [OF rest])
  show ?thesis
    unfolding run_void_hook_def
    by (rule triple_bind [OF owner_idle [OF E]])
       (auto split: option.splits intro!: triple_return triple_pre [OF call])
qed

lemma busy_keeps: "confined A E \<Longrightarrow> keeps (within t (released i S)) (hooks_busy E i)"
  by (rule released_keeps) (auto intro!: app_traces moves_rest)

text \<open>A program that calls no hook leaves the trace clean.\<close>

lemma triple_silent: "silent m \<Longrightarrow> (\<And>w. P w \<Longrightarrow> clean t w) \<Longrightarrow> triple P m (\<lambda>_. clean t)"
  by (rule triple_pre [OF triple_keep [OF silent_clean]])

lemma close_component_clean:
  assumes E: "confined A E"
  shows "triple (within t S) (close_component E i) (\<lambda>_. clean t)"
proof -
  have tail: "silent (do { fin \<leftarrow> locked E (finish_entry i); DrainInactiveObservers E; DispatchEvents E (snd fin); release_owner (fst fin) })"
    by (auto intro!: app_traces)
  have unhook: "triple (within t (released i S)) (do { run_void_hook E i OnUninstall ''uninstall''; fin \<leftarrow> locked E (finish_entry i);
      DrainInactiveObservers E; DispatchEvents E (snd fin); release_owner (fst fin) }) (\<lambda>_. clean t)"
    by (rule triple_bind [OF void_hook_released [OF E]], rule triple_silent [OF tail]) (rule within_clean)
  have busy: "triple (within t (released i S)) (do { busy \<leftarrow> hooks_busy E i;
      if busy then AbortDestroy E i ''stop'' ''hook_in_flight'' (MakeError TimedOut ''stop: prior hook still in flight'') StopIncomplete
      else do { run_void_hook E i OnUninstall ''uninstall''; fin \<leftarrow> locked E (finish_entry i);
        DrainInactiveObservers E; DispatchEvents E (snd fin); release_owner (fst fin) } }) (\<lambda>_. clean t)"
    by (rule triple_first [OF busy_keeps [OF E]])
       (simp add: unhook triple_silent [OF silent_AbortDestroy within_clean])
  have stop: "triple (within t (released i S)) (do { r2 \<leftarrow> run_hook_co E i OnStop ''stop'';
      case r2 of
        Inl e \<Rightarrow> AbortDestroy E i ''stop'' ''onstop'' e StopIncomplete
      | Inr _ \<Rightarrow> do { busy \<leftarrow> hooks_busy E i;
          if busy then AbortDestroy E i ''stop'' ''hook_in_flight'' (MakeError TimedOut ''stop: prior hook still in flight'') StopIncomplete
          else do { run_void_hook E i OnUninstall ''uninstall''; fin \<leftarrow> locked E (finish_entry i);
            DrainInactiveObservers E; DispatchEvents E (snd fin); release_owner (fst fin) } } }) (\<lambda>_. clean t)"
    by (rule triple_bind [OF run_hook_released [OF E]])
       (simp add: busy triple_silent [OF silent_AbortDestroy within_clean] split: sum.splits)
  show ?thesis
    unfolding close_component_def RunComponentHookCo_def RunComponentVoidHook_def
    by (rule triple_bind [OF triple_wait [OF E]])
       (auto intro!: triple_pre [OF stop] triple_silent [OF silent_AbortDestroy] split: sum.splits)
qed

lemma uninstall_drained:
  assumes E: "confined A E"
  shows "triple (within t S) (uninstall_rest E (WaitBorrowsDrained E i) (RunComponentHookCo E) (RunComponentVoidHook E) i) (\<lambda>_. clean t)"
proof -
  have tail: "silent (do { fin \<leftarrow> locked E (finish_entry i); DrainInactiveObservers E; DispatchEvents E (snd fin);
      release_owner (fst fin); State_Monad.return (Inr ()) })"
    by (auto intro!: app_traces)
  have abort: "silent (do { AbortDestroy E i op ph e s; State_Monad.return x })" for op ph e s x
    by (auto intro!: app_traces)
  show ?thesis
    unfolding uninstall_rest_def RunComponentHookCo_def RunComponentVoidHook_def
    by (rule triple_bind [OF triple_wait [OF E]])
       (auto split: sum.splits simp: within_clean intro!: triple_silent [OF abort] triple_bind [OF triple_pre [OF run_hook_released [OF E]]]
          triple_first [OF busy_keeps [OF E]] triple_bind [OF void_hook_released [OF E]] triple_silent [OF tail])
qed

end

subsection \<open>The gate\<close>

definition gate_shut :: "string \<Rightarrow> object_world \<Rightarrow> bool" where
  "gate_shut i o' \<longleftrightarrow> issued_id (rg_next_id_seq (w_reg o')) i \<and>
     (\<forall>e \<in> set (rg_entries (w_reg o')). re_id e = i \<longrightarrow> re_gate_closed e)"

lemma gate_stays_shut: "stable A (gate_shut i)"
  unfolding stable_def
proof (intro allI impI)
  fix o' x assume ok: "world_ok o'" and g: "gate_shut i o'"
  have ev: "evolves (rg_next_generation (w_reg o')) (w_reg o') (w_reg (obj_step o' x))" by (rule obj_step_evolves [OF ok])
  show "gate_shut i (obj_step o' x)"
    unfolding gate_shut_def
  proof (intro conjI ballI impI)
    show "issued_id (rg_next_id_seq (w_reg (obj_step o' x))) i"
      using g ev by (auto simp: gate_shut_def evolves_def intro: issued_id_mono)
    fix e' assume e': "e' \<in> set (rg_entries (w_reg (obj_step o' x)))" "re_id e' = i"
    then have "entry_from (rg_next_generation (w_reg o')) (w_reg o') e'" using ev by (simp add: evolves_def)
    moreover have "issued_id (rg_next_id_seq (w_reg o')) (re_id e')" using g e'(2) by (simp add: gate_shut_def)
    ultimately obtain e where "e \<in> set (rg_entries (w_reg o'))" "re_id e' = re_id e" "re_gate_closed e \<longrightarrow> re_gate_closed e'"
      unfolding entry_from_def by blast
    then show "re_gate_closed e'" using g e'(2) by (simp add: gate_shut_def)
  qed
qed

lemma borrow_refused:
  assumes ok: "world_ok o'" and h: "h_id h = i"
    and c: "\<And>p s. FindEntryLocked i (w_reg o') = Some p \<Longrightarrow>
      \<not> is_ok (fst (AcquireBorrowLocked p s g a (w_reg o')))"
  shows "\<not> is_ok (fst (BorrowImpl h g a (w_reg o')))"
proof (cases "BorrowImpl h g a (w_reg o')")
  case (Pair x r')
  show ?thesis
  proof
    assume "is_ok (fst (BorrowImpl h g a (w_reg o')))"
    then obtain l ob where "BorrowImpl h g a (w_reg o') = (Inr (l, ob), r')"
      using Pair by (cases x) auto
    then show False
    proof (rule BorrowImpl_success)
      fix p b
      assume "FindEntryLocked (h_id h) (w_reg o') = Some p" "AcquireBorrowLocked p (b_subject b) g a (w_reg o') = (Inr l, r')"
      then show False using c [of p "b_subject b"] h by simp
    qed
  qed
qed

lemma gate_refuses:
  assumes "world_ok o'" and "gate_shut i o'" and "h_id h = i"
  shows "\<not> is_ok (fst (BorrowImpl h g a (w_reg o')))"
proof (rule borrow_refused [OF assms(1,3)])
  fix p s assume "FindEntryLocked i (w_reg o') = Some p"
  then have "re_gate_closed (rg_entries (w_reg o') ! p)"
    using world_found [OF assms(1)] assms(2) by (simp add: gate_shut_def)
  then show "\<not> is_ok (fst (AcquireBorrowLocked p s g a (w_reg o')))" by (simp add: AcquireBorrowLocked_def Let_def fail_def)
qed

interpretation gate: shut_object any_op i "gate_shut i" for i
  by unfold_locales (simp_all add: gate_stays_shut gate_refuses gate_shut_def)

lemma begin_uninstall_shuts:
  assumes ok: "world_ok o'" and B: "begin_uninstall i now (w_reg o') = (Inr evs, r1)"
  shows "gate_shut i (o'\<lparr>w_reg := r1\<rparr>)"
proof -
  obtain p where F: "FindEntryLocked i (w_reg o') = Some p"
    using B by (auto simp: begin_uninstall_def BeginDestroyLocked_def fail_def Let_def split: option.splits if_splits)
  note W = world_found [OF ok F]
  let ?e = "rg_entries (w_reg o') ! p"
  have r1: "rg_entries r1 = (rg_entries (w_reg o'))[p := advance Uninstalling None
      (?e\<lparr>re_op_in_progress := True, re_gate_closed := True, re_destroy_phase := ''uninstall''\<rparr>)]"
    "rg_next_id_seq r1 = rg_next_id_seq (w_reg o')"
    using B F W(1) by (auto simp: begin_uninstall_def BeginDestroyLocked_def Let_def fail_def SetStateLocked_def upd_entry_def split: if_splits)
  have ids: "ids_ok (w_reg o')" using ok by (simp add: world_ok_def)
  have "re_gate_closed e" if e: "e \<in> set (rg_entries r1)" "re_id e = i" for e
  proof -
    obtain k where k': "k < length (rg_entries r1)" "rg_entries r1 ! k = e" using e(1) by (auto simp: in_set_conv_nth)
    then have k: "k < length (rg_entries (w_reg o'))" "e = rg_entries r1 ! k" by (simp_all add: r1(1))
    then have "k = p"
      using e(2) FindEntry_iff [OF ids, of i k] F W(2) by (cases "k = p") (auto simp: r1(1) nth_list_update)
    then show ?thesis using k r1(1) W(1) by (simp add: advance_def)
  qed
  moreover have "issued_id (rg_next_id_seq r1) i" using ids W(1,2) r1(2) by (auto simp: ids_ok_def ids_def)
  ultimately show ?thesis by (simp add: gate_shut_def)
qed

lemma within_start: "world_ok (aw_objects w) \<Longrightarrow> within (aw_trace w) (\<lambda>_. True) w"
  by (simp add: within_def on_objects_def)

lemma outside_running: "aw_halted (snd (run_state (outside E) w)) = aw_halted w"
  by (simp add: outside_def sec_run)

lemma running_simple:
  "keeps (\<lambda>w. aw_halted w = None) (outside E)" "keeps (\<lambda>w. aw_halted w = None) (sec (\<lambda>w. (f w, w)))"
  "keeps (\<lambda>w. aw_halted w = None) (locked E g)"
  by (simp_all add: keeps_def outside_running sec_run locked_def run_bind set_reg_def split: prod.splits del: run_state_bind)

lemma running_owner: "keeps (\<lambda>w. aw_halted w = None) (ValidateOwner E opt)"
  unfolding ValidateOwner_def by (auto intro!: keeps_bind keeps_return running_simple split: option.splits)

lemma keeps_both: "keeps P m \<Longrightarrow> keeps Q m \<Longrightarrow> keeps (\<lambda>w. P w \<and> Q w) m"
  by (simp add: keeps_def)

lemma uninstall_section_shuts:
  "triple (\<lambda>w. within t (\<lambda>_. True) w \<and> aw_halted w = None) (locked E (uninstall_section ty n opt ow))
     (\<lambda>x w. clean t w \<and> (\<forall>i evs. x = Inr (i, evs) \<longrightarrow> within t (gate_shut i) w))"
  unfolding triple_def
proof (intro allI impI)
  fix w assume w: "within t (\<lambda>_. True) w \<and> aw_halted w = None"
  let ?w1 = "snd (run_state (outside E) w)"
  let ?o = "aw_objects ?w1"
  have "within t (\<lambda>_. True) ?w1"
    using within_keeps [OF silent_outside moves_outside, of any_op E "\<lambda>_. True" t] w by (simp add: keeps_def stable_def)
  then have w1: "world_ok ?o" "clean t ?w1" "aw_halted ?w1 = None" using w by (simp_all add: within_def on_objects_def outside_running)
  obtain x r1 where X: "uninstall_section ty n opt ow (en_now E (aw_tick ?w1)) (w_reg ?o) = (x, r1)" by fastforce
  have R: "run_state (locked E (uninstall_section ty n opt ow)) w = (x, set_reg r1 ?w1)"
    using w1(3) X by (simp add: locked_def run_bind sec_run aw_reg_def del: run_state_bind)
  have c: "clean t (set_reg r1 ?w1)" using w1(2) by (simp add: clean_def set_reg_def)
  have "within t (gate_shut i) (set_reg r1 ?w1)" if x: "x = Inr (i, evs)" for i evs
  proof -
    obtain now where B: "begin_uninstall i now (w_reg ?o) = (Inr evs, r1)"
      using X x by (auto simp: uninstall_section_def fail_def split: option.splits prod.splits sum.splits)
    then have "world_ok (?o\<lparr>w_reg := r1\<rparr>)" using leads_ok(1) [OF w1(1) leads_begin_uninstall] by (metis snd_conv)
    then show ?thesis using begin_uninstall_shuts [OF w1(1) B] c by (simp add: within_def on_objects_def set_reg_def)
  qed
  then show "clean t (snd (run_state (locked E (uninstall_section ty n opt ow)) w)) \<and>
      (\<forall>i evs. fst (run_state (locked E (uninstall_section ty n opt ow)) w) = Inr (i, evs) \<longrightarrow>
        within t (gate_shut i) (snd (run_state (locked E (uninstall_section ty n opt ow)) w)))"
    using c by (simp add: R)
qed

lemma UninstallComponent_clean:
  "triple (\<lambda>w. within t (\<lambda>_. True) w \<and> aw_halted w = None) (UninstallComponentImpl E ty n opt) (\<lambda>_. clean t)"
proof -
  have "silent (ValidateOwner E opt)"
    unfolding ValidateOwner_def by (auto intro!: app_traces silent_sec split: option.splits)
  then have own: "keeps (\<lambda>w. within t (\<lambda>_. True) w \<and> aw_halted w = None) (ValidateOwner E opt)"
    by (intro keeps_both running_owner within_keeps [where A = any_op]) (auto intro: app_moves simp: stable_def)
  have rest: "triple (within t (gate_shut i)) (do { DispatchEvents E evs;
      uninstall_rest E (WaitBorrowsDrained E i) (RunComponentHookCo E) (RunComponentVoidHook E) i }) (\<lambda>_. clean t)" for i evs
    by (rule triple_first [OF within_keeps [OF silent_DispatchEvents _ gate_stays_shut [of any_op]]])
       (simp_all add: app_moves gate.uninstall_drained)
  show ?thesis
    unfolding UninstallComponentImpl_def
    by (rule triple_first [OF own])
       (auto intro!: triple_return triple_bind [OF uninstall_section_shuts] triple_pre [OF rest] split: sum.splits dest: within_clean)
qed

text \<open>C27: No component is uninstalled while it is lent. Whatever other coroutines do meanwhile (borrow,
  return, bind, change states, uninstall, in any order) and whatever hooks, scheduler and waits
  answer, every hook that \<open>CoUninstallComponent\<close> calls (\<open>OnStop\<close>, then \<open>OnUninstall\<close>) is called
  when no lease of its component is alive.\<close>

theorem uninstall_hooks_unlent:
  assumes "world_ok (aw_objects w)" and "aw_halted w = None"
  shows "\<exists>es. aw_trace (snd (run_state (CoUninstallComponent E ty n opt) w)) = aw_trace w @ es \<and>
    (\<forall>h i k. AEHook h i k \<in> set es \<longrightarrow> k = 0)"
proof -
  have "clean (aw_trace w) (snd (run_state (CoUninstallComponent E ty n opt) w))"
    using UninstallComponent_clean [of "aw_trace w" E ty n opt] within_start [OF assms(1)] assms(2)
    by (simp add: CoUninstallComponent_def co_entry_def triple_def run_state_return split: sum.splits)
  then show ?thesis by (simp add: clean_def)
qed

text \<open>A component with a lease, which the environment gives back when the uninstallation waits.\<close>

definition lent_component :: "obj_op list" where
  "lent_component = demo_history @ [OpUnbind ''component:0'' ''service:1'', OpEraseSubject ''component:0'' ''service:1'']"

definition returning_env :: app_env where
  "returning_env = quiet_env\<lparr>en_rounds := (\<lambda>_. [([OpRelease 0], CoCompleted)])\<rparr>"

theorem uninstall_hooks_unlent_witness:
  "w_leases (aw_objects (world_with lent_component AppRunning)) \<noteq> [] \<and>
   (\<exists>es. aw_trace (snd (run_state (CoUninstallComponent returning_env ''Db'' ''main'' \<lparr>co_scope = AppScope, co_owner = None\<rparr>)
       (world_with lent_component AppRunning))) = es \<and> (\<forall>h i k. AEHook h i k \<in> set es \<longrightarrow> k = 0))"
proof
  let ?w = "world_with lent_component AppRunning"
  have h: "aw_halted ?w = None" "aw_trace ?w = []" by (simp_all add: world_with_def)
  have ok: "world_ok (aw_objects ?w)" by (simp add: world_with_def objects.inv_run)
  have "w_leases (run_ops obj_step (new_world 0 demo_limits) lent_component) \<noteq> []" by code_simp
  then show "w_leases (aw_objects ?w) \<noteq> []" by (simp add: world_with_def)
  show "\<exists>es. aw_trace (snd (run_state (CoUninstallComponent returning_env ''Db'' ''main'' \<lparr>co_scope = AppScope, co_owner = None\<rparr>) ?w)) = es \<and>
      (\<forall>h i k. AEHook h i k \<in> set es \<longrightarrow> k = 0)"
    using uninstall_hooks_unlent [OF ok h(1), of returning_env "''Db''" "''main''" "\<lparr>co_scope = AppScope, co_owner = None\<rparr>"]
    unfolding h(2) append_Nil .
qed

subsection \<open>The state\<close>

text \<open>The operations that do not set the state of \<open>i\<close>.\<close>

definition leaves_state :: "string \<Rightarrow> obj_op \<Rightarrow> bool" where
  "leaves_state i x \<longleftrightarrow> (case x of OpSetState _ j _ _ \<Rightarrow> j \<noteq> i | _ \<Rightarrow> True)"

definition same_state :: "string \<Rightarrow> Registry \<Rightarrow> Registry \<Rightarrow> bool" where
  "same_state i r r' \<longleftrightarrow> (\<forall>e' \<in> set (rg_entries r'). re_id e' = i \<and> issued_id (rg_next_id_seq r) i \<longrightarrow>
     (\<exists>e \<in> set (rg_entries r). re_id e = i \<and> re_state e = re_state e'))"

lemma same_state_subset: "set (rg_entries r') \<subseteq> set (rg_entries r) \<Longrightarrow> same_state i r r'"
  by (auto simp: same_state_def)

lemma same_state_upd:
  assumes "\<And>e. re_id (f e) = re_id e" "\<And>e. re_state (f e) = re_state e"
  shows "same_state i r (upd_entry p f r)"
proof (cases "p < length (rg_entries r)")
  case True
  have "\<exists>e \<in> set (rg_entries r). re_id e = i \<and> re_state e = re_state e'"
    if e': "e' \<in> set ((rg_entries r)[p := f (rg_entries r ! p)])" "re_id e' = i" for e'
  proof -
    consider "e' \<in> set (rg_entries r)" | "e' = f (rg_entries r ! p)"
      using e'(1) set_update_subset_insert [of "rg_entries r" p] by blast
    then show ?thesis
    proof cases
      case 2
      then show ?thesis using assms e'(2) nth_mem [OF True] by metis
    qed (use e' in blast)
  qed
  then show ?thesis by (auto simp: same_state_def upd_entry_def)
qed (simp add: upd_entry_beyond same_state_subset)

lemma same_state_at: "(\<And>p. same_state i r (f p r)) \<Longrightarrow> same_state i r (at_entry j f r)"
  by (simp add: at_entry_def same_state_subset split: option.splits)

lemma same_state_gen [simp]: "same_state i r (r'\<lparr>rg_next_generation := n\<rparr>) = same_state i r r'"
  by (simp add: same_state_def)

lemma same_state_create: "same_state i r (snd (CreateEntryLocked k tn n sc ow ty ob r))"
  using fresh_id by (auto simp: CreateEntryLocked_def NextIdLocked_def Let_def same_state_def new_entry_def)

lemma same_state_other:
  assumes ok: "world_ok o'" and "j \<noteq> i"
  shows "same_state i (w_reg o') (snd (SetStateAndGetEvents now j s err (w_reg o')))"
proof (cases "FindEntryLocked j (w_reg o')")
  case (Some p)
  note W = world_found [OF ok Some]
  have "e' \<in> set (rg_entries (w_reg o'))"
    if e': "e' \<in> set ((rg_entries (w_reg o'))[p := advance s err (rg_entries (w_reg o') ! p)])" "re_id e' = i" for e'
  proof -
    have "e' = advance s err (rg_entries (w_reg o') ! p) \<or> e' \<in> set (rg_entries (w_reg o'))"
      using subsetD [OF set_update_subset_insert e'(1)] by simp
    then show ?thesis using e'(2) W(2) assms(2) by (auto simp: advance_def)
  qed
  then show ?thesis by (auto simp: SetStateAndGetEvents_def Some SetStateLocked_def Let_def same_state_def upd_entry_def)
qed (simp add: SetStateAndGetEvents_def same_state_subset)

lemma same_state_acquire: "AcquireBorrowLocked c s g a r = (x, r') \<Longrightarrow> same_state i r r'"
  by (auto simp: AcquireBorrowLocked_def Let_def same_state_subset intro!: same_state_upd split: if_splits option.splits)

lemma same_state_borrow: "BorrowImpl h g a r = (x, r') \<Longrightarrow> same_state i r r'"
  by (auto simp: BorrowImpl_def Let_def dest: same_state_acquire intro: same_state_subset
      split: if_splits option.splits prod.splits sum.splits)

lemma same_state_entries: "entries_same r r' \<Longrightarrow> same_state i r r'"
  by (simp add: entries_same_def same_state_subset)

lemma step_same_state:
  assumes ok: "world_ok o'" and x: "leaves_state i x"
  shows "same_state i (w_reg o') (w_reg (obj_step o' x))"
proof (cases x)
  case (OpSetState now j s err)
  then show ?thesis using x same_state_other [OF ok] by (simp add: leaves_state_def obj_step_def)
next
  case (OpFinishDestroy now j)
  have "same_state i (w_reg o') (snd (FinishDestroyLocked now p (w_reg o')))" if F: "FindEntryLocked j (w_reg o') = Some p" for p
  proof (cases "FinishDestroyLocked now p (w_reg o')")
    case (Pair y r')
    have ids: "ids_ok (w_reg o')" using ok by (simp add: world_ok_def)
    have Y: "FinishDestroyLocked now p (w_reg o') = ((fst y, snd y), r')" using Pair by simp
    show ?thesis using FinishDestroy_entries [OF ids world_found(1) [OF ok F] Y] Pair
      by (auto intro!: same_state_subset dest: in_set_takeD in_set_dropD)
  qed
  then show ?thesis by (simp add: OpFinishDestroy obj_step_def Let_def at_entry_def same_state_subset split: option.splits)
next
  case (OpBorrow h g a)
  then show ?thesis using same_state_borrow by (auto simp: obj_step_def split: prod.splits sum.splits)
next
  case (OpFailure f)
  then show ?thesis using RecordFailure_same [of f "w_reg o'"]
    by (auto simp: obj_step_def Let_def same_state_entries same_state_subset split: option.splits)
next
  case (OpBind c s)
  have "same_state i (w_reg o') (snd (BindLocked p q s (w_reg o')))" for p q
    by (auto simp: BindLocked_def Let_def same_state_subset intro!: same_state_upd)
  then show ?thesis by (auto simp: OpBind obj_step_def same_state_subset intro!: same_state_at)
qed (use same_state_create same_state_entries [OF observer_op_same] in
    \<open>auto simp: obj_step_def Let_def BeginOpLocked_def EndOpLocked_def BeginUnbindLocked_def EraseBindingLocked_def
      EraseSubjectBindingsLocked_def ReleaseBorrow_def NoteHookSettled_def BeginDestroyLocked_def same_state_subset
      intro!: same_state_at same_state_upd split: option.splits\<close>)

definition stopping :: "string \<Rightarrow> object_world \<Rightarrow> bool" where
  "stopping i o' \<longleftrightarrow> issued_id (rg_next_id_seq (w_reg o')) i \<and>
     (\<forall>e \<in> set (rg_entries (w_reg o')). re_id e = i \<longrightarrow> re_state e = Stopping)"

lemma stopping_stays: "stable (leaves_state i) (stopping i)"
  unfolding stable_def
proof (intro allI impI)
  fix o' x assume x: "leaves_state i x" and ok: "world_ok o'" and s: "stopping i o'"
  have "issued_id (rg_next_id_seq (w_reg (obj_step o' x))) i"
    using s obj_step_evolves [OF ok, of x] by (auto simp: stopping_def evolves_def intro: issued_id_mono)
  then show "stopping i (obj_step o' x)"
    using s step_same_state [OF ok x] by (fastforce simp: stopping_def same_state_def)
qed

lemma stopping_refuses:
  assumes "world_ok o'" and "stopping i o'" and "h_id h = i"
  shows "\<not> is_ok (fst (BorrowImpl h g a (w_reg o')))"
proof (rule borrow_refused [OF assms(1,3)])
  fix p s assume "FindEntryLocked i (w_reg o') = Some p"
  then have "re_state (rg_entries (w_reg o') ! p) = Stopping"
    using world_found [OF assms(1)] assms(2) by (simp add: stopping_def)
  then show "\<not> is_ok (fst (AcquireBorrowLocked p s g a (w_reg o')))" by (simp add: AcquireBorrowLocked_def Let_def fail_def)
qed

interpretation stop: shut_object "leaves_state i" i "stopping i" for i
  by unfold_locales (simp_all add: stopping_stays stopping_refuses, simp_all add: plain_def leaves_state_def stopping_def)

lemma begin_stop_stopping:
  assumes ok: "world_ok o'" and B: "begin_stop i now (w_reg o') = (Some evs, r1)"
  shows "stopping i (o'\<lparr>w_reg := r1\<rparr>)"
proof -
  obtain p where F: "FindEntryLocked i (w_reg o') = Some p"
    using B by (auto simp: begin_stop_def split: option.splits)
  note W = world_found [OF ok F]
  let ?e = "rg_entries (w_reg o') ! p"
  have r1: "rg_entries r1 = (rg_entries (w_reg o'))[p := advance Stopping None
      (?e\<lparr>re_op_in_progress := True, re_destroy_phase := ''stop''\<rparr>)]"
    "rg_next_id_seq r1 = rg_next_id_seq (w_reg o')"
    using B F W(1) by (auto simp: begin_stop_def BeginOpLocked_def Let_def SetStateLocked_def upd_entry_def split: if_splits)
  have ids: "ids_ok (w_reg o')" using ok by (simp add: world_ok_def)
  have "re_state e = Stopping" if e: "e \<in> set (rg_entries r1)" "re_id e = i" for e
  proof -
    obtain k where k': "k < length (rg_entries r1)" "rg_entries r1 ! k = e" using e(1) by (auto simp: in_set_conv_nth)
    then have k: "k < length (rg_entries (w_reg o'))" "e = rg_entries r1 ! k" by (simp_all add: r1(1))
    then have "k = p"
      using e(2) FindEntry_iff [OF ids, of i k] F W(2) by (cases "k = p") (auto simp: r1(1) nth_list_update)
    then show ?thesis using k r1(1) W(1) by (simp add: advance_def)
  qed
  moreover have "issued_id (rg_next_id_seq r1) i" using ids W(1,2) r1(2) by (auto simp: ids_ok_def ids_def)
  ultimately show ?thesis by (simp add: stopping_def)
qed

lemma begin_stop_section:
  "triple (\<lambda>w. within t (\<lambda>_. True) w \<and> aw_halted w = None) (locked E (begin_stop i))
     (\<lambda>x w. clean t w \<and> (x \<noteq> None \<longrightarrow> within t (stopping i) w))"
  unfolding triple_def
proof (intro allI impI)
  fix w assume w: "within t (\<lambda>_. True) w \<and> aw_halted w = None"
  let ?w1 = "snd (run_state (outside E) w)"
  let ?o = "aw_objects ?w1"
  have "within t (\<lambda>_. True) ?w1"
    using within_keeps [OF silent_outside moves_outside, of any_op E "\<lambda>_. True" t] w by (simp add: keeps_def stable_def)
  then have w1: "world_ok ?o" "clean t ?w1" "aw_halted ?w1 = None" using w by (simp_all add: within_def on_objects_def outside_running)
  obtain x r1 where X: "begin_stop i (en_now E (aw_tick ?w1)) (w_reg ?o) = (x, r1)" by fastforce
  have R: "run_state (locked E (begin_stop i)) w = (x, set_reg r1 ?w1)"
    using w1(3) X by (simp add: locked_def run_bind sec_run aw_reg_def del: run_state_bind)
  have c: "clean t (set_reg r1 ?w1)" using w1(2) by (simp add: clean_def set_reg_def)
  have ok: "world_ok (?o\<lparr>w_reg := r1\<rparr>)"
    using leads_ok(1) [OF w1(1) leads_begin_stop [OF leads_refl]] X by (metis snd_conv)
  have "within t (stopping i) (set_reg r1 ?w1)" if "x \<noteq> None"
    using that begin_stop_stopping [OF w1(1)] X c ok by (auto simp: within_def on_objects_def set_reg_def)
  then show "clean t (snd (run_state (locked E (begin_stop i)) w)) \<and>
      (fst (run_state (locked E (begin_stop i)) w) \<noteq> None \<longrightarrow> within t (stopping i) (snd (run_state (locked E (begin_stop i)) w)))"
    using c by (simp add: R)
qed

lemma plain_leaves_state: "plain (leaves_state i)"
  by (simp add: plain_def leaves_state_def)

text \<open>C28: A component that the application stops is not lent when its hooks run, as long as nobody else
  sets its state. When no operation beside the stop changes the state of the component, every hook
  that its destruction calls (\<open>OnStop\<close>, then \<open>OnUninstall\<close>) is called without a live lease of it,
  whatever others borrow, bind, unbind or destroy meanwhile.\<close>

theorem stop_hooks_unlent:
  assumes "world_ok (aw_objects w)" and "aw_halted w = None" and "confined (leaves_state i) E"
  shows "\<exists>es. aw_trace (snd (run_state (DestroyComponent E i) w)) = aw_trace w @ es \<and>
    (\<forall>h j k. AEHook h j k \<in> set es \<longrightarrow> k = 0)"
proof -
  have rest: "triple (within t (stopping i)) (do { DispatchEvents E evs; close_component E i }) (\<lambda>_. clean t)" for t evs
    by (rule triple_first [OF within_keeps [OF silent_DispatchEvents moves_DispatchEvents stopping_stays]])
       (simp_all add: assms(3) plain_leaves_state stop.close_component_clean)
  have "triple (\<lambda>w. within t (\<lambda>_. True) w \<and> aw_halted w = None) (DestroyComponent E i) (\<lambda>_. clean t)" for t
    unfolding DestroyComponent_def
    by (rule triple_bind [OF begin_stop_section]) (auto split: option.splits intro!: triple_return triple_pre [OF rest])
  then have "clean (aw_trace w) (snd (run_state (DestroyComponent E i) w))"
    using within_start [OF assms(1)] assms(2) unfolding triple_def by blast
  then show ?thesis by (simp add: clean_def)
qed

theorem stop_hooks_unlent_witness:
  "\<exists>es. aw_trace (snd (run_state (DestroyComponent returning_env ''component:0'') (world_with lent_component AppRunning))) = es \<and>
     (\<forall>h j k. AEHook h j k \<in> set es \<longrightarrow> k = 0)"
proof -
  let ?w = "world_with lent_component AppRunning"
  have h: "aw_halted ?w = None" "aw_trace ?w = []" by (simp_all add: world_with_def)
  have ok: "world_ok (aw_objects ?w)" by (simp add: world_with_def objects.inv_run)
  have E: "confined (leaves_state ''component:0'') returning_env"
    by (simp add: confined_def returning_env_def quiet_env_def leaves_state_def)
  show ?thesis using stop_hooks_unlent [OF ok h(1) E] unfolding h(2) append_Nil .
qed

text \<open>
  Without that condition the stop is not safe: it does not close the gate. When an installation that
  runs beside it sets the state to \<open>Running\<close> (the last step of \<open>CoInstallComponent\<close> while the application
  runs, which no flag excludes), the component is lent again while its stop is still in progress.
\<close>

definition lent_while_stopping :: object_world where
  "lent_while_stopping =
     (let w = run_ops obj_step (new_world 0 demo_limits) (demo_history @ [OpRelease 0])
      in run_ops obj_step (w\<lparr>w_reg := snd (begin_stop ''component:0'' 0 (w_reg w))\<rparr>)
           [OpSetState 0 ''component:0'' Running None, OpBorrow demo_handle 3 False])"

lemma stop_leaves_the_gate_open:
  "leases_on ''component:0'' (w_leases lent_while_stopping) = 1 \<and>
   map (\<lambda>e. (re_op_in_progress e, re_destroy_phase e, re_gate_closed e)) (rg_entries (w_reg lent_while_stopping)) =
     [(True, ''stop'', False), (False, [], False)]"
  by code_simp

end
