(* ===== verification/Acyclic.thy ===== *)
theory Acyclic
  imports AppMoves
begin

text \<open>
  The bindings between components never form a cycle: the search before a binding is exact
  (\<open>Dependencies\<close>), no other operation adds an edge, and a new object is the subject of no binding,
  because identifiers are never reused.
\<close>

definition subjects_issued :: "Registry \<Rightarrow> bool" where
  "subjects_issued r \<longleftrightarrow>
     (\<forall>e \<in> set (rg_entries r). \<forall>b \<in> set (re_bindings e). issued_id (rg_next_id_seq r) (b_subject b))"

definition acyclic_bindings :: "object_world \<Rightarrow> bool" where
  "acyclic_bindings w \<longleftrightarrow> subjects_issued (w_reg w) \<and> \<not> dependency_cycle (w_reg w)"

lemma subjects_issuedD:
  "subjects_issued r \<Longrightarrow> e \<in> set (rg_entries r) \<Longrightarrow> b \<in> set (re_bindings e) \<Longrightarrow> issued_id (rg_next_id_seq r) (b_subject b)"
  by (simp add: subjects_issued_def)

lemma component_idsD:
  assumes "x \<in> set (component_ids r)"
  obtains e where "e \<in> set (rg_entries r)" "re_id e = x" "re_kind e = KComponent"
  using assms by (auto simp: component_ids_def is_component_def)

lemma component_idsI: "e \<in> set (rg_entries r) \<Longrightarrow> re_id e = x \<Longrightarrow> re_kind e = KComponent \<Longrightarrow> x \<in> set (component_ids r)"
  by (auto simp: component_ids_def is_component_def)

text \<open>Without a new binding there is no new edge.\<close>

lemma binding_origin:
  assumes ev: "\<And>n. evolves n r r'" and e: "e' \<in> set (rg_entries r')" and b: "b' \<in> set (re_bindings e')"
  obtains e b where "e \<in> set (rg_entries r)" "re_id e = re_id e'" "re_kind e = re_kind e'"
    "b \<in> set (re_bindings e)" "b_subject b = b_subject b'"
proof -
  have "entry_from (Suc (b_generation b')) r e'" using ev e by (simp add: evolves_def)
  then obtain e where "e \<in> set (rg_entries r)" "re_id e' = re_id e" "re_kind e' = re_kind e"
    "binding_from (Suc (b_generation b')) (re_bindings e) b'"
    using b unfolding entry_from_def by auto
  then show ?thesis using that unfolding binding_from_def by (metis Suc_n_not_le_n)
qed

lemma evolves_subjects:
  assumes "subjects_issued r" and ev: "\<And>n. evolves n r r'"
  shows "subjects_issued r'"
  unfolding subjects_issued_def
proof (intro ballI)
  fix e' b' assume "e' \<in> set (rg_entries r')" "b' \<in> set (re_bindings e')"
  then obtain e b where "e \<in> set (rg_entries r)" "b \<in> set (re_bindings e)" "b_subject b = b_subject b'"
    by (rule binding_origin [OF ev])
  then have "issued_id (rg_next_id_seq r) (b_subject b')" using subjects_issuedD [OF assms(1)] by metis
  then show "issued_id (rg_next_id_seq r') (b_subject b')"
    by (rule issued_id_mono) (use ev [of 0] in \<open>simp add: evolves_def\<close>)
qed

lemma evolves_graph:
  assumes s: "subjects_issued r" and ev: "\<And>n. evolves n r r'" and xd: "(x, d) \<in> graph r'"
  shows "(x, d) \<in> graph r"
proof -
  obtain e' b' where d: "e' \<in> set (rg_entries r')" "re_kind e' = KComponent" "re_id e' = d"
    "b' \<in> set (re_bindings e')" "b_subject b' = x"
    using xd by (auto simp: graph_iff depends_def)
  obtain e b where e: "e \<in> set (rg_entries r)" "re_id e = re_id e'" "re_kind e = re_kind e'"
    "b \<in> set (re_bindings e)" "b_subject b = b_subject b'"
    using binding_origin [OF ev d(1,4)] .
  obtain x' where x': "x' \<in> set (rg_entries r')" "re_id x' = x" "re_kind x' = KComponent"
    using xd by (auto simp: graph_iff elim: component_idsD)
  have "issued_id (rg_next_id_seq r) x" using subjects_issuedD [OF s e(1,4)] d e by simp
  moreover have "entry_from 0 r x'" using ev [of 0] x' by (simp add: evolves_def)
  ultimately obtain y where "y \<in> set (rg_entries r)" "re_id y = x" "re_kind y = KComponent"
    using x' unfolding entry_from_def by auto
  then have "x \<in> set (component_ids r)" by (rule component_idsI)
  then show ?thesis using d e by (auto simp: graph_iff depends_def)
qed

lemma evolves_acyclic:
  assumes "acyclic_bindings w" and "\<And>n. evolves n (w_reg w) (w_reg w')"
  shows "acyclic_bindings w'"
  unfolding acyclic_bindings_def cycle_graph
proof
  show "subjects_issued (w_reg w')" using assms by (auto simp: acyclic_bindings_def intro: evolves_subjects)
  have "graph (w_reg w') \<subseteq> graph (w_reg w)"
    using evolves_graph [of "w_reg w" "w_reg w'"] assms by (intro subrelI) (simp add: acyclic_bindings_def)
  then show "\<not> \<not> acyclic (graph (w_reg w'))" using assms(1) by (auto simp: acyclic_bindings_def cycle_graph elim: acyclic_subset)
qed

text \<open>A new binding adds one edge, which the search before it allows.\<close>

lemma FindEntry_at: "ids_ok r \<Longrightarrow> FindEntryLocked i r = Some p \<Longrightarrow> p < length (rg_entries r) \<and> re_id (rg_entries r ! p) = i"
  by (simp add: FindEntry_iff)

lemma kind_unique:
  assumes "ids_ok r" and "FindEntryLocked s r = Some q" and "s \<in> set (component_ids r)"
  shows "re_kind (rg_entries r ! q) = KComponent"
proof -
  obtain e where e: "e \<in> set (rg_entries r)" "re_id e = s" "re_kind e = KComponent" using assms(3) by (rule component_idsD)
  then obtain k where "k < length (rg_entries r)" "rg_entries r ! k = e" by (auto simp: in_set_conv_nth)
  then have "FindEntryLocked s r = Some k" using assms(1) e(2) by (auto simp: FindEntry_iff)
  then show ?thesis using assms(2) e(3) \<open>rg_entries r ! k = e\<close> by simp
qed

definition with_binding :: "nat \<Rightarrow> Binding \<Rightarrow> Registry \<Rightarrow> Registry" where
  "with_binding p b r = (upd_entry p (\<lambda>e. e\<lparr>re_bindings := re_bindings e @ [b]\<rparr>) r)\<lparr>rg_next_generation := rg_next_generation r + 1\<rparr>"

lemma BindLocked_result:
  "snd (BindLocked p q s r) = r \<or>
   re_kind (rg_entries r ! p) = KComponent \<and> (\<exists>b. b_subject b = s \<and> snd (BindLocked p q s r) = with_binding p b r)"
  by (auto simp: BindLocked_def with_binding_def Let_def
      intro!: exI [of _ "\<lparr>b_subject = s, b_generation = rg_next_generation r, b_active = True, b_retiring = False, b_borrows = 0\<rparr>"])

lemma with_binding_components [simp]: "component_ids (with_binding p b r) = component_ids r"
proof -
  have "map re_id (filter is_component (xs[p := (xs ! p)\<lparr>re_bindings := bs\<rparr>])) = map re_id (filter is_component xs)" for xs bs
  proof (induction xs arbitrary: p)
    case (Cons x xs)
    then show ?case by (cases p) (simp_all add: is_component_def)
  qed simp
  then show ?thesis by (simp add: component_ids_def with_binding_def upd_entry_def)
qed

lemma with_binding_entries:
  assumes "e' \<in> set (rg_entries (with_binding p b r))"
  shows "e' \<in> set (rg_entries r) \<or>
    p < length (rg_entries r) \<and> e' = (rg_entries r ! p)\<lparr>re_bindings := re_bindings (rg_entries r ! p) @ [b]\<rparr>"
  using assms unfolding with_binding_def upd_entry_def
  by (cases "p < length (rg_entries r)") (auto simp: list_update_beyond dest: set_update_subset_insert [THEN subsetD])

lemma with_binding_graph: "graph (with_binding p b r) \<subseteq> insert (b_subject b, re_id (rg_entries r ! p)) (graph r)"
proof (rule subrelI)
  fix x d assume xd: "(x, d) \<in> graph (with_binding p b r)"
  then obtain e' b' where e': "e' \<in> set (rg_entries (with_binding p b r))" "re_kind e' = KComponent" "re_id e' = d"
    "b' \<in> set (re_bindings e')" "b_subject b' = x" by (auto simp: graph_iff depends_def)
  have x: "x \<in> set (component_ids r)" using xd by (simp add: graph_iff)
  show "(x, d) \<in> insert (b_subject b, re_id (rg_entries r ! p)) (graph r)"
    using with_binding_entries [OF e'(1)]
  proof
    assume "e' \<in> set (rg_entries r)"
    then show ?thesis using e' x by (auto simp: graph_iff depends_def)
  next
    assume p: "p < length (rg_entries r) \<and> e' = (rg_entries r ! p)\<lparr>re_bindings := re_bindings (rg_entries r ! p) @ [b]\<rparr>"
    then have "rg_entries r ! p \<in> set (rg_entries r)" by simp
    then show ?thesis using e' p x by (auto simp: graph_iff depends_def)
  qed
qed

lemma bound_acyclic:
  assumes ok: "ids_ok r" and c: "FindEntryLocked c r = Some p" and s: "FindEntryLocked s r = Some q"
    and free: "edge_permitted c s q r" and k: "re_kind (rg_entries r ! p) = KComponent" and b: "b_subject b = s"
    and a: "acyclic (graph r)"
  shows "acyclic (graph (with_binding p b r))"
proof (cases "s \<in> set (component_ids r)")
  case True
  have p: "re_id (rg_entries r ! p) = c" "c \<in> set (component_ids r)"
    using FindEntry_at [OF ok c] k by (auto intro: component_idsI [OF nth_mem])
  have "WouldFormCycleLocked s c r = Some False"
    using free kind_unique [OF ok s True] by (simp add: edge_permitted_def)
  then have "acyclic (insert (s, c) (graph r))" using cycle_search_exact [OF p(2), of s] a by simp
  then show ?thesis by (rule acyclic_subset) (use with_binding_graph [of p b r] b p(1) in simp)
next
  case False
  have "graph (with_binding p b r) \<subseteq> graph r"
  proof (rule subrelI)
    fix x d assume xd: "(x, d) \<in> graph (with_binding p b r)"
    then have "x \<in> set (component_ids r)" by (simp add: graph_iff)
    then show "(x, d) \<in> graph r" using subsetD [OF with_binding_graph xd] b False by auto
  qed
  then show ?thesis using a by (rule acyclic_subset [rotated])
qed

lemma bound_subjects:
  assumes "subjects_issued r" and "issued_id (rg_next_id_seq r) (b_subject b)"
  shows "subjects_issued (with_binding p b r)"
  unfolding subjects_issued_def
proof (intro ballI)
  fix e' b' assume "e' \<in> set (rg_entries (with_binding p b r))" "b' \<in> set (re_bindings e')"
  then have "b' = b \<or> (\<exists>e \<in> set (rg_entries r). b' \<in> set (re_bindings e))"
    using with_binding_entries [of e' p b r] nth_mem by fastforce
  then show "issued_id (rg_next_id_seq (with_binding p b r)) (b_subject b')"
    using assms by (auto simp: with_binding_def dest: subjects_issuedD)
qed

lemma acyclic_step:
  assumes ok: "world_ok w" and a: "acyclic_bindings w"
  shows "acyclic_bindings (obj_step w x)"
proof (cases "\<exists>c s. x = OpBind c s")
  case False
  then show ?thesis by (intro evolves_acyclic [OF a] obj_step_shrinks [OF ok]) blast
next
  case True
  then obtain c s where x: "x = OpBind c s" by blast
  let ?r = "w_reg w"
  have i: "ids_ok ?r" using ok by (simp add: world_ok_def)
  show ?thesis
  proof (cases "w_reg (obj_step w x) = ?r")
    case True
    then show ?thesis using a by (simp add: acyclic_bindings_def)
  next
    case False
    then obtain p q where f: "FindEntryLocked c ?r = Some p" "FindEntryLocked s ?r = Some q" "edge_permitted c s q ?r"
      and r': "w_reg (obj_step w x) = snd (BindLocked p q s ?r)"
      by (auto simp: x obj_step_def at_entry_def Let_def split: option.splits if_splits)
    obtain b where b: "re_kind (rg_entries ?r ! p) = KComponent" "b_subject b = s" "w_reg (obj_step w x) = with_binding p b ?r"
      using BindLocked_result [of p q s ?r] r' False by auto
    have "issued_id (rg_next_id_seq ?r) s" using FindEntry_at [OF i f(2)] i nth_mem by (fastforce simp: ids_ok_def ids_def)
    then show ?thesis using bound_subjects [of ?r b p] bound_acyclic [OF i f b(1,2)] a b(2)
      by (simp add: acyclic_bindings_def cycle_graph b(3))
  qed
qed

lemma acyclic_stable: "stable A acyclic_bindings"
  by (simp add: stable_def acyclic_step)

lemma new_world_acyclic: "acyclic_bindings (new_world self l)"
  by (simp add: acyclic_bindings_def subjects_issued_def cycle_graph new_world_def new_registry_def graph_def component_ids_def acyclic_def)

subsection \<open>Properties\<close>

text \<open>The check before a binding is exact and ends. For a target that is a component of the
  registry, the search returns (its depth is bounded by the number of components), and its answer is
  whether the target already depends on the subject, directly or through other components: whether
  the new binding would close a cycle.\<close>

lemma cycle_check_exact:
  assumes "target \<in> set (component_ids r)"
  shows "WouldFormCycleLocked subject target r =
    Some ((target, subject) \<in> {e. fst e \<in> set (component_ids r) \<and> depends r (fst e) (snd e)}\<^sup>*)"
  using cycle_search_exact [OF assms] by (simp add: graph_def)

lemma cycle_check_exact_witness:
  "WouldFormCycleLocked ''component:1'' ''component:2'' (demo_graph demo_components) = Some True \<and>
   (''component:2'', ''component:1'') \<in> {e. fst e \<in> set (component_ids (demo_graph demo_components)) \<and>
      depends (demo_graph demo_components) (fst e) (snd e)}\<^sup>*"
proof
  have t: "''component:2'' \<in> set (component_ids (demo_graph demo_components))" by code_simp
  show w: "WouldFormCycleLocked ''component:1'' ''component:2'' (demo_graph demo_components) = Some True" by code_simp
  show "(''component:2'', ''component:1'') \<in> {e. fst e \<in> set (component_ids (demo_graph demo_components)) \<and>
      depends (demo_graph demo_components) (fst e) (snd e)}\<^sup>*"
    using cycle_check_exact [OF t, of "''component:1''"] unfolding w by (rule iffD1 [OF eq_True sym, OF option.inject [THEN iffD1]])
qed

text \<open>C32: No cycle can be built. After any sequence of calls on an application, beside any operations
  of others, the graph of the components and their bindings has no cycle; so the search for the start
  order reports none, and it returns every component once, after all components it depends on.\<close>

theorem application_never_cyclic:
  assumes "construct_app E0 self opts = Some w0"
  shows "\<not> dependency_cycle (aw_reg (run_calls opts allows cs w0)) \<and>
    (case ComponentStartOrderLocked (aw_reg (run_calls opts allows cs w0)) of
       None \<Rightarrow> False
     | Some (ord, cyc) \<Rightarrow> \<not> cyc \<and> distinct ord \<and> set ord = set (component_ids (aw_reg (run_calls opts allows cs w0))) \<and>
         sorted_wrt (\<lambda>a b. \<not> depends (aw_reg (run_calls opts allows cs w0)) a b) ord)"
proof -
  let ?r = "aw_reg (run_calls opts allows cs w0)"
  have ok: "world_ok (run_ops obj_step (new_world self l) xs)" and "acyclic_bindings (run_ops obj_step (new_world self l) xs)" for l xs
  proof (induction xs rule: rev_induct)
    case (snoc x xs)
    { case 1 then show ?case using snoc by (simp add: run_ops_append obj_step_ok) }
    { case 2 then show ?case using snoc by (simp add: run_ops_append acyclic_step) }
  qed (simp_all add: new_world_ok new_world_acyclic)
  then have "on_objects acyclic_bindings w0" using constructed_app [OF assms] by (auto simp: on_objects_def)
  then have "on_objects acyclic_bindings (run_calls opts allows cs w0)" by (rule run_calls_keep [OF acyclic_stable])
  then have n: "\<not> dependency_cycle ?r" by (simp add: on_objects_def acyclic_bindings_def aw_reg_def)
  obtain ord cyc where O: "ComponentStartOrderLocked ?r = Some (ord, cyc)" using start_order_result by (metis (full_types))
  show ?thesis using n start_order_sorted [OF O] by (simp add: O)
qed

theorem application_never_cyclic_witness:
  "\<exists>w0. construct_app quiet_env 0 demo_options = Some w0 \<and>
     \<not> dependency_cycle (aw_reg (run_calls demo_options (\<lambda>_ _. True) demo_calls w0))"
proof -
  obtain w where w: "construct_app quiet_env 0 demo_options = Some w" using demo_app by blast
  show ?thesis using application_never_cyclic [OF w, of "\<lambda>_ _. True" demo_calls] w by blast
qed

end
