(* ===== verification/NetHost.thy ===== *)
theory NetHost
  imports Lifecycle
begin

text \<open>
  The network host: \<open>internal/InfraHttpHost.hpp\<close> and \<open>src/host/InfraHttpHost.cc\<close>. The engines, the
  servers, the clients and the threads that drive them are third-party: a call of one of them is an
  answer in an environment. What the host itself decides is modelled: what it assembles from
  which options, the gate that every inbound handler passes, the wait for the handlers and the
  close, whose first reason is final.
\<close>

subsection \<open>Configuration\<close>

record NetworkLimits =
  nl_max_connections :: nat
  nl_max_inflight :: nat
  nl_max_body_bytes :: nat
  nl_max_header_bytes :: nat
  nl_incoming_timeout :: int

record ListenAddress =
  la_host :: string
  la_port :: nat

datatype RpcInboundBridge = InboundLegacyHeaders | InboundProtoWireV1 | InboundTcpV1

text \<open>What the build contains.\<close>

record Build =
  bd_rpc_wire :: bool
  bd_rpc_tcp :: bool

text \<open>The options of the shared client; the defaults of the library are a parameter.\<close>

record ClientOptions =
  cl_max_connections :: nat
  cl_max_keepalive :: nat
  cl_max_queue :: nat
  cl_max_body_bytes :: nat
  cl_max_request_body_bytes :: nat
  cl_max_header_bytes :: nat
  cl_timeout :: int

definition client_options :: "NetworkLimits \<Rightarrow> ClientOptions \<Rightarrow> ClientOptions" where
  "client_options l d =
     (let mc = min (nl_max_connections l) (nl_max_inflight l)
      in \<lparr>cl_max_connections = mc, cl_max_keepalive = min (cl_max_keepalive d) mc, cl_max_queue = 0,
          cl_max_body_bytes = nl_max_body_bytes l, cl_max_request_body_bytes = nl_max_body_bytes l,
          cl_max_header_bytes = nl_max_header_bytes l, cl_timeout = nl_incoming_timeout l\<rparr>)"

subsection \<open>State\<close>

text \<open>
  The handler state is shared with the handlers that run: \<open>hs_inflight\<close> counts them. The rest is the
  host's; a server, client or engine that exists is named by a number. The calls of the library are
  recorded, with whether they concern the RPC server (or the egress engine).
\<close>

record HandlerState =
  hs_inflight :: nat
  hs_open :: bool
  hs_close_reason :: "error option"
  hs_http :: bool
  hs_rpc :: bool

datatype net_call =
    EngineRun bool | EngineRequestClose bool | EngineJoin bool
  | ServerStart bool | ServerStopAccepting bool | ServerShutdown bool | ServerDrain bool
  | ServerClose bool "error option" | ServerWaitStopped bool
  | ClientClose error | RpcClientClose error

record InfraHttpHost =
  nh_limits :: NetworkLimits
  nh_listen :: ListenAddress
  nh_bridge :: RpcInboundBridge
  nh_state :: HandlerState
  nh_closed_once :: bool
  nh_created :: bool
  nh_bound :: "ListenAddress option"
  nh_close_reason :: "error option"
  nh_close_error :: "error option"
  nh_server :: "nat option"
  nh_rpc_server :: "nat option"
  nh_rpc_http_client :: "nat option"
  nh_client :: "nat option"
  nh_engine :: "nat option"
  nh_egress_engine :: "nat option"
  nh_calls :: "net_call list"

definition new_host :: "NetworkLimits \<Rightarrow> ListenAddress \<Rightarrow> InfraHttpHost" where
  "new_host l a =
     \<lparr>nh_limits = l, nh_listen = a, nh_bridge = InboundProtoWireV1,
      nh_state = \<lparr>hs_inflight = 0, hs_open = True, hs_close_reason = None, hs_http = False, hs_rpc = False\<rparr>,
      nh_closed_once = False, nh_created = False, nh_bound = None, nh_close_reason = None, nh_close_error = None,
      nh_server = None, nh_rpc_server = None, nh_rpc_http_client = None, nh_client = None, nh_engine = None,
      nh_egress_engine = None, nh_calls = []\<rparr>"

definition net_call :: "net_call \<Rightarrow> InfraHttpHost \<Rightarrow> InfraHttpHost" where
  "net_call c n = n\<lparr>nh_calls := nh_calls n @ [c]\<rparr>"

definition InstallHandler :: "bool \<Rightarrow> InfraHttpHost \<Rightarrow> InfraHttpHost" where
  "InstallHandler h n = n\<lparr>nh_state := (nh_state n)\<lparr>hs_http := h\<rparr>\<rparr>"

definition InstallRpcHandler :: "bool \<Rightarrow> InfraHttpHost \<Rightarrow> InfraHttpHost" where
  "InstallRpcHandler h n = n\<lparr>nh_state := (nh_state n)\<lparr>hs_rpc := h\<rparr>\<rparr>"

definition SetRpcInboundTransport :: "RpcInboundBridge \<Rightarrow> InfraHttpHost \<Rightarrow> InfraHttpHost" where
  "SetRpcInboundTransport b n = n\<lparr>nh_bridge := b\<rparr>"

subsection \<open>Creation\<close>

text \<open>The answers of the library while the host is created, each the address of what was made.\<close>

record CreateEnv =
  ce_limits :: "unit result"
  ce_egress :: nat
  ce_client :: "ClientOptions \<Rightarrow> nat result"
  ce_engine :: nat
  ce_server :: "nat result"
  ce_transport :: "unit result"
  ce_rpc_server :: "nat result"
  ce_rpc_client :: "nat result"

text \<open>The inbound server: none without a handler, the HTTP server for a plain handler only.\<close>

definition create_server :: "Build \<Rightarrow> CreateEnv \<Rightarrow> InfraHttpHost \<Rightarrow> unit result \<times> InfraHttpHost" where
  "create_server bd E n =
     (let st = nh_state n
      in if \<not> hs_http st \<and> \<not> hs_rpc st then (Inr (), n)
         else if hs_http st \<and> \<not> hs_rpc st then
           (case ce_server E of
              Inl e \<Rightarrow> (Inl e, n)
            | Inr s \<Rightarrow> (Inr (), n\<lparr>nh_server := Some s, nh_engine := Some (ce_engine E)\<rparr>))
         else if \<not> bd_rpc_wire bd then (fail RuntimeUnavailable ''RPC wire requires bbt::infra_rpc_net'', n)
         else if nh_bridge n = InboundTcpV1 \<and> \<not> bd_rpc_tcp bd then
           (fail RuntimeUnavailable ''TcpV1 requires bbt::infra_rpc_tcp'', n)
         else
           (case ce_transport E of
              Inl e \<Rightarrow> (Inl e, n)
            | Inr _ \<Rightarrow>
                (case ce_rpc_server E of
                   Inl e \<Rightarrow> (Inl e, n)
                 | Inr s \<Rightarrow> (Inr (), n\<lparr>nh_rpc_server := Some s, nh_engine := Some (ce_engine E)\<rparr>))))"

definition Create :: "Build \<Rightarrow> ClientOptions \<Rightarrow> CreateEnv \<Rightarrow> InfraHttpHost \<Rightarrow> unit result \<times> InfraHttpHost" where
  "Create bd d E n =
     (case ce_limits E of
        Inl e \<Rightarrow> (Inl e, n)
      | Inr _ \<Rightarrow>
          (case ce_client E (client_options (nh_limits n) d) of
             Inl e \<Rightarrow> (Inl e, n)
           | Inr c \<Rightarrow>
               (case create_server bd E n of
                  (Inl e, n1) \<Rightarrow> (Inl e, n1)
                | (Inr _, n1) \<Rightarrow>
                    let n2 = n1\<lparr>nh_egress_engine := Some (ce_egress E), nh_client := Some c\<rparr>
                    in if bd_rpc_wire bd then
                         (case ce_rpc_client E of
                            Inl e \<Rightarrow> (Inl e, n2)
                          | Inr rc \<Rightarrow> (Inr (), n2\<lparr>nh_rpc_http_client := Some rc, nh_created := True\<rparr>))
                       else (Inr (), n2\<lparr>nh_created := True\<rparr>))))"

subsection \<open>Start\<close>

text \<open>
  The loop that waits until an engine runs: one observation for each round (is it running, has its
  thread finished, the clock). \<open>None\<close>: the loop has not ended within the observations.
\<close>

record engine_poll =
  ep_running :: bool
  ep_finished :: bool
  ep_now :: int

definition kEngineRunWait :: int where "kEngineRunWait = 5000 * 1000000"

definition EngineError :: "string option \<Rightarrow> string \<Rightarrow> error" where
  "EngineError ec what =
     MakeError RuntimeUnavailable (what @ '': '' @ (case ec of Some m \<Rightarrow> m | None \<Rightarrow> ''invalid engine phase''))"

fun engine_wait :: "string \<Rightarrow> int \<Rightarrow> engine_poll list \<Rightarrow> unit result option" where
  "engine_wait timeout_text deadline [] = None"
| "engine_wait timeout_text deadline (p # ps) =
     (if ep_running p then Some (Inr ())
      else if ep_finished p then Some (Inl (EngineError None ''Engine Run failed before Running''))
      else if deadline \<le> ep_now p then Some (Inl (EngineError (Some timeout_text) ''Engine startup''))
      else engine_wait timeout_text deadline ps)"

record StartEnv =
  se_now :: int
  se_timeout_text :: string
  se_egress_polls :: "engine_poll list"
  se_address_error :: "string option"
  se_engine_polls :: "engine_poll list"
  se_local_error :: "string option"
  se_local_ports :: "nat list"
  se_server_start :: "unit result"
  se_rpc_start :: "unit result"

definition RunEngine :: "bool \<Rightarrow> StartEnv \<Rightarrow> engine_poll list \<Rightarrow> InfraHttpHost \<Rightarrow> unit result option \<times> InfraHttpHost" where
  "RunEngine egress E ps n = (engine_wait (se_timeout_text E) (se_now E + kEngineRunWait) ps, net_call (EngineRun egress) n)"

definition start_server :: "bool \<Rightarrow> unit result \<Rightarrow> nat option \<Rightarrow> InfraHttpHost \<Rightarrow> unit result \<times> InfraHttpHost" where
  "start_server rpc answer s n = (case s of None \<Rightarrow> (Inr (), n) | Some _ \<Rightarrow> (answer, net_call (ServerStart rpc) n))"

text \<open>What follows once the inbound engine runs.\<close>

definition start_inbound :: "StartEnv \<Rightarrow> InfraHttpHost \<Rightarrow> unit result \<times> InfraHttpHost" where
  "start_inbound E n =
     (if se_local_error E \<noteq> None \<or> se_local_ports E = [] then (Inl (EngineError (se_local_error E) ''LocalAddresses failed''), n)
      else case start_server False (se_server_start E) (nh_server n) n of
          (Inl e, n1) \<Rightarrow> (Inl e, n1)
        | (Inr _, n1) \<Rightarrow>
            (case start_server True (se_rpc_start E) (nh_rpc_server n1) n1 of
               (Inl e, n2) \<Rightarrow> (Inl e, n2)
             | (Inr _, n2) \<Rightarrow>
                 (Inr (), n2\<lparr>nh_bound := Some \<lparr>la_host = la_host (nh_listen n2), la_port = hd (se_local_ports E)\<rparr>\<rparr>)))"

definition Start :: "StartEnv \<Rightarrow> InfraHttpHost \<Rightarrow> unit result option \<times> InfraHttpHost" where
  "Start E n =
     (if \<not> nh_created n then (Some (fail RuntimeUnavailable ''network host not created''), n)
      else case RunEngine True E (se_egress_polls E) n of
          (None, n1) \<Rightarrow> (None, n1)
        | (Some (Inl e), n1) \<Rightarrow> (Some (Inl e), n1)
        | (Some (Inr _), n1) \<Rightarrow>
            if nh_engine n1 = None then (Some (Inr ()), n1)
            else if se_address_error E \<noteq> None then (Some (Inl (EngineError (se_address_error E) ''invalid listen address'')), n1)
            else
              (case RunEngine False E (se_engine_polls E) n1 of
                 (None, n2) \<Rightarrow> (None, n2)
               | (Some (Inl e), n2) \<Rightarrow> (Some (Inl e), n2)
               | (Some (Inr _), n2) \<Rightarrow> (case start_inbound E n2 of (r, n3) \<Rightarrow> (Some r, n3))))"

subsection \<open>The gate of the handlers\<close>

text \<open>The error of a closed gate, and the way of one handler in and out.\<close>

definition gate_error :: "string \<Rightarrow> HandlerState \<Rightarrow> error" where
  "gate_error what st = (case hs_close_reason st of Some e \<Rightarrow> e | None \<Rightarrow> MakeError RuntimeUnavailable what)"

definition enter_gate :: "string \<Rightarrow> HandlerState \<Rightarrow> unit result \<times> HandlerState" where
  "enter_gate what st =
     (if \<not> hs_open st then (Inl (gate_error what st), st)
      else (Inr (), st\<lparr>hs_inflight := hs_inflight st + 1\<rparr>))"

definition leave_gate :: "HandlerState \<Rightarrow> HandlerState" where
  "leave_gate st = st\<lparr>hs_inflight := hs_inflight st - 1\<rparr>"

definition InvokeHttp_enter :: "HandlerState \<Rightarrow> unit result \<times> HandlerState" where
  "InvokeHttp_enter = enter_gate ''inbound handler: host closed''"

definition InvokeRpc_enter :: "HandlerState \<Rightarrow> unit result \<times> HandlerState" where
  "InvokeRpc_enter = enter_gate ''inbound rpc handler: host closed''"

definition call_server :: "bool \<Rightarrow> net_call \<Rightarrow> nat option \<Rightarrow> InfraHttpHost \<Rightarrow> InfraHttpHost" where
  "call_server rpc c s n = (if s = None then n else net_call c n)"

definition NetStopAccepting :: "InfraHttpHost \<Rightarrow> InfraHttpHost" where
  "NetStopAccepting n =
     (let n1 = n\<lparr>nh_state := (nh_state n)\<lparr>hs_open := False\<rparr>\<rparr>;
          n2 = call_server False (ServerStopAccepting False) (nh_server n1) n1
      in call_server True (ServerStopAccepting True) (nh_rpc_server n2) n2)"

subsection \<open>The wait for the handlers\<close>

text \<open>
  The wait has three steps: the entry, which a close that came before ends at once; the wake-up, when
  no handler is left, a reason was published or the deadline passed; the shutdown of the servers.
\<close>

definition wait_entry :: "HandlerState \<Rightarrow> unit result option" where
  "wait_entry st = map_option Inl (hs_close_reason st)"

definition wait_over :: "HandlerState \<Rightarrow> bool" where
  "wait_over st \<longleftrightarrow> hs_inflight st = 0 \<or> hs_close_reason st \<noteq> None"

definition wait_wake :: "HandlerState \<Rightarrow> unit result" where
  "wait_wake st =
     (if hs_inflight st \<noteq> 0 then
        (case hs_close_reason st of Some e \<Rightarrow> Inl e | None \<Rightarrow> fail TimedOut ''inbound handlers still running'')
      else Inr ())"

record ServerAnswers =
  sa_shutdown :: "unit result"
  sa_drain :: "unit result"
  sa_stopped :: "unit result"

definition shutdown_or_drain :: "bool \<Rightarrow> ServerAnswers \<Rightarrow> InfraHttpHost \<Rightarrow> unit result \<times> InfraHttpHost" where
  "shutdown_or_drain rpc A n =
     (let n1 = net_call (ServerShutdown rpc) n
      in case sa_shutdown A of
          Inr _ \<Rightarrow> (Inr (), n1)
        | Inl e \<Rightarrow> if err_code e = Overloaded then (sa_drain A, net_call (ServerDrain rpc) n1) else (Inl e, n1))"

definition stop_server :: "bool \<Rightarrow> ServerAnswers \<Rightarrow> nat option \<Rightarrow> InfraHttpHost \<Rightarrow> unit result \<times> InfraHttpHost" where
  "stop_server rpc A s n =
     (if s = None then (Inr (), n)
      else case shutdown_or_drain rpc A n of
          (Inl e, n1) \<Rightarrow> (Inl e, n1)
        | (Inr _, n1) \<Rightarrow> (sa_stopped A, net_call (ServerWaitStopped rpc) (net_call (ServerClose rpc None) n1)))"

definition wait_servers :: "ServerAnswers \<Rightarrow> ServerAnswers \<Rightarrow> InfraHttpHost \<Rightarrow> unit result \<times> InfraHttpHost" where
  "wait_servers A R n =
     (case stop_server False A (nh_server n) n of
        (Inl e, n1) \<Rightarrow> (Inl e, n1)
      | (Inr _, n1) \<Rightarrow> stop_server True R (nh_rpc_server n1) n1)"

subsection \<open>Close\<close>

datatype EnginePhase = EngineIdle | EngineStarting | EngineRunning | EngineStopped

record JoinAnswers =
  ja_joinable :: bool
  ja_valid :: bool
  ja_ready :: bool
  ja_error :: "string option"
  ja_phase :: EnginePhase

definition JoinEngine :: "bool \<Rightarrow> JoinAnswers \<Rightarrow> nat option \<Rightarrow> InfraHttpHost \<Rightarrow> bool \<times> InfraHttpHost" where
  "JoinEngine egress A engine n =
     (if engine = None then (True, n)
      else let n1 = net_call (EngineRequestClose egress) n
        in if \<not> ja_joinable A then (True, n1)
           else if ja_valid A \<and> \<not> ja_ready A then (False, n1)
           else let n2 = net_call (EngineJoin egress) n1
             in if \<not> ja_valid A then (ja_phase A \<in> {EngineIdle, EngineStopped}, n2)
                else if ja_error A \<noteq> None \<or> ja_phase A \<noteq> EngineStopped then
                  (False, n2\<lparr>nh_close_error := Some (EngineError (ja_error A) ''Engine did not reach Stopped'')\<rparr>)
                else (True, n2))"

text \<open>
  \<open>_Close\<close> has three parts: the reason is published to the waiting handlers (the first one stays), then
  to \<open>CloseReason\<close>, then everything is stopped and released.
\<close>

definition close_gate :: "error \<Rightarrow> HandlerState \<Rightarrow> HandlerState" where
  "close_gate e st =
     st\<lparr>hs_open := False, hs_close_reason := (case hs_close_reason st of None \<Rightarrow> Some e | Some r \<Rightarrow> Some r)\<rparr>"

definition close_publish :: "error \<Rightarrow> InfraHttpHost \<Rightarrow> InfraHttpHost" where
  "close_publish e n = n\<lparr>nh_close_reason := (case nh_close_reason n of None \<Rightarrow> Some e | Some r \<Rightarrow> Some r)\<rparr>"

definition close_rest :: "JoinAnswers \<Rightarrow> JoinAnswers \<Rightarrow> error \<Rightarrow> InfraHttpHost \<Rightarrow> InfraHttpHost" where
  "close_rest A R e n =
     (let n1 = NetStopAccepting n;
          n2 = call_server False (ServerClose False (Some e)) (nh_server n1) n1;
          n3 = call_server True (ServerClose True (Some e)) (nh_rpc_server n2) n2;
          n4 = call_server False (ClientClose e) (nh_client n3) n3;
          n5 = call_server False (RpcClientClose e) (nh_rpc_http_client n4) n4
      in case JoinEngine False A (nh_engine n5) n5 of
          (inbound, n6) \<Rightarrow>
            (case JoinEngine True R (nh_egress_engine n6) n6 of
               (outbound, n7) \<Rightarrow>
                 n7\<lparr>nh_server := None, nh_rpc_server := None, nh_rpc_http_client := None, nh_client := None,
                    nh_engine := (if inbound then None else nh_engine n7),
                    nh_egress_engine := (if outbound then None else nh_egress_engine n7),
                    nh_bound := None, nh_created := False\<rparr>))"

text \<open>\<open>Close(reason)\<close>: once; without a reason the owner's own.\<close>

definition owner_reason :: error where
  "owner_reason = MakeError Closed ''framework host: closed by owner''"

definition CloseHost :: "JoinAnswers \<Rightarrow> JoinAnswers \<Rightarrow> error \<Rightarrow> InfraHttpHost \<Rightarrow> InfraHttpHost" where
  "CloseHost A R e n =
     (if nh_closed_once n then n
      else let n1 = n\<lparr>nh_closed_once := True, nh_state := close_gate e (nh_state n)\<rparr>
        in close_rest A R e (close_publish e n1))"

definition bound_endpoint :: "InfraHttpHost \<Rightarrow> string" where
  "bound_endpoint n =
     (case nh_bound n of None \<Rightarrow> [] | Some a \<Rightarrow> la_host a @ '':'' @ to_string (la_port a))"

subsection \<open>Handlers, waiter and closer\<close>

text \<open>
  The threads: handlers that pass the gate, the control thread that stops accepting and waits (one wait
  at a time; \<open>True\<close>: it had stopped accepting before), and the first thread that closes. Another
  closer only waits for the first.
\<close>

datatype wait_state = NotWaiting | Waiting bool | Passed bool | Returned bool "unit result"

datatype close_state = NotClosing | GateClosed error | ReasonPublished error | CloseReturned error

record net_world =
  nw_host :: InfraHttpHost
  nw_running :: "nat list"
  nw_refused :: "(nat \<times> error) list"
  nw_stopped :: bool
  nw_wait :: wait_state
  nw_close :: close_state

datatype net_label =
    NEnter bool nat | NLeave nat | NStop | NWaitCall | NWake bool | NServers ServerAnswers ServerAnswers
  | NCloseGate error | NClosePublish | NCloseRest JoinAnswers JoinAnswers | NCloseAgain error

abbreviation nw_state :: "net_world \<Rightarrow> HandlerState" where
  "nw_state w \<equiv> nh_state (nw_host w)"

definition put_state :: "HandlerState \<Rightarrow> net_world \<Rightarrow> net_world" where
  "put_state st w = w\<lparr>nw_host := (nw_host w)\<lparr>nh_state := st\<rparr>\<rparr>"

definition invoke_enter :: "bool \<Rightarrow> HandlerState \<Rightarrow> unit result \<times> HandlerState" where
  "invoke_enter rpc = (if rpc then InvokeRpc_enter else InvokeHttp_enter)"

inductive net_step :: "net_world \<Rightarrow> net_label \<Rightarrow> net_world \<Rightarrow> bool" where
  enter: "h \<notin> set (nw_running w) \<Longrightarrow> invoke_enter rpc (nw_state w) = (Inr (), st) \<Longrightarrow>
    net_step w (NEnter rpc h) ((put_state st w)\<lparr>nw_running := h # nw_running w\<rparr>)"
| refuse: "h \<notin> set (nw_running w) \<Longrightarrow> invoke_enter rpc (nw_state w) = (Inl e, st) \<Longrightarrow>
    net_step w (NEnter rpc h) ((put_state st w)\<lparr>nw_refused := nw_refused w @ [(h, e)]\<rparr>)"
| leave: "h \<in> set (nw_running w) \<Longrightarrow>
    net_step w (NLeave h) ((put_state (leave_gate (nw_state w)) w)\<lparr>nw_running := remove1 h (nw_running w)\<rparr>)"
| stop: "nw_wait w = NotWaiting \<Longrightarrow>
    net_step w NStop (w\<lparr>nw_host := NetStopAccepting (nw_host w), nw_stopped := True\<rparr>)"
| wait_call: "nw_wait w \<in> {NotWaiting} \<union> range (Returned b) \<Longrightarrow>
    net_step w NWaitCall (w\<lparr>nw_wait := (case wait_entry (nw_state w) of
        Some r \<Rightarrow> Returned (nw_stopped w) r | None \<Rightarrow> Waiting (nw_stopped w))\<rparr>)"
| wake: "nw_wait w = Waiting b \<Longrightarrow> late \<or> wait_over (nw_state w) \<Longrightarrow>
    net_step w (NWake late) (w\<lparr>nw_wait := (case wait_wake (nw_state w) of Inl e \<Rightarrow> Returned b (Inl e) | Inr _ \<Rightarrow> Passed b)\<rparr>)"
| servers: "nw_wait w = Passed b \<Longrightarrow> wait_servers A R (nw_host w) = (r, n) \<Longrightarrow>
    net_step w (NServers A R) (w\<lparr>nw_host := n, nw_wait := Returned b r\<rparr>)"
| close_gate: "nw_close w = NotClosing \<Longrightarrow>
    net_step w (NCloseGate e) (w\<lparr>nw_host := (nw_host w)\<lparr>nh_closed_once := True, nh_state := close_gate e (nw_state w)\<rparr>,
      nw_close := GateClosed e\<rparr>)"
| close_publish: "nw_close w = GateClosed e \<Longrightarrow>
    net_step w NClosePublish (w\<lparr>nw_host := close_publish e (nw_host w), nw_close := ReasonPublished e\<rparr>)"
| close_rest: "nw_close w = ReasonPublished e \<Longrightarrow>
    net_step w (NCloseRest A R) (w\<lparr>nw_host := close_rest A R e (nw_host w), nw_close := CloseReturned e\<rparr>)"
| close_again: "nh_closed_once (nw_host w) \<Longrightarrow> nw_close w = CloseReturned e' \<Longrightarrow> net_step w (NCloseAgain e) w"

inductive_cases net_stepE: "net_step w l v"

definition fresh_gate :: "InfraHttpHost \<Rightarrow> bool" where
  "fresh_gate n \<longleftrightarrow> hs_open (nh_state n) \<and> hs_inflight (nh_state n) = 0 \<and> hs_close_reason (nh_state n) = None \<and>
     nh_close_reason n = None \<and> \<not> nh_closed_once n"

definition net_world :: "InfraHttpHost \<Rightarrow> net_world" where
  "net_world n = \<lparr>nw_host = n, nw_running = [], nw_refused = [], nw_stopped = False, nw_wait = NotWaiting, nw_close = NotClosing\<rparr>"

definition net_start :: "net_world \<Rightarrow> bool" where
  "net_start w \<longleftrightarrow> (\<exists>n. fresh_gate n \<and> w = net_world n)"

subsection \<open>The invariant\<close>

definition reasons :: "close_state \<Rightarrow> error option \<times> error option" where
  "reasons c = (case c of NotClosing \<Rightarrow> (None, None) | GateClosed e \<Rightarrow> (Some e, None)
     | ReasonPublished e \<Rightarrow> (Some e, Some e) | CloseReturned e \<Rightarrow> (Some e, Some e))"

definition confirmed :: "wait_state \<Rightarrow> bool" where
  "confirmed s \<longleftrightarrow> s = Passed True \<or> s = Returned True (Inr ())"

definition net_inv :: "net_world \<Rightarrow> bool" where
  "net_inv w \<longleftrightarrow>
     hs_inflight (nw_state w) = length (nw_running w) \<and> distinct (nw_running w) \<and>
     (hs_close_reason (nw_state w), nh_close_reason (nw_host w)) = reasons (nw_close w) \<and>
     (nh_closed_once (nw_host w) \<longleftrightarrow> nw_close w \<noteq> NotClosing) \<and>
     (nw_stopped w \<or> nw_close w \<noteq> NotClosing \<longrightarrow> \<not> hs_open (nw_state w)) \<and>
     (nw_wait w = Waiting True \<longrightarrow> nw_stopped w) \<and>
     (confirmed (nw_wait w) \<longrightarrow> nw_stopped w \<and> nw_running w = [])"

lemma net_call_same [simp]:
  "nh_state (net_call c n) = nh_state n" "nh_close_reason (net_call c n) = nh_close_reason n"
  "nh_closed_once (net_call c n) = nh_closed_once n"
  by (simp_all add: net_call_def)

lemma call_server_same [simp]:
  "nh_state (call_server b c s n) = nh_state n" "nh_close_reason (call_server b c s n) = nh_close_reason n"
  "nh_closed_once (call_server b c s n) = nh_closed_once n"
  by (simp_all add: call_server_def)

lemma NetStop_same [simp]:
  "nh_state (NetStopAccepting n) = (nh_state n)\<lparr>hs_open := False\<rparr>" "nh_close_reason (NetStopAccepting n) = nh_close_reason n"
  "nh_closed_once (NetStopAccepting n) = nh_closed_once n"
  by (simp_all add: NetStopAccepting_def Let_def)

definition gate_same :: "InfraHttpHost \<Rightarrow> InfraHttpHost \<Rightarrow> bool" where
  "gate_same n n' \<longleftrightarrow> nh_state n' = nh_state n \<and> nh_close_reason n' = nh_close_reason n \<and> nh_closed_once n' = nh_closed_once n"

lemma Join_same: "JoinEngine b A e n = (x, n') \<Longrightarrow> gate_same n n'"
  by (auto simp: JoinEngine_def Let_def gate_same_def split: if_splits)

lemma stop_server_same: "stop_server b A s n = (r, n') \<Longrightarrow> gate_same n n'"
  by (auto simp: stop_server_def shutdown_or_drain_def Let_def gate_same_def split: if_splits sum.splits prod.splits)

lemma wait_servers_same: "wait_servers A R n = (r, n') \<Longrightarrow> gate_same n n'"
  by (auto simp: wait_servers_def gate_same_def dest!: stop_server_same split: sum.splits prod.splits)

lemma close_rest_same:
  "nh_state (close_rest A R e n) = (nh_state n)\<lparr>hs_open := False\<rparr>" "nh_close_reason (close_rest A R e n) = nh_close_reason n"
  "nh_closed_once (close_rest A R e n) = nh_closed_once n"
  by (auto simp: close_rest_def Let_def gate_same_def dest!: Join_same split: prod.split)

lemma invoke_enter_cases:
  "invoke_enter rpc st = (r, st') \<Longrightarrow>
   (if hs_open st then r = Inr () \<and> st' = st\<lparr>hs_inflight := hs_inflight st + 1\<rparr>
    else st' = st \<and> (\<exists>e. r = Inl e \<and> (\<forall>x. hs_close_reason st = Some x \<longrightarrow> e = x) \<and>
      (hs_close_reason st = None \<longrightarrow> err_code e = RuntimeUnavailable)))"
  by (auto simp: invoke_enter_def InvokeRpc_enter_def InvokeHttp_enter_def enter_gate_def gate_error_def split: if_splits option.splits)

lemma net_start_inv: "net_start w \<Longrightarrow> net_inv w"
  by (auto simp: net_start_def net_world_def fresh_gate_def net_inv_def reasons_def confirmed_def)

lemmas net_world_defs = net_inv_def put_state_def confirmed_def

lemma net_step_inv:
  assumes inv: "net_inv w" and s: "net_step w l v"
  shows "net_inv v"
  using s
proof cases
  case (enter h rpc st)
  then show ?thesis using inv invoke_enter_cases [OF enter(4)] by (auto simp: net_world_defs split: if_splits)
next
  case (refuse h rpc e st)
  then show ?thesis using inv invoke_enter_cases [OF refuse(4)] by (auto simp: net_world_defs split: if_splits)
next
  case (leave h)
  then show ?thesis using inv by (auto simp: net_world_defs leave_gate_def length_remove1 distinct_remove1)
next
  case stop
  then show ?thesis using inv by (auto simp: net_world_defs)
next
  case (wait_call b)
  then show ?thesis using inv by (auto simp: net_world_defs wait_entry_def split: option.splits)
next
  case (wake b late)
  then show ?thesis using inv by (auto simp: net_world_defs wait_wake_def split: option.splits if_splits sum.splits)
next
  case (servers b A R r n)
  then show ?thesis using inv wait_servers_same [OF servers(4)] by (auto simp: net_world_defs gate_same_def)
next
  case (close_gate e)
  then show ?thesis using inv by (auto simp: net_world_defs close_gate_def reasons_def)
next
  case (close_publish e)
  then show ?thesis using inv by (auto simp: net_world_defs close_publish_def reasons_def)
next
  case (close_rest e A R)
  then show ?thesis using inv by (auto simp: net_world_defs close_rest_same reasons_def)
next
  case (close_again e' e)
  then show ?thesis using inv by simp
qed

interpretation net: interleaving net_start net_step net_inv
  by unfold_locales (fact net_start_inv, fact net_step_inv)

text \<open>A sealed gate without handlers stays without handlers.\<close>

definition silent :: "net_world \<Rightarrow> bool" where
  "silent w \<longleftrightarrow> \<not> hs_open (nw_state w) \<and> nw_running w = []"

lemma silent_step:
  assumes "silent w" and s: "net_step w l v"
  shows "silent v"
  using s
proof cases
  case (enter h rpc st)
  then show ?thesis using assms(1) invoke_enter_cases [OF enter(4)] by (auto simp: silent_def put_state_def split: if_splits)
next
  case (refuse h rpc e st)
  then show ?thesis using assms(1) invoke_enter_cases [OF refuse(4)] by (auto simp: silent_def put_state_def split: if_splits)
next
  case (servers b A R r n)
  then show ?thesis using assms(1) wait_servers_same [OF servers(4)] by (simp add: silent_def gate_same_def)
qed (use assms(1) in \<open>auto simp: silent_def put_state_def leave_gate_def close_gate_def close_publish_def close_rest_same\<close>)

lemma silent_steps: "steps_by net_step A w v \<Longrightarrow> silent w \<Longrightarrow> silent v"
  by (induction rule: steps_by.induct) (auto intro: silent_step)

text \<open>A published reason is final, and every refusal from then on carries it.\<close>

definition closed_for :: "error \<Rightarrow> (nat \<times> error) list \<Rightarrow> net_world \<Rightarrow> bool" where
  "closed_for e rs w \<longleftrightarrow> hs_close_reason (nw_state w) = Some e \<and> \<not> hs_open (nw_state w) \<and>
     (\<exists>new. nw_refused w = rs @ new \<and> (\<forall>p \<in> set new. snd p = e)) \<and>
     (nw_close w \<noteq> NotClosing)"

lemma closed_step:
  assumes c: "closed_for e rs w" and s: "net_step w l v"
  shows "closed_for e rs v"
  using s
proof cases
  case (enter h rpc st)
  then show ?thesis using c invoke_enter_cases [OF enter(4)] by (auto simp: closed_for_def put_state_def split: if_splits)
next
  case (refuse h rpc e' st)
  then have "e' = e \<and> st = nw_state w" using c invoke_enter_cases [OF refuse(4)] by (auto simp: closed_for_def split: if_splits)
  then show ?thesis using c refuse by (auto simp: closed_for_def put_state_def)
next
  case (servers b A R r n)
  then show ?thesis using c wait_servers_same [OF servers(4)] by (simp add: closed_for_def gate_same_def)
qed (use c in \<open>auto simp: closed_for_def put_state_def leave_gate_def close_gate_def close_publish_def close_rest_same\<close>)

lemma closed_steps: "steps_by net_step A w v \<Longrightarrow> closed_for e rs w \<Longrightarrow> closed_for e rs v"
  by (induction rule: steps_by.induct) (auto intro: closed_step)

subsection \<open>Properties\<close>

text \<open>C33: A confirmed drain is final. Under every interleaving of handlers, the control thread and a
  closing thread: when the wait of a control thread that had stopped accepting returns success, no
  handler runs, no handler ever runs again, and every later request is refused with the reason of the
  close or with \<open>RuntimeUnavailable\<close>.\<close>

theorem drained_host_stays_silent:
  assumes "reachable net_start net_step w" and "nw_wait w = Returned True (Inr ())"
    and "steps_by net_step (\<lambda>_. True) w v"
  shows "nw_running v = [] \<and> hs_inflight (nh_state (nw_host v)) = 0 \<and>
    (\<forall>rpc h u. net_step v (NEnter rpc h) u \<longrightarrow> nw_running u = [] \<and>
       (\<exists>e. nw_refused u = nw_refused v @ [(h, e)] \<and>
         (hs_close_reason (nh_state (nw_host v)) = Some e \<or> err_code e = RuntimeUnavailable)))"
proof -
  have w: "net_inv w" using assms(1) by (rule net.reachable_inv)
  then have "silent w" using assms(2) by (simp add: net_inv_def silent_def confirmed_def)
  then have v: "silent v" using silent_steps [OF assms(3)] by blast
  have "net_inv v" using net.steps_inv [OF assms(3) w] .
  then have "hs_inflight (nw_state v) = 0" using v by (simp add: net_inv_def silent_def)
  moreover have "nw_running u = [] \<and> (\<exists>e. nw_refused u = nw_refused v @ [(h, e)] \<and>
      (hs_close_reason (nw_state v) = Some e \<or> err_code e = RuntimeUnavailable))"
    if "net_step v (NEnter rpc h) u" for rpc h u
    using that
  proof cases
    case (enter st)
    then show ?thesis using v invoke_enter_cases [OF enter(3)] by (auto simp: silent_def split: if_splits)
  next
    case (refuse e st)
    then show ?thesis using v invoke_enter_cases [OF refuse(3)]
      by (cases "hs_close_reason (nw_state v)") (auto simp: silent_def put_state_def split: if_splits)
  qed
  ultimately show ?thesis using v by (simp add: silent_def)
qed

text \<open>A host with a plain HTTP server: one request runs, the gate closes, the request leaves.\<close>

definition demo_host :: InfraHttpHost where
  "demo_host = (new_host \<lparr>nl_max_connections = 4, nl_max_inflight = 2, nl_max_body_bytes = 64, nl_max_header_bytes = 64, nl_incoming_timeout = 5\<rparr>
     \<lparr>la_host = ''127.0.0.1'', la_port = 0\<rparr>)\<lparr>nh_server := Some 1, nh_created := True\<rparr>"

definition all_fine :: ServerAnswers where
  "all_fine = \<lparr>sa_shutdown = Inr (), sa_drain = Inr (), sa_stopped = Inr ()\<rparr>"

lemma demo_host_fresh: "fresh_gate demo_host"
  by (simp add: fresh_gate_def demo_host_def new_host_def)

lemma reach_by: "net_step s l t \<Longrightarrow> reachable net_start net_step s \<Longrightarrow> reachable net_start net_step t"
  by (rule reach_step)

lemma demo_reach: "reachable net_start net_step (net_world demo_host)"
  by (rule reach_start) (use demo_host_fresh in \<open>unfold net_start_def, blast\<close>)

definition demo_entered :: net_world where
  "demo_entered = (net_world demo_host)\<lparr>nw_host := demo_host\<lparr>nh_state := (nh_state demo_host)\<lparr>hs_inflight := 1\<rparr>\<rparr>, nw_running := [7]\<rparr>"

lemma demo_entered: "reachable net_start net_step demo_entered"
proof (rule reach_by [OF _ demo_reach])
  show "net_step (net_world demo_host) (NEnter False 7) demo_entered"
    using net_step.enter [of 7 "net_world demo_host" False "(nh_state demo_host)\<lparr>hs_inflight := 1\<rparr>"]
    by (simp add: demo_entered_def put_state_def net_world_def demo_host_def new_host_def invoke_enter_def InvokeHttp_enter_def enter_gate_def)
qed

definition demo_drained :: net_world where
  "demo_drained = demo_entered\<lparr>nw_host := snd (wait_servers all_fine all_fine (NetStopAccepting demo_host)),
     nw_running := [], nw_stopped := True, nw_wait := Returned True (Inr ())\<rparr>"

lemma demo_drained: "reachable net_start net_step demo_drained"
proof -
  note defs = demo_entered_def put_state_def net_world_def demo_host_def new_host_def leave_gate_def
  let ?s1 = "demo_entered\<lparr>nw_host := NetStopAccepting (nw_host demo_entered), nw_stopped := True\<rparr>"
  let ?s2 = "?s1\<lparr>nw_wait := Waiting True\<rparr>"
  let ?s3 = "(put_state (leave_gate (nw_state ?s2)) ?s2)\<lparr>nw_running := []\<rparr>"
  let ?s4 = "?s3\<lparr>nw_wait := Passed True\<rparr>"
  have 1: "net_step demo_entered NStop ?s1" by (rule net_step.stop) (simp add: defs)
  have 2: "net_step ?s1 NWaitCall ?s2"
    using net_step.wait_call [of ?s1] by (simp add: defs wait_entry_def)
  have 3: "net_step ?s2 (NLeave 7) ?s3"
    using net_step.leave [of 7 ?s2] by (simp add: demo_entered_def)
  have 4: "net_step ?s3 (NWake False) ?s4"
    using net_step.wake [of ?s3 True False] by (simp add: defs wait_over_def wait_wake_def)
  have 5: "net_step ?s4 (NServers all_fine all_fine) demo_drained"
    using net_step.servers [of ?s4 True all_fine all_fine "Inr ()" "snd (wait_servers all_fine all_fine (nw_host ?s4))"]
    by (simp add: defs demo_drained_def all_fine_def wait_servers_def stop_server_def shutdown_or_drain_def NetStopAccepting_def
        call_server_def net_call_def Let_def)
  show ?thesis by (rule reach_by [OF 5 reach_by [OF 4 reach_by [OF 3 reach_by [OF 2 reach_by [OF 1 demo_entered]]]]])
qed

theorem drained_host_stays_silent_witness:
  "reachable net_start net_step demo_drained \<and> nw_running demo_drained = [] \<and>
   hs_inflight (nh_state (nw_host demo_drained)) = 0"
  using drained_host_stays_silent [OF demo_drained _ steps_refl] demo_drained
  by (simp add: demo_drained_def)

text \<open>C34: The first reason wins. Under every interleaving: once \<open>CloseReason\<close> returns a reason, it is the
  one the first call of \<open>Close\<close> gave; it never changes, the gate is shut, every later refusal carries
  exactly this error, a wait that is called returns it at once and a wait under way can wake up.\<close>

theorem first_close_reason_wins:
  assumes "reachable net_start net_step w" and "nh_close_reason (nw_host w) = Some e"
    and "steps_by net_step (\<lambda>_. True) w v"
  shows "nw_close v \<in> {ReasonPublished e, CloseReturned e} \<and> nh_close_reason (nw_host v) = Some e \<and>
    hs_close_reason (nh_state (nw_host v)) = Some e \<and> \<not> hs_open (nh_state (nw_host v)) \<and>
    (\<exists>new. nw_refused v = nw_refused w @ new \<and> (\<forall>p \<in> set new. snd p = e)) \<and>
    (\<forall>u. net_step v NWaitCall u \<longrightarrow> nw_wait u = Returned (nw_stopped v) (Inl e)) \<and>
    (\<forall>b. nw_wait v = Waiting b \<longrightarrow> (\<exists>u. net_step v (NWake False) u))"
proof -
  have inv: "net_inv w" "net_inv v" using assms(1,3) by (auto intro: net.reachable_inv net.steps_inv)
  have "closed_for e (nw_refused w) w" using inv(1) assms(2)
    by (cases "nw_close w") (auto simp: net_inv_def reasons_def closed_for_def)
  then have c: "closed_for e (nw_refused w) v" using assms(3) by (rule closed_steps [rotated])
  have published: "nh_close_reason (nw_host v) = Some e"
    using assms(3,2)
  proof (induction rule: steps_by.induct)
    case (steps_trans s l t u)
    from steps_trans(1) steps_trans(5) have "nh_close_reason (nw_host t) = Some e"
    proof cases
      case (servers b A R r n)
      then show ?thesis using wait_servers_same [OF servers(4)] steps_trans(5) by (simp add: gate_same_def)
    qed (use steps_trans(5) in \<open>auto simp: put_state_def close_publish_def close_rest_same\<close>)
    then show ?case by (rule steps_trans.IH)
  qed
  then have "nw_close v \<in> {ReasonPublished e, CloseReturned e}"
    using inv(2) by (cases "nw_close v") (auto simp: net_inv_def reasons_def)
  moreover have "nw_wait u = Returned (nw_stopped v) (Inl e)" if "net_step v NWaitCall u" for u
    using that by cases (use c in \<open>simp add: closed_for_def wait_entry_def\<close>)
  moreover have "\<exists>u. net_step v (NWake False) u" if "nw_wait v = Waiting b" for b
    using net_step.wake [OF that, of False] c by (auto simp: closed_for_def wait_over_def)
  ultimately show ?thesis using c published by (simp add: closed_for_def)
qed

definition shut :: error where "shut = MakeError Cancelled ''operator''"

definition demo_shut :: net_world where
  "demo_shut = (net_world demo_host)\<lparr>nw_host := close_publish shut (demo_host\<lparr>nh_closed_once := True,
     nh_state := close_gate shut (nh_state demo_host)\<rparr>), nw_close := ReasonPublished shut\<rparr>"

lemma demo_shut: "reachable net_start net_step demo_shut"
proof -
  let ?s1 = "(net_world demo_host)\<lparr>nw_host := demo_host\<lparr>nh_closed_once := True, nh_state := close_gate shut (nh_state demo_host)\<rparr>,
    nw_close := GateClosed shut\<rparr>"
  have 1: "net_step (net_world demo_host) (NCloseGate shut) ?s1"
    using net_step.close_gate [of "net_world demo_host" shut] by (simp add: net_world_def)
  have 2: "net_step ?s1 NClosePublish demo_shut"
    using net_step.close_publish [of ?s1 shut] by (simp add: demo_shut_def net_world_def)
  show ?thesis by (rule reach_by [OF 2 reach_by [OF 1 demo_reach]])
qed

theorem first_close_reason_wins_witness:
  "reachable net_start net_step demo_shut \<and> nh_close_reason (nw_host demo_shut) = Some shut \<and>
   hs_close_reason (nh_state (nw_host demo_shut)) = Some shut"
proof -
  have r: "nh_close_reason (nw_host demo_shut) = Some shut"
    by (simp add: demo_shut_def close_publish_def close_gate_def demo_host_def new_host_def)
  show ?thesis using first_close_reason_wins [OF demo_shut r steps_refl] demo_shut r by blast
qed

text \<open>
  The reason reaches the waiter before \<open>CloseReason\<close>: a waiter can return the reason of a close while
  \<open>CloseReason\<close> still returns nothing, even twice in a row. The lifecycle takes this for a failed drain
  (\<open>he_reason\<close> and \<open>he_late_reason\<close> false with both waits failed) and parks for ever.
\<close>

lemma waiter_sees_the_reason_first:
  "\<exists>w. reachable net_start net_step w \<and> nw_wait w = Returned True (Inl shut) \<and> nh_close_reason (nw_host w) = None \<and>
     (\<exists>v. net_step w NWaitCall v \<and> nw_wait v = Returned True (Inl shut) \<and> nh_close_reason (nw_host v) = None)"
proof -
  note defs = demo_entered_def put_state_def net_world_def demo_host_def new_host_def
  let ?s1 = "demo_entered\<lparr>nw_host := NetStopAccepting (nw_host demo_entered), nw_stopped := True\<rparr>"
  let ?s2 = "?s1\<lparr>nw_host := (nw_host ?s1)\<lparr>nh_closed_once := True, nh_state := close_gate shut (nw_state ?s1)\<rparr>, nw_close := GateClosed shut\<rparr>"
  let ?s3 = "?s2\<lparr>nw_wait := Returned True (Inl shut)\<rparr>"
  have 1: "net_step demo_entered NStop ?s1" by (rule net_step.stop) (simp add: defs)
  have 2: "net_step ?s1 (NCloseGate shut) ?s2" by (rule net_step.close_gate) (simp add: defs)
  have e: "wait_entry (nw_state ?s2) = Some (Inl shut)" by (simp add: defs wait_entry_def close_gate_def)
  have 3: "net_step ?s2 NWaitCall ?s3" using net_step.wait_call [of ?s2] e by (simp add: defs)
  have 4: "net_step ?s3 NWaitCall ?s3" using net_step.wait_call [of ?s3 True] e by (simp add: defs)
  have n: "nh_close_reason (nw_host ?s3) = None" by (simp add: defs)
  have r: "reachable net_start net_step ?s3" by (rule reach_by [OF 3 reach_by [OF 2 reach_by [OF 1 demo_entered]]])
  have w: "nw_wait ?s3 = Returned True (Inl shut)" by simp
  show ?thesis using r w n 4 by blast
qed

text \<open>The three steps of a close, taken together, are \<open>Close\<close>.\<close>

lemma close_in_steps:
  "net_step w (NCloseGate e) a \<Longrightarrow> net_step a NClosePublish b \<Longrightarrow> net_step b (NCloseRest A R) c \<Longrightarrow>
   \<not> nh_closed_once (nw_host w) \<Longrightarrow> nw_host c = CloseHost A R e (nw_host w)"
  by (auto simp: CloseHost_def Let_def elim!: net_stepE)

text \<open>The loop that waits for an engine ends, at the latest, in the round whose clock passes the deadline.\<close>

lemma engine_wait_ends:
  "p \<in> set ps \<Longrightarrow> deadline \<le> ep_now p \<Longrightarrow> engine_wait txt deadline ps \<noteq> None"
  by (induction ps) auto

lemma client_within_limits:
  "cl_max_connections (client_options l d) \<le> nl_max_connections l \<and> cl_max_connections (client_options l d) \<le> nl_max_inflight l \<and>
   cl_max_keepalive (client_options l d) \<le> cl_max_connections (client_options l d)"
  by (simp add: client_options_def Let_def min_def)

end
