(* ===== verification/HostApp.thy ===== *)
theory HostApp
  imports Dispatch Bridge NetHost "HOL-Library.List_Lexorder" "HOL-Library.Char_ord"
begin

text \<open>
  The assembly root of a business host (the first generation): \<open>CoApp.hpp\<close>, \<open>src/host/CoApp.cc\<close>, the
  resource keys of \<open>ServiceContext.hpp\<close> and the seam of \<open>internal/CoAppSeam.hpp\<close>. Services and
  resources are registered, \<open>run\<close> starts the resources and binds the services on the lifecycle's
  hooks, and closes and releases them on the way down. Business code (constructors of services,
  factories and \<open>Start\<close> of resources) is an answer in an environment; a \<open>std::map\<close> is an association
  list sorted by its key, and the order in which a \<open>std::unordered_map\<close> is traversed is a parameter.
\<close>

subsection \<open>Configuration and state\<close>

record StaticRoute =
  sr_service_name :: string
  sr_address :: RpcAddress

record 'w CoAppOptions =
  op_network_limits :: NetworkLimits
  op_listen :: ListenAddress
  op_static_routes :: "StaticRoute list"
  op_shutdown_step_budget :: int
  op_inbound_bridge :: RpcInboundBridge
  op_rpc_policy :: "(RpcCallView \<Rightarrow> 'w \<Rightarrow> RpcPolicyDecision result \<times> 'w) option"
  op_dynamic_routes :: "DynamicRouteTable option"

record 'w HostService =
  hv_options :: ServiceOptions
  hv_table :: "'w RpcMethodTable"
  hv_factory :: nat
  hv_ordered_ingress :: "OrderedIngress option"

record ResourceKey =
  rk_type :: nat
  rk_name :: string

text \<open>\<open>rs_factory\<close>, \<open>rs_start\<close>, \<open>rs_closeable\<close>: whether the closure is there.\<close>

record ResourceSpec =
  rs_factory :: bool
  rs_start :: bool
  rs_closeable :: bool
  rs_instance :: "nat option"
  rs_closed :: bool

text \<open>The log: the calls of the lifecycle, and what the hooks call of the business.\<close>

datatype host_log =
    LHost host_event
  | LMade ResourceKey
  | LStarted ResourceKey
  | LBound string
  | LClosed ResourceKey nat

record 'w CoApp =
  ca_options :: "'w CoAppOptions"
  ca_host :: bool
  ca_default_host :: "InfraHttpHost option"
  ca_services :: "(string \<times> 'w HostService) list"
  ca_routes :: "(string \<times> RpcAddress) list"
  ca_resources :: "(ResourceKey \<times> nat) list"
  ca_specs :: "(ResourceKey \<times> ResourceSpec) list"
  ca_registration_open :: bool
  ca_state :: "('w, 'w DispatchWorld) AppRuntimeState"
  ca_ran_once :: bool
  ca_shutdown_req :: bool
  ca_lifecycle :: "HostLifecycle option"
  ca_parked_state :: ShutdownState
  ca_early_failures :: "string list"
  ca_log :: "host_log list"

subsection \<open>Construction\<close>

definition emplace_routes :: "StaticRoute list \<Rightarrow> (string \<times> RpcAddress) list" where
  "emplace_routes rs = fold (\<lambda>r m. emplace (sr_service_name r) (sr_address r) m) rs []"

definition egress_profile :: "RpcInboundBridge \<Rightarrow> RpcEgressProfile" where
  "egress_profile b = (case b of InboundTcpV1 \<Rightarrow> TcpV1 | InboundProtoWireV1 \<Rightarrow> ProtoWireV1 | InboundLegacyHeaders \<Rightarrow> LegacyHeaders)"

definition empty_state :: "'w CoAppOptions \<Rightarrow> 'w egress_fn option \<Rightarrow> 'w egress_fn option \<Rightarrow> ('w, 'w DispatchWorld) AppRuntimeState" where
  "empty_state opts egress seam =
     \<lparr>as_routes = emplace_routes (op_static_routes opts), as_dynamic_routes = op_dynamic_routes opts,
      as_rpc_policy = op_rpc_policy opts, as_default_egress = egress, as_seam_send = seam,
      as_dispatcher = None, as_tables = [], as_instances = [], as_registry = None\<rparr>"

definition blank_host_app :: "'w CoAppOptions \<Rightarrow> bool \<Rightarrow> InfraHttpHost option \<Rightarrow> ('w, 'w DispatchWorld) AppRuntimeState \<Rightarrow> 'w CoApp" where
  "blank_host_app opts host dflt st =
     \<lparr>ca_options = opts, ca_host = host, ca_default_host = dflt, ca_services = [],
      ca_routes = emplace_routes (op_static_routes opts), ca_resources = [], ca_specs = [],
      ca_registration_open = True, ca_state = st, ca_ran_once = False, ca_shutdown_req = False,
      ca_lifecycle = None, ca_parked_state = StRunning, ca_early_failures = [], ca_log = []\<rparr>"

text \<open>The bridge that the default host gets: an RPC handler when the wire is built in and chosen.\<close>

definition install_bridge :: "Build \<Rightarrow> RpcInboundBridge \<Rightarrow> InfraHttpHost \<Rightarrow> InfraHttpHost" where
  "install_bridge bd b n =
     (if bd_rpc_wire bd \<and> b \<noteq> InboundLegacyHeaders then InstallRpcHandler True (SetRpcInboundTransport b n)
      else InstallHandler True n)"

definition default_app :: "Build \<Rightarrow> (RpcEgressProfile \<Rightarrow> 'w egress_fn) \<Rightarrow> 'w CoAppOptions \<Rightarrow> 'w CoApp" where
  "default_app bd egress opts =
     blank_host_app opts True
       (Some (install_bridge bd (op_inbound_bridge opts) (new_host (op_network_limits opts) (op_listen opts))))
       (empty_state opts (Some (egress (egress_profile (op_inbound_bridge opts)))) None)"

definition seam_app :: "'w CoAppOptions \<Rightarrow> bool \<Rightarrow> 'w egress_fn option \<Rightarrow> 'w CoApp" where
  "seam_app opts host send = blank_host_app opts host None (empty_state opts None send)"

subsection \<open>Registration\<close>

text \<open>\<open>std::map::emplace\<close> of a key that is not there.\<close>

fun map_insert :: "'k::linorder \<Rightarrow> 'v \<Rightarrow> ('k \<times> 'v) list \<Rightarrow> ('k \<times> 'v) list" where
  "map_insert k v [] = [(k, v)]"
| "map_insert k v ((k', v') # m) = (if k < k' then (k, v) # (k', v') # m else (k', v') # map_insert k v m)"

definition invalid_argument_text :: "invalid_argument \<Rightarrow> string" where
  "invalid_argument_text x =
     (case x of
        EmptyMethodName \<Rightarrow> ''method table: empty method name''
      | DuplicateMethod n \<Rightarrow> ''method table: duplicate method '' @ quoted n)"

text \<open>
  \<open>add_service<T>\<close>: \<open>declared\<close> is the method list of \<open>T\<close> (or the text of another exception that
  listing it throws), \<open>name\<close> what its prototype calls itself and \<open>factory\<close> the type.
\<close>

definition AddService :: "ServiceOptions \<Rightarrow> string + 'w RpcMethod list \<Rightarrow> string \<Rightarrow> nat \<Rightarrow> 'w CoApp \<Rightarrow> unit result \<times> 'w CoApp" where
  "AddService opts declared name factory a =
     (case ValidateServiceOptions opts of
        Inl e \<Rightarrow> (Inl e, a)
      | Inr _ \<Rightarrow>
          (case declared of
             Inl what \<Rightarrow> (fail InternalError (''add_service: method table failed: '' @ what), a)
           | Inr ms \<Rightarrow>
               (case BuildMethodTable ms of
                  Inl x \<Rightarrow> (fail InvalidArgument (''add_service: '' @ invalid_argument_text x), a)
                | Inr table \<Rightarrow>
                    (case ValidateActorKeying table (execution opts) of
                       Inl e \<Rightarrow> (Inl e, a)
                     | Inr _ \<Rightarrow>
                         if name = [] then (fail InvalidArgument ''add_service: empty service name'', a)
                         else if \<not> ca_registration_open a then
                           (fail Closed ''add_service: registration closed (run already started)'', a)
                         else if map_of (ca_services a) name \<noteq> None then
                           (fail InvalidArgument (''add_service: duplicate service '' @ quoted name), a)
                         else
                           (Inr (), a\<lparr>ca_services := map_insert name
                              \<lparr>hv_options = opts, hv_table = table, hv_factory = factory, hv_ordered_ingress = None\<rparr>
                              (ca_services a)\<rparr>)))))"

definition kDefaultResourceName :: string where "kDefaultResourceName = []"

text \<open>\<open>_MakeSpec\<close>: what the type \<open>R\<close> offers.\<close>

definition MakeSpec :: "bool \<Rightarrow> bool \<Rightarrow> ResourceSpec" where
  "MakeSpec start closeable =
     \<lparr>rs_factory = False, rs_start = start, rs_closeable = closeable, rs_instance = None, rs_closed = False\<rparr>"

definition AddResourceImpl :: "ResourceKey \<Rightarrow> bool \<Rightarrow> bool \<Rightarrow> nat option \<Rightarrow> 'w CoApp \<Rightarrow> unit result \<times> 'w CoApp" where
  "AddResourceImpl key start closeable resource a =
     (case resource of
        None \<Rightarrow> (fail InvalidArgument ''add_resource: null resource'', a)
      | Some i \<Rightarrow>
          if \<not> ca_registration_open a then
            (fail Closed ''add_resource: registration closed (run already started)'', a)
          else if map_of (ca_specs a) key \<noteq> None then (fail InvalidArgument ''add_resource: duplicate resource key'', a)
          else
            (Inr (), a\<lparr>ca_specs := emplace key ((MakeSpec start closeable)\<lparr>rs_instance := Some i\<rparr>) (ca_specs a),
                       ca_resources := emplace key i (ca_resources a)\<rparr>))"

definition AddDefaultResource :: "nat \<Rightarrow> bool \<Rightarrow> bool \<Rightarrow> nat option \<Rightarrow> 'w CoApp \<Rightarrow> unit result \<times> 'w CoApp" where
  "AddDefaultResource ty = AddResourceImpl \<lparr>rk_type = ty, rk_name = kDefaultResourceName\<rparr>"

definition AddResource :: "nat \<Rightarrow> string \<Rightarrow> bool \<Rightarrow> bool \<Rightarrow> nat option \<Rightarrow> 'w CoApp \<Rightarrow> unit result \<times> 'w CoApp" where
  "AddResource ty name start closeable resource a =
     (if name = [] then (fail InvalidArgument ''add_resource: empty resource name'', a)
      else AddResourceImpl \<lparr>rk_type = ty, rk_name = name\<rparr> start closeable resource a)"

definition AddResourceFactoryImpl :: "ResourceKey \<Rightarrow> bool \<Rightarrow> bool \<Rightarrow> bool \<Rightarrow> 'w CoApp \<Rightarrow> unit result \<times> 'w CoApp" where
  "AddResourceFactoryImpl key start closeable has_factory a =
     (if \<not> has_factory then (fail InvalidArgument ''add_resource: null factory'', a)
      else if \<not> ca_registration_open a then
        (fail Closed ''add_resource: registration closed (run already started)'', a)
      else if map_of (ca_specs a) key \<noteq> None then (fail InvalidArgument ''add_resource: duplicate resource key'', a)
      else (Inr (), a\<lparr>ca_specs := emplace key ((MakeSpec start closeable)\<lparr>rs_factory := True\<rparr>) (ca_specs a)\<rparr>))"

definition AddResourceFactory :: "nat \<Rightarrow> string \<Rightarrow> bool \<Rightarrow> bool \<Rightarrow> bool \<Rightarrow> 'w CoApp \<Rightarrow> unit result \<times> 'w CoApp" where
  "AddResourceFactory ty name start closeable has_factory a =
     (if name = [] then (fail InvalidArgument ''add_resource: empty resource name'', a)
      else AddResourceFactoryImpl \<lparr>rk_type = ty, rk_name = name\<rparr> start closeable has_factory a)"

text \<open>The ingress of a service, made on first use.\<close>

definition ingress_config :: "string \<Rightarrow> ServiceOptions \<Rightarrow> OrderedIngressConfig" where
  "ingress_config name opts =
     \<lparr>c_service = name, c_max_ordered_streams = max_ordered_streams opts, c_max_cached_results = max_cached_results opts,
      c_max_cached_result_bytes = max_cached_result_bytes opts\<rparr>"

definition ensure_ingress :: "string \<Rightarrow> 'w HostService \<Rightarrow> OrderedIngress result" where
  "ensure_ingress name s =
     (case hv_ordered_ingress s of Some i \<Rightarrow> Inr i | None \<Rightarrow> ingress_Create (ingress_config name (hv_options s)))"

definition put_host_service :: "string \<Rightarrow> 'w HostService \<Rightarrow> 'w CoApp \<Rightarrow> 'w CoApp" where
  "put_host_service name s a = a\<lparr>ca_services := map (\<lambda>(n, x). (n, if n = name then s else x)) (ca_services a)\<rparr>"

definition GrantOrderedStream :: "OrderedGrant \<Rightarrow> 'w CoApp \<Rightarrow> unit result \<times> 'w CoApp" where
  "GrantOrderedStream g a =
     (if \<not> ca_registration_open a then
        (fail Closed ''grant_ordered_stream: registration closed (run already started)'', a)
      else case map_of (ca_services a) (g_service g) of
          None \<Rightarrow> (fail NotFound (''grant_ordered_stream: service '' @ quoted (g_service g) @ '' is not registered''), a)
        | Some s \<Rightarrow>
            if \<not> ordered_ingress (hv_options s) then
              (fail InvalidArgument (''grant_ordered_stream: service '' @ quoted (g_service g) @ '' does not enable ordered_ingress''), a)
            else
              (case ensure_ingress (g_service g) s of
                 Inl e \<Rightarrow> (Inl e, a)
               | Inr i \<Rightarrow>
                   (case GrantStream g i of
                      (r, i') \<Rightarrow> (r, put_host_service (g_service g) (s\<lparr>hv_ordered_ingress := Some i'\<rparr>) a))))"

subsection \<open>Observation\<close>

definition find_service :: "string \<Rightarrow> 'w CoApp \<Rightarrow> nat result" where
  "find_service name a =
     (case map_of (ca_services a) name of
        None \<Rightarrow> fail NotFound (''find_service: unregistered service '' @ quoted name)
      | Some s \<Rightarrow>
          if execution (hv_options s) = ActorSerial then
            fail InvalidArgument (''find_service: actor-keyed service '' @ quoted name @ ''; use actor_registry()'')
          else
            (case map_of (as_instances (ca_state a)) name of
               None \<Rightarrow> fail RuntimeUnavailable (''find_service: service '' @ quoted name @ '' not bound (run not in progress)'')
             | Some i \<Rightarrow> Inr i))"

definition actor_registry :: "'w CoApp \<Rightarrow> nat option" where
  "actor_registry a = as_registry (ca_state a)"

definition find_route :: "int \<Rightarrow> string \<Rightarrow> 'w CoApp \<Rightarrow> RpcAddress result \<times> 'w CoApp" where
  "find_route now name a = (case FindRoute now name (ca_state a) of (r, st) \<Rightarrow> (r, a\<lparr>ca_state := st\<rparr>))"

definition RequestShutdown :: "'w CoApp \<Rightarrow> 'w CoApp" where
  "RequestShutdown a =
     (let a1 = a\<lparr>ca_shutdown_req := True\<rparr>
      in case ca_lifecycle a1 of
          Some h \<Rightarrow> a1
        | None \<Rightarrow> if ca_parked_state a1 = StRunning then a1\<lparr>ca_parked_state := StClosing\<rparr> else a1)"

definition shutdown_state :: "'w CoApp \<Rightarrow> ShutdownState" where
  "shutdown_state a = (case ca_lifecycle a of Some h \<Rightarrow> m_state h | None \<Rightarrow> ca_parked_state a)"

definition pending_cleanup :: "'w CoApp \<Rightarrow> string list" where
  "pending_cleanup a = (case ca_lifecycle a of Some h \<Rightarrow> m_incomplete h | None \<Rightarrow> [])"

definition lifecycle_failures :: "'w CoApp \<Rightarrow> string list" where
  "lifecycle_failures a = (case ca_lifecycle a of Some h \<Rightarrow> m_failures h | None \<Rightarrow> ca_early_failures a)"

definition app_bound_endpoint :: "'w CoApp \<Rightarrow> string" where
  "app_bound_endpoint a = (case ca_default_host a of None \<Rightarrow> [] | Some n \<Rightarrow> bound_endpoint n)"

definition dispatch_inbound :: "'w CoApp \<Rightarrow> 'w DispatchWorld result" where
  "dispatch_inbound a = dispatch_gate (ca_state a)"

subsection \<open>The checks before a run\<close>

definition FailInvalid :: "string \<Rightarrow> unit result" where
  "FailInvalid what = fail InvalidArgument what"

fun check_routes :: "StaticRoute list \<Rightarrow> unit result" where
  "check_routes [] = Inr ()"
| "check_routes (r # rs) =
     (if sr_service_name r = [] then FailInvalid ''CoApp: static route with empty service_name''
      else if transport (sr_address r) = [] \<or> endpoint (sr_address r) = [] then
        FailInvalid (''CoApp: static route '' @ quoted (sr_service_name r) @ '' has empty transport/endpoint'')
      else check_routes rs)"

definition ValidateConfig :: "Build \<Rightarrow> (NetworkLimits \<Rightarrow> unit result) \<Rightarrow> 'w CoApp \<Rightarrow> unit result" where
  "ValidateConfig bd valid_limits a =
     (let opts = ca_options a
      in if \<not> ca_host a then FailInvalid ''CoApp: network host is not configured''
         else case valid_limits (op_network_limits opts) of
             Inl e \<Rightarrow> Inl e
           | Inr _ \<Rightarrow>
               if la_host (op_listen opts) = [] then FailInvalid ''CoApp: listen host is empty''
               else if op_shutdown_step_budget opts \<le> 0 then FailInvalid ''CoApp: shutdown_step_budget must be > 0''
               else if \<not> bd_rpc_wire bd \<and> op_inbound_bridge opts \<noteq> InboundLegacyHeaders then
                 FailInvalid (''CoApp: ProtoWireV1/TcpV1 inbound bridge requires bbt::infra_rpc_net ''
                   @ ''(BBT_INFRA_RPC_NET + protobuf prefix not configured); refusing to silently fall back'')
               else if bd_rpc_wire bd \<and> \<not> bd_rpc_tcp bd \<and> op_inbound_bridge opts = InboundTcpV1 then
                 FailInvalid (''CoApp: TcpV1 inbound bridge requires bbt::infra_rpc_tcp ''
                   @ ''(BBT_INFRA_RPC_TCP not configured); refusing to silently fall back'')
               else
                 (case check_routes (op_static_routes opts) of
                    Inl e \<Rightarrow> Inl e
                  | Inr _ \<Rightarrow>
                      if length (ca_routes a) \<noteq> length (op_static_routes opts) then
                        FailInvalid ''CoApp: duplicate static route service_name''
                      else Inr ()))"

subsection \<open>Resources\<close>

text \<open>
  What the business answers: a factory (with the instance, or nothing, in its result), a \<open>Start\<close>, the
  constructor and binding of a service. \<open>rn_order\<close> is the traversal of the table of resources.
\<close>

datatype made = MadeResult "nat option result" | MadeThrowsStd string | MadeThrowsOther

datatype service_made = ServiceMade nat | ServiceThrowsStd string | ServiceThrowsOther

record run_env =
  rn_order :: "ResourceKey list"
  rn_made :: "ResourceKey \<Rightarrow> made"
  rn_started :: "ResourceKey \<Rightarrow> call_outcome"
  rn_service :: "string \<Rightarrow> service_made"

definition host_log :: "host_log \<Rightarrow> 'w CoApp \<Rightarrow> 'w CoApp" where
  "host_log x a = a\<lparr>ca_log := ca_log a @ [x]\<rparr>"

definition put_spec :: "ResourceKey \<Rightarrow> ResourceSpec \<Rightarrow> 'w CoApp \<Rightarrow> 'w CoApp" where
  "put_spec k s a = a\<lparr>ca_specs := map (\<lambda>(n, x). (n, if n = k then s else x)) (ca_specs a)\<rparr>"

definition make_outcome :: "ResourceKey \<Rightarrow> made \<Rightarrow> nat result" where
  "make_outcome k m =
     (case m of
        MadeResult (Inl e) \<Rightarrow> Inl e
      | MadeResult (Inr None) \<Rightarrow> fail InternalError ''add_resource factory returned null''
      | MadeResult (Inr (Some i)) \<Rightarrow> Inr i
      | MadeThrowsStd what \<Rightarrow> fail InternalError (''add_resource factory threw for '' @ quoted (rk_name k) @ '': '' @ what)
      | MadeThrowsOther \<Rightarrow> fail InternalError (''add_resource factory threw for '' @ quoted (rk_name k) @ '' (non-std::exception)''))"

definition start_outcome :: "ResourceKey \<Rightarrow> call_outcome \<Rightarrow> unit result" where
  "start_outcome k x =
     (case x of
        Returns r \<Rightarrow> r
      | ThrowsStd what \<Rightarrow> fail InternalError (''add_resource Start threw for '' @ quoted (rk_name k) @ '': '' @ what)
      | ThrowsOther \<Rightarrow> fail InternalError (''add_resource Start threw for '' @ quoted (rk_name k) @ '' (non-std::exception)''))"

text \<open>One resource: made, started; it enters the view of the services only when both succeeded.\<close>

definition start_resource :: "run_env \<Rightarrow> ResourceKey \<Rightarrow> 'w CoApp \<Rightarrow> unit result \<times> 'w CoApp" where
  "start_resource E k a =
     (case map_of (ca_specs a) k of
        None \<Rightarrow> (Inr (), a)
      | Some s \<Rightarrow>
          if \<not> rs_factory s then (Inr (), a)
          else
            let a1 = host_log (LMade k) a
            in case make_outcome k (rn_made E k) of
                Inl e \<Rightarrow> (Inl e, a1)
              | Inr i \<Rightarrow>
                  let s1 = s\<lparr>rs_instance := Some i\<rparr>;
                      ready = (\<lambda>b. (put_spec k s1 b)\<lparr>ca_resources := emplace k i (ca_resources b)\<rparr>)
                  in if rs_start s then
                       (let a2 = host_log (LStarted k) a1
                        in case start_outcome k (rn_started E k) of
                            Inl e \<Rightarrow> (Inl e, put_spec k s1 a2)
                          | Inr _ \<Rightarrow> (Inr (), ready a2))
                     else (Inr (), ready a1))"

fun start_resources :: "run_env \<Rightarrow> ResourceKey list \<Rightarrow> 'w CoApp \<Rightarrow> unit result \<times> 'w CoApp" where
  "start_resources E [] a = (Inr (), a)"
| "start_resources E (k # ks) a =
     (case start_resource E k a of
        (Inl e, a') \<Rightarrow> (Inl e, a')
      | (Inr _, a') \<Rightarrow> start_resources E ks a')"

definition StartResources :: "run_env \<Rightarrow> 'w CoApp \<Rightarrow> unit result \<times> 'w CoApp" where
  "StartResources E a = start_resources E (rn_order E) a"

text \<open>
  The close: under the lock the resources are collected and marked, then they are closed outside.
\<close>

definition to_close :: "ResourceSpec \<Rightarrow> bool" where
  "to_close s \<longleftrightarrow> \<not> rs_closed s \<and> rs_instance s \<noteq> None \<and> rs_closeable s"

fun collect_closeables :: "ResourceKey list \<Rightarrow> 'w CoApp \<Rightarrow> (ResourceKey \<times> nat) list \<times> 'w CoApp" where
  "collect_closeables [] a = ([], a)"
| "collect_closeables (k # ks) a =
     (case map_of (ca_specs a) k of
        None \<Rightarrow> collect_closeables ks a
      | Some s \<Rightarrow>
          if to_close s then
            (case collect_closeables ks (put_spec k (s\<lparr>rs_closed := True\<rparr>) a) of
               (cs, a') \<Rightarrow> ((k, the (rs_instance s)) # cs, a'))
          else collect_closeables ks a)"

definition CloseResource :: "ResourceKey \<times> nat \<Rightarrow> 'w CoApp \<Rightarrow> 'w CoApp" where
  "CloseResource c = host_log (LClosed (fst c) (snd c))"

definition CloseResources :: "run_env \<Rightarrow> 'w CoApp \<Rightarrow> 'w CoApp" where
  "CloseResources E a = (case collect_closeables (rn_order E) a of (cs, a') \<Rightarrow> fold CloseResource cs a')"

subsection \<open>Binding the services\<close>

text \<open>The local variables of \<open>_BindServices\<close> that are published at its end.\<close>

record 'w bindings =
  bn_instances :: "(string \<times> nat) list"
  bn_registry :: ActorRegistry
  bn_tables :: "(string \<times> nat) list"
  bn_dispatch :: "(string \<times> 'w InboundServiceEntry) list"

definition no_bindings :: "'w bindings" where
  "no_bindings = \<lparr>bn_instances = [], bn_registry = empty_registry, bn_tables = [], bn_dispatch = []\<rparr>"

definition bind_error :: "string \<Rightarrow> string \<Rightarrow> error" where
  "bind_error name what = MakeError InternalError (''CoApp bind '' @ quoted name @ '': '' @ what)"

definition dispatch_entry :: "'w HostService \<Rightarrow> 'w RpcMethodTable \<Rightarrow> nat option \<Rightarrow> 'w InboundServiceEntry" where
  "dispatch_entry s table inst =
     \<lparr>ps_options = hv_options s, ps_table = table, ps_instance = inst, ps_ordered_ingress = hv_ordered_ingress s\<rparr>"

text \<open>
  One service: the ingress when it is missing, the table moved out of the entry, then an instance or a
  factory in the registry of actors. An exception of the business leaves by the outcome.
\<close>

definition bind_parts :: "run_env \<Rightarrow> string \<Rightarrow> 'w HostService \<Rightarrow> 'w RpcMethodTable \<Rightarrow> 'w bindings \<Rightarrow> call_outcome \<times> 'w bindings" where
  "bind_parts E name s table b =
     (let tables = emplace name (length (bn_tables b)) (bn_tables b)
      in case execution (hv_options s) of
          Concurrent \<Rightarrow>
            (case rn_service E name of
               ServiceThrowsStd what \<Rightarrow> (Returns (Inl (bind_error name what)), b)
             | ServiceThrowsOther \<Rightarrow> (ThrowsOther, b)
             | ServiceMade i \<Rightarrow>
                 (Returns (Inr ()), b\<lparr>bn_instances := emplace name i (bn_instances b), bn_tables := tables,
                    bn_dispatch := emplace name (dispatch_entry s table (Some i)) (bn_dispatch b)\<rparr>))
        | ActorSerial \<Rightarrow>
            (case RegisterFactory name True (max_actors (hv_options s)) (bn_registry b) of
               (Inl e, _) \<Rightarrow> (Returns (Inl e), b)
             | (Inr _, r) \<Rightarrow>
                 (Returns (Inr ()), b\<lparr>bn_registry := r, bn_tables := tables,
                    bn_dispatch := emplace name (dispatch_entry s table None) (bn_dispatch b)\<rparr>)))"

definition bind_service :: "run_env \<Rightarrow> string \<Rightarrow> 'w HostService \<Rightarrow> 'w bindings \<Rightarrow> call_outcome \<times> 'w HostService \<times> 'w bindings" where
  "bind_service E name s b =
     (case (if ordered_ingress (hv_options s) then Some (ensure_ingress name s) else None) of
        Some (Inl e) \<Rightarrow> (Returns (Inl e), s, b)
      | x \<Rightarrow>
          let s1 = (case x of Some (Inr i) \<Rightarrow> s\<lparr>hv_ordered_ingress := Some i\<rparr> | _ \<Rightarrow> s);
              table = hv_table s1;
              s2 = s1\<lparr>hv_table := []\<rparr>
          in case bind_parts E name s2 table b of (out, b') \<Rightarrow> (out, s2, b'))"

fun bind_services :: "run_env \<Rightarrow> (string \<times> 'w HostService) list \<Rightarrow> 'w bindings
    \<Rightarrow> call_outcome \<times> (string \<times> 'w HostService) list \<times> 'w bindings" where
  "bind_services E [] b = (Returns (Inr ()), [], b)"
| "bind_services E ((name, s) # svcs) b =
     (case bind_service E name s b of
        (out, s', b') \<Rightarrow>
          if out = Returns (Inr ()) then
            (case bind_services E svcs b' of (out2, svcs', b2) \<Rightarrow> (out2, (name, s') # svcs', b2))
          else (out, (name, s') # svcs, b'))"

definition BindServices :: "run_env \<Rightarrow> 'w CoApp \<Rightarrow> call_outcome \<times> 'w CoApp" where
  "BindServices E a =
     (case bind_services E (ca_services a) no_bindings of
        (out, svcs, b) \<Rightarrow>
          let a1 = a\<lparr>ca_services := svcs, ca_log := ca_log a @ map (\<lambda>p. LBound (fst p)) (bn_instances b)\<rparr>
          in if out = Returns (Inr ()) then
               (out, a1\<lparr>ca_state := Publish (InboundDispatcher (bn_dispatch b) (bn_registry b)) (bn_tables b)
                  (bn_instances b) (Some 0) (ca_state a1)\<rparr>)
             else (out, a1))"

definition ReleaseServices :: "'w CoApp \<Rightarrow> 'w CoApp" where
  "ReleaseServices a = a\<lparr>ca_state := Release (ca_state a)\<rparr>"

subsection \<open>The run\<close>

text \<open>The three hooks, and the run of the lifecycle with them.\<close>

definition on_scheduler_started :: "run_env \<Rightarrow> 'w CoApp \<Rightarrow> call_outcome \<times> 'w CoApp" where
  "on_scheduler_started E a =
     (case StartResources E a of
        (Inl e, a') \<Rightarrow> (Returns (Inl e), a')
      | (Inr _, a') \<Rightarrow> BindServices E a')"

definition on_handlers_drained :: "run_env \<Rightarrow> 'w CoApp \<Rightarrow> 'w CoApp" where
  "on_handlers_drained E = CloseResources E"

definition on_release :: "run_env \<Rightarrow> 'w CoApp \<Rightarrow> 'w CoApp" where
  "on_release E a = ReleaseServices (CloseResources E a)"

definition hook_effect :: "run_env \<Rightarrow> host_event \<Rightarrow> 'w CoApp \<Rightarrow> 'w CoApp" where
  "hook_effect E ev a =
     (let a' = host_log (LHost ev) a
      in case ev of
          EStartHook \<Rightarrow> snd (on_scheduler_started E a')
        | EDrainedHook \<Rightarrow> on_handlers_drained E a'
        | ERelease \<Rightarrow> on_release E a'
        | _ \<Rightarrow> a')"

text \<open>
  The lifecycle's environment: the host was checked, the start hook answers what the application
  answers, the other two return; a request made before the run is seen by it.
\<close>

definition run_host_env :: "run_env \<Rightarrow> 'w CoApp \<Rightarrow> HostEnv \<Rightarrow> HostEnv" where
  "run_host_env E a h =
     h\<lparr>he_host := ca_host a, he_step_budget := op_shutdown_step_budget (ca_options a),
       he_requested := he_requested h \<or> ca_shutdown_req a,
       he_start_hook := Some (fst (on_scheduler_started E a)),
       he_drained_hook := Some (Returns (Inr ())), he_release_hook := Some (Returns (Inr ()))\<rparr>"

text \<open>
  \<open>run\<close>: no code when it does not return. The flag is the process-wide registration of the active host.
\<close>

definition enter_run :: "'w CoApp \<Rightarrow> 'w CoApp" where
  "enter_run a = a\<lparr>ca_ran_once := True, ca_registration_open := False\<rparr>"

definition run_app :: "Build \<Rightarrow> (NetworkLimits \<Rightarrow> unit result) \<Rightarrow> run_env \<Rightarrow> HostEnv \<Rightarrow> bool \<Rightarrow> 'w CoApp \<Rightarrow> int option \<times> 'w CoApp" where
  "run_app bd valid_limits E h other_active a =
     (if other_active then (Some kExitRejected, a)
      else if ca_ran_once a then (Some kExitRejected, a)
      else
        let a1 = enter_run a
        in case ValidateConfig bd valid_limits a1 of
            Inl e \<Rightarrow> (Some kExitRejected, a1\<lparr>ca_early_failures := ca_early_failures a1 @ [err_message e]\<rparr>)
          | Inr _ \<Rightarrow>
              (case Run (run_host_env E a1 h) new_lifecycle of
                 (rc, l) \<Rightarrow>
                   let a2 = fold (hook_effect E) (m_trace l) a1
                   in case rc of
                       None \<Rightarrow> (None, a2\<lparr>ca_lifecycle := Some l\<rparr>)
                     | Some c \<Rightarrow>
                         (Some c, a2\<lparr>ca_early_failures := ca_early_failures a2 @ m_failures l,
                            ca_parked_state := m_state l, ca_lifecycle := None\<rparr>)))"

subsection \<open>Registered applications\<close>

datatype 'w host_op =
    HAddService ServiceOptions "string + 'w RpcMethod list" string nat
  | HAddDefault nat bool bool "nat option"
  | HAddResource nat string bool bool "nat option"
  | HAddFactory nat string bool bool bool
  | HGrant OrderedGrant
  | HRequestShutdown
  | HFindRoute int string

definition host_app_step :: "'w CoApp \<Rightarrow> 'w host_op \<Rightarrow> 'w CoApp" where
  "host_app_step a x =
     (case x of
        HAddService opts declared name f \<Rightarrow> snd (AddService opts declared name f a)
      | HAddDefault ty st cl r \<Rightarrow> snd (AddDefaultResource ty st cl r a)
      | HAddResource ty n st cl r \<Rightarrow> snd (AddResource ty n st cl r a)
      | HAddFactory ty n st cl f \<Rightarrow> snd (AddResourceFactory ty n st cl f a)
      | HGrant g \<Rightarrow> snd (GrantOrderedStream g a)
      | HRequestShutdown \<Rightarrow> RequestShutdown a
      | HFindRoute now n \<Rightarrow> snd (find_route now n a))"

text \<open>What registration establishes of a service and of a resource.\<close>

definition service_ok :: "string \<Rightarrow> 'w HostService \<Rightarrow> bool" where
  "service_ok name s \<longleftrightarrow> name \<noteq> [] \<and> service_options_wf (hv_options s) \<and> table_wf (hv_table s) \<and>
     (execution (hv_options s) = ActorSerial \<longrightarrow> (\<forall>m \<in> set (hv_table s). actor_keyed m)) \<and>
     (\<forall>i. hv_ordered_ingress s = Some i \<longrightarrow> ordered_ingress (hv_options s) \<and> ing_inv i \<and> running i = {})"

definition spec_ok :: "ResourceSpec \<Rightarrow> bool" where
  "spec_ok s \<longleftrightarrow> \<not> rs_closed s \<and> (rs_factory s \<longleftrightarrow> rs_instance s = None)"

definition registered :: "'w CoApp \<Rightarrow> bool" where
  "registered a \<longleftrightarrow>
     keys_distinct (ca_services a) \<and> (\<forall>p \<in> set (ca_services a). service_ok (fst p) (snd p)) \<and>
     keys_distinct (ca_specs a) \<and> (\<forall>p \<in> set (ca_specs a). spec_ok (snd p)) \<and>
     (\<forall>k. map_of (ca_resources a) k = Option.bind (map_of (ca_specs a) k) rs_instance) \<and>
     as_dispatcher (ca_state a) = None \<and> as_instances (ca_state a) = []"

definition unrun :: "'w CoApp \<Rightarrow> bool" where
  "unrun a \<longleftrightarrow> ca_lifecycle a = None \<and> ca_log a = [] \<and> ca_registration_open a \<and> \<not> ca_ran_once a"

lemma map_insert_set: "set (map_insert k v m) = insert (k, v) (set m)"
  by (induction m) (auto split: if_splits)

lemma map_insert_distinct: "keys_distinct m \<Longrightarrow> map_of m k = None \<Longrightarrow> keys_distinct (map_insert k v m)"
proof (induction m)
  case (Cons p m)
  moreover have "fst ` set (map_insert k v m) = insert k (fst ` set m)" by (simp add: map_insert_set)
  ultimately show ?case by (cases p) (auto simp: keys_distinct_def map_of_eq_None_iff split: if_splits)
qed (simp add: keys_distinct_def)

lemma map_of_map_insert: "map_of m k = None \<Longrightarrow> map_of (map_insert k v m) k' = (if k' = k then Some v else map_of m k')"
  by (induction m) (auto split: if_splits)

lemma map_of_replace: "map_of (map (\<lambda>(n, x). (n, if n = k then s else x)) m) k' =
    (if k' = k then map_option (\<lambda>_. s) (map_of m k) else map_of m k')"
  by (induction m) auto

lemma replace_keys: "map fst (map (\<lambda>(n, x). (n, if n = k then s else x)) m) = map fst m"
  by (induction m) auto

lemma replace_distinct [simp]: "keys_distinct (map (\<lambda>(n, x). (n, if n = k then s else x)) m) \<longleftrightarrow> keys_distinct m"
  unfolding keys_distinct_def replace_keys ..

lemma replace_set:
  "(\<forall>p \<in> set m. P (fst p) (snd p)) \<Longrightarrow> P k s \<Longrightarrow>
   \<forall>p \<in> set (map (\<lambda>(n, x). (n, if n = k then s else x)) m). P (fst p) (snd p)"
  by auto

lemma ensure_ingress_ok:
  assumes "service_ok name s" and "ordered_ingress (hv_options s)"
  obtains i where "ensure_ingress name s = Inr i" "ing_inv i" "running i = {}"
proof (cases "hv_ordered_ingress s")
  case (Some i)
  then show ?thesis using that assms(1) by (simp add: ensure_ingress_def service_ok_def)
next
  case None
  let ?c = "ingress_config name (hv_options s)"
  have "\<exists>i. ingress_Create ?c = Inr i"
    using assms by (auto simp: ingress_Create_def ingress_config_def service_ok_def service_options_wf_def)
  then obtain i where i: "ingress_Create ?c = Inr i" ..
  then have "initial_ingress ?c = i" by (simp add: initial_ingress_def)
  then show ?thesis using that [of i] i None initial_ingress_inv [of ?c] running_initial [of ?c]
    by (simp add: ensure_ingress_def)
qed

lemma AddService_registered: "registered a \<Longrightarrow> registered (snd (AddService opts declared name f a))"
  using ValidateServiceOptions_ok_iff [of opts]
  by (auto simp: AddService_def registered_def map_insert_distinct map_insert_set service_ok_def BuildMethodTable_ok_iff
      ValidateActorKeying_def check_keying_ok_iff split: sum.splits if_splits)

lemma resource_added:
  assumes "registered a" and "map_of (ca_specs a) k = None" and "spec_ok s"
    and "res = (case rs_instance s of None \<Rightarrow> ca_resources a | Some i \<Rightarrow> emplace k i (ca_resources a))"
  shows "registered (a\<lparr>ca_specs := emplace k s (ca_specs a), ca_resources := res\<rparr>)"
proof -
  have "map_of (ca_resources a) k = None" using assms(1,2) by (simp add: registered_def)
  then have "map_of res k' = Option.bind (map_of (emplace k s (ca_specs a)) k') rs_instance" for k'
    using assms by (auto simp: registered_def map_of_emplace split: option.splits)
  moreover have "keys_distinct (emplace k s (ca_specs a))"
    using assms(1) by (simp add: registered_def)
  moreover have "\<forall>p \<in> set (emplace k s (ca_specs a)). spec_ok (snd p)"
    using assms by (auto simp: registered_def emplace_def)
  ultimately show ?thesis using assms(1) by (simp add: registered_def)
qed

lemma AddResourceImpl_registered: "registered a \<Longrightarrow> registered (snd (AddResourceImpl k st cl r a))"
  by (auto simp: AddResourceImpl_def MakeSpec_def spec_ok_def split: option.splits intro!: resource_added)

lemma AddResourceFactoryImpl_registered: "registered a \<Longrightarrow> registered (snd (AddResourceFactoryImpl k st cl f a))"
  using resource_added [of a k "(MakeSpec st cl)\<lparr>rs_factory := True\<rparr>" "ca_resources a"]
  by (auto simp: AddResourceFactoryImpl_def MakeSpec_def spec_ok_def)

lemma GrantOrderedStream_registered:
  assumes r: "registered a"
  shows "registered (snd (GrantOrderedStream g a))"
proof (cases "map_of (ca_services a) (g_service g)")
  case (Some s)
  have ok: "service_ok (g_service g) s" using r map_of_SomeD [OF Some] by (auto simp: registered_def)
  have "registered (put_host_service (g_service g) (s\<lparr>hv_ordered_ingress := Some (snd (GrantStream g i))\<rparr>) a)"
    if o: "ordered_ingress (hv_options s)" and e: "ensure_ingress (g_service g) s = Inr i" for i
  proof -
    obtain i' where "ensure_ingress (g_service g) s = Inr i'" "ing_inv i'" "running i' = {}"
      using ensure_ingress_ok [OF ok o] .
    then have i: "ing_inv i" "running i = {}" using e by simp_all
    have "ing_inv (snd (GrantStream g i)) \<and> running (snd (GrantStream g i)) = {}"
      using GrantStream_running [OF i(1), of g] i(2) by auto
    then have "service_ok (g_service g) (s\<lparr>hv_ordered_ingress := Some (snd (GrantStream g i))\<rparr>)"
      using ok o by (simp add: service_ok_def)
    from replace_set [of "ca_services a" service_ok, OF _ this] r
    show ?thesis by (simp add: registered_def put_host_service_def)
  qed
  then show ?thesis using r Some by (auto simp: GrantOrderedStream_def split: sum.splits prod.splits)
qed (simp add: GrantOrderedStream_def r)

lemma FindRoute_bindings:
  "as_dispatcher (snd (FindRoute now n st)) = as_dispatcher st" "as_instances (snd (FindRoute now n st)) = as_instances st"
  by (simp_all add: FindRoute_def split: option.split prod.split)

lemma host_app_step_registered: "registered a \<Longrightarrow> registered (host_app_step a x)"
proof (cases x)
  case (HFindRoute now n)
  assume r: "registered a"
  then show ?thesis using r by (simp add: HFindRoute host_app_step_def find_route_def registered_def case_prod_unfold FindRoute_bindings)
next
  case HRequestShutdown
  assume "registered a"
  then show ?thesis by (auto simp: HRequestShutdown host_app_step_def RequestShutdown_def Let_def registered_def split: option.split)
qed (simp_all add: host_app_step_def AddService_registered AddDefaultResource_def AddResource_def AddResourceFactory_def
    AddResourceImpl_registered AddResourceFactoryImpl_registered GrantOrderedStream_registered)

lemma blank_registered: "registered (blank_host_app opts host dflt (empty_state opts eg sm))"
  by (simp add: registered_def blank_host_app_def empty_state_def keys_distinct_def)

lemma host_app_step_unrun: "unrun a \<Longrightarrow> unrun (host_app_step a x)"
  by (cases x)
     (auto simp: unrun_def host_app_step_def AddService_def AddDefaultResource_def AddResource_def AddResourceImpl_def
        AddResourceFactory_def AddResourceFactoryImpl_def GrantOrderedStream_def put_host_service_def RequestShutdown_def
        find_route_def Let_def split: sum.splits option.splits prod.splits)

interpretation registration: machine "blank_host_app opts host dflt (empty_state opts eg sm)" host_app_step
    "\<lambda>a. registered a \<and> unrun a"
  for opts host dflt eg sm
proof unfold_locales
  show "registered (blank_host_app opts host dflt (empty_state opts eg sm)) \<and> unrun (blank_host_app opts host dflt (empty_state opts eg sm))"
    using blank_registered [of opts host dflt eg sm] by (simp add: unrun_def blank_host_app_def)
  show "registered (host_app_step a x) \<and> unrun (host_app_step a x)" if "registered a \<and> unrun a" for a x
    using that by (simp add: host_app_step_registered host_app_step_unrun)
qed

lemma enter_run_registered: "registered a \<Longrightarrow> registered (enter_run a)"
  by (simp add: registered_def enter_run_def)

lemma enter_run_simps [simp]:
  "ca_options (enter_run a) = ca_options a" "ca_host (enter_run a) = ca_host a" "ca_routes (enter_run a) = ca_routes a"
  "ca_specs (enter_run a) = ca_specs a" "ca_log (enter_run a) = ca_log a" "ca_services (enter_run a) = ca_services a"
  by (simp_all add: enter_run_def)

lemma ValidateConfig_enter: "ValidateConfig bd vl (enter_run a) = ValidateConfig bd vl a"
  unfolding ValidateConfig_def enter_run_simps ..


end
