(* ===== verification/HostProps.thy ===== *)
theory HostProps
  imports HostApp
begin

text \<open>
  What a run of the host does: which resources the services see, what is bound and published, that
  every resource is closed once and at its place in the shutdown, and that registration is frozen.
\<close>

subsection \<open>The table of resources\<close>

lemma map_of_put_spec: "map_of (ca_specs (put_spec k s a)) k' = (if k' = k then map_option (\<lambda>_. s) (map_of (ca_specs a) k) else map_of (ca_specs a) k')"
  by (simp add: put_spec_def map_of_replace)

lemma put_spec_frame [simp]:
  "ca_services (put_spec k s a) = ca_services a" "ca_resources (put_spec k s a) = ca_resources a"
  "ca_state (put_spec k s a) = ca_state a" "ca_log (put_spec k s a) = ca_log a"
  "map fst (ca_specs (put_spec k s a)) = map fst (ca_specs a)" "ca_lifecycle (put_spec k s a) = ca_lifecycle a"
  "ca_registration_open (put_spec k s a) = ca_registration_open a" "ca_ran_once (put_spec k s a) = ca_ran_once a"
  using replace_keys [of k s "ca_specs a"] by (simp_all add: put_spec_def)

lemma host_log_frame [simp]:
  "ca_services (host_log x a) = ca_services a" "ca_resources (host_log x a) = ca_resources a"
  "ca_specs (host_log x a) = ca_specs a" "ca_state (host_log x a) = ca_state a" "ca_log (host_log x a) = ca_log a @ [x]"
  "ca_registration_open (host_log x a) = ca_registration_open a" "ca_ran_once (host_log x a) = ca_ran_once a"
  by (simp_all add: host_log_def)

text \<open>What a factory resource in the view of the services went through.\<close>

definition made_ok :: "run_env \<Rightarrow> ResourceKey \<Rightarrow> ResourceSpec \<Rightarrow> nat \<Rightarrow> bool" where
  "made_ok E k s i \<longleftrightarrow> make_outcome k (rn_made E k) = Inr i \<and> (rs_start s \<longrightarrow> start_outcome k (rn_started E k) = Inr ())"

definition start_view :: "run_env \<Rightarrow> 'w CoApp \<Rightarrow> bool" where
  "start_view E a \<longleftrightarrow>
     (\<forall>k s. map_of (ca_specs a) k = Some s \<longrightarrow> \<not> rs_closed s \<and> (\<not> rs_factory s \<longrightarrow> rs_instance s \<noteq> None \<and> map_of (ca_resources a) k = rs_instance s)) \<and>
     (\<forall>k i. map_of (ca_resources a) k = Some i \<longrightarrow>
        (\<exists>s. map_of (ca_specs a) k = Some s \<and> rs_instance s = Some i \<and> (rs_factory s \<longrightarrow> made_ok E k s i)))"

text \<open>A resource is ready when the services see its instance.\<close>

definition ready :: "'w CoApp \<Rightarrow> ResourceKey \<Rightarrow> bool" where
  "ready a k \<longleftrightarrow> (\<forall>s. map_of (ca_specs a) k = Some s \<longrightarrow> rs_instance s \<noteq> None \<and> map_of (ca_resources a) k = rs_instance s)"

lemma registered_start_view: "registered a \<Longrightarrow> start_view E a"
  unfolding start_view_def
proof (intro conjI allI impI)
  assume r: "registered a"
  fix k s assume s: "map_of (ca_specs a) k = Some s"
  then have ok: "spec_ok s" using r map_of_SomeD [OF s] by (auto simp: registered_def)
  show "\<not> rs_closed s" using ok by (simp add: spec_ok_def)
  assume "\<not> rs_factory s"
  then show "rs_instance s \<noteq> None" "map_of (ca_resources a) k = rs_instance s"
    using ok s r by (auto simp: spec_ok_def registered_def)
next
  assume r: "registered a"
  fix k i assume "map_of (ca_resources a) k = Some i"
  then obtain s where s: "map_of (ca_specs a) k = Some s" "rs_instance s = Some i"
    using r by (auto simp: registered_def bind_eq_Some_conv)
  then have "spec_ok s" using r map_of_SomeD [OF s(1)] by (auto simp: registered_def)
  then show "\<exists>s. map_of (ca_specs a) k = Some s \<and> rs_instance s = Some i \<and> (rs_factory s \<longrightarrow> made_ok E k s i)"
    using s by (auto simp: spec_ok_def)
qed

definition same_besides :: "'w CoApp \<Rightarrow> 'w CoApp \<Rightarrow> bool" where
  "same_besides a b \<longleftrightarrow> ca_services b = ca_services a \<and> ca_state b = ca_state a \<and> map fst (ca_specs b) = map fst (ca_specs a) \<and>
     ca_registration_open b = ca_registration_open a \<and> ca_ran_once b = ca_ran_once a"

definition is_start :: "host_log \<Rightarrow> bool" where
  "is_start x \<longleftrightarrow> (case x of LMade _ \<Rightarrow> True | LStarted _ \<Rightarrow> True | _ \<Rightarrow> False)"

lemma start_resource_log:
  "start_resource E k a = (r, b) \<Longrightarrow> \<exists>xs. ca_log b = ca_log a @ xs \<and> list_all is_start xs"
  by (auto simp: start_resource_def Let_def is_start_def split: option.splits sum.splits if_splits)

lemma start_resource_same: "start_resource E k a = (r, b) \<Longrightarrow> same_besides a b"
  by (auto simp: start_resource_def Let_def same_besides_def split: option.splits sum.splits if_splits)

lemma start_resource_view:
  assumes v: "start_view E a" and s: "start_resource E k a = (r, b)"
  shows "start_view E b" and "r = Inr () \<Longrightarrow> ready b k" and "ready a j \<Longrightarrow> ready b j"
proof -
  have "start_view E b \<and> (r = Inr () \<longrightarrow> ready b k) \<and> (ready a j \<longrightarrow> ready b j)" for j
  proof (cases "map_of (ca_specs a) k")
    case None
    then show ?thesis using v s by (auto simp: start_resource_def ready_def)
  next
    case (Some sp)
    show ?thesis
    proof (cases "rs_factory sp")
      case False
      then show ?thesis using v s Some by (auto simp: start_resource_def ready_def start_view_def)
    next
      case True
      have sp: "\<not> rs_closed sp" "map_of (ca_resources a) k = Some i' \<Longrightarrow> rs_instance sp = Some i' \<and> made_ok E k sp i'" for i'
        using v Some True unfolding start_view_def by fastforce+
      show ?thesis
      proof (cases "make_outcome k (rn_made E k)")
        case (Inl e)
        then show ?thesis using v s Some True by (auto simp: start_resource_def start_view_def ready_def)
      next
        case (Inr i)
        let ?sp = "sp\<lparr>rs_instance := Some i\<rparr>"
        have res: "map_of (emplace k i (ca_resources a)) k' = (if k' = k then Some i else map_of (ca_resources a) k')" for k'
          using sp(2) Inr by (auto simp: map_of_emplace made_ok_def split: option.splits)
        show ?thesis
        proof (cases "rs_start sp \<and> start_outcome k (rn_started E k) \<noteq> Inr ()")
          case bad: True
          then obtain e where "start_outcome k (rn_started E k) = Inl e" by (cases "start_outcome k (rn_started E k)") auto
          then have b: "r = Inl e" "b = put_spec k ?sp (host_log (LStarted k) (host_log (LMade k) a))"
            using s Some True Inr bad by (auto simp: start_resource_def Let_def)
          have "map_of (ca_resources a) k = None"
          proof (rule ccontr)
            assume "map_of (ca_resources a) k \<noteq> None"
            then show False using sp(2) bad by (auto simp: made_ok_def)
          qed
          then show ?thesis using v Some True by (auto simp: b start_view_def ready_def map_of_put_spec)
        next
          case good: False
          then have ok: "made_ok E k ?sp i" using Inr by (auto simp: made_ok_def)
          have r: "r = Inr ()" and b: "ca_specs b = ca_specs (put_spec k ?sp a)" "ca_resources b = emplace k i (ca_resources a)"
            using s Some True Inr good by (auto simp: start_resource_def Let_def put_spec_def split: if_splits)
          show ?thesis using v Some True ok sp(1) unfolding start_view_def ready_def b res map_of_put_spec by auto
        qed
      qed
    qed
  qed
  then show "start_view E b" "r = Inr () \<Longrightarrow> ready b k" "ready a j \<Longrightarrow> ready b j" by blast+
qed

lemma start_resources_view:
  assumes "start_view E a" and "start_resources E ks a = (r, b)"
  shows "start_view E b" and "same_besides a b" and "\<exists>xs. ca_log b = ca_log a @ xs \<and> list_all is_start xs"
    and "r = Inr () \<Longrightarrow> k \<in> set ks \<or> ready a k \<Longrightarrow> ready b k"
proof -
  have "start_view E b \<and> same_besides a b \<and> (\<exists>xs. ca_log b = ca_log a @ xs \<and> list_all is_start xs) \<and>
      (r = Inr () \<longrightarrow> k \<in> set ks \<or> ready a k \<longrightarrow> ready b k)"
    using assms
  proof (induction ks arbitrary: a)
    case Nil
    then show ?case by (simp add: same_besides_def)
  next
    case (Cons j ks)
    obtain r1 a1 where s: "start_resource E j a = (r1, a1)" by fastforce
    note step = start_resource_view [OF Cons.prems(1) s] start_resource_same [OF s] start_resource_log [OF s]
    show ?case
    proof (cases r1)
      case (Inl e)
      then show ?thesis using Cons.prems(2) s step by auto
    next
      case (Inr u)
      then have "start_resources E ks a1 = (r, b)" using Cons.prems(2) s by simp
      from Cons.IH [OF step(1) this] step Inr show ?thesis
        by (auto simp: same_besides_def)
    qed
  qed
  then show "start_view E b" "same_besides a b" "\<exists>xs. ca_log b = ca_log a @ xs \<and> list_all is_start xs"
    "r = Inr () \<Longrightarrow> k \<in> set ks \<or> ready a k \<Longrightarrow> ready b k" by blast+
qed

subsection \<open>Binding\<close>

text \<open>The entry of the dispatcher that a registered service gets.\<close>

definition bound_entry :: "'w HostService \<Rightarrow> 'w InboundServiceEntry \<Rightarrow> bool" where
  "bound_entry s e \<longleftrightarrow> ps_options e = hv_options s \<and> ps_table e = hv_table s \<and>
     (ps_ordered_ingress e \<noteq> None \<longleftrightarrow> ordered_ingress (hv_options s)) \<and>
     (\<forall>i. ps_ordered_ingress e = Some i \<longrightarrow> ing_inv i \<and> running i = {})"

definition instance_of :: "run_env \<Rightarrow> string \<Rightarrow> 'w HostService \<Rightarrow> nat option" where
  "instance_of E name s =
     (if execution (hv_options s) = Concurrent then (case rn_service E name of ServiceMade i \<Rightarrow> Some i | _ \<Rightarrow> None) else None)"

definition constructible :: "run_env \<Rightarrow> string \<Rightarrow> 'w HostService \<Rightarrow> bool" where
  "constructible E name s \<longleftrightarrow> execution (hv_options s) = ActorSerial \<or> (\<exists>i. rn_service E name = ServiceMade i)"

definition bind_failure :: "run_env \<Rightarrow> string \<Rightarrow> call_outcome" where
  "bind_failure E name = (case rn_service E name of ServiceThrowsStd what \<Rightarrow> Returns (Inl (bind_error name what)) | _ \<Rightarrow> ThrowsOther)"

lemma bind_service_result:
  assumes ok: "service_ok name s" and new: "map_of (m_services (bn_registry b)) name = None"
    and e: "bind_service E name s b = (out, s', b')"
  shows "if constructible E name s then out = Returns (Inr ()) \<and>
      (\<exists>x. bound_entry s x \<and> bn_dispatch b' = emplace name x (bn_dispatch b)) \<and>
      bn_instances b' = (case instance_of E name s of None \<Rightarrow> bn_instances b | Some i \<Rightarrow> emplace name i (bn_instances b)) \<and>
      (\<forall>n. n \<noteq> name \<longrightarrow> map_of (m_services (bn_registry b')) n = map_of (m_services (bn_registry b)) n)
    else out = bind_failure E name \<and> b' = b"
proof -
  obtain s1 where s1: "hv_options s1 = hv_options s" "hv_table s1 = hv_table s"
      "bind_service E name s b = (case bind_parts E name (s1\<lparr>hv_table := []\<rparr>) (hv_table s) b of (out, b') \<Rightarrow> (out, s1\<lparr>hv_table := []\<rparr>, b'))"
      "hv_ordered_ingress s1 \<noteq> None \<longleftrightarrow> ordered_ingress (hv_options s)"
      "\<forall>i. hv_ordered_ingress s1 = Some i \<longrightarrow> ing_inv i \<and> running i = {}"
  proof (cases "ordered_ingress (hv_options s)")
    case True
    then obtain i where "ensure_ingress name s = Inr i" "ing_inv i" "running i = {}" using ensure_ingress_ok [OF ok] by blast
    then show ?thesis using that [of "s\<lparr>hv_ordered_ingress := Some i\<rparr>"] True by (simp add: bind_service_def Let_def)
  next
    case False
    then have "hv_ordered_ingress s = None" using ok by (auto simp: service_ok_def)
    then show ?thesis using that [of s] False by (simp add: bind_service_def Let_def)
  qed
  let ?s = "s1\<lparr>hv_table := []\<rparr>"
  have x: "bound_entry s (dispatch_entry ?s (hv_table s) j)" for j using s1 by (simp add: bound_entry_def dispatch_entry_def)
  have p: "bind_parts E name ?s (hv_table s) b = (out, b')" using e s1(3) by (auto split: prod.splits)
  show ?thesis
  proof (cases "execution (hv_options s)")
    case Concurrent
    then show ?thesis using p s1(1) x [of "instance_of E name s"]
      by (cases "rn_service E name") (auto simp: bind_parts_def constructible_def bind_failure_def instance_of_def)
  next
    case ActorSerial
    then have "name \<noteq> []" "0 < max_actors (hv_options s)" using ok by (auto simp: service_ok_def service_options_wf_def)
    then have "RegisterFactory name True (max_actors (hv_options s)) (bn_registry b) =
        (Inr (), (bn_registry b)\<lparr>m_services := emplace name \<lparr>e_max_actors = max_actors (hv_options s), e_live_actors = 0\<rparr> (m_services (bn_registry b))\<rparr>)"
      using new by (simp add: RegisterFactory_def)
    then show ?thesis using p x [of None] s1(1) ActorSerial
      by (auto simp: bind_parts_def constructible_def instance_of_def map_of_emplace)
  qed
qed

text \<open>All services: either all are bound, or the first that cannot be constructed ends the loop.\<close>

lemma bind_services_result:
  assumes "\<forall>p \<in> set svcs. service_ok (fst p) (snd p)" and "keys_distinct svcs"
    and "\<forall>n \<in> fst ` set svcs. map_of (m_services (bn_registry b)) n = None \<and> map_of (bn_dispatch b) n = None \<and> map_of (bn_instances b) n = None"
    and "bind_services E svcs b = (out, svcs', b')"
  shows "(out = Returns (Inr ()) \<longleftrightarrow> (\<forall>p \<in> set svcs. constructible E (fst p) (snd p))) \<and>
    (out \<noteq> Returns (Inr ()) \<longrightarrow> (\<exists>p \<in> set svcs. \<not> constructible E (fst p) (snd p) \<and> out = bind_failure E (fst p))) \<and>
    (out = Returns (Inr ()) \<longrightarrow>
      (\<forall>n. (n \<notin> fst ` set svcs \<longrightarrow> map_of (bn_dispatch b') n = map_of (bn_dispatch b) n \<and> map_of (bn_instances b') n = map_of (bn_instances b) n)) \<and>
      (\<forall>p \<in> set svcs. (\<exists>x. map_of (bn_dispatch b') (fst p) = Some x \<and> bound_entry (snd p) x) \<and>
         map_of (bn_instances b') (fst p) = instance_of E (fst p) (snd p)))"
  using assms
proof (induction svcs arbitrary: b out svcs' b')
  case (Cons p svcs)
  obtain name s where p: "p = (name, s)" by fastforce
  obtain o1 s1 b1 where s: "bind_service E name s b = (o1, s1, b1)" by (metis prod_cases3)
  have ok: "service_ok name s" using Cons.prems(1) p by simp
  have new: "map_of (m_services (bn_registry b)) name = None" "map_of (bn_dispatch b) name = None" "map_of (bn_instances b) name = None"
    using Cons.prems(3) p by auto
  note R = bind_service_result [OF ok new(1) s]
  show ?case
  proof (cases "constructible E name s")
    case False
    then have "o1 = bind_failure E name" "o1 \<noteq> Returns (Inr ())"
      using R by (auto simp: bind_failure_def split: service_made.splits)
    then show ?thesis using Cons.prems(4) s p False by auto
  next
    case True
    then obtain x where o1: "o1 = Returns (Inr ())" and x: "bound_entry s x" "bn_dispatch b1 = emplace name x (bn_dispatch b)"
      and i: "bn_instances b1 = (case instance_of E name s of None \<Rightarrow> bn_instances b | Some i \<Rightarrow> emplace name i (bn_instances b))"
      and reg: "\<forall>n. n \<noteq> name \<longrightarrow> map_of (m_services (bn_registry b1)) n = map_of (m_services (bn_registry b)) n"
      using R by auto
    obtain o2 svcs2 b2 where T: "bind_services E svcs b1 = (o2, svcs2, b2)" by (metis prod_cases3)
    have eq: "out = o2" "b' = b2" using Cons.prems(4) s p o1 T by auto
    have notin: "name \<notin> fst ` set svcs" using Cons.prems(2) p by (auto simp: keys_distinct_def)
    have d1: "map_of (bn_dispatch b1) n = (if n = name then Some x else map_of (bn_dispatch b) n)"
      "map_of (bn_instances b1) n = (if n = name then instance_of E name s else map_of (bn_instances b) n)" for n
      using x(2) i new by (auto simp: map_of_emplace split: option.splits)
    have pre: "\<forall>n \<in> fst ` set svcs. map_of (m_services (bn_registry b1)) n = None \<and> map_of (bn_dispatch b1) n = None \<and> map_of (bn_instances b1) n = None"
      using Cons.prems(3) p notin reg unfolding d1 by (metis image_insert insert_iff list.simps(15))
    have IH: "(o2 = Returns (Inr ()) \<longleftrightarrow> (\<forall>p \<in> set svcs. constructible E (fst p) (snd p))) \<and>
      (o2 \<noteq> Returns (Inr ()) \<longrightarrow> (\<exists>p \<in> set svcs. \<not> constructible E (fst p) (snd p) \<and> o2 = bind_failure E (fst p))) \<and>
      (o2 = Returns (Inr ()) \<longrightarrow>
      (\<forall>n. (n \<notin> fst ` set svcs \<longrightarrow> map_of (bn_dispatch b2) n = map_of (bn_dispatch b1) n \<and> map_of (bn_instances b2) n = map_of (bn_instances b1) n)) \<and>
      (\<forall>p \<in> set svcs. (\<exists>x. map_of (bn_dispatch b2) (fst p) = Some x \<and> bound_entry (snd p) x) \<and>
         map_of (bn_instances b2) (fst p) = instance_of E (fst p) (snd p)))"
      using Cons.prems(1,2) by (intro Cons.IH [OF _ _ pre T]) (auto simp: keys_distinct_def)
    then show ?thesis using x(1) notin True unfolding eq p d1 by auto
  qed
qed simp

lemma no_bindings_simps [simp]:
  "bn_dispatch no_bindings = []" "bn_instances no_bindings = []" "m_services (bn_registry no_bindings) = []"
  by (simp_all add: no_bindings_def empty_registry_def)

lemma registered_services:
  assumes "registered a"
  shows "\<forall>p \<in> set (ca_services a). service_ok (fst p) (snd p)" and "keys_distinct (ca_services a)"
  using assms by (simp_all add: registered_def)


text \<open>The start hook, for a registered application and a traversal that reaches every resource.\<close>

lemma start_hook_failure:
  assumes r: "registered a" and e: "on_scheduler_started E a = (out, a')" and bad: "out \<noteq> Returns (Inr ())"
  shows "((\<exists>k s er. map_of (ca_specs a) k = Some s \<and> rs_factory s \<and> out = Returns (Inl er) \<and>
            (make_outcome k (rn_made E k) = Inl er \<or> rs_start s \<and> start_outcome k (rn_started E k) = Inl er)) \<or>
          (\<exists>n s. map_of (ca_services a) n = Some s \<and> \<not> constructible E n s \<and> out = bind_failure E n)) \<and>
         as_dispatcher (ca_state a') = None \<and> as_instances (ca_state a') = []"
proof (cases "StartResources E a")
  case (Pair r1 a1)
  have same: "same_besides a a1" using start_resources_view(2) [OF registered_start_view [OF r]] Pair by (auto simp: StartResources_def)
  have st: "as_dispatcher (ca_state a1) = None" "as_instances (ca_state a1) = []"
    using same r by (simp_all add: same_besides_def registered_def)
  show ?thesis
  proof (cases r1)
    case (Inl er)
    have culprit: "\<exists>k s. map_of (ca_specs b) k = Some s \<and> rs_factory s \<and>
        (make_outcome k (rn_made E k) = Inl er \<or> rs_start s \<and> start_outcome k (rn_started E k) = Inl er)"
      if "start_resources E ks b = (Inl er, c)" for ks b c
      using that
    proof (induction ks arbitrary: b)
      case (Cons k ks)
      obtain r2 b2 where s: "start_resource E k b = (r2, b2)" by fastforce
      show ?case
      proof (cases r2)
        case (Inl x)
        then show ?thesis using s Cons.prems
          by (auto simp: start_resource_def Let_def split: option.splits if_splits sum.splits)
      next
        case (Inr u)
        then have "start_resources E ks b2 = (Inl er, c)" using Cons.prems s by simp
        from Cons.IH [OF this] obtain k' s' where k': "map_of (ca_specs b2) k' = Some s'" "rs_factory s'"
          "make_outcome k' (rn_made E k') = Inl er \<or> rs_start s' \<and> start_outcome k' (rn_started E k') = Inl er" by blast
        have "\<exists>s. map_of (ca_specs b) k' = Some s \<and> rs_factory s = rs_factory s' \<and> rs_start s = rs_start s'"
          using s k'(1) by (auto simp: start_resource_def Let_def map_of_put_spec split: option.splits if_splits sum.splits)
        then show ?thesis using k' by blast
      qed
    qed simp
    have "out = Returns (Inl er)" "a' = a1" using e Pair Inl by (auto simp: on_scheduler_started_def)
    then show ?thesis using culprit [of "rn_order E" a a1] Pair Inl st by (auto simp: StartResources_def)
  next
    case (Inr u)
    obtain o1 svcs b where B: "bind_services E (ca_services a) no_bindings = (o1, svcs, b)" by (metis prod_cases3)
    have A: "ca_services a1 = ca_services a" using same by (simp add: same_besides_def)
    then have out: "out = o1" "as_dispatcher (ca_state a') = None" "as_instances (ca_state a') = []"
      using e Pair Inr B bad st by (auto simp: on_scheduler_started_def BindServices_def Let_def split: if_splits)
    have "\<exists>p \<in> set (ca_services a). \<not> constructible E (fst p) (snd p) \<and> o1 = bind_failure E (fst p)"
      using bind_services_result [OF registered_services [OF r] _ B] bad out(1) by simp
    then obtain p where p: "p \<in> set (ca_services a)" "\<not> constructible E (fst p) (snd p)" "o1 = bind_failure E (fst p)" by blast
    have "map_of (ca_services a) (fst p) = Some (snd p)"
      using p(1) registered_services(2) [OF r] by (simp add: keys_distinct_def)
    then show ?thesis using out p by blast
  qed
qed


subsection \<open>Closing\<close>

definition is_close :: "host_log \<Rightarrow> bool" where
  "is_close x \<longleftrightarrow> (case x of LClosed _ _ \<Rightarrow> True | _ \<Rightarrow> False)"

text \<open>Nothing was closed yet; everything that can be closed is closed.\<close>

definition unclosed :: "'w CoApp \<Rightarrow> bool" where
  "unclosed a \<longleftrightarrow> (\<forall>k s. map_of (ca_specs a) k = Some s \<longrightarrow> \<not> rs_closed s) \<and> \<not> list_ex is_close (ca_log a)"

definition all_closed :: "'w CoApp \<Rightarrow> bool" where
  "all_closed a \<longleftrightarrow> (\<forall>k s. map_of (ca_specs a) k = Some s \<longrightarrow> \<not> to_close s)"

lemma collect_result:
  "collect_closeables ks a = (cs, b) \<Longrightarrow>
   same_besides a b \<and> ca_log b = ca_log a \<and> distinct (map fst cs) \<and>
   (\<forall>k. map_of (ca_specs b) k = map_option (\<lambda>s. if k \<in> set ks \<and> to_close s then s\<lparr>rs_closed := True\<rparr> else s) (map_of (ca_specs a) k)) \<and>
   (\<forall>k i. (k, i) \<in> set cs \<longleftrightarrow> k \<in> set ks \<and> (\<exists>s. map_of (ca_specs a) k = Some s \<and> to_close s \<and> rs_instance s = Some i))"
proof (induction ks arbitrary: a cs b)
  case Nil
  then show ?case by (simp add: same_besides_def option.map_ident)
next
  case (Cons k ks)
  show ?case
  proof (cases "\<exists>s. map_of (ca_specs a) k = Some s \<and> to_close s")
    case True
    then obtain s where s: "map_of (ca_specs a) k = Some s" "to_close s" by blast
    let ?s = "s\<lparr>rs_closed := True\<rparr>"
    obtain cs' where C: "collect_closeables ks (put_spec k ?s a) = (cs', b)" and cs: "cs = (k, the (rs_instance s)) # cs'"
      using Cons.prems s by (auto split: prod.splits)
    have nt: "\<not> to_close ?s" by (simp add: to_close_def)
    note IH = Cons.IH [OF C]
    have sp: "map_of (ca_specs (put_spec k ?s a)) k' = (if k' = k then Some ?s else map_of (ca_specs a) k')" for k'
      using s by (simp add: map_of_put_spec)
    have "same_besides a b" using IH by (simp add: same_besides_def)
    moreover have "k \<notin> fst ` set cs'" using IH nt unfolding sp by force
    moreover obtain i where "rs_instance s = Some i" using s(2) by (auto simp: to_close_def)
    ultimately show ?thesis using IH s nt unfolding sp cs by (auto split: if_splits)
  next
    case False
    then have "collect_closeables ks a = (cs, b)" using Cons.prems by (auto split: option.splits if_splits)
    from Cons.IH [OF this] False show ?thesis by (auto simp: fun_eq_iff intro!: option.map_cong)
  qed
qed

lemma marked_iff: "s = s\<lparr>rs_closed := True\<rparr> \<longleftrightarrow> rs_closed s" "s\<lparr>rs_closed := True\<rparr> = s \<longleftrightarrow> rs_closed s"
  by (cases s, auto)+

lemma fold_CloseResource:
  "fold CloseResource cs a = a\<lparr>ca_log := ca_log a @ map (\<lambda>c. LClosed (fst c) (snd c)) cs\<rparr>"
  by (induction cs arbitrary: a) (simp_all add: CloseResource_def host_log_def)

lemma count_closes:
  "distinct (map fst cs) \<Longrightarrow> count_list (map (\<lambda>c. LClosed (fst c) (snd c)) cs) (LClosed k i) = (if (k, i) \<in> set cs then 1 else 0)"
  by (induction cs) force+

definition closed_as :: "'w CoApp \<Rightarrow> 'w CoApp \<Rightarrow> (ResourceKey \<times> nat) list \<Rightarrow> bool" where
  "closed_as a b cs \<longleftrightarrow> ca_log b = ca_log a @ map (\<lambda>c. LClosed (fst c) (snd c)) cs \<and> all_closed b \<and> same_besides a b \<and>
     distinct (map fst cs) \<and>
     (\<forall>k i. (k, i) \<in> set cs \<longleftrightarrow> (\<exists>s. map_of (ca_specs a) k = Some s \<and> to_close s \<and> rs_instance s = Some i)) \<and>
     (\<forall>k. map_of (ca_specs b) k = map_option (\<lambda>s. if to_close s then s\<lparr>rs_closed := True\<rparr> else s) (map_of (ca_specs a) k))"

lemma close_all:
  assumes cover: "fst ` set (ca_specs a) \<subseteq> set (rn_order E)"
  shows "\<exists>cs. closed_as a (CloseResources E a) cs"
proof -
  obtain cs b where C: "collect_closeables (rn_order E) a = (cs, b)" by fastforce
  note R = collect_result [OF C]
  have dom: "map_of (ca_specs a) k \<noteq> None \<Longrightarrow> k \<in> set (rn_order E)" for k
    using cover by (auto simp: map_of_eq_None_iff)
  have eq: "CloseResources E a = b\<lparr>ca_log := ca_log b @ map (\<lambda>c. LClosed (fst c) (snd c)) cs\<rparr>"
    by (simp add: CloseResources_def C fold_CloseResource)
  have specs: "map_of (ca_specs b) k = map_option (\<lambda>s. if to_close s then s\<lparr>rs_closed := True\<rparr> else s) (map_of (ca_specs a) k)" for k
    using R dom [of k] by (cases "map_of (ca_specs a) k") auto
  have "all_closed (CloseResources E a)"
    unfolding all_closed_def eq by (auto simp: specs to_close_def marked_iff split: if_splits)
  moreover have "(k, i) \<in> set cs \<longleftrightarrow> (\<exists>s. map_of (ca_specs a) k = Some s \<and> to_close s \<and> rs_instance s = Some i)" for k i
    using R dom [of k] by auto
  ultimately have "closed_as a (CloseResources E a) cs"
    using R specs unfolding closed_as_def by (simp add: eq same_besides_def)
  then show ?thesis ..
qed

text \<open>The hooks that start things close nothing.\<close>

lemma start_resource_unclosed: "unclosed a \<Longrightarrow> start_resource E k a = (r, b) \<Longrightarrow> unclosed b"
  by (auto simp: start_resource_def Let_def unclosed_def map_of_put_spec is_close_def split: option.splits sum.splits if_splits)

lemma start_resources_unclosed: "unclosed a \<Longrightarrow> start_resources E ks a = (r, b) \<Longrightarrow> unclosed b"
  by (induction ks arbitrary: a) (auto split: prod.splits sum.splits dest: start_resource_unclosed)

lemma start_resources_keys: "start_resources E ks a = (r, b) \<Longrightarrow> map fst (ca_specs b) = map fst (ca_specs a)"
proof (induction ks arbitrary: a)
  case (Cons k ks)
  then show ?case using start_resource_same [of E k a] by (auto simp: same_besides_def split: prod.splits sum.splits)
qed simp

lemma start_hook_unclosed:
  assumes "unclosed a"
  shows "unclosed (snd (on_scheduler_started E a))" and "map fst (ca_specs (snd (on_scheduler_started E a))) = map fst (ca_specs a)"
proof -
  obtain r b where S: "start_resources E (rn_order E) a = (r, b)" by fastforce
  have "\<not> list_ex is_close (map (\<lambda>p. LBound (fst p)) xs)" for xs :: "(string \<times> nat) list"
    by (induction xs) (simp_all add: is_close_def)
  then show "unclosed (snd (on_scheduler_started E a))" "map fst (ca_specs (snd (on_scheduler_started E a))) = map fst (ca_specs a)"
    using start_resources_unclosed [OF assms S] start_resources_keys [OF S] S
    by (auto simp: on_scheduler_started_def StartResources_def BindServices_def Let_def unclosed_def split: sum.splits prod.splits)
qed

lemma start_steps:
  assumes "set es \<subseteq> {ESchedulerStart, EStartHook, ECreate, EStart}" and "unclosed a"
  shows "unclosed (fold (hook_effect E) es a)" and "map fst (ca_specs (fold (hook_effect E) es a)) = map fst (ca_specs a)"
proof -
  have "unclosed (fold (hook_effect E) es a) \<and> map fst (ca_specs (fold (hook_effect E) es a)) = map fst (ca_specs a)"
    using assms
  proof (induction es arbitrary: a)
    case (Cons ev es)
    have l: "unclosed (host_log (LHost ev) a)" using Cons.prems(2) by (simp add: unclosed_def is_close_def)
    have "unclosed (hook_effect E ev a) \<and> map fst (ca_specs (hook_effect E ev a)) = map fst (ca_specs a)"
      using Cons.prems(1) start_hook_unclosed [OF l, of E] l by (cases ev) (auto simp: hook_effect_def Let_def)
    then show ?case using Cons.IH [of "hook_effect E ev a"] Cons.prems(1) by auto
  qed simp
  then show "unclosed (fold (hook_effect E) es a)" "map fst (ca_specs (fold (hook_effect E) es a)) = map fst (ca_specs a)" by simp_all
qed

lemma plain_steps:
  "set es \<inter> {EStartHook, EDrainedHook, ERelease} = {} \<Longrightarrow> fold (hook_effect E) es a = a\<lparr>ca_log := ca_log a @ map LHost es\<rparr>"
proof (induction es arbitrary: a)
  case (Cons ev es)
  then have "hook_effect E ev a = a\<lparr>ca_log := ca_log a @ [LHost ev]\<rparr>" by (cases ev) (simp_all add: hook_effect_def host_log_def)
  then show ?case using Cons by simp
qed simp

subsection \<open>The whole run\<close>

text \<open>The log of a shutdown that closes the resources \<open>cs\<close>.\<close>

definition closing_log :: "HostEnv \<Rightarrow> host_log list \<Rightarrow> host_log list" where
  "closing_log e cs =
     (if created e then map LHost (EStopAccepting # waits e) @
        (case drain_of e of
           Drained \<Rightarrow> LHost EDrainedHook # cs @ [LHost EClose, LHost ERelease]
         | Interrupted \<Rightarrow> [LHost EClose, LHost ERelease] @ cs
         | Undrained \<Rightarrow> [])
      else LHost ERelease # cs)"

definition closes :: "(ResourceKey \<times> nat) list \<Rightarrow> host_log list" where
  "closes cs = map (\<lambda>c. LClosed (fst c) (snd c)) cs"

text \<open>Each resource that exists and can be closed, once.\<close>

definition each_resource_once :: "(ResourceKey \<times> ResourceSpec) list \<Rightarrow> (ResourceKey \<times> nat) list \<Rightarrow> bool" where
  "each_resource_once specs cs \<longleftrightarrow> distinct (map fst cs) \<and>
     (\<forall>k i. (k, i) \<in> set cs \<longleftrightarrow> (\<exists>s. map_of specs k = Some s \<and> rs_instance s = Some i \<and> rs_closeable s))"

lemma close_once:
  assumes u: "unclosed a" and cover: "fst ` set (ca_specs a) \<subseteq> set (rn_order E)"
  obtains cs where "ca_log (CloseResources E a) = ca_log a @ closes cs" "all_closed (CloseResources E a)"
    "same_besides a (CloseResources E a)" "each_resource_once (ca_specs (CloseResources E a)) cs"
proof -
  obtain cs where "closed_as a (CloseResources E a) cs" using close_all [OF cover] ..
  note C = this [unfolded closed_as_def]
  have "each_resource_once (ca_specs (CloseResources E a)) cs"
    unfolding each_resource_once_def
  proof (intro conjI allI)
    show "distinct (map fst cs)" using C by blast
    show "(k, i) \<in> set cs \<longleftrightarrow> (\<exists>s. map_of (ca_specs (CloseResources E a)) k = Some s \<and> rs_instance s = Some i \<and> rs_closeable s)" for k i
    proof -
    have "(k, i) \<in> set cs \<longleftrightarrow> (\<exists>s. map_of (ca_specs a) k = Some s \<and> to_close s \<and> rs_instance s = Some i)"
      and m: "map_of (ca_specs (CloseResources E a)) k = map_option (\<lambda>s. if to_close s then s\<lparr>rs_closed := True\<rparr> else s) (map_of (ca_specs a) k)"
      using C by blast+
    then show ?thesis
      using u by (cases "map_of (ca_specs a) k") (auto simp: to_close_def unclosed_def)
    qed
  qed
  then show ?thesis using that [of cs] C by (simp add: closes_def)
qed

lemma close_nothing:
  assumes a: "all_closed a" and "fst ` set (ca_specs a) \<subseteq> set (rn_order E)"
  shows "ca_log (CloseResources E a) = ca_log a" "map_of (ca_specs (CloseResources E a)) = map_of (ca_specs a)"
    "same_besides a (CloseResources E a)"
proof -
  obtain cs where C: "closed_as a (CloseResources E a) cs" using close_all [OF assms(2)] ..
  have "(k, i) \<notin> set cs" for k i
  proof -
    have "(k, i) \<in> set cs \<longleftrightarrow> (\<exists>s. map_of (ca_specs a) k = Some s \<and> to_close s \<and> rs_instance s = Some i)"
      using C unfolding closed_as_def by blast
    then show ?thesis using a unfolding all_closed_def by blast
  qed
  then have "cs = []" by (cases cs) auto
  then show "ca_log (CloseResources E a) = ca_log a" using C unfolding closed_as_def by simp
  have "map_of (ca_specs (CloseResources E a)) k = map_of (ca_specs a) k" for k
  proof -
    have "map_of (ca_specs (CloseResources E a)) k = map_option (\<lambda>s. if to_close s then s\<lparr>rs_closed := True\<rparr> else s) (map_of (ca_specs a) k)"
      using C unfolding closed_as_def by blast
    then show ?thesis using a by (cases "map_of (ca_specs a) k") (auto simp: all_closed_def)
  qed
  then show "map_of (ca_specs (CloseResources E a)) = map_of (ca_specs a)" by (rule ext)
  show "same_besides a (CloseResources E a)" using C unfolding closed_as_def by blast
qed

lemma each_resource_once_cong: "map_of s = map_of s' \<Longrightarrow> each_resource_once s cs = each_resource_once s' cs"
  by (simp add: each_resource_once_def)

lemma unclosed_log: "list_all (\<lambda>x. \<not> is_close x) xs \<Longrightarrow> unclosed a \<Longrightarrow> unclosed (a\<lparr>ca_log := ca_log a @ xs\<rparr>)"
  by (auto simp: unclosed_def list_ex_iff list_all_iff)

lemma host_entries: "list_all (\<lambda>x. \<not> is_close x) (map LHost es)"
  by (induction es) (simp_all add: is_close_def)

text \<open>The shutdown part of a run, from a state in which nothing was closed.\<close>

lemma shutdown_steps:
  assumes u: "unclosed a" and cover: "fst ` set (ca_specs a) \<subseteq> set (rn_order E)"
    and dr: "he_drained_hook e \<noteq> None" and rl: "he_release_hook e \<noteq> None" and d: "\<not> (created e \<and> drain_of e = Undrained)"
  obtains cs where "ca_log (fold (hook_effect E) (shutdown_trace e) a) = ca_log a @ closing_log e (closes cs)"
    "each_resource_once (ca_specs (fold (hook_effect E) (shutdown_trace e) a)) cs"
    "as_dispatcher (ca_state (fold (hook_effect E) (shutdown_trace e) a)) = None"
    "as_instances (ca_state (fold (hook_effect E) (shutdown_trace e) a)) = []"
proof -
  have called: "called EDrainedHook (he_drained_hook e) = [EDrainedHook]" "called ERelease (he_release_hook e) = [ERelease]"
    using dr rl by (auto simp: called_def)
  let ?log = "\<lambda>es b. b\<lparr>ca_log := ca_log b @ map LHost es\<rparr>"
  have plain: "unclosed (?log es a)" "fst ` set (ca_specs (?log es a)) \<subseteq> set (rn_order E)" for es
    using unclosed_log [OF host_entries u] cover by simp_all
  have W: "fold (hook_effect E) (EStopAccepting # waits e @ es) a = fold (hook_effect E) es (?log (EStopAccepting # waits e) a)" for es
    using plain_steps [of "EStopAccepting # waits e" E a] by (simp add: waits_def fold_append split: if_splits)
  have release: "hook_effect E ERelease b = ReleaseServices (CloseResources E (host_log (LHost ERelease) b))"
    "hook_effect E EDrainedHook b = CloseResources E (host_log (LHost EDrainedHook) b)"
    "hook_effect E EClose b = host_log (LHost EClose) b" for b :: "'a CoApp"
    by (simp_all add: hook_effect_def on_release_def on_handlers_drained_def)
  show ?thesis
  proof (cases "created e")
    case False
    then have t: "shutdown_trace e = [ERelease]" by (simp add: shutdown_trace_def called)
    obtain cs where C: "ca_log (CloseResources E (host_log (LHost ERelease) a)) = ca_log (host_log (LHost ERelease) a) @ closes cs"
      "each_resource_once (ca_specs (CloseResources E (host_log (LHost ERelease) a))) cs"
      using close_once [of "host_log (LHost ERelease) a" E] plain [of "[ERelease]"] unfolding host_log_def list.map by blast
    show ?thesis using that [of cs] C False by (simp add: t release ReleaseServices_def closing_log_def Release_def)
  next
    case True
    show ?thesis
    proof (cases "drain_of e")
      case Drained
      then have t: "shutdown_trace e = EStopAccepting # waits e @ [EDrainedHook, EClose, ERelease]" using True by (simp add: shutdown_trace_def called)
      let ?a = "host_log (LHost EDrainedHook) (?log (EStopAccepting # waits e) a)"
      have a: "?a = ?log (EStopAccepting # waits e @ [EDrainedHook]) a" by (simp add: host_log_def)
      obtain cs where C: "ca_log (CloseResources E ?a) = ca_log ?a @ closes cs" "all_closed (CloseResources E ?a)"
        "same_besides ?a (CloseResources E ?a)" "each_resource_once (ca_specs (CloseResources E ?a)) cs"
        using close_once [of ?a E] plain [of "EStopAccepting # waits e @ [EDrainedHook]"] unfolding a by blast
      let ?b = "host_log (LHost ERelease) (host_log (LHost EClose) (CloseResources E ?a))"
      have b: "all_closed ?b" "fst ` set (ca_specs ?b) \<subseteq> set (rn_order E)"
      proof -
        show "all_closed ?b" using C(2) by (simp add: all_closed_def)
        have "set (map fst (ca_specs (CloseResources E ?a))) = set (map fst (ca_specs a))"
          using C(3) by (simp add: same_besides_def del: set_map)
        then show "fst ` set (ca_specs ?b) \<subseteq> set (rn_order E)" using cover by simp
      qed
      note N = close_nothing [OF b]
      show ?thesis
        using that [of cs] C(1,4) N each_resource_once_cong [OF N(2), of cs] True Drained
        unfolding t W by (simp add: release ReleaseServices_def closing_log_def Release_def)
    next
      case Interrupted
      then have t: "shutdown_trace e = EStopAccepting # waits e @ [EClose, ERelease]" using True by (simp add: shutdown_trace_def called)
      let ?a = "host_log (LHost ERelease) (host_log (LHost EClose) (?log (EStopAccepting # waits e) a))"
      have a: "?a = ?log (EStopAccepting # waits e @ [EClose, ERelease]) a" by (simp add: host_log_def)
      obtain cs where C: "ca_log (CloseResources E ?a) = ca_log ?a @ closes cs" "each_resource_once (ca_specs (CloseResources E ?a)) cs"
        using close_once [of ?a E] plain [of "EStopAccepting # waits e @ [EClose, ERelease]"] unfolding a by blast
      show ?thesis using that [of cs] C True Interrupted unfolding t W
        by (simp add: release ReleaseServices_def closing_log_def Release_def)
    next
      case Undrained
      then show ?thesis using d True by simp
    qed
  qed
qed

lemma performed_start_events: "set (performed (start_calls e)) \<subseteq> {ESchedulerStart, EStartHook, ECreate, EStart}"
proof -
  have "set (performed cs) \<subseteq> fst ` set cs" for cs
    by (induction cs rule: performed.induct) auto
  from this [of "start_calls e"] show ?thesis by (auto simp: start_calls_def split: option.splits)
qed

lemma registered_unclosed: "registered a \<Longrightarrow> ca_log a = [] \<Longrightarrow> unclosed a"
  by (auto simp: registered_def spec_ok_def unclosed_def dest!: map_of_SomeD)

lemma run_of_registered:
  assumes r: "registered a" "unrun a" and cover: "fst ` set (ca_specs a) \<subseteq> set (rn_order E)"
    and v: "ValidateConfig bd vl a = Inr ()" and run: "run_app bd vl E h False a = (rc, a')"
    and e: "e = run_host_env E (enter_run a) h"
  shows "case rc of
      None \<Rightarrow> \<not> list_ex is_close (ca_log a')
    | Some c \<Rightarrow> (\<exists>started cs. ca_log a' = started @ closing_log e (closes cs) \<and> \<not> list_ex is_close started \<and>
        each_resource_once (ca_specs a') cs \<and> as_dispatcher (ca_state a') = None \<and> as_instances (ca_state a') = [])"
proof -
  have acc: "accepted e"
    using v by (auto simp: e accepted_def run_host_env_def ValidateConfig_def FailInvalid_def Let_def split: if_splits sum.splits)
  have hooks: "he_drained_hook e \<noteq> None" "he_release_hook e \<noteq> None" by (simp_all add: e run_host_env_def)
  obtain rc' l where R': "Run e new_lifecycle = (rc', l)" by fastforce
  have "rc = rc'"
    using run v R' r(2) unfolding e
    by (auto simp: run_app_def ValidateConfig_enter Let_def unrun_def split: option.splits)
  then have R: "Run e new_lifecycle = (rc, l)" using R' by simp
  have l: "rc = run_code e" "m_trace l = run_trace e" using Run_exact [of e] R by simp_all
  let ?a = "enter_run a" and ?start = "performed (start_calls e)"
  let ?b = "fold (hook_effect E) ?start ?a"
  have u: "unclosed ?a" using registered_unclosed [OF r(1)] r(2) by (simp add: unrun_def unclosed_def)
  have b: "unclosed ?b" "map fst (ca_specs ?b) = map fst (ca_specs a)"
    using start_steps [OF performed_start_events u] by simp_all
  then have cb: "fst ` set (ca_specs ?b) \<subseteq> set (rn_order E)" using cover by (metis image_set)
  have a': "ca_log a' = ca_log (fold (hook_effect E) (run_trace e) ?a)" "ca_specs a' = ca_specs (fold (hook_effect E) (run_trace e) ?a)"
      "ca_state a' = ca_state (fold (hook_effect E) (run_trace e) ?a)"
    using run v R l(2) r(2) unfolding e
    by (auto simp: run_app_def ValidateConfig_enter Let_def unrun_def split: option.splits)
  show ?thesis
  proof (cases "rc = None")
    case True
    then have "run_trace e = ?start \<or> run_trace e = ?start @ EStopAccepting # waits e"
      using acc by (auto simp: run_trace_def run_code_def l(1) shutdown_trace_def split: if_splits)
    moreover have "\<not> list_ex is_close (ca_log (fold (hook_effect E) (EStopAccepting # waits e) ?b))"
      using plain_steps [of "EStopAccepting # waits e" E ?b] unclosed_log [OF host_entries b(1), of "EStopAccepting # waits e"]
      by (auto simp: waits_def unclosed_def split: if_splits)
    moreover have "\<not> list_ex is_close (ca_log ?b)" using b(1) by (simp add: unclosed_def)
    ultimately show ?thesis using True a'(1) by (auto simp: fold_append)
  next
    case False
    then have t: "run_trace e = ?start @ shutdown_trace e" "\<not> (created e \<and> drain_of e = Undrained)"
      using acc by (auto simp: run_trace_def run_code_def l(1) split: if_splits)
    obtain cs where C: "ca_log (fold (hook_effect E) (shutdown_trace e) ?b) = ca_log ?b @ closing_log e (closes cs)"
      "each_resource_once (ca_specs (fold (hook_effect E) (shutdown_trace e) ?b)) cs"
      "as_dispatcher (ca_state (fold (hook_effect E) (shutdown_trace e) ?b)) = None"
      "as_instances (ca_state (fold (hook_effect E) (shutdown_trace e) ?b)) = []"
      using shutdown_steps [OF b(1) cb hooks t(2)] by blast
    have n: "\<not> list_ex is_close (ca_log ?b)" using b(1) by (simp add: unclosed_def)
    obtain c where c: "rc = Some c" using False by blast
    have f: "fold (hook_effect E) (run_trace e) ?a = fold (hook_effect E) (shutdown_trace e) ?b" by (simp add: t(1) fold_append)
    show ?thesis unfolding c option.case a' f using C n by blast
  qed
qed

subsection \<open>Properties\<close>

text \<open>C35: Every resource is closed exactly once, at its place. Take a host after any sequence of
  registrations and run it, with any answers of the business, the scheduler and the network. When the
  run does not return, nothing was closed. When it returns, every resource that exists (registered
  ready-made or made by its factory, even when its start failed) and can be closed was closed exactly
  once: after a proved drain, between the drained hook and the close of the network; when the drain
  was interrupted or the network never came up, on release; never before the waits. Nothing is
  published any more.\<close>

theorem run_closes_every_resource_once:
  assumes "a = run_ops host_app_step (blank_host_app opts host dflt (empty_state opts eg sm)) ops"
    and "fst ` set (ca_specs a) \<subseteq> set (rn_order E)" and "ValidateConfig bd vl a = Inr ()"
    and "run_app bd vl E h False a = (rc, a')" and "e = run_host_env E (enter_run a) h"
  shows "case rc of
      None \<Rightarrow> \<not> list_ex is_close (ca_log a')
    | Some c \<Rightarrow> (\<exists>started cs. ca_log a' = started @ closing_log e (closes cs) \<and> \<not> list_ex is_close started \<and>
        each_resource_once (ca_specs a') cs \<and> as_dispatcher (ca_state a') = None \<and> as_instances (ca_state a') = [])"
proof -
  have "registered a \<and> unrun a" unfolding assms(1) by (rule registration.inv_run)
  then show ?thesis using run_of_registered assms(2-5) by blast
qed

text \<open>Two resources (one ready-made, one made and started), one service; the shutdown is requested.\<close>

definition demo_host_options :: "unit CoAppOptions" where
  "demo_host_options =
     \<lparr>op_network_limits = nh_limits demo_host, op_listen = nh_listen demo_host, op_static_routes = [],
      op_shutdown_step_budget = 1, op_inbound_bridge = InboundLegacyHeaders, op_rpc_policy = None, op_dynamic_routes = None\<rparr>"

definition plain_service :: ServiceOptions where
  "plain_service = \<lparr>execution = Concurrent, max_inflight = 4, mailbox_capacity = 0, max_actors = 0, ordered_ingress = False,
     max_ordered_streams = 0, max_cached_results = 0, max_cached_result_bytes = 0\<rparr>"

definition demo_host_ops :: "unit host_op list" where
  "demo_host_ops = [HAddResource 1 ''redis'' False True (Some 7), HAddFactory 2 ''mongo'' True True True,
     HAddService plain_service (Inr []) ''Echo'' 3]"

definition demo_host_app :: "unit CoApp" where
  "demo_host_app = run_ops host_app_step (blank_host_app demo_host_options True None (empty_state demo_host_options None None)) demo_host_ops"

definition demo_run_env :: run_env where
  "demo_run_env = \<lparr>rn_order = [\<lparr>rk_type = 2, rk_name = ''mongo''\<rparr>, \<lparr>rk_type = 1, rk_name = ''redis''\<rparr>],
     rn_made = (\<lambda>k. MadeResult (Inr (Some 9))), rn_started = (\<lambda>k. Returns (Inr ())), rn_service = (\<lambda>n. ServiceMade 5)\<rparr>"

definition demo_host_env :: HostEnv where
  "demo_host_env = \<lparr>he_host = True, he_step_budget = 1, he_scheduler = None, he_start_hook = None, he_create = Returns (Inr ()),
     he_start = Returns (Inr ()), he_requested = True, he_wait = Inr (), he_reason = False, he_late_wait = Inr (),
     he_late_reason = False, he_drained_hook = None, he_release_hook = None\<rparr>"

definition demo_build :: Build where "demo_build = \<lparr>bd_rpc_wire = False, bd_rpc_tcp = False\<rparr>"

lemma demo_host_app_facts:
  "ca_specs demo_host_app =
     [(\<lparr>rk_type = 1, rk_name = ''redis''\<rparr>, \<lparr>rs_factory = False, rs_start = False, rs_closeable = True, rs_instance = Some 7, rs_closed = False\<rparr>),
      (\<lparr>rk_type = 2, rk_name = ''mongo''\<rparr>, \<lparr>rs_factory = True, rs_start = True, rs_closeable = True, rs_instance = None, rs_closed = False\<rparr>)]"
  "ValidateConfig demo_build (\<lambda>_. Inr ()) demo_host_app = Inr ()"
  by (simp_all add: demo_host_app_def demo_host_ops_def host_app_step_def AddResource_def AddResourceImpl_def AddResourceFactory_def
      AddResourceFactoryImpl_def AddService_def plain_service_def blank_host_app_def empty_state_def MakeSpec_def emplace_def
      emplace_routes_def demo_host_options_def ValidateConfig_def demo_build_def demo_host_def new_host_def Let_def
      ValidateServiceOptions_def validate_execution_def validate_ordered_def BuildMethodTable_def ValidateActorKeying_def)

lemma demo_host_run:
  "fst (run_app demo_build (\<lambda>_. Inr ()) demo_run_env demo_host_env False demo_host_app) = Some 0"
  "filter is_close (ca_log (snd (run_app demo_build (\<lambda>_. Inr ()) demo_run_env demo_host_env False demo_host_app))) =
     [LClosed \<lparr>rk_type = 2, rk_name = ''mongo''\<rparr> 9, LClosed \<lparr>rk_type = 1, rk_name = ''redis''\<rparr> 7]"
  by code_simp+

theorem run_closes_every_resource_once_witness:
  "\<exists>started cs. ca_log (snd (run_app demo_build (\<lambda>_. Inr ()) demo_run_env demo_host_env False demo_host_app)) =
      started @ closing_log (run_host_env demo_run_env (enter_run demo_host_app) demo_host_env) (closes cs) \<and>
    \<not> list_ex is_close started"
proof -
  obtain a' where run: "run_app demo_build (\<lambda>_. Inr ()) demo_run_env demo_host_env False demo_host_app = (Some 0, a')"
    using demo_host_run(1) by (cases "run_app demo_build (\<lambda>_. Inr ()) demo_run_env demo_host_env False demo_host_app") auto
  have cover: "fst ` set (ca_specs demo_host_app) \<subseteq> set (rn_order demo_run_env)"
    by (simp add: demo_host_app_facts demo_run_env_def)
  from run_closes_every_resource_once [OF demo_host_app_def cover demo_host_app_facts(2) run refl]
  show ?thesis by (auto simp: run)
qed




text \<open>C37: A start fails only by the business, and then publishes nothing. After any registrations, when
  the start hook does not succeed, its outcome is the error of a factory or of a \<open>Start\<close>, or the
  exception of the constructor of a service that runs concurrently; never of the assembly itself (an
  ordered ingress, a factory in the registry of actors). Inbound requests are then refused.\<close>

theorem failed_start_names_its_cause:
  assumes "a = run_ops host_app_step (blank_host_app opts host dflt (empty_state opts eg sm)) ops"
    and "on_scheduler_started E (enter_run a) = (out, a')" and "out \<noteq> Returns (Inr ())"
  shows "((\<exists>k s er. map_of (ca_specs a) k = Some s \<and> rs_factory s \<and> out = Returns (Inl er) \<and>
        (make_outcome k (rn_made E k) = Inl er \<or> rs_start s \<and> start_outcome k (rn_started E k) = Inl er)) \<or>
      (\<exists>n s. map_of (ca_services a) n = Some s \<and> \<not> constructible E n s \<and> out = bind_failure E n)) \<and>
    code_of (dispatch_inbound a') = Some RuntimeUnavailable"
proof -
  have r: "registered (enter_run a)" unfolding assms(1) using registration.inv_run by (intro enter_run_registered) blast
  from start_hook_failure [OF r assms(2,3)] show ?thesis by (simp add: dispatch_inbound_def dispatch_gate_def)
qed

definition failing_env :: run_env where
  "failing_env = demo_run_env\<lparr>rn_started := (\<lambda>k. ThrowsStd ''refused'')\<rparr>"

theorem failed_start_names_its_cause_witness:
  "code_of (dispatch_inbound (snd (on_scheduler_started failing_env (enter_run demo_host_app)))) = Some RuntimeUnavailable"
proof -
  have "fst (on_scheduler_started failing_env (enter_run demo_host_app)) \<noteq> Returns (Inr ())" by code_simp
  then show ?thesis using failed_start_names_its_cause [OF demo_host_app_def prod.collapse [symmetric]] by blast
qed

end
