(* ===== verification/Shutdown.thy ===== *)
theory Shutdown
  imports AppCore
begin

text \<open>
  The two ways to wait for a request to shut down, under every interleaving. In \<open>src/host/App.cc\<close> a
  coroutine waits on a \<open>CoWaiter\<close> (\<open>RequestShutdown\<close>, \<open>CoWaitShutdownRequest\<close>); in
  \<open>src/host/HostLifecycle.cc\<close> the control thread waits on a condition variable
  (\<open>_WaitShutdownRequest\<close>, \<open>RequestShutdown\<close>). The first cannot miss a request, the second can.
\<close>

subsection \<open>The coroutine that waits\<close>

text \<open>
  A \<open>CoWaiter\<close> is third-party: a \<open>Notify\<close> that comes once the wait is armed completes it; whether an
  earlier one is kept is left open (\<open>latched\<close>). The callback runs between arming and suspending.
  \<open>sw_current\<close> is the waiter in \<open>m_shutdown_waiter\<close> with its position, \<open>sw_notifying\<close> the waiters that
  requesters have taken out and will notify, \<open>sw_notified\<close> those whose wait is complete.
\<close>

datatype waiter_position = Installed | Armed | Suspended | Leaving CoWaitStatus

record shutdown_world =
  sw_requested :: bool
  sw_current :: "(nat \<times> waiter_position) option"
  sw_notifying :: "nat list"
  sw_notified :: "nat list"
  sw_entered :: "nat list"
  sw_results :: "(nat \<times> unit result) list"

datatype shutdown_label =
    WEnter nat | WArm nat | WCallback nat | WWake nat | WGiveUp nat CoWaitStatus | WClear nat
  | RRequest | RNotify nat

text \<open>The entry, under \<open>m_run_mtx\<close>: an answer, or the waiter is installed.\<close>

definition wait_enter :: "nat \<Rightarrow> shutdown_world \<Rightarrow> shutdown_world" where
  "wait_enter k w =
     (if sw_current w \<noteq> None then
        w\<lparr>sw_results := sw_results w @ [(k, fail Overloaded ''shutdown request already has a waiter'')]\<rparr>
      else if sw_requested w then w\<lparr>sw_results := sw_results w @ [(k, Inr ())]\<rparr>
      else w\<lparr>sw_current := Some (k, Installed)\<rparr>)"

definition notify_waiter :: "bool \<Rightarrow> nat \<Rightarrow> shutdown_world \<Rightarrow> shutdown_world" where
  "notify_waiter latched k w =
     (if latched \<or> sw_current w \<in> {Some (k, Armed), Some (k, Suspended)}
      then w\<lparr>sw_notified := k # sw_notified w\<rparr> else w)"

definition wait_callback :: "nat \<Rightarrow> shutdown_world \<Rightarrow> shutdown_world" where
  "wait_callback k w =
     (let w1 = (if sw_requested w then notify_waiter False k w else w)
      in w1\<lparr>sw_current := Some (k, Suspended)\<rparr>)"

text \<open>What the wait status becomes, and the last section, which empties the slot.\<close>

definition shutdown_wait_result :: "CoWaitStatus \<Rightarrow> unit result" where
  "shutdown_wait_result s =
     (case s of
        CoCompleted \<Rightarrow> Inr ()
      | CoTimedOut \<Rightarrow> fail TimedOut ''shutdown request timed out''
      | CoCancelled \<Rightarrow> fail Cancelled ''shutdown request cancelled''
      | _ \<Rightarrow> fail RuntimeUnavailable ''shutdown request wait unavailable'')"

definition wait_clear :: "nat \<Rightarrow> CoWaitStatus \<Rightarrow> shutdown_world \<Rightarrow> shutdown_world" where
  "wait_clear k s w = w\<lparr>sw_current := None, sw_results := sw_results w @ [(k, shutdown_wait_result s)]\<rparr>"

text \<open>The request, under the lock: the flag, and the waiter to notify outside.\<close>

definition request_shutdown :: "shutdown_world \<Rightarrow> shutdown_world" where
  "request_shutdown w =
     w\<lparr>sw_requested := True,
       sw_notifying := (case sw_current w of None \<Rightarrow> sw_notifying w | Some (k, _) \<Rightarrow> k # sw_notifying w)\<rparr>"

inductive shutdown_step :: "bool \<Rightarrow> shutdown_world \<Rightarrow> shutdown_label \<Rightarrow> shutdown_world \<Rightarrow> bool" for latched where
  enter: "k \<notin> set (sw_entered w) \<Longrightarrow>
    shutdown_step latched w (WEnter k) ((wait_enter k w)\<lparr>sw_entered := k # sw_entered w\<rparr>)"
| arm: "sw_current w = Some (k, Installed) \<Longrightarrow> shutdown_step latched w (WArm k) (w\<lparr>sw_current := Some (k, Armed)\<rparr>)"
| callback: "sw_current w = Some (k, Armed) \<Longrightarrow> shutdown_step latched w (WCallback k) (wait_callback k w)"
| wake: "sw_current w = Some (k, Suspended) \<Longrightarrow> k \<in> set (sw_notified w) \<Longrightarrow>
    shutdown_step latched w (WWake k) (w\<lparr>sw_current := Some (k, Leaving CoCompleted)\<rparr>)"
| give_up: "sw_current w = Some (k, Suspended) \<Longrightarrow> s \<noteq> CoCompleted \<Longrightarrow>
    shutdown_step latched w (WGiveUp k s) (w\<lparr>sw_current := Some (k, Leaving s)\<rparr>)"
| clear: "sw_current w = Some (k, Leaving s) \<Longrightarrow> shutdown_step latched w (WClear k) (wait_clear k s w)"
| request: "shutdown_step latched w RRequest (request_shutdown w)"
| notify: "k \<in> set (sw_notifying w) \<Longrightarrow>
    shutdown_step latched w (RNotify k) (notify_waiter latched k (w\<lparr>sw_notifying := remove1 k (sw_notifying w)\<rparr>))"

inductive_cases shutdown_stepE: "shutdown_step latched w l v"

definition idle_world :: shutdown_world where
  "idle_world = \<lparr>sw_requested = False, sw_current = None, sw_notifying = [], sw_notified = [], sw_entered = [], sw_results = []\<rparr>"

text \<open>A suspended waiter that was requested has been notified, or a notification is on its way.\<close>

definition shutdown_inv :: "shutdown_world \<Rightarrow> bool" where
  "shutdown_inv w \<longleftrightarrow>
     (\<forall>k. sw_current w = Some (k, Suspended) \<longrightarrow> sw_requested w \<longrightarrow> k \<in> set (sw_notified w) \<union> set (sw_notifying w)) \<and>
     (\<forall>k. sw_current w = Some (k, Leaving CoCompleted) \<longrightarrow> k \<in> set (sw_notified w)) \<and>
     (\<forall>k. k \<in> set (sw_notified w) \<union> set (sw_notifying w) \<longrightarrow> sw_requested w)"

lemma shutdown_start_inv: "shutdown_inv idle_world"
  by (simp add: shutdown_inv_def idle_world_def)

lemma remove1_stays: "x \<in> set (remove1 k xs) \<or> x = k" if "x \<in> set xs"
  using that by (cases "x = k") simp_all

lemma shutdown_step_inv:
  assumes inv: "shutdown_inv w" and s: "shutdown_step latched w l v"
  shows "shutdown_inv v"
  using s
proof cases
  case (enter k)
  then show ?thesis using inv by (auto simp: shutdown_inv_def wait_enter_def)
next
  case (callback k)
  then show ?thesis using inv by (auto simp: shutdown_inv_def wait_callback_def notify_waiter_def Let_def)
next
  case request
  then show ?thesis using inv by (auto simp: shutdown_inv_def request_shutdown_def split: option.splits)
next
  case (notify k)
  then show ?thesis using inv
    by (auto simp: shutdown_inv_def notify_waiter_def dest: remove1_stays [of _ _ k] notin_set_remove1 set_remove1_subset [THEN subsetD])
next
  case (clear k s)
  then show ?thesis using inv by (auto simp: shutdown_inv_def wait_clear_def)
qed (use inv in \<open>auto simp: shutdown_inv_def\<close>)

text \<open>Once a request was made, the steps that are the duty of the two sides end every wait.\<close>

definition shutdown_duty :: "shutdown_label \<Rightarrow> bool" where
  "shutdown_duty l \<longleftrightarrow> (case l of WArm _ \<Rightarrow> True | WCallback _ \<Rightarrow> True | WWake _ \<Rightarrow> True | WClear _ \<Rightarrow> True | RNotify _ \<Rightarrow> True | _ \<Rightarrow> False)"

definition position_work :: "waiter_position \<Rightarrow> nat" where
  "position_work p = (case p of Installed \<Rightarrow> 4 | Armed \<Rightarrow> 3 | Suspended \<Rightarrow> 2 | Leaving _ \<Rightarrow> 1)"

definition shutdown_work :: "shutdown_world \<Rightarrow> nat" where
  "shutdown_work w = (case sw_current w of None \<Rightarrow> 0 | Some (_, p) \<Rightarrow> position_work p) + length (sw_notifying w)"

definition requested_inv :: "shutdown_world \<Rightarrow> bool" where
  "requested_inv w \<longleftrightarrow> shutdown_inv w \<and> sw_requested w"

lemma requested_stays: "shutdown_step latched w l v \<Longrightarrow> sw_requested w \<Longrightarrow> sw_requested v"
  by (erule shutdown_stepE)
     (auto simp: wait_enter_def wait_callback_def notify_waiter_def wait_clear_def request_shutdown_def Let_def)

lemma shutdown_enabled:
  assumes "requested_inv w" and "shutdown_work w \<noteq> 0"
  shows "\<exists>l v. shutdown_duty l \<and> shutdown_step latched w l v"
proof (cases "sw_notifying w")
  case (Cons k ks)
  then show ?thesis using shutdown_step.notify [of k w] by (intro exI [of _ "RNotify k"]) (auto simp: shutdown_duty_def)
next
  case Nil
  then obtain k p where c: "sw_current w = Some (k, p)" using assms(2) by (auto simp: shutdown_work_def split: option.splits)
  show ?thesis
  proof (cases p)
    case Installed
    then show ?thesis using shutdown_step.arm c by (intro exI [of _ "WArm k"]) (auto simp: shutdown_duty_def)
  next
    case Armed
    then show ?thesis using shutdown_step.callback c by (intro exI [of _ "WCallback k"]) (auto simp: shutdown_duty_def)
  next
    case Suspended
    then have "k \<in> set (sw_notified w)" using assms(1) c Nil by (auto simp: requested_inv_def shutdown_inv_def)
    then show ?thesis using shutdown_step.wake c Suspended by (intro exI [of _ "WWake k"]) (auto simp: shutdown_duty_def)
  next
    case (Leaving s)
    then show ?thesis using shutdown_step.clear [of w k s] c by (auto simp: shutdown_duty_def intro!: exI [of _ "WClear k"])
  qed
qed

lemma shutdown_decreases:
  assumes "shutdown_duty l" and s: "shutdown_step latched w l v"
  shows "shutdown_work v < shutdown_work w"
  using s
proof cases
  case (notify k)
  then have "length (remove1 k (sw_notifying w)) < length (sw_notifying w)" 
    using length_pos_if_in_set [of k "sw_notifying w"] by (simp add: length_remove1)
  then show ?thesis using notify by (auto simp: shutdown_work_def notify_waiter_def)
qed (use assms(1) in \<open>auto simp: shutdown_duty_def shutdown_work_def position_work_def wait_callback_def notify_waiter_def wait_clear_def Let_def
    split: shutdown_label.splits\<close>)

interpretation shutdown: interleaving "\<lambda>w. w = idle_world" "shutdown_step latched" shutdown_inv for latched
  by unfold_locales (auto simp: shutdown_start_inv intro: shutdown_step_inv)

interpretation requested: dutiful requested_inv "shutdown_step latched" requested_inv shutdown_duty shutdown_work for latched
proof unfold_locales
  show "requested_inv t" if "requested_inv s" "shutdown_step latched s l t" for s l t
    using that by (auto simp: requested_inv_def intro: shutdown_step_inv requested_stays)
  show "\<exists>l t. shutdown_duty l \<and> shutdown_step latched s l t" if "requested_inv s" "shutdown_work s \<noteq> 0" for s
    using that by (rule shutdown_enabled)
  show "shutdown_work t < shutdown_work s" if "shutdown_duty l" "shutdown_step latched s l t" for s l t
    using that by (rule shutdown_decreases)
qed

subsection \<open>The control thread that waits\<close>

text \<open>
  \<open>_WaitShutdownRequest\<close> tests the flags, takes \<open>m_mtx\<close>, and waits with the predicate: test, and if it
  fails release the mutex and sleep, in one step for those who take the mutex. A requester does not
  take it: it sets the flag and notifies, which wakes the thread only when it sleeps. \<open>cv_external\<close> is the
  flag of the application, \<open>cv_setting\<close> and \<open>cv_notifying\<close> count the requesters between their steps.
\<close>

datatype control_position = BeforeTest | BeforeLock | BeforePredicate | BeforeSleep | Asleep | WaitOver

record cv_world =
  cv_external :: bool
  cv_request :: bool
  cv_control :: control_position
  cv_setting :: nat
  cv_notifying :: nat

definition shutdown_requested :: "cv_world \<Rightarrow> bool" where
  "shutdown_requested w \<longleftrightarrow> cv_request w \<or> cv_external w"

definition control_step :: "cv_world \<Rightarrow> cv_world" where
  "control_step w =
     w\<lparr>cv_control :=
       (case cv_control w of
          BeforeTest \<Rightarrow> if shutdown_requested w then WaitOver else BeforeLock
        | BeforeLock \<Rightarrow> BeforePredicate
        | BeforePredicate \<Rightarrow> if shutdown_requested w then WaitOver else BeforeSleep
        | BeforeSleep \<Rightarrow> Asleep
        | Asleep \<Rightarrow> Asleep
        | WaitOver \<Rightarrow> WaitOver)\<rparr>"

text \<open>The request: the flag of the application, then the flag of the lifecycle, then the notification.\<close>

definition request_external :: "cv_world \<Rightarrow> cv_world" where
  "request_external w = w\<lparr>cv_external := True, cv_setting := cv_setting w + 1\<rparr>"

definition request_set :: "cv_world \<Rightarrow> cv_world" where
  "request_set w = w\<lparr>cv_request := True, cv_setting := cv_setting w - 1, cv_notifying := cv_notifying w + 1\<rparr>"

definition request_notify :: "cv_world \<Rightarrow> cv_world" where
  "request_notify w =
     w\<lparr>cv_notifying := cv_notifying w - 1, cv_control := (if cv_control w = Asleep then BeforePredicate else cv_control w)\<rparr>"

datatype cv_label = CControl | CRequest | CSet | CNotify | CSpurious

inductive cv_step :: "cv_world \<Rightarrow> cv_label \<Rightarrow> cv_world \<Rightarrow> bool" where
  control: "cv_control w \<notin> {Asleep, WaitOver} \<Longrightarrow> cv_step w CControl (control_step w)"
| request: "cv_step w CRequest (request_external w)"
| set: "0 < cv_setting w \<Longrightarrow> cv_step w CSet (request_set w)"
| notify: "0 < cv_notifying w \<Longrightarrow> cv_step w CNotify (request_notify w)"
| spurious: "cv_control w = Asleep \<Longrightarrow> cv_step w CSpurious (w\<lparr>cv_control := BeforePredicate\<rparr>)"

inductive_cases cv_stepE: "cv_step w l v"

definition cv_start :: cv_world where
  "cv_start = \<lparr>cv_external = False, cv_request = False, cv_control = BeforeTest, cv_setting = 0, cv_notifying = 0\<rparr>"

text \<open>
  The lost wake-up: a request can complete while the control thread is between its predicate and its
  sleep. Then the flags are set, nobody will notify, and only another request or a spurious wake-up
  can move anything.
\<close>

lemma request_can_be_lost:
  "\<exists>w. reachable (\<lambda>s. s = cv_start) cv_step w \<and> shutdown_requested w \<and> cv_control w = Asleep \<and>
     (\<forall>l v. cv_step w l v \<longrightarrow> l \<in> {CRequest, CSpurious})"
proof -
  let ?s = "\<lambda>c e r x n. \<lparr>cv_external = e, cv_request = r, cv_control = c, cv_setting = x, cv_notifying = n\<rparr>"
  note defs = control_step_def shutdown_requested_def request_external_def request_set_def request_notify_def
  have "reachable (\<lambda>s. s = cv_start) cv_step (?s BeforeTest False False 0 0)"
    by (rule reach_start) (simp add: cv_start_def)
  from reach_step [OF this cv_step.control] have "reachable (\<lambda>s. s = cv_start) cv_step (?s BeforeLock False False 0 0)" by (simp add: defs)
  from reach_step [OF this cv_step.control] have "reachable (\<lambda>s. s = cv_start) cv_step (?s BeforePredicate False False 0 0)" by (simp add: defs)
  from reach_step [OF this cv_step.control] have "reachable (\<lambda>s. s = cv_start) cv_step (?s BeforeSleep False False 0 0)" by (simp add: defs)
  from reach_step [OF this cv_step.request] have "reachable (\<lambda>s. s = cv_start) cv_step (?s BeforeSleep True False 1 0)" by (simp add: defs)
  from reach_step [OF this cv_step.set] have "reachable (\<lambda>s. s = cv_start) cv_step (?s BeforeSleep True True 0 1)" by (simp add: defs)
  from reach_step [OF this cv_step.notify] have "reachable (\<lambda>s. s = cv_start) cv_step (?s BeforeSleep True True 0 0)" by (simp add: defs)
  from reach_step [OF this cv_step.control] have r: "reachable (\<lambda>s. s = cv_start) cv_step (?s Asleep True True 0 0)" by (simp add: defs)
  moreover have "l \<in> {CRequest, CSpurious}" if "cv_step (?s Asleep True True 0 0) l v" for l v
    using that by cases simp_all
  ultimately show ?thesis by (intro exI [of _ "?s Asleep True True 0 0"]) (auto simp: shutdown_requested_def)
qed

subsection \<open>Properties\<close>

text \<open>The waiter \<open>k\<close> under way without another outcome, or answered.\<close>

definition served :: "nat \<Rightarrow> shutdown_world \<Rightarrow> bool" where
  "served k w \<longleftrightarrow> (k, Inr ()) \<in> set (sw_results w) \<or>
     (\<exists>p. sw_current w = Some (k, p) \<and> (\<forall>s. p = Leaving s \<longrightarrow> s = CoCompleted))"

lemma served_step: "shutdown_duty l \<Longrightarrow> shutdown_step latched w l v \<Longrightarrow> served k w \<Longrightarrow> served k v"
  by (erule shutdown_stepE)
     (auto simp: served_def shutdown_duty_def notify_waiter_def wait_callback_def wait_clear_def shutdown_wait_result_def Let_def)

lemma served_steps: "steps_by (shutdown_step latched) shutdown_duty w v \<Longrightarrow> served k w \<Longrightarrow> served k v"
  by (induction rule: steps_by.induct) (auto intro: served_step)

text \<open>C38: A coroutine never misses the request to shut down. Under every interleaving, whether or not a
  notification before the wait is kept: when a request was made and a waiter is under way (and has not
  timed out or been cancelled), the steps that the waiter and the requesters still owe lead to its
  successful return; in particular no notification is lost between the test of the flag and the sleep.\<close>

theorem shutdown_request_not_missed:
  assumes "reachable (\<lambda>s. s = idle_world) (shutdown_step latched) w" and "sw_requested w"
    and "sw_current w = Some (k, p)" and "p \<in> {Installed, Armed, Suspended}"
  shows "\<exists>v. steps_by (shutdown_step latched) shutdown_duty w v \<and> (k, Inr ()) \<in> set (sw_results v) \<and> sw_current v = None"
proof -
  have "requested_inv w" using shutdown.reachable_inv [OF assms(1)] assms(2) by (simp add: requested_inv_def)
  then obtain v where v: "steps_by (shutdown_step latched) shutdown_duty w v" "shutdown_work v = 0"
    using requested.duty_finishes by blast
  have c: "sw_current v = None"
    using v(2) by (auto simp: shutdown_work_def position_work_def split: option.splits waiter_position.splits)
  have "served k w" using assms(3,4) by (auto simp: served_def)
  then have "served k v" by (rule served_steps [OF v(1)])
  then show ?thesis using v(1) c by (auto simp: served_def)
qed

text \<open>The request comes between the test of the flag and the arming of the wait, and its notification is lost.\<close>

definition missed_world :: shutdown_world where
  "missed_world = idle_world\<lparr>sw_requested := True, sw_current := Some (0, Installed), sw_entered := [0]\<rparr>"

lemma missed_reachable: "reachable (\<lambda>s. s = idle_world) (shutdown_step False) missed_world"
proof -
  note defs = idle_world_def wait_enter_def request_shutdown_def notify_waiter_def missed_world_def
  let ?R = "reachable (\<lambda>s. s = idle_world) (shutdown_step False)"
  have "?R idle_world" by (rule reach_start) simp
  from reach_step [OF this shutdown_step.enter [of 0]] have "?R (idle_world\<lparr>sw_current := Some (0, Installed), sw_entered := [0]\<rparr>)"
    by (simp add: defs)
  from reach_step [OF this shutdown_step.request]
  have "?R (missed_world\<lparr>sw_notifying := [0]\<rparr>)" by (simp add: defs)
  from reach_step [OF this shutdown_step.notify [of 0]] show ?thesis by (simp add: defs)
qed

theorem shutdown_request_not_missed_witness:
  "\<exists>v. steps_by (shutdown_step False) shutdown_duty missed_world v \<and> (0, Inr ()) \<in> set (sw_results v)"
  using shutdown_request_not_missed [OF missed_reachable, of 0 Installed] by (auto simp: missed_world_def)

end
