(* ===== verification/TypedCalls.thy ===== *)
theory TypedCalls
  imports HostApp Egress
begin

text \<open>
  The typed face of a call: \<open>CoRpc.hpp\<close>, \<open>RpcMethods.hpp\<close>, the builders of \<open>internal/MethodTable.hpp\<close>,
  the call templates of \<open>ICoService.hpp\<close>, the handlers that \<open>RpcHttpBridge.cc\<close> and \<open>RpcWireBridge.cc\<close>
  install and the profiles of \<open>HttpEgress\<close>; and then the whole way of one call, from the caller's
  object through route, egress, HTTP, bridge and dispatcher to the method and back. The codecs of the
  payloads (infra's positional one, the user's for protobuf types) are parameters.
\<close>

subsection \<open>Requests and responses\<close>

text \<open>A codec of values of one type: of a protobuf type, or infra's of a tuple of parameters.\<close>

record 't Codec =
  cd_encode :: "'t \<Rightarrow> string result"
  cd_decode :: "string \<Rightarrow> 't result"

text \<open>The compile-time choice: the specialisation of \<open>ProtoCodec\<close> where there is one.\<close>

definition select_codec :: "'t Codec option \<Rightarrow> 't Codec \<Rightarrow> 't Codec" where
  "select_codec proto positional = (case proto of Some c \<Rightarrow> c | None \<Rightarrow> positional)"

record CoRpcReq =
  req_payload :: string

definition CoRpcReq_FromCodec :: "'t Codec \<Rightarrow> 't \<Rightarrow> CoRpcReq result" where
  "CoRpcReq_FromCodec c v = (case cd_encode c v of Inl e \<Rightarrow> Inl e | Inr p \<Rightarrow> Inr \<lparr>req_payload = p\<rparr>)"

definition CoRpcReq_From :: "'t Codec option \<Rightarrow> 't Codec \<Rightarrow> 't \<Rightarrow> CoRpcReq result" where
  "CoRpcReq_From proto positional = CoRpcReq_FromCodec (select_codec proto positional)"

definition CoRpcReq_Parse :: "'t Codec option \<Rightarrow> 't Codec \<Rightarrow> CoRpcReq \<Rightarrow> 't result" where
  "CoRpcReq_Parse proto positional r = cd_decode (select_codec proto positional) (req_payload r)"

definition ParseProto :: "'t Codec \<Rightarrow> CoRpcReq \<Rightarrow> 't result" where
  "ParseProto c r = cd_decode c (req_payload r)"

record CoRpcResp =
  resp_payload :: string
  resp_error :: "error option"

definition CoRpcResp_FromPayload :: "string \<Rightarrow> CoRpcResp" where
  "CoRpcResp_FromPayload p = \<lparr>resp_payload = p, resp_error = None\<rparr>"

definition CoRpcResp_Error :: "error \<Rightarrow> CoRpcResp" where
  "CoRpcResp_Error e = \<lparr>resp_payload = [], resp_error = Some e\<rparr>"

definition CoRpcResp_ok :: "CoRpcResp \<Rightarrow> bool" where
  "CoRpcResp_ok r \<longleftrightarrow> resp_error r = None"

definition CoRpcResp_FromCodec :: "'t Codec \<Rightarrow> 't \<Rightarrow> CoRpcResp" where
  "CoRpcResp_FromCodec c v = (case cd_encode c v of Inl e \<Rightarrow> CoRpcResp_Error e | Inr p \<Rightarrow> CoRpcResp_FromPayload p)"

definition CoRpcResp_From :: "'t Codec option \<Rightarrow> 't Codec \<Rightarrow> 't \<Rightarrow> CoRpcResp" where
  "CoRpcResp_From proto positional = CoRpcResp_FromCodec (select_codec proto positional)"

subsection \<open>Method declarations\<close>

text \<open>A handler works on the business state of its service; it may throw.\<close>

datatype handler_outcome = Responded CoRpcResp | HandlerThrew

type_synonym 'w handler = "CoRpcReq \<Rightarrow> 'w \<Rightarrow> handler_outcome \<times> 'w"

definition MakeCoRpcInvoker :: "'w handler \<Rightarrow> 'w \<Rightarrow> string \<Rightarrow> string result \<times> 'w" where
  "MakeCoRpcInvoker h w payload =
     (case h \<lparr>req_payload = payload\<rparr> w of
        (HandlerThrew, w') \<Rightarrow> (fail InternalError ''rpc handler threw'', w')
      | (Responded r, w') \<Rightarrow>
          (if \<not> CoRpcResp_ok r then Inl (the (resp_error r)) else Inr (resp_payload r), w'))"

datatype key_value = KeyText string | KeyInteger int

definition ActorKeyToString :: "key_value \<Rightarrow> string result" where
  "ActorKeyToString k = actor_key_of_string (case k of KeyText s \<Rightarrow> s | KeyInteger i \<Rightarrow> int_to_string i)"

text \<open>Infra's \<open>DecodeAt\<close> of the key type is the parameter \<open>decode_at\<close>.\<close>

definition MakePositionalKeyExtractor :: "(string \<Rightarrow> nat \<Rightarrow> key_value result) \<Rightarrow> nat \<Rightarrow> string \<Rightarrow> string result" where
  "MakePositionalKeyExtractor decode_at index payload =
     (case decode_at payload index of Inl e \<Rightarrow> Inl e | Inr k \<Rightarrow> ActorKeyToString k)"

datatype 'w method_decl =
    MethodDecl string "'w handler"
  | PositionalActorMethodDecl string "'w handler" "string \<Rightarrow> nat \<Rightarrow> key_value result" nat
  | ProtoMethodDecl string "'w handler" string string

text \<open>
  \<open>positional\<close> is infra's \<open>kRpcPositionalSchema\<close>; the schemas of a protobuf method are the full names in
  the generated descriptors. A method without a key has an empty \<open>extract_key\<close>, which is never called.
\<close>

definition no_key_extractor :: "string \<Rightarrow> string result" where
  "no_key_extractor payload = fail InternalError ''bad_function_call''"

definition build_method :: "string \<Rightarrow> 'w method_decl \<Rightarrow> 'w RpcMethod" where
  "build_method positional d =
     (case d of
        MethodDecl n h \<Rightarrow>
          \<lparr>m_name = n, request_schema = positional, response_schema = positional, actor_keyed = False,
           invoke = MakeCoRpcInvoker h, extract_key = no_key_extractor\<rparr>
      | PositionalActorMethodDecl n h decode_at i \<Rightarrow>
          \<lparr>m_name = n, request_schema = positional, response_schema = positional, actor_keyed = True,
           invoke = MakeCoRpcInvoker h, extract_key = MakePositionalKeyExtractor decode_at i\<rparr>
      | ProtoMethodDecl n h rq rs \<Rightarrow>
          \<lparr>m_name = n, request_schema = rq, response_schema = rs, actor_keyed = False,
           invoke = MakeCoRpcInvoker h, extract_key = no_key_extractor\<rparr>)"

text \<open>The table of a class: of its \<open>kRpcMethods\<close>, or empty when it declares none.\<close>

definition declared_table :: "string \<Rightarrow> 'w method_decl list option \<Rightarrow> invalid_argument + 'w RpcMethodTable" where
  "declared_table positional ds =
     (case ds of None \<Rightarrow> Inr [] | Some ms \<Rightarrow> BuildMethodTable (map (build_method positional) ms))"

subsection \<open>The calls of a service object\<close>

definition co_call :: "details_check \<Rightarrow> int \<Rightarrow> 'x ICoService \<Rightarrow> RequestContext result \<Rightarrow> string \<Rightarrow> string \<Rightarrow> string
    \<Rightarrow> CoRpcReq \<Rightarrow> RouteFields \<Rightarrow> CallOptions \<Rightarrow> 'x CallWorld \<Rightarrow> CoRpcResp result \<times> 'x CallWorld" where
  "co_call VD now s current positional service mth r custom opt w =
     (case CallSend VD now s current service mth positional positional (req_payload r) custom opt w of
        (Inl e, w') \<Rightarrow> (Inl e, w')
      | (Inr y, w') \<Rightarrow> (Inr (CoRpcResp_FromPayload y), w'))"

definition typed_call :: "details_check \<Rightarrow> int \<Rightarrow> 'x ICoService \<Rightarrow> RequestContext result \<Rightarrow> 'q Codec \<Rightarrow> 'a Codec
    \<Rightarrow> string \<Rightarrow> string \<Rightarrow> string \<Rightarrow> string \<Rightarrow> 'q \<Rightarrow> RouteFields \<Rightarrow> CallOptions \<Rightarrow> 'x CallWorld
    \<Rightarrow> 'a result \<times> 'x CallWorld" where
  "typed_call VD now s current rq rs rq_name rs_name service mth x custom opt w =
     (case cd_encode rq x of
        Inl e \<Rightarrow> (Inl e, w)
      | Inr p \<Rightarrow>
          (case CallSend VD now s current service mth rq_name rs_name p custom opt w of
             (Inl e, w') \<Rightarrow> (Inl e, w')
           | (Inr y, w') \<Rightarrow> (cd_decode rs y, w')))"

text \<open>The view of the resources that a service is bound to; none before.\<close>

definition resource_named :: "nat \<Rightarrow> string \<Rightarrow> (ResourceKey \<times> nat) list option \<Rightarrow> nat option" where
  "resource_named ty name view = (case view of None \<Rightarrow> None | Some m \<Rightarrow> map_of m \<lparr>rk_type = ty, rk_name = name\<rparr>)"

definition resource_default :: "nat \<Rightarrow> (ResourceKey \<times> nat) list option \<Rightarrow> nat option" where
  "resource_default ty = resource_named ty kDefaultResourceName"




subsection \<open>The profiles of the egress\<close>

text \<open>The options of a TCP transport: the defaults of the library, never beyond the limits of the host.\<close>

definition tcp_options :: "nat \<times> nat \<Rightarrow> NetHost.NetworkLimits \<Rightarrow> nat \<times> nat" where
  "tcp_options d l = (min (fst d) (nl_max_inflight l), min (snd d) (NetHost.nl_max_body_bytes l))"

text \<open>
  The client of a profile: the host's for \<open>ProtoWireV1\<close>; for \<open>TcpV1\<close> the one of the egress, made on
  first use. \<open>mine\<close> is \<open>m_rpc_client\<close> under the first lock and \<open>later\<close> under the last: another call
  may have stored one meanwhile, which is then used.
\<close>

definition profile_client :: "Build \<Rightarrow> nat \<times> nat \<Rightarrow> (nat \<times> nat \<Rightarrow> unit result) \<Rightarrow> nat result \<Rightarrow> RpcEgressProfile
    \<Rightarrow> InfraHttpHost option \<Rightarrow> nat option \<Rightarrow> nat option \<Rightarrow> nat result \<times> nat option" where
  "profile_client bd defaults make_transport make_client profile host mine later =
     (if profile = ProtoWireV1 then
        (case Option.bind host nh_rpc_http_client of
           None \<Rightarrow> (fail RuntimeUnavailable ''host RPC HTTP client unavailable'', mine)
         | Some c \<Rightarrow> (Inr c, mine))
      else case mine of
          Some c \<Rightarrow> (Inr c, mine)
        | None \<Rightarrow>
            (case Option.bind host nh_egress_engine of
               None \<Rightarrow> (fail RuntimeUnavailable ''rpc egress: client-only engine unavailable'', mine)
             | Some _ \<Rightarrow>
                 if \<not> bd_rpc_tcp bd then
                   (fail RuntimeUnavailable (''rpc egress: TcpV1 profile requires bbt::infra_rpc_tcp '' @
                      ''(BBT_INFRA_RPC_TCP not configured)''), mine)
                 else
                   (case make_transport (tcp_options defaults (nh_limits (the host))) of
                      Inl e \<Rightarrow> (Inl e, mine)
                    | Inr _ \<Rightarrow>
                        (case make_client of
                           Inl e \<Rightarrow> (Inl e, later)
                         | Inr c \<Rightarrow> (case later of None \<Rightarrow> (Inr c, Some c) | Some c' \<Rightarrow> (Inr c', later))))))"

definition SendRpcProfile :: "Build \<Rightarrow> nat \<times> nat \<Rightarrow> (nat \<times> nat \<Rightarrow> unit result) \<Rightarrow> nat result \<Rightarrow> RpcEgressProfile
    \<Rightarrow> InfraHttpHost option \<Rightarrow> nat option \<Rightarrow> nat option \<Rightarrow> (nat \<Rightarrow> 'w egress_fn)
    \<Rightarrow> RpcAddress \<Rightarrow> RpcEnvelope \<Rightarrow> int \<Rightarrow> 'w \<Rightarrow> RpcEnvelope result \<times> nat option \<times> 'w" where
  "SendRpcProfile bd defaults make_transport make_client profile host mine later client_call addr env dl w =
     (if \<not> bd_rpc_wire bd then
        (fail RuntimeUnavailable (''rpc egress: ProtoWireV1/TcpV1 profile requires bbt::infra_rpc_net '' @
           ''(BBT_INFRA_RPC_NET + protobuf prefix not configured)''), mine, w)
      else case profile_client bd defaults make_transport make_client profile host mine later of
          (Inl e, m) \<Rightarrow> (Inl e, m, w)
        | (Inr c, m) \<Rightarrow> (case client_call c addr env dl w of (r, w') \<Rightarrow> (r, m, w')))"

subsection \<open>The handlers of the bridges\<close>

text \<open>The process that is called: its runtime state, with the published dispatcher, and its business.\<close>

record ('v, 'w) remote =
  rm_state :: "('v, 'w DispatchWorld) AppRuntimeState"
  rm_business :: 'w

text \<open>
  One dispatch without anything in between: its entry, then, when it was not answered, the method on
  the business state and the end with what the method returned.
\<close>

definition serve :: "details_check \<Rightarrow> infra_domains \<Rightarrow> BeginEnv \<Rightarrow> IncomingCallContext \<Rightarrow> RpcEnvelope
    \<Rightarrow> 'w DispatchWorld \<Rightarrow> 'w \<Rightarrow> (RpcEnvelope result \<times> 'w DispatchWorld \<times> 'w) option" where
  "serve VD D be inc env d b =
     (case dispatch_begin VD D be inc env d of
        None \<Rightarrow> None
      | Some (Some r, d') \<Rightarrow> Some (r, d', b)
      | Some (None, d') \<Rightarrow>
          (case locate env d of
             Inl e \<Rightarrow> None
           | Inr (svc, m) \<Rightarrow>
               (case invoke m b (v_payload env) of
                  (out, b') \<Rightarrow>
                    map_option (\<lambda>(r, d''). (r, d'', b'))
                      (dispatch_end VD D (length (dw_pending d') - 1) WCompleted out d'))))"

definition state_dispatch :: "details_check \<Rightarrow> infra_domains \<Rightarrow> BeginEnv \<Rightarrow> IncomingCallContext \<Rightarrow> RpcEnvelope
    \<Rightarrow> ('v, 'w) remote \<Rightarrow> (RpcEnvelope result \<times> ('v, 'w) remote) option" where
  "state_dispatch VD D be inc env r =
     (case dispatch_gate (rm_state r) of
        Inl e \<Rightarrow> Some (Inl e, r)
      | Inr d \<Rightarrow>
          map_option (\<lambda>(x, d', b'). (x, r\<lparr>rm_state := (rm_state r)\<lparr>as_dispatcher := Some d'\<rparr>, rm_business := b'\<rparr>))
            (serve VD D be inc env d (rm_business r)))"

definition http_bridge_handler :: "details_check \<Rightarrow> infra_domains \<Rightarrow> code_numbers \<Rightarrow> BeginEnv \<Rightarrow> IncomingCallContext
    \<Rightarrow> HttpRequest \<Rightarrow> ('v, 'w) remote \<Rightarrow> (HttpResponse \<times> ('v, 'w) remote) option" where
  "http_bridge_handler VD D N be inc req r =
     (case EnvelopeFromRequest (hq_headers req) (hq_body req) of
        Inl e \<Rightarrow> Some (ToHttpResponse VD D N (Inl e), r)
      | Inr env \<Rightarrow> map_option (\<lambda>(x, r'). (ToHttpResponse VD D N x, r')) (state_dispatch VD D be inc env r))"

definition wire_bridge_handler :: "details_check \<Rightarrow> infra_domains \<Rightarrow> BeginEnv \<Rightarrow> IncomingCallContext
    \<Rightarrow> RpcEnvelope \<Rightarrow> ('v, 'w) remote \<Rightarrow> (RpcEnvelope result \<times> ('v, 'w) remote) option" where
  "wire_bridge_handler VD D be inc env r =
     map_option (\<lambda>(x, r'). (case x of Inl e \<Rightarrow> Inl (SafeBoundaryError VD e) | Inr y \<Rightarrow> Inr y, r'))
       (state_dispatch VD D be inc env r)"

text \<open>What leaves the wire bridge passes the boundary, whatever the method returned.\<close>

lemma wire_bridge_boundary:
  assumes "checks_details_only VD" and "wire_bridge_handler VD D be inc env r = Some (Inl e, r')"
  shows "ValidateErrorAtBoundary VD e = Inr ()"
proof -
  obtain x where "(case x of Inl e \<Rightarrow> Inl (SafeBoundaryError VD e) | Inr y \<Rightarrow> Inr y) = (Inl e :: RpcEnvelope result)"
    using assms(2) by (auto simp: wire_bridge_handler_def)
  then show ?thesis using SafeBoundaryError_valid [OF assms(1)] by (cases x) auto
qed

lemma tcp_options_within: "fst (tcp_options d l) \<le> nl_max_inflight l \<and> snd (tcp_options d l) \<le> NetHost.nl_max_body_bytes l"
  by (simp add: tcp_options_def)

text \<open>A client that was stored is the one every later call uses, whatever the library answers.\<close>

lemma profile_client_stays:
  "profile = TcpV1 \<Longrightarrow> profile_client bd d mt mc profile host mine later = (Inr c, m) \<Longrightarrow>
   m = Some c \<and> profile_client bd d mt' mc' profile host' m later' = (Inr c, m)"
  by (auto simp: profile_client_def split: option.splits if_splits sum.splits)


subsection \<open>One call from end to end\<close>

text \<open>The send function that a host binds into its services (\<open>_MakeEgress\<close>).\<close>

definition MakeEgress :: "int \<Rightarrow> int \<Rightarrow> (('x, 'd) AppRuntimeState \<times> 'x) RpcSendFn" where
  "MakeEgress t0 t1 env dl w =
     (case AppSend t0 t1 env dl (fst (cw_ext w)) (snd (cw_ext w)) of
        (r, st, x) \<Rightarrow> (r, w\<lparr>cw_ext := (st, x)\<rparr>))"

text \<open>
  What is relied on outside the sources: the HTTP client builds the request it is given and delivers it
  to the handler of the called process, whose response comes back, headers of other names added.
\<close>

definition foreign :: "headers \<Rightarrow> bool" where
  "foreign hs \<longleftrightarrow> (\<forall>kv \<in> set hs. \<not> starts_with ''x-bbt-'' (fst kv))"

definition delivers :: "(HttpRequest \<Rightarrow> 'r \<Rightarrow> (HttpResponse \<times> 'r) option) \<Rightarrow> headers \<Rightarrow> 'r HttpClient \<Rightarrow> bool" where
  "delivers handler extra client \<longleftrightarrow> keeps_headers (hc_build_request client) \<and> foreign extra \<and>
     (\<forall>req dl r res r'. handler req r = Some (res, r') \<longrightarrow>
        hc_send client req dl r = (Inr (res\<lparr>hr_headers := hr_headers res @ extra\<rparr>), r'))"

text \<open>The method is there, runs concurrently, is bound, and has a free slot and time left.\<close>

definition callee_ready :: "BeginEnv \<Rightarrow> IncomingCallContext \<Rightarrow> string \<Rightarrow> string \<Rightarrow> 'w RpcMethod \<Rightarrow> ('v, 'w) remote \<Rightarrow> bool" where
  "callee_ready be inc service mth m r \<longleftrightarrow>
     (\<exists>d ps. as_dispatcher (rm_state r) = Some d \<and> map_of (dw_services d) service = Some ps \<and>
        table_find (ps_table ps) mth = Some m \<and> \<not> actor_keyed m \<and> ps_instance ps \<noteq> None \<and>
        ps_inflight ps < max_inflight (ps_options ps)) \<and>
     be_now be < in_deadline inc - kReplyDeliveryReserve \<and> service \<noteq> [] \<and> mth \<noteq> []"

text \<open>The caller's object is hosted, its budget is not used up and the route fields are in bounds.\<close>

definition caller_ready :: "int \<Rightarrow> 'x ICoService \<Rightarrow> RequestContext \<Rightarrow> CallOptions \<Rightarrow> RouteFields \<Rightarrow> bool" where
  "caller_ready now s ctx opt custom \<longleftrightarrow> m_object_id s \<noteq> 0 \<and> co_ordered opt = None \<and>
     (\<exists>dl. effective_deadline (Some ctx) opt = Inr dl \<and> now < dl) \<and> (\<exists>meta. add_custom [] custom = Inr meta)"

text \<open>A route over HTTP, no policy, and the egress of the host.\<close>

definition route_ready :: "int \<Rightarrow> string \<Rightarrow> string \<Rightarrow> code_cast \<Rightarrow> 'x egress_host \<Rightarrow> RpcAddress
    \<Rightarrow> ('x, 'd) AppRuntimeState \<Rightarrow> bool" where
  "route_ready t0 service idom C host addr st \<longleftrightarrow>
     fst (FindRoute t0 service st) = Inr addr \<and> transport addr = ''http'' \<and> endpoint addr \<noteq> [] \<and> as_rpc_policy st = None \<and>
     (\<exists>g. as_default_egress st = Some g \<and>
        (\<forall>rpc_call env dl x r x'. HttpEgress_Send idom C LegacyHeaders host rpc_call addr env dl x = (Some r, x') \<longrightarrow>
           g addr env dl x = (r, x')))"

definition call_envelope :: "'x ICoService \<Rightarrow> 'x CallWorld \<Rightarrow> string \<Rightarrow> string \<Rightarrow> string \<Rightarrow> string \<Rightarrow> RouteFields \<Rightarrow> string \<Rightarrow> RpcEnvelope" where
  "call_envelope s w service mth rq_name rs_name custom p =
     \<lparr>v_service = service, v_method = mth, v_request_id = fst (NextRequestId s w), v_request_schema = rq_name,
      v_response_schema = rs_name, v_metadata = (case add_custom [] custom of Inr meta \<Rightarrow> meta | Inl _ \<Rightarrow> []), v_payload = p\<rparr>"

definition method_reply :: "'w RpcMethod \<Rightarrow> RpcEnvelope \<Rightarrow> 'w \<Rightarrow> RpcEnvelope result" where
  "method_reply m env b =
     map_sum id (reply_envelope (v_service env) (v_method env) (v_request_id env) (request_schema m) (response_schema m))
       (fst (invoke m b (v_payload env)))"

text \<open>Request and response are within the limits of the caller's host.\<close>

definition exchange_fits :: "'x HttpClient \<Rightarrow> Bridge.NetworkLimits \<Rightarrow> headers \<Rightarrow> RpcAddress \<Rightarrow> RpcEnvelope \<Rightarrow> HttpResponse \<Rightarrow> bool" where
  "exchange_fits client l extra addr env res \<longleftrightarrow>
     length (v_payload env) \<le> Bridge.nl_max_body_bytes l \<and>
     (\<exists>req. ToHttpRequest (hc_build_request client) env (''http://'' @ endpoint addr @ ''/rpc'') = Inr req \<and>
        header_bytes (hq_headers req) \<le> Bridge.nl_max_header_bytes l) \<and>
     header_bytes (hr_headers res @ extra) \<le> Bridge.nl_max_header_bytes l"

text \<open>What a handler's error is at the caller, and the call of the same method without a network.\<close>

definition carried :: "details_check \<Rightarrow> infra_domains \<Rightarrow> error \<Rightarrow> error" where
  "carried VD D e =
     (let x = SafeBoundaryError VD e
      in \<lparr>err_code = err_code x, err_domain = Some (domain_text D x), err_domain_code = Some (domain_code_text_of D x),
          err_message = err_message x, err_details = []\<rparr>)"

definition local_call :: "details_check \<Rightarrow> infra_domains \<Rightarrow> 'q Codec \<Rightarrow> 'a Codec \<Rightarrow> 'w RpcMethod \<Rightarrow> 'q \<Rightarrow> 'w \<Rightarrow> 'a result \<times> 'w" where
  "local_call VD D rq rs m x b =
     (case cd_encode rq x of
        Inl e \<Rightarrow> (Inl e, b)
      | Inr p \<Rightarrow>
          (case invoke m b p of
             (Inl e, b') \<Rightarrow> (Inl (carried VD D e), b')
           | (Inr y, b') \<Rightarrow> (cd_decode rs y, b')))"

lemma serve_concurrent:
  assumes acc: "accepted_by be inc env d meta svc m" and m: "\<not> actor_keyed m" "ps_instance svc \<noteq> None"
  obtains d' where "serve VD D be inc env d b = Some (method_reply m env b, d', snd (invoke m b (v_payload env)))"
    and "map_of (dw_services d') = map_of (dw_services d)"
proof -
  have loc: "locate env d = Inr (svc, m)" "map_of (dw_services d) (v_service env) = Some svc"
    using acc locate_live [of env d svc m] by (auto simp: accepted_by_def)
  let ?svc = "svc\<lparr>ps_inflight := ps_inflight svc + 1\<rparr>"
  let ?pc = "pending_call env m (request_context inc env meta) False None None None"
  let ?d1 = "(put_service (v_service env) ?svc d)\<lparr>dw_registry := dw_registry d, dw_next_task := dw_next_task d + 1,
     dw_pending := dw_pending d @ [?pc]\<rparr>"
  have b: "dispatch_begin VD D be inc env d = Some (None, ?d1)"
    using acc m by (simp add: dispatch_begin_def accepted_by_def request_context_def enter_concurrent_def Let_def)
  let ?d2 = "put_service (v_service env) svc (?d1\<lparr>dw_pending := dw_pending d\<rparr>)"
  have e: "dispatch_end VD D (length (dw_pending ?d1) - 1) WCompleted out ?d1 =
      Some (case out of Inl e \<Rightarrow> Inl e | Inr p \<Rightarrow> Inr (pending_reply ?pc p), ?d2)" for out
    by (cases out) (simp_all add: dispatch_end_def pending_call_def Let_def)
  have r: "(case out of Inl e \<Rightarrow> Inl e | Inr p \<Rightarrow> Inr (pending_reply ?pc p)) =
      map_sum id (reply_envelope (v_service env) (v_method env) (v_request_id env) (request_schema m) (response_schema m)) out" for out :: "string result"
    by (cases out) (simp_all add: pending_reply_def pending_call_def)
  have "serve VD D be inc env d b = Some (method_reply m env b, ?d2, snd (invoke m b (v_payload env)))"
    using e by (simp add: serve_def b loc(1) method_reply_def r case_prod_unfold)
  then show ?thesis by (rule that) (auto simp: loc(2))
qed


lemma callee_serves:
  assumes "callee_ready be inc (v_service env) (v_method env) m r" and "v_request_id env \<noteq> []"
    and "parse_metadata no_metadata (v_metadata env) = Inr meta" and "v_request_schema env = request_schema m"
  obtains r' where "state_dispatch VD D be inc env r = Some (method_reply m env (rm_business r), r')"
    and "rm_business r' = snd (invoke m (rm_business r) (v_payload env))"
    and "callee_ready be inc (v_service env) (v_method env) m r'"
proof -
  obtain d ps where d: "as_dispatcher (rm_state r) = Some d" "map_of (dw_services d) (v_service env) = Some ps"
      "table_find (ps_table ps) (v_method env) = Some m" "\<not> actor_keyed m" "ps_instance ps \<noteq> None"
      "ps_inflight ps < max_inflight (ps_options ps)"
    using assms(1) unfolding callee_ready_def by blast
  have a: "accepted_by be inc env d meta ps m"
    using assms d by (simp add: accepted_by_def check_request_def locate_def callee_ready_def)
  obtain d' where s: "serve VD D be inc env d (rm_business r) =
      Some (method_reply m env (rm_business r), d', snd (invoke m (rm_business r) (v_payload env)))"
    and k: "map_of (dw_services d') = map_of (dw_services d)"
    using serve_concurrent [OF a d(4,5)] .
  let ?r = "r\<lparr>rm_state := (rm_state r)\<lparr>as_dispatcher := Some d'\<rparr>, rm_business := snd (invoke m (rm_business r) (v_payload env))\<rparr>"
  have "callee_ready be inc (v_service env) (v_method env) m ?r"
    using assms(1) d k by (auto simp: callee_ready_def)
  moreover have "state_dispatch VD D be inc env r = Some (method_reply m env (rm_business r), ?r)"
    by (simp add: state_dispatch_def dispatch_gate_def d(1) s)
  ultimately show ?thesis by (intro that) simp_all
qed

lemma foreign_header: "foreign extra \<Longrightarrow> starts_with ''x-bbt-'' n \<Longrightarrow> HeaderOf (hs @ extra) n = HeaderOf hs n"
proof -
  assume f: "foreign extra" and n: "starts_with ''x-bbt-'' n"
  have "HeaderOf extra n = None" using f n by (induction extra n rule: HeaderOf.induct) (auto simp: foreign_def)
  then show ?thesis by (simp add: HeaderOf_append split: option.split)
qed

lemma foreign_response:
  "foreign extra \<Longrightarrow> EnvelopeFromResponse idom C (res\<lparr>hr_headers := hr_headers res @ extra\<rparr>) = EnvelopeFromResponse idom C res"
  by (simp add: EnvelopeFromResponse_def foreign_header starts_with_def Let_def)

text \<open>The egress, the bridge on the other side and the way back.\<close>

lemma egress_reaches_method:
  assumes deliver: "delivers (http_bridge_handler VD D N be inc) extra client" and codes: "codes_numbered N C"
    and callee: "callee_ready be inc (v_service env) (v_method env) m r" "v_request_id env \<noteq> []"
      "parse_metadata no_metadata (v_metadata env) = Inr meta" "v_request_schema env = request_schema m"
    and addr: "transport addr = ''http''" "endpoint addr \<noteq> []"
    and fits: "exchange_fits client l extra addr env (ToHttpResponse VD D N (method_reply m env (rm_business r)))"
  obtains r' where "HttpEgress_Send idom C LegacyHeaders (Some (client, l)) rpc_call addr env dl r =
      (EnvelopeFromResponse idom C (ToHttpResponse VD D N (method_reply m env (rm_business r))), r')"
    and "rm_business r' = snd (invoke m (rm_business r) (v_payload env))"
    and "callee_ready be inc (v_service env) (v_method env) m r'"
proof -
  let ?res = "ToHttpResponse VD D N (method_reply m env (rm_business r))"
  obtain req where req: "ToHttpRequest (hc_build_request client) env (''http://'' @ endpoint addr @ ''/rpc'') = Inr req"
      "header_bytes (hq_headers req) \<le> Bridge.nl_max_header_bytes l"
    using fits unfolding exchange_fits_def by blast
  obtain r' where r': "state_dispatch VD D be inc env r = Some (method_reply m env (rm_business r), r')"
      "rm_business r' = snd (invoke m (rm_business r) (v_payload env))"
      "callee_ready be inc (v_service env) (v_method env) m r'"
    using callee_serves [OF callee] .
  have "EnvelopeFromRequest (hq_headers req) (hq_body req) = Inr env"
    using request_read_back req(1) deliver unfolding delivers_def by blast
  then have "http_bridge_handler VD D N be inc req r = Some (?res, r')"
    by (simp add: http_bridge_handler_def r'(1))
  then have "hc_send client req dl r = (Inr (?res\<lparr>hr_headers := hr_headers ?res @ extra\<rparr>), r')"
    using deliver by (simp add: delivers_def)
  then have "HttpEgress_Send idom C LegacyHeaders (Some (client, l)) rpc_call addr env dl r = (EnvelopeFromResponse idom C ?res, r')"
    using deliver fits req addr by (simp add: HttpEgress_Send_def exchange_fits_def foreign_response delivers_def)
  then show ?thesis using that r'(2,3) by blast
qed

lemma MakeEgress_sends:
  assumes route: "route_ready t0 (v_service env) idom C host addr st" and ext: "cw_ext w = (st, r)"
    and sent: "HttpEgress_Send idom C LegacyHeaders host (\<lambda>_ _ _ x. (Inr env, x)) addr env dl r = (Some y, r')"
  obtains w' where "MakeEgress t0 t1 env dl w = (y, w')" and "snd (cw_ext w') = r'"
proof -
  obtain st' where f: "FindRoute t0 (v_service env) st = (Inr addr, st')"
    using route by (cases "FindRoute t0 (v_service env) st") (simp add: route_ready_def)
  have same: "as_rpc_policy st' = as_rpc_policy st" "as_default_egress st' = as_default_egress st"
    using f by (auto simp: FindRoute_def split: option.splits if_splits prod.splits)
  obtain g where g: "as_default_egress st = Some g" "g addr env dl r = (y, r')"
    using route sent unfolding route_ready_def by blast
  have "MakeEgress t0 t1 env dl w = (y, w\<lparr>cw_ext := (st', r')\<rparr>)"
    using route f g same by (simp add: MakeEgress_def ext AppSend_def preflight_def route_ready_def)
  then show ?thesis by (rule that) simp
qed

lemma plain_call_sends:
  assumes ready: "caller_ready now s ctx opt custom" and send: "m_send s = Some send"
  shows "\<exists>dl. \<forall>y w'. send (call_envelope s w service mth rq_name rs_name custom p) dl (snd (NextRequestId s w)) = (y, w') \<longrightarrow>
    CallSend VD now s (Inr ctx) service mth rq_name rs_name p custom opt w =
      (call_answer (call_envelope s w service mth rq_name rs_name custom p) y, w')"
proof -
  obtain dl meta where r: "m_object_id s \<noteq> 0" "co_ordered opt = None" "effective_deadline (Some ctx) opt = Inr dl" "now < dl"
      "add_custom [] custom = Inr meta"
    using ready unfolding caller_ready_def by blast
  have e: "call_envelope s w service mth rq_name rs_name custom p =
      \<lparr>v_service = service, v_method = mth, v_request_id = fst (NextRequestId s w), v_request_schema = rq_name,
       v_response_schema = rs_name, v_metadata = meta, v_payload = p\<rparr>"
    by (simp add: call_envelope_def r(5))
  have "CallSend VD now s (Inr ctx) service mth rq_name rs_name p custom opt w =
    (call_answer (call_envelope s w service mth rq_name rs_name custom p) y, w')"
    if "send (call_envelope s w service mth rq_name rs_name custom p) dl (snd (NextRequestId s w)) = (y, w')" for y w'
    using r send that unfolding e
    by (cases y) (auto simp: CallSend_def finish_call_def AdaptCallOptions_def start_io_def io_hook_def call_answer_def
        Let_def case_prod_unfold)
  then show ?thesis by blast
qed

text \<open>What the caller makes of the response that carries a reply.\<close>

lemma carried_reply:
  assumes "codes_numbered N C" and "response_schema m = v_response_schema env"
  shows "\<exists>ans. EnvelopeFromResponse idom C (ToHttpResponse VD D N (method_reply m env b)) = Some ans \<and>
    call_answer env ans = (case fst (invoke m b (v_payload env)) of Inl e \<Rightarrow> Inl (carried VD D e) | Inr y \<Rightarrow> Inr y)"
  using assms(2)
  by (cases "fst (invoke m b (v_payload env))")
     (simp_all add: http_reply_roundtrip [OF assms(1)] method_reply_def call_answer_def carried_def reply_envelope_def Let_def)

subsection \<open>Properties\<close>

text \<open>C39: A remote call is a local call. A call of a method that runs concurrently, from a hosted service
  over a route to a host of the header profile, gives the caller exactly what the method gives on the
  encoded request: its decoded response, or its error as the boundary carries it; the method ran once,
  on the state it had, and its slot is free again. Neither route, limits, bridge, dispatcher nor the
  checks of the reply add or lose anything.\<close>

theorem remote_call_is_local_call:
  assumes "caller_ready now s ctx opt custom" and "m_send s = Some (MakeEgress t0 t1)" and "cw_ext w = (st, r)"
    and "route_ready t0 service idom C (Some (client, l)) addr st"
    and "delivers (http_bridge_handler VD D N be inc) extra client" and "codes_numbered N C"
    and "callee_ready be inc service mth m r" and "request_schema m = rq_name" and "response_schema m = rs_name"
    and "\<And>p env. env = call_envelope s w service mth rq_name rs_name custom p \<Longrightarrow> cd_encode rq x = Inr p \<Longrightarrow>
      exchange_fits client l extra addr env (ToHttpResponse VD D N (method_reply m env (rm_business r)))"
    and "typed_call VD now s (Inr ctx) rq rs rq_name rs_name service mth x custom opt w = (y, w')"
  shows "(y, rm_business (snd (cw_ext w'))) = local_call VD D rq rs m x (rm_business r) \<and>
    callee_ready be inc service mth m (snd (cw_ext w'))"
proof (cases "cd_encode rq x")
  case (Inl e)
  then show ?thesis using assms(3,7,11) by (auto simp: typed_call_def local_call_def)
next
  case (Inr p)
  let ?env = "call_envelope s w service mth rq_name rs_name custom p" and ?w = "snd (NextRequestId s w)"
  let ?reply = "method_reply m ?env (rm_business r)"
  have env: "v_service ?env = service" "v_method ?env = mth" "v_payload ?env = p" "v_request_schema ?env = rq_name"
      "v_response_schema ?env = rs_name" "v_request_id ?env \<noteq> []"
    by (simp_all add: call_envelope_def NextRequestId_def)
  obtain cm where cm: "add_custom [] custom = Inr cm" using assms(1) by (auto simp: caller_ready_def)
  have meta: "parse_metadata no_metadata (v_metadata ?env) = Inr (no_metadata\<lparr>pm_custom := custom\<rparr>)"
    using parse_call_metadata(1) [OF cm] by (simp add: call_envelope_def cm)
  obtain ans where ans: "EnvelopeFromResponse idom C (ToHttpResponse VD D N ?reply) = Some ans"
    and local: "call_answer ?env ans = (case fst (invoke m (rm_business r) p) of Inl e \<Rightarrow> Inl (carried VD D e) | Inr y \<Rightarrow> Inr y)"
    using carried_reply [OF assms(6), where m = m and env = "?env" and b = "rm_business r" and idom = idom and VD = VD and D = D]
      assms(9) env by auto
  obtain dl where dl: "\<forall>y w'. MakeEgress t0 t1 ?env dl ?w = (y, w') \<longrightarrow>
      CallSend VD now s (Inr ctx) service mth rq_name rs_name p custom opt w = (call_answer ?env y, w')"
    using plain_call_sends [OF assms(1,2)] by blast
  obtain r' where r': "HttpEgress_Send idom C LegacyHeaders (Some (client, l)) (\<lambda>_ _ _ x. (Inr ?env, x)) addr ?env dl r = (Some ans, r')"
      "rm_business r' = snd (invoke m (rm_business r) p)" "callee_ready be inc service mth m r'"
  proof (rule egress_reaches_method [OF assms(5,6), where idom = idom and dl = dl and rpc_call = "\<lambda>_ _ _ x. (Inr ?env, x)"])
    show "callee_ready be inc (v_service ?env) (v_method ?env) m r" "v_request_schema ?env = request_schema m"
      using assms(7,8) env by simp_all
    show "transport addr = ''http''" "endpoint addr \<noteq> []" using assms(4) by (simp_all add: route_ready_def)
    show "exchange_fits client l extra addr ?env (ToHttpResponse VD D N ?reply)" by (rule assms(10) [OF refl Inr])
  qed (use env meta ans in auto)
  obtain w1 where w1: "MakeEgress t0 t1 ?env dl ?w = (ans, w1)" "snd (cw_ext w1) = r'"
    using MakeEgress_sends [of t0 ?env idom C "Some (client, l)" addr st ?w r dl ans r' t1] assms(3,4) r'(1) env
    by (auto simp: NextRequestId_def)
  have "(y, w') = (case call_answer ?env ans of Inl e \<Rightarrow> (Inl e, w1) | Inr z \<Rightarrow> (cd_decode rs z, w1))"
    using assms(11) by (simp add: typed_call_def Inr dl [rule_format, OF w1(1)] split: sum.splits)
  then show ?thesis unfolding local using w1(2) r'(2,3)
    by (auto simp: local_call_def Inr case_prod_unfold split: sum.splits)
qed

text \<open>A store on another host: a protobuf method that keeps what it was sent and answers it marked.\<close>

definition store_request :: "string Codec" where
  "store_request = \<lparr>cd_encode = (\<lambda>x. if x = [] then fail InvalidArgument ''empty'' else Inr (''q'' @ x)),
     cd_decode = (\<lambda>p. case p of [] \<Rightarrow> fail ProtocolError ''no request'' | _ # x \<Rightarrow> Inr x)\<rparr>"

definition store_response :: "string Codec" where
  "store_response = \<lparr>cd_encode = (\<lambda>x. Inr (''a'' @ x)),
     cd_decode = (\<lambda>p. case p of [] \<Rightarrow> fail ProtocolError ''no response'' | _ # x \<Rightarrow> Inr x)\<rparr>"

definition store_put :: "string list handler" where
  "store_put r b =
     (case ParseProto store_request r of
        Inl e \<Rightarrow> (Responded (CoRpcResp_Error e), b)
      | Inr x \<Rightarrow> (Responded (CoRpcResp_FromCodec store_response (x @ ''!'')), x # b))"

definition store_method :: "string list RpcMethod" where
  "store_method = build_method ''positional'' (ProtoMethodDecl ''put'' store_put ''Put'' ''Done'')"

definition store_host :: "(unit, string list) remote" where
  "store_host =
     \<lparr>rm_state = \<lparr>as_routes = [], as_dynamic_routes = None, as_rpc_policy = None, as_default_egress = None, as_seam_send = None,
        as_dispatcher = Some (InboundDispatcher
          [(''kv'', \<lparr>ps_options = \<lparr>execution = Concurrent, max_inflight = 1, mailbox_capacity = 0, max_actors = 0,
               ordered_ingress = False, max_ordered_streams = 0, max_cached_results = 0, max_cached_result_bytes = 0\<rparr>,
             ps_table = [store_method], ps_instance = Some 1, ps_ordered_ingress = None\<rparr>)] empty_registry),
        as_tables = [], as_instances = [], as_registry = None\<rparr>,
      rm_business = [''old'']\<rparr>"

definition store_handler :: "HttpRequest \<Rightarrow> (unit, string list) remote \<Rightarrow> (HttpResponse \<times> (unit, string list) remote) option" where
  "store_handler = http_bridge_handler lenient no_domains demo_numbers demo_env demo_incoming"

definition store_client :: "(unit, string list) remote HttpClient" where
  "store_client =
     \<lparr>hc_build_request = demo_build,
      hc_send = (\<lambda>req dl r. case store_handler req r of
         None \<Rightarrow> (fail TransportError [], r)
       | Some (res, r') \<Rightarrow> (Inr (res\<lparr>hr_headers := hr_headers res @ [(''server'', ''s'')]\<rparr>), r'))\<rparr>"

definition store_limits :: Bridge.NetworkLimits where
  "store_limits = \<lparr>Bridge.NetworkLimits.nl_max_body_bytes = 64, Bridge.NetworkLimits.nl_max_header_bytes = 1024\<rparr>"

definition store_address :: RpcAddress where
  "store_address = \<lparr>transport = ''http'', endpoint = ''h:1''\<rparr>"

definition store_caller_state :: "((unit, string list) remote, unit) AppRuntimeState" where
  "store_caller_state =
     \<lparr>as_routes = [(''kv'', store_address)], as_dynamic_routes = None, as_rpc_policy = None,
      as_default_egress = Some (\<lambda>addr env dl x.
        case HttpEgress_Send ''infra'' demo_cast LegacyHeaders (Some (store_client, store_limits))
            (\<lambda>_ _ _ x. (fail InternalError [], x)) addr env dl x of
          (None, x') \<Rightarrow> (fail InternalError [], x') | (Some r, x') \<Rightarrow> (r, x')),
      as_seam_send = None, as_dispatcher = None, as_tables = [], as_instances = [], as_registry = None\<rparr>"

definition store_caller :: "(((unit, string list) remote, unit) AppRuntimeState \<times> (unit, string list) remote) ICoService" where
  "store_caller = \<lparr>m_object_id = 7, m_actor_key = None, m_send = Some (MakeEgress 0 0)\<rparr>"

definition store_world :: "(((unit, string list) remote, unit) AppRuntimeState \<times> (unit, string list) remote) CallWorld" where
  "store_world = \<lparr>cw_sessions = no_sessions, s_call_seq = 0, cw_ext = (store_caller_state, store_host)\<rparr>"

lemma demo_codes: "codes_numbered demo_numbers demo_cast"
  unfolding codes_numbered_def
proof
  fix c show "0 \<le> demo_numbers c \<and> demo_numbers c < 2 ^ 31 \<and> demo_cast (demo_numbers c) = c"
    by (cases c) (simp_all add: demo_numbers_def demo_cast_def)
qed

lemma store_delivers: "delivers store_handler [(''server'', ''s'')] store_client"
  by (auto simp: delivers_def keeps_headers_def demo_build_def foreign_def starts_with_def store_client_def)

lemma store_ready: "callee_ready demo_env demo_incoming ''kv'' ''put'' store_method store_host"
  by (simp add: callee_ready_def store_host_def InboundDispatcher_def per_service_def store_method_def build_method_def
      demo_env_def demo_incoming_def kReplyDeliveryReserve_def)

lemma store_route: "route_ready 0 ''kv'' ''infra'' demo_cast (Some (store_client, store_limits)) store_address store_caller_state"
  by (simp add: route_ready_def store_caller_state_def FindRoute_def store_address_def HttpEgress_Send_def)

lemma store_fits:
  assumes "p = ''qab''"
  shows "exchange_fits store_client store_limits [(''server'', ''s'')] store_address
     (call_envelope store_caller store_world ''kv'' ''put'' ''Put'' ''Done'' [] p)
     (ToHttpResponse lenient no_domains demo_numbers
        (method_reply store_method (call_envelope store_caller store_world ''kv'' ''put'' ''Put'' ''Done'' [] p) (rm_business store_host)))"
proof -
  let ?env = "call_envelope store_caller store_world ''kv'' ''put'' ''Put'' ''Done'' [] ''qab''"
  have "length (v_payload ?env) \<le> Bridge.nl_max_body_bytes store_limits" by code_simp
  moreover have "header_bytes (request_headers ?env @ [(''host'', ''h'')]) \<le> Bridge.nl_max_header_bytes store_limits" by code_simp
  moreover have "header_bytes (hr_headers (ToHttpResponse lenient no_domains demo_numbers (method_reply store_method ?env (rm_business store_host)))
      @ [(''server'', ''s'')]) \<le> Bridge.nl_max_header_bytes store_limits" by code_simp
  ultimately show ?thesis using assms
    by (simp add: exchange_fits_def ToHttpRequest_def store_client_def demo_build_def)
qed

theorem remote_call_is_local_call_witness:
  "case typed_call lenient 1 store_caller (Inr demo_ctx) store_request store_response ''Put'' ''Done'' ''kv'' ''put'' ''ab'' []
     demo_opts store_world of (y, w') \<Rightarrow> (y, rm_business (snd (cw_ext w'))) = (Inr ''ab!'', [''ab'', ''old''])"
proof (cases "typed_call lenient 1 store_caller (Inr demo_ctx) store_request store_response ''Put'' ''Done'' ''kv'' ''put'' ''ab'' []
     demo_opts store_world")
  case (Pair y w')
  have c: "caller_ready 1 store_caller demo_ctx demo_opts []"
    by (simp add: caller_ready_def store_caller_def demo_ctx_def demo_opts_def effective_deadline_def deadline_max_def)
  have s: "m_send store_caller = Some (MakeEgress 0 0)" "cw_ext store_world = (store_caller_state, store_host)"
    by (simp_all add: store_caller_def store_world_def)
  have m: "request_schema store_method = ''Put''" "response_schema store_method = ''Done''"
    by (simp_all add: store_method_def build_method_def)
  have f: "exchange_fits store_client store_limits [(''server'', ''s'')] store_address env
      (ToHttpResponse lenient no_domains demo_numbers (method_reply store_method env (rm_business store_host)))"
    if "env = call_envelope store_caller store_world ''kv'' ''put'' ''Put'' ''Done'' [] p" "cd_encode store_request ''ab'' = Inr p" for p env
    using store_fits [of p] that by (simp add: store_request_def)
  have "local_call lenient no_domains store_request store_response store_method ''ab'' (rm_business store_host) = (Inr ''ab!'', [''ab'', ''old''])"
    by code_simp
  then show ?thesis
    using remote_call_is_local_call [OF c s store_route store_delivers [unfolded store_handler_def] demo_codes store_ready m f Pair]
    by (simp add: Pair)
qed

end
