(* ===== verification/Resources.thy ===== *)
theory Resources
  imports NetHost
begin

text \<open>
  The two resources the framework ships: \<open>RedisNetResource.hpp\<close> and \<open>MongoDbResource.hpp\<close>, and
  \<open>CloseResource\<close> of \<open>src/host/ResourceClose.cc\<close>. The clients, the engine and its thread are
  third-party: their answers are arguments, the calls to them a log. The commands only forward to the
  client. \<open>Close\<close> may be called by several threads at once; its steps are interleaved.
\<close>

subsection \<open>Creation\<close>

datatype resource_call =
    RedisEngineCreate | RedisThreadStart | RedisClientCreate | RedisClientClose | RedisRequestClose | RedisJoin
  | MongoValidateConfig | MongoValidateTarget | MongoCreate | MongoStart | MongoCollection | MongoCollClose | MongoDbClose

record RedisNetResource =
  rd_engine :: nat
  rd_client :: nat
  rd_closed :: bool
  rd_engine_stopped :: bool

definition kRedisEngineRunWait :: int where "kRedisEngineRunWait = 5000 * 1000000"

text \<open>The bounded wait: whether it is over within the observations.\<close>

fun redis_wait :: "int \<Rightarrow> engine_poll list \<Rightarrow> bool" where
  "redis_wait until [] = False"
| "redis_wait until (p # ps) = (ep_running p \<or> ep_finished p \<or> until \<le> ep_now p \<or> redis_wait until ps)"

text \<open>The answers: the clock, the observations, the phase after the loop, what the run ended with.\<close>

record RedisEnv =
  re_now :: int
  re_engine :: nat
  re_polls :: "engine_poll list"
  re_running :: bool
  re_run_message :: string
  re_client :: "nat result"

definition Redis_Create :: "RedisEnv \<Rightarrow> (RedisNetResource result \<times> resource_call list) option" where
  "Redis_Create E =
     (if \<not> redis_wait (re_now E + kRedisEngineRunWait) (re_polls E) then None
      else if \<not> re_running E then
        Some (fail RuntimeUnavailable (''redis-net: engine not running: '' @ re_run_message E),
          [RedisEngineCreate, RedisThreadStart, RedisRequestClose, RedisJoin])
      else
        (case re_client E of
           Inl e \<Rightarrow> Some (Inl e, [RedisEngineCreate, RedisThreadStart, RedisClientCreate, RedisRequestClose, RedisJoin])
         | Inr c \<Rightarrow> Some (Inr \<lparr>rd_engine = re_engine E, rd_client = c, rd_closed = False, rd_engine_stopped = False\<rparr>,
             [RedisEngineCreate, RedisThreadStart, RedisClientCreate])))"

record MongoDbResource =
  md_db :: nat
  md_coll :: nat
  md_closed :: bool
  md_coll_closed :: bool

record MongoEnv =
  me_config :: "unit result"
  me_target :: "unit result"
  me_db :: "nat result"
  me_started :: "unit result"
  me_coll :: "nat result"

definition Mongo_Create :: "MongoEnv \<Rightarrow> MongoDbResource result \<times> resource_call list" where
  "Mongo_Create E =
     (case me_config E of
        Inl e \<Rightarrow> (Inl e, [MongoValidateConfig])
      | Inr _ \<Rightarrow>
          (case me_target E of
             Inl e \<Rightarrow> (Inl e, [MongoValidateConfig, MongoValidateTarget])
           | Inr _ \<Rightarrow>
               (case me_db E of
                  Inl e \<Rightarrow> (Inl e, [MongoValidateConfig, MongoValidateTarget, MongoCreate])
                | Inr db \<Rightarrow>
                    (case me_started E of
                       Inl e \<Rightarrow> (Inl e, [MongoValidateConfig, MongoValidateTarget, MongoCreate, MongoStart])
                     | Inr _ \<Rightarrow>
                         (case me_coll E of
                            Inl e \<Rightarrow> (Inl e, [MongoValidateConfig, MongoValidateTarget, MongoCreate, MongoStart, MongoCollection])
                          | Inr c \<Rightarrow>
                              (Inr \<lparr>md_db = db, md_coll = c, md_closed = False, md_coll_closed = False\<rparr>,
                               [MongoValidateConfig, MongoValidateTarget, MongoCreate, MongoStart, MongoCollection]))))))"

subsection \<open>Close\<close>

text \<open>
  One step of the thread that closes; \<open>stopped\<close> is what the engine's run and phase say after the join.
  The parts of \<open>Close\<close> are numbered; the first is the gate under the lock.
\<close>

definition redis_gate :: "RedisNetResource \<Rightarrow> bool \<times> RedisNetResource" where
  "redis_gate x = (if rd_closed x then (False, x) else (True, x\<lparr>rd_closed := True\<rparr>))"

definition redis_part :: "bool \<Rightarrow> nat \<Rightarrow> RedisNetResource \<Rightarrow> resource_call list \<times> RedisNetResource" where
  "redis_part stopped k x =
     (if k = 0 then ([RedisClientClose], x)
      else if k = 1 then ([RedisRequestClose], x)
      else if k = 2 then ([RedisJoin], x)
      else ([], x\<lparr>rd_engine_stopped := stopped\<rparr>))"

definition redis_stopped :: "string option \<Rightarrow> EnginePhase \<Rightarrow> bool" where
  "redis_stopped ec phase \<longleftrightarrow> ec = None \<and> phase = EngineStopped"

definition mongo_gate :: "MongoDbResource \<Rightarrow> bool \<times> MongoDbResource" where
  "mongo_gate x = (if md_closed x then (False, x) else (True, x\<lparr>md_closed := True\<rparr>))"

definition mongo_part :: "nat \<Rightarrow> MongoDbResource \<Rightarrow> resource_call list \<times> MongoDbResource" where
  "mongo_part k x =
     (if k = 0 then ([MongoCollClose], x)
      else if k = 1 then ([], x\<lparr>md_coll_closed := True\<rparr>)
      else ([MongoDbClose], x))"

text \<open>\<open>CloseResource\<close>: nothing for a null pointer.\<close>

definition CloseCloseable :: "('r \<Rightarrow> 'r) \<Rightarrow> 'r option \<Rightarrow> 'r option" where
  "CloseCloseable close c = map_option close c"

subsection \<open>Several closers\<close>

text \<open>
  Both resources share the shape: a gate that one thread passes, then \<open>parts\<close> steps. The world knows the
  resource, the calls made, the progress of the thread that passed and the threads that returned.
\<close>

record 'r closing =
  cz_resource :: 'r
  cz_calls :: "resource_call list"
  cz_winner :: "(nat \<times> nat) option"
  cz_won :: "nat list"
  cz_returned :: "nat list"

datatype close_label = CEnter nat | CPart | CReturn

inductive close_step :: "('r \<Rightarrow> bool \<times> 'r) \<Rightarrow> (nat \<Rightarrow> 'r \<Rightarrow> resource_call list \<times> 'r) \<Rightarrow> nat
    \<Rightarrow> 'r closing \<Rightarrow> close_label \<Rightarrow> 'r closing \<Rightarrow> bool" for gate part parts where
  enter: "gate (cz_resource w) = (True, x) \<Longrightarrow>
    close_step gate part parts w (CEnter t) (w\<lparr>cz_resource := x, cz_winner := Some (t, 0), cz_won := t # cz_won w\<rparr>)"
| again: "gate (cz_resource w) = (False, x) \<Longrightarrow>
    close_step gate part parts w (CEnter t) (w\<lparr>cz_resource := x, cz_returned := t # cz_returned w\<rparr>)"
| part: "cz_winner w = Some (t, k) \<Longrightarrow> k < parts \<Longrightarrow>
    close_step gate part parts w CPart (w\<lparr>cz_calls := cz_calls w @ fst (part k (cz_resource w)),
      cz_resource := snd (part k (cz_resource w)), cz_winner := Some (t, Suc k)\<rparr>)"
| return: "cz_winner w = Some (t, parts) \<Longrightarrow>
    close_step gate part parts w CReturn (w\<lparr>cz_winner := None, cz_returned := t # cz_returned w\<rparr>)"

definition unclosed_world :: "'r \<Rightarrow> 'r closing" where
  "unclosed_world x = \<lparr>cz_resource = x, cz_calls = [], cz_winner = None, cz_won = [], cz_returned = []\<rparr>"

fun close_plan :: "(nat \<Rightarrow> 'r \<Rightarrow> resource_call list \<times> 'r) \<Rightarrow> 'r \<Rightarrow> nat \<Rightarrow> resource_call list" where
  "close_plan part x 0 = []"
| "close_plan part x (Suc k) = close_plan part x k @ fst (part k x)"

locale once_closer =
  fixes closed :: "'r \<Rightarrow> bool" and gate :: "'r \<Rightarrow> bool \<times> 'r" and part :: "nat \<Rightarrow> 'r \<Rightarrow> resource_call list \<times> 'r" and parts :: nat
  assumes gate_open: "\<not> closed x \<Longrightarrow> fst (gate x) \<and> closed (snd (gate x))"
    and gate_shut: "closed x \<Longrightarrow> gate x = (False, x)"
    and part_closed: "closed (snd (part k x)) = closed x"
    and part_calls: "fst (part k x) = fst (part k y)"
begin

definition closing_inv :: "'r \<Rightarrow> 'r closing \<Rightarrow> bool" where
  "closing_inv r w \<longleftrightarrow>
     (case cz_winner w of
        Some (t, k) \<Rightarrow> closed (cz_resource w) \<and> k \<le> parts \<and> cz_calls w = close_plan part r k \<and> cz_won w = [t]
      | None \<Rightarrow>
          if closed (cz_resource w) then (\<exists>t. cz_won w = [t]) \<and> cz_calls w = close_plan part r parts
          else cz_won w = [] \<and> cz_calls w = [])"

lemma closing_step:
  assumes "closing_inv r w" and "close_step gate part parts w l v"
  shows "closing_inv r v"
  using assms(2)
proof cases
  case (enter x t)
  have "\<not> closed (cz_resource w)" using enter(3) gate_shut by fastforce
  then show ?thesis using enter assms(1) gate_open [of "cz_resource w"] by (auto simp: closing_inv_def split: option.splits)
next
  case (again x t)
  have "closed (cz_resource w)" using again(3) gate_open by fastforce
  then show ?thesis using again assms(1) gate_shut by (auto simp: closing_inv_def split: option.splits)
next
  case (part t k)
  then show ?thesis using assms(1) part_closed part_calls [of k r "cz_resource w"] by (auto simp: closing_inv_def)
next
  case (return t)
  then show ?thesis using assms(1) by (auto simp: closing_inv_def)
qed

text \<open>The calls are made once, in their order; all of them once no thread is closing any more.\<close>

lemma closes_once:
  assumes "reachable (\<lambda>w. w = unclosed_world r) (close_step gate part parts) w" and "\<not> closed r" and "closed (cz_resource w)"
  shows "\<exists>k \<le> parts. cz_calls w = close_plan part r k \<and> (cz_winner w = None \<longrightarrow> k = parts) \<and> length (cz_won w) = 1"
proof -
  have "closing_inv r w" using assms(1)
  proof (induction rule: reachable.induct)
    case (reach_start w)
    then show ?case by (simp add: closing_inv_def unclosed_world_def assms(2))
  qed (rule closing_step)
  then show ?thesis using assms(3) by (auto simp: closing_inv_def split: option.splits)
qed

text \<open>But a thread that comes second returns at once, before the first has released anything.\<close>

lemma second_returns_early:
  assumes "\<not> closed r"
  shows "\<exists>w. reachable (\<lambda>w. w = unclosed_world r) (close_step gate part parts) w \<and> cz_returned w = [2] \<and> cz_calls w = []"
proof -
  let ?x = "snd (gate r)"
  have g: "gate (cz_resource (unclosed_world r)) = (True, ?x)" "closed ?x"
    using gate_open [OF assms] by (simp_all add: unclosed_world_def prod_eq_iff)
  have "\<exists>w. close_step gate part parts (unclosed_world r) (CEnter 1) w \<and> cz_resource w = ?x \<and> cz_calls w = [] \<and> cz_returned w = []"
    by (rule exI, rule conjI, rule close_step.enter, rule g(1)) (simp add: unclosed_world_def)
  then obtain w1 where w1: "close_step gate part parts (unclosed_world r) (CEnter 1) w1"
      "cz_resource w1 = ?x" "cz_calls w1 = []" "cz_returned w1 = []" by blast
  have "gate (cz_resource w1) = (False, ?x)" unfolding w1(2) by (rule gate_shut [OF g(2)])
  then have "close_step gate part parts w1 (CEnter 2) (w1\<lparr>cz_resource := ?x, cz_returned := 2 # cz_returned w1\<rparr>)"
    by (rule close_step.again)
  moreover have "reachable (\<lambda>w. w = unclosed_world r) (close_step gate part parts) w1"
    by (rule reach_step) (rule reach_start, rule refl, rule w1(1))
  ultimately have "reachable (\<lambda>w. w = unclosed_world r) (close_step gate part parts) (w1\<lparr>cz_resource := ?x, cz_returned := 2 # cz_returned w1\<rparr>)"
    by (blast intro: reach_step)
  moreover have "cz_returned (w1\<lparr>cz_resource := ?x, cz_returned := 2 # cz_returned w1\<rparr>) = [2]"
      "cz_calls (w1\<lparr>cz_resource := ?x, cz_returned := 2 # cz_returned w1\<rparr>) = []" by (simp_all add: w1)
  ultimately show ?thesis by blast
qed

end

interpretation redis_close: once_closer rd_closed redis_gate "redis_part (redis_stopped ec phase)" 4 for ec phase
  by unfold_locales (auto simp: redis_gate_def redis_part_def)

interpretation mongo_close: once_closer md_closed mongo_gate mongo_part 3
  by unfold_locales (auto simp: mongo_gate_def mongo_part_def)

text \<open>The order of the two: the client or the collection first, the engine or the owner last.\<close>

lemma close_plans:
  "close_plan (redis_part stopped) x 4 = [RedisClientClose, RedisRequestClose, RedisJoin]"
  "close_plan mongo_part y 3 = [MongoCollClose, MongoDbClose]"
  by (simp_all add: redis_part_def mongo_part_def eval_nat_numeral)

text \<open>A creation that fails leaves no thread: every start of one is followed by the request and the join.\<close>

lemma Redis_Create_cleans:
  "Redis_Create E = Some (Inl e, calls) \<Longrightarrow> RedisThreadStart \<in> set calls \<and> drop (length calls - 2) calls = [RedisRequestClose, RedisJoin]"
  by (auto simp: Redis_Create_def fail_def split: if_splits sum.splits)

lemma Redis_Create_returns:
  "\<exists>p \<in> set (re_polls E). ep_running p \<or> ep_finished p \<or> re_now E + kRedisEngineRunWait \<le> ep_now p \<Longrightarrow> Redis_Create E \<noteq> None"
proof -
  have "\<exists>p \<in> set ps. ep_running p \<or> ep_finished p \<or> u \<le> ep_now p \<Longrightarrow> redis_wait u ps" for u ps
    by (induction ps) auto
  then show "\<exists>p \<in> set (re_polls E). ep_running p \<or> ep_finished p \<or> re_now E + kRedisEngineRunWait \<le> ep_now p \<Longrightarrow> Redis_Create E \<noteq> None"
    by (simp add: Redis_Create_def split: sum.split)
qed

end
