(* ===== verification/Tokens.thy ===== *)
theory Tokens
  imports Borrows "HOL-Library.Multiset"
begin

text \<open>
  The object through which business code owns something of the registry: \<open>ComponentBorrow\<close> of
  \<open>Object.hpp\<close>, with \<open>BindingLease::~BindingLease\<close> of \<open>src/host/Registry.cc\<close>. It can only be moved, and
  gives its lease back when it is destroyed or assigned over. A variable is named by a number; a
  program is any sequence of borrows, moves, assignments and ends of life, between any other
  operations of the registry. The locale \<open>move_only\<close> holds what a type with these operations keeps.
\<close>

subsection \<open>Variables of a move-only type\<close>

text \<open>
  \<open>moved\<close> is what a variable is after it was moved from, \<open>give_back\<close> what its destructor does. An
  operation on a variable that does not live, or a construction over one that does, is no program.
\<close>

definition move_construct :: "'h \<Rightarrow> nat \<Rightarrow> nat \<Rightarrow> (nat \<times> 'h) list \<Rightarrow> (nat \<times> 'h) list" where
  "move_construct moved v u vs =
     (case map_of vs u of
        None \<Rightarrow> vs
      | Some h \<Rightarrow> if map_of vs v \<noteq> None then vs else (v, h) # AList.update u moved vs)"

definition move_assign :: "'h \<Rightarrow> ('h \<Rightarrow> 's \<Rightarrow> 's) \<Rightarrow> nat \<Rightarrow> nat \<Rightarrow> (nat \<times> 'h) list \<times> 's \<Rightarrow> (nat \<times> 'h) list \<times> 's" where
  "move_assign moved give_back v u s =
     (case (map_of (fst s) v, map_of (fst s) u) of
        (Some old, Some h) \<Rightarrow>
          if v = u then s
          else (AList.update u moved (AList.update v h (fst s)), give_back old (snd s))
      | _ \<Rightarrow> s)"

definition end_of_life :: "('h \<Rightarrow> 's \<Rightarrow> 's) \<Rightarrow> nat \<Rightarrow> (nat \<times> 'h) list \<times> 's \<Rightarrow> (nat \<times> 'h) list \<times> 's" where
  "end_of_life give_back v s =
     (case map_of (fst s) v of None \<Rightarrow> s | Some h \<Rightarrow> (AList.delete v (fst s), give_back h (snd s)))"

text \<open>What the variables own together, in their order.\<close>

fun owned :: "('h \<Rightarrow> 'a option) \<Rightarrow> (nat \<times> 'h) list \<Rightarrow> 'a multiset" where
  "owned owns [] = {#}"
| "owned owns ((v, h) # vs) = (case owns h of None \<Rightarrow> owned owns vs | Some a \<Rightarrow> add_mset a (owned owns vs))"

definition one :: "'a option \<Rightarrow> 'a multiset" where
  "one x = (case x of None \<Rightarrow> {#} | Some a \<Rightarrow> {#a#})"

lemma key_of_member: "(u, x) \<in> set vs \<Longrightarrow> u \<in> fst ` set vs"
  by force

locale move_only =
  fixes owns :: "'h \<Rightarrow> 'a option" and moved :: 'h
  assumes moved_owns: "owns moved = None"
begin

lemma owned_Cons: "owned owns ((v, h) # vs) = one (owns h) + owned owns vs"
  by (simp add: one_def split: option.split)

lemma owned_update:
  "keys_distinct vs \<Longrightarrow> map_of vs v = Some h \<Longrightarrow> one (owns h) + owned owns (AList.update v h' vs) = one (owns h') + owned owns vs"
proof (induction vs)
  case (Cons p vs)
  obtain v0 h0 where p: "p = (v0, h0)" by force
  have "keys_distinct vs" using Cons.prems by (simp add: keys_distinct_def)
  then show ?case using Cons p by (cases "v0 = v") (auto simp: owned_Cons simp del: owned.simps)
qed simp

lemma owned_delete: "keys_distinct vs \<Longrightarrow> map_of vs v = Some h \<Longrightarrow> one (owns h) + owned owns (AList.delete v vs) = owned owns vs"
proof (induction vs)
  case (Cons p vs)
  obtain v0 h0 where p: "p = (v0, h0)" by force
  have "keys_distinct vs" "v0 \<notin> fst ` set vs" using Cons.prems p by (simp_all add: keys_distinct_def)
  moreover have "AList.delete v0 vs = vs" if "v0 \<notin> fst ` set vs"
    using that by (induction vs) auto
  ultimately show ?case using Cons p by (cases "v0 = v") (auto simp: owned_Cons simp del: owned.simps)
qed simp

text \<open>A move keeps what is owned; an assignment and an end of life give back exactly what is lost.\<close>

lemma move_construct_owned:
  "keys_distinct vs \<Longrightarrow> keys_distinct (move_construct moved v u vs) \<and> owned owns (move_construct moved v u vs) = owned owns vs"
  using owned_update [of vs u _ moved]
  by (auto simp: move_construct_def owned_Cons moved_owns one_def keys_distinct_def map_of_eq_None_iff
      distinct_update dom_update simp del: owned.simps split: option.split dest: key_of_member)

lemma move_assign_owned:
  assumes "keys_distinct (fst s)"
  obtains x where "snd (move_assign moved give_back v u s) = (case x of None \<Rightarrow> snd s | Some h \<Rightarrow> give_back h (snd s))"
    and "keys_distinct (fst (move_assign moved give_back v u s))"
    and "one (Option.bind x owns) + owned owns (fst (move_assign moved give_back v u s)) = owned owns (fst s)"
proof (cases "\<exists>old h. map_of (fst s) v = Some old \<and> map_of (fst s) u = Some h \<and> v \<noteq> u")
  case True
  then obtain old h where m: "map_of (fst s) v = Some old" "map_of (fst s) u = Some h" "v \<noteq> u" by blast
  let ?vs = "AList.update v h (fst s)"
  have "one (owns h) + owned owns (AList.update u moved ?vs) = owned owns ?vs"
    using owned_update [of ?vs u h moved] assms m by (simp add: map_of_update moved_owns one_def)
  moreover have "one (owns old) + owned owns ?vs = one (owns h) + owned owns (fst s)"
    by (rule owned_update [OF assms m(1)])
  ultimately have "one (owns h) + (one (owns old) + owned owns (AList.update u moved ?vs)) = one (owns h) + owned owns (fst s)"
    by (metis union_commute union_assoc)
  then show ?thesis using m assms by (intro that [of "Some old"]) (simp_all add: move_assign_def)
next
  case False
  then have "move_assign moved give_back v u s = s" by (auto simp: move_assign_def split: option.split)
  then show ?thesis using assms by (intro that [of None]) (simp_all add: one_def)
qed

lemma end_of_life_owned:
  assumes "keys_distinct (fst s)"
  obtains x where "snd (end_of_life give_back v s) = (case x of None \<Rightarrow> snd s | Some h \<Rightarrow> give_back h (snd s))"
    and "keys_distinct (fst (end_of_life give_back v s))"
    and "one (Option.bind x owns) + owned owns (fst (end_of_life give_back v s)) = owned owns (fst s)"
proof (cases "map_of (fst s) v")
  case None
  then show ?thesis using assms by (intro that [of None]) (simp_all add: end_of_life_def one_def)
next
  case (Some h)
  then show ?thesis using assms owned_delete [OF assms Some] by (intro that [of "Some h"]) (simp_all add: end_of_life_def)
qed

end

subsection \<open>Borrows\<close>

text \<open>The lease object is owned by one \<open>shared_ptr\<close>, which is never copied, beside the plain pointer.\<close>

record ComponentBorrow =
  cb_binding :: "BindingLease option"
  cb_obj :: "nat option"

definition moved_borrow :: ComponentBorrow where
  "moved_borrow = \<lparr>cb_binding = None, cb_obj = None\<rparr>"

definition destroy_lease :: "BindingLease \<Rightarrow> Registry \<Rightarrow> Registry" where
  "destroy_lease l = ReleaseBorrow (bl_component l) (bl_subject l) (bl_generation l)"

definition release_borrow :: "ComponentBorrow \<Rightarrow> Registry \<Rightarrow> Registry" where
  "release_borrow b r = (case cb_binding b of None \<Rightarrow> r | Some l \<Rightarrow> destroy_lease l r)"

text \<open>\<open>MakeComponentBorrow\<close>: an object that is null is refused, and its lease dies with the argument.\<close>

definition MakeComponentBorrow :: "BindingLease \<Rightarrow> nat \<Rightarrow> Registry \<Rightarrow> ComponentBorrow result \<times> Registry" where
  "MakeComponentBorrow l ob r =
     (if ob = 0 then (fail InternalError ''MakeComponentBorrow: null lease/obj'', destroy_lease l r)
      else (Inr \<lparr>cb_binding = Some l, cb_obj = Some ob\<rparr>, r))"

definition HandleBorrow :: "ObjectHandle \<Rightarrow> nat \<Rightarrow> bool \<Rightarrow> Registry \<Rightarrow> ComponentBorrow result \<times> Registry" where
  "HandleBorrow h g allow r =
     (case BorrowImpl h g allow r of
        (Inl e, r') \<Rightarrow> (Inl e, r')
      | (Inr (l, ob), r') \<Rightarrow> MakeComponentBorrow l ob r')"

type_synonym borrow_world = "(nat \<times> ComponentBorrow) list \<times> Registry"

datatype borrow_op =
    BBorrow nat ObjectHandle nat bool
  | BConstruct nat nat
  | BAssign nat nat
  | BEnd nat
  | BOther obj_op

definition takes_or_gives :: "obj_op \<Rightarrow> bool" where
  "takes_or_gives x = (case x of OpBorrow _ _ _ \<Rightarrow> True | OpRelease _ \<Rightarrow> True | _ \<Rightarrow> False)"

definition borrow_step :: "borrow_world \<Rightarrow> borrow_op \<Rightarrow> borrow_world" where
  "borrow_step s x =
     (case x of
        BBorrow v h g allow \<Rightarrow>
          if map_of (fst s) v \<noteq> None then s
          else (case HandleBorrow h g allow (snd s) of
              (Inl e, r) \<Rightarrow> (fst s, r)
            | (Inr b, r) \<Rightarrow> ((v, b) # fst s, r))
      | BConstruct v u \<Rightarrow> (move_construct moved_borrow v u (fst s), snd s)
      | BAssign v u \<Rightarrow> move_assign moved_borrow release_borrow v u s
      | BEnd v \<Rightarrow> end_of_life release_borrow v s
      | BOther y \<Rightarrow> if takes_or_gives y then s else (fst s, w_reg (obj_step \<lparr>w_reg = snd s, w_leases = []\<rparr> y)))"

interpretation borrows: move_only cb_binding moved_borrow
  by unfold_locales (simp add: moved_borrow_def)

text \<open>The accounts only depend on which leases are alive.\<close>

lemma leases_mset: "mset ls = mset ls' \<Longrightarrow> leases_on i ls = leases_on i ls' \<and> leases_of i s g ls = leases_of i s g ls'"
  by (simp add: leases_on_def leases_of_def flip: size_mset)

lemma world_ok_mset:
  assumes "world_ok \<lparr>w_reg = r, w_leases = ls\<rparr>" and "mset ls = mset ls'"
  shows "world_ok \<lparr>w_reg = r, w_leases = ls'\<rparr>"
  using assms(1) leases_mset [OF assms(2)] mset_eq_setD [OF assms(2)]
  by (simp add: world_ok_def entry_ok_def binding_ok_def)

definition accounted :: "Registry \<Rightarrow> BindingLease multiset \<Rightarrow> bool" where
  "accounted r ls \<longleftrightarrow> (\<exists>xs. mset xs = ls \<and> world_ok \<lparr>w_reg = r, w_leases = xs\<rparr>)"

lemma accounted_release:
  assumes "accounted r (add_mset l ls)"
  shows "accounted (destroy_lease l r) ls"
proof -
  obtain ys where ys: "mset ys = ls" using ex_mset by blast
  obtain xs where xs: "mset xs = add_mset l ls" "world_ok \<lparr>w_reg = r, w_leases = xs\<rparr>"
    using assms unfolding accounted_def by blast
  have "world_ok \<lparr>w_reg = r, w_leases = l # ys\<rparr>" by (rule world_ok_mset [OF xs(2)]) (simp add: xs(1) ys)
  from ReleaseBorrow_ok [OF this, of 0 l] have "world_ok \<lparr>w_reg = destroy_lease l r, w_leases = ys\<rparr>"
    by (simp add: destroy_lease_def drop_lease_def)
  then show ?thesis unfolding accounted_def using ys by blast
qed

lemma accounted_borrow:
  assumes "accounted r ls" and "BorrowImpl h g allow r = (y, r')"
  shows "case y of Inl e \<Rightarrow> accounted r' ls | Inr (l, ob) \<Rightarrow> accounted r' (add_mset l ls)"
proof -
  obtain xs where xs: "mset xs = ls" "world_ok \<lparr>w_reg = r, w_leases = xs\<rparr>" using assms(1) unfolding accounted_def by blast
  from obj_step_ok [OF xs(2), of "OpBorrow h g allow"] assms(2) show ?thesis
    using xs by (cases y) (force simp: obj_step_def accounted_def split: prod.split)+
qed

lemma other_ops_registry:
  "\<not> takes_or_gives x \<Longrightarrow> obj_step \<lparr>w_reg = r, w_leases = ls\<rparr> x = \<lparr>w_reg = w_reg (obj_step \<lparr>w_reg = r, w_leases = []\<rparr> x), w_leases = ls\<rparr>"
  by (cases x) (simp_all add: takes_or_gives_def obj_step_def Let_def)

lemma accounted_other:
  assumes "accounted r ls" and "\<not> takes_or_gives x"
  shows "accounted (w_reg (obj_step \<lparr>w_reg = r, w_leases = []\<rparr> x)) ls"
proof -
  obtain xs where xs: "mset xs = ls" "world_ok \<lparr>w_reg = r, w_leases = xs\<rparr>" using assms(1) unfolding accounted_def by blast
  from obj_step_ok [OF xs(2), of x] show ?thesis
    unfolding other_ops_registry [OF assms(2), of r xs] accounted_def using xs(1) by blast
qed

definition borrow_inv :: "borrow_world \<Rightarrow> bool" where
  "borrow_inv s \<longleftrightarrow> keys_distinct (fst s) \<and> accounted (snd s) (owned cb_binding (fst s))"

lemma released:
  assumes "accounted r (one (Option.bind x cb_binding) + ls)" and "r' = (case x of None \<Rightarrow> r | Some b \<Rightarrow> release_borrow b r)"
  shows "accounted r' ls"
  using assms accounted_release by (auto simp: one_def release_borrow_def split: option.splits)

lemma borrow_step_inv:
  assumes inv: "borrow_inv s"
  shows "borrow_inv (borrow_step s x)"
proof (cases x)
  case (BBorrow v h g allow)
  obtain y r' where y: "BorrowImpl h g allow (snd s) = (y, r')" by force
  have k: "keys_distinct ((v, b) # fst s)" if "map_of (fst s) v = None" for b
    using inv that by (simp add: borrow_inv_def keys_distinct_def map_of_eq_None_iff)
  show ?thesis using inv accounted_borrow [OF _ y, of "owned cb_binding (fst s)"] k accounted_release
    by (auto simp: BBorrow borrow_step_def HandleBorrow_def MakeComponentBorrow_def y borrow_inv_def fail_def split: sum.splits)
next
  case (BConstruct v u)
  then show ?thesis using inv borrows.move_construct_owned [of "fst s" v u] by (simp add: borrow_step_def borrow_inv_def)
next
  case (BAssign v u)
  obtain y where "snd (move_assign moved_borrow release_borrow v u s) = (case y of None \<Rightarrow> snd s | Some h \<Rightarrow> release_borrow h (snd s))"
      "keys_distinct (fst (move_assign moved_borrow release_borrow v u s))"
      "one (Option.bind y cb_binding) + owned cb_binding (fst (move_assign moved_borrow release_borrow v u s)) = owned cb_binding (fst s)"
    using borrows.move_assign_owned [of s release_borrow v u] inv unfolding borrow_inv_def by blast
  then show ?thesis using inv released [of "snd s" y] by (simp add: BAssign borrow_step_def borrow_inv_def)
next
  case (BEnd v)
  obtain y where "snd (end_of_life release_borrow v s) = (case y of None \<Rightarrow> snd s | Some h \<Rightarrow> release_borrow h (snd s))"
      "keys_distinct (fst (end_of_life release_borrow v s))"
      "one (Option.bind y cb_binding) + owned cb_binding (fst (end_of_life release_borrow v s)) = owned cb_binding (fst s)"
    using borrows.end_of_life_owned [of s release_borrow v] inv unfolding borrow_inv_def by blast
  then show ?thesis using inv released [of "snd s" y] by (simp add: BEnd borrow_step_def borrow_inv_def)
next
  case (BOther y)
  then show ?thesis using inv accounted_other by (simp add: borrow_step_def borrow_inv_def)
qed

interpretation borrow_program: machine "([], new_registry self l)" borrow_step borrow_inv for self l
proof unfold_locales
  have "world_ok \<lparr>w_reg = new_registry self l, w_leases = []\<rparr>" using new_world_ok [of self l] by (simp add: new_world_def)
  then show "borrow_inv ([], new_registry self l)" by (auto simp: borrow_inv_def accounted_def keys_distinct_def)
qed (rule borrow_step_inv)

text \<open>What the live variables hold, counted.\<close>

definition held_by :: "(BindingLease \<Rightarrow> bool) \<Rightarrow> (nat \<times> ComponentBorrow) list \<Rightarrow> nat" where
  "held_by P vs = length (filter (\<lambda>(v, b). case cb_binding b of None \<Rightarrow> False | Some l \<Rightarrow> P l) vs)"

lemma held_by_owned: "held_by P vs = size (filter_mset P (owned cb_binding vs))"
proof (induction vs)
  case (Cons p vs)
  obtain v b where "p = (v, b)" by force
  then show ?case using Cons by (cases "cb_binding b") (simp_all add: held_by_def)
qed (simp add: held_by_def)

lemma accounted_counts:
  assumes "accounted r (owned cb_binding vs)" and "e \<in> set (rg_entries r)"
  shows "re_component_borrows e = held_by (\<lambda>l. bl_component l = re_id e) vs \<and>
    (\<forall>b \<in> set (re_bindings e). b_borrows b =
       held_by (\<lambda>l. bl_component l = re_id e \<and> bl_subject l = b_subject b \<and> bl_generation l = b_generation b) vs)"
proof -
  obtain xs where xs: "mset xs = owned cb_binding vs" "world_ok \<lparr>w_reg = r, w_leases = xs\<rparr>"
    using assms(1) unfolding accounted_def by blast
  have held: "held_by P vs = length (filter P xs)" for P
    by (simp add: held_by_owned flip: xs(1) mset_filter)
  show ?thesis using xs(2) assms(2)
    by (auto simp: world_ok_def entry_ok_def binding_ok_def held leases_on_def leases_of_def)
qed

text \<open>Leaving the scopes one after the other ends every variable.\<close>

lemma ended: "fst (run_ops borrow_step s (map BEnd vs)) = filter (\<lambda>p. fst p \<notin> set vs) (fst s)"
proof (induction vs arbitrary: s)
  case (Cons v vs)
  have "filter (\<lambda>p. fst p \<noteq> v) (fst s) = fst s" if "map_of (fst s) v = None"
    using that by (auto simp: map_of_eq_None_iff filter_id_conv)
  moreover have "AList.delete v (fst s) = filter (\<lambda>p. fst p \<noteq> v) (fst s)"
    unfolding AList.delete_eq by (rule filter_cong) auto
  ultimately have "fst (borrow_step s (BEnd v)) = filter (\<lambda>p. fst p \<noteq> v) (fst s)"
    by (simp add: borrow_step_def end_of_life_def split: option.split)
  then show ?case by (simp add: Cons.IH conj_commute)
qed simp

subsection \<open>Properties\<close>

text \<open>C40: Borrows give their leases back by themselves. For every program over variables of type
  \<open>ComponentBorrow\<close> (borrowed, move constructed, move assigned over each other or over themselves,
  destroyed, in any order, with any other operations of the registry in between), the borrow counter
  of every component and of every binding is the number of live variables that hold such a lease, and
  when the variables that are left are ended, no variable lives and every counter is zero. So no
  sequence of moves loses a lease or gives one back twice.\<close>

theorem borrows_give_back_exactly_once:
  shows "(let s = run_ops borrow_step ([], new_registry self l) xs;
       s' = run_ops borrow_step s (map (\<lambda>p. BEnd (fst p)) (fst s))
     in list_all (\<lambda>e. re_component_borrows e = held_by (\<lambda>l. bl_component l = re_id e) (fst s) \<and>
          list_all (\<lambda>b. b_borrows b = held_by (\<lambda>l. bl_component l = re_id e \<and> bl_subject l = b_subject b \<and>
             bl_generation l = b_generation b) (fst s)) (re_bindings e)) (rg_entries (snd s)) \<and>
        fst s' = [] \<and>
        list_all (\<lambda>e. re_component_borrows e = 0 \<and> list_all (\<lambda>b. b_borrows b = 0) (re_bindings e)) (rg_entries (snd s')))"
proof -
  let ?s = "run_ops borrow_step ([], new_registry self l) xs"
  let ?s' = "run_ops borrow_step ?s (map (\<lambda>p. BEnd (fst p)) (fst ?s))"
  have inv: "borrow_inv ?s" by (rule borrow_program.inv_run)
  have inv': "borrow_inv ?s'" by (rule borrow_program.inv_run_from [OF inv])
  have "map (\<lambda>p. BEnd (fst p)) (fst ?s) = map BEnd (map fst (fst ?s))" by simp
  then have gone: "fst ?s' = []" by (simp only: ended) (auto simp: filter_empty_conv)
  have "re_component_borrows e = 0 \<and> (\<forall>b \<in> set (re_bindings e). b_borrows b = 0)" if "e \<in> set (rg_entries (snd ?s'))" for e
    using accounted_counts [OF _ that, of "[]"] inv' gone by (simp add: borrow_inv_def held_by_def)
  then show ?thesis using accounted_counts [of "snd ?s" "fst ?s"] inv gone
    by (simp add: borrow_inv_def Let_def list_all_iff)
qed

text \<open>Two borrows, the second moved over the first, which gives the first lease back.\<close>

definition demo_moves :: "borrow_op list" where
  "demo_moves = map BOther (take 4 demo_history) @
     [BBorrow 0 demo_handle 3 False, BBorrow 1 demo_handle 3 False, BAssign 0 1, BAssign 0 0, BConstruct 2 0, BEnd 0]"

theorem borrows_give_back_exactly_once_witness:
  "(let s = run_ops borrow_step ([], new_registry 0 demo_limits) demo_moves
    in map fst (fst s) = [2, 1] \<and> held_by (\<lambda>l. bl_component l = ''component:0'') (fst s) = 1 \<and>
       list_all (\<lambda>e. re_component_borrows e = held_by (\<lambda>l. bl_component l = re_id e) (fst s)) (rg_entries (snd s)))"
proof -
  have "(let s = run_ops borrow_step ([], new_registry 0 demo_limits) demo_moves
    in map fst (fst s) = [2, 1] \<and> held_by (\<lambda>l. bl_component l = ''component:0'') (fst s) = 1)"
    by code_simp
  then show ?thesis using borrows_give_back_exactly_once [of 0 demo_limits demo_moves]
    by (simp add: Let_def list_all_iff)
qed

end
