(* ===== verification/Spec2Isabelle.thy ===== *)
theory Spec2Isabelle
  imports OrderedProps ServiceConfig Mailbox Actors Routes Scope Wire Egress AppState Bridge Dispatch Lifecycle StartOrder Observers AppSafety Acyclic HostProps Shutdown TypedCalls Resources Tokens
begin

text \<open>
  A verification of \<open>bbt-framework\<close>, the application framework on top of the libraries \<open>bbt::infra\<close>
  (results, RPC envelopes, HTTP and TCP engines) and \<open>bbt::coroutine\<close> (coroutines, their waiters, the
  scheduler). The model follows \<open>src/framework/\<close>: one theory for each part, every operation by the
  name it has in the code, and theorems about what the parts promise each other and the business code.

  \<^bold>\<open>The program.\<close> A host process runs one \<open>CoApp\<close> (\<open>src/host/CoApp.cc\<close>): services and resources are
  registered, then \<open>run\<close> builds the network host, starts the resources, constructs and binds the
  services, publishes routes and a dispatcher, serves until a shutdown is requested, and goes down in
  a fixed order (\<open>HostLifecycle.cc\<close>). A call of another service leaves through a service object
  (\<open>ICoService.hpp\<close>), the adapter of the call options, the route and policy gates of
  \<open>AppRuntimeState.cc\<close> and an egress that turns the envelope into an HTTP request
  (\<open>RpcHttpBridge.cc\<close>). It arrives at the network host (\<open>InfraHttpHost.cc\<close>), whose gate counts it, at
  the bridge and at the \<open>InboundDispatcher\<close>, which checks it, runs the method of a concurrent service,
  or finds or activates the actor of the key (\<open>ActorRegistry.cc\<close>) and queues the call in its mailbox
  (\<open>ActorMailbox.cc\<close>). Calls of an ordered stream carry a producer, an epoch and a sequence: a session
  issues them (\<open>OrderedSession.cc\<close>), an ingress executes each of them once and in order, and replays
  the stored reply to a retransmission (\<open>OrderedIngress.cc\<close>).

  The second generation of the application (\<open>App.hpp\<close>, \<open>src/host/App.cc\<close>) manages objects instead:
  components, services and actors are entries of a \<open>Registry\<close> (\<open>src/host/Registry.cc\<close>) with a state, a
  generation, bindings from users to components, and counters of borrows; coroutines install, bind,
  start, stop and uninstall them, while observers are told of every change of state.

  \<^bold>\<open>How the code is translated.\<close> A class is a record with the fields of the class, an enumeration a
  datatype with its constructors, a result \<open>error + 'a\<close> with every early return a branch. A section
  under a lock is one step. Where the code lets go of the lock or suspends, the model has several
  steps, and the theorems quantify over everything that others do in between: lists of operations
  (\<open>run_ops\<close> of \<open>Prelude\<close>), step relations with labels (\<open>interleaving\<close>), or, for the long operations of
  \<open>App.cc\<close>, programs of the state monad whose environment may change the registry between any two
  steps. A sequence number, an epoch and the cursor of a route are 64-bit words; the identifiers,
  generations and tokens of the registry are unbounded, they would wrap after \<open>2^64\<close> objects. Time
  points are nanoseconds. An exception that leaves a function, a dereferenced null pointer and a wait
  without end are values of their own, never left out.

  \<^bold>\<open>What is outside.\<close> The libraries named above, \<open>boost\<close> and the clients of Redis and MongoDB are not in
  the repository. What a call of them answers is an argument: a field of an environment record, a
  parameter, or the label of a step. The structural check of error details is the parameter \<open>VD\<close>, the
  numbering of infra's error codes \<open>N\<close> and \<open>C\<close>, the HTTP client a record of functions, the coroutine
  identifiers numbers. The same holds for business code: constructors, factories, handlers, hooks,
  policies and callbacks answer anything, exceptions included.
\<close>

section \<open>The theories\<close>

text \<open>
  \<^item> \<open>Prelude\<close>: results and errors, association lists for the maps of C++, decimal numbers, and the
    locales \<open>machine\<close>, \<open>monotone_machine\<close>, \<open>interleaving\<close> and \<open>dutiful\<close>. A component with a state
    interprets one of them with its own operations and its invariant, and gets induction over its
    histories from there.
  \<^item> \<open>ErrorDomain\<close> (\<open>internal/ErrorDomainRule.hpp\<close>): which details an error of the actor domain needs,
    and the boundary at which an invalid error becomes a plain internal one.

  Ordered streams:
  \<^item> \<open>OrderedSend\<close> (\<open>OrderedTypes.hpp\<close>, \<open>OrderedSession.hpp\<close>, \<open>OrderedSession.cc\<close>): a session is its fields
    and the table of its tickets; \<open>Prepare\<close>, \<open>BindForSend\<close>, the process-wide table of live sessions.
  \<^item> \<open>OrderedRecv\<close> (\<open>OrderedIngress.hpp\<close>, \<open>OrderedIngress.cc\<close>): \<open>GrantStream\<close>, \<open>Admit\<close>, \<open>Complete\<close>, the cache
    of replies and its eviction, with the invariant \<open>ing_inv\<close>.
  \<^item> \<open>OrderedExec\<close>: histories of these operations, and \<open>seq_status\<close>, what one sequence can be (an
    abstract specification that the operations implement).
  \<^item> \<open>OrderedProps\<close>: the properties of both sides.

  Calls between services:
  \<^item> \<open>ServiceConfig\<close> (\<open>ExecutionPolicy\<close>, \<open>MethodTable\<close>): options of a service, method tables.
  \<^item> \<open>Wire\<close>: envelopes, their metadata, the decimal parser, the digest of a request.
  \<^item> \<open>Egress\<close> (\<open>CallOptionsAdapter.cc\<close>, \<open>CoServiceCall.cc\<close>, \<open>CallOptions.hpp\<close>): what a call checks and sends.
  \<^item> \<open>AppState\<close> (\<open>AppRuntimeState.cc\<close>): the routes, the policy, the published tables.
  \<^item> \<open>Bridge\<close> (\<open>RpcHttpBridge.cc\<close>): envelopes as HTTP requests and replies, and back.
  \<^item> \<open>Routes\<close> (\<open>DynamicRouteTable.cc\<close>), \<open>Scope\<close> (\<open>RequestScope.cc\<close>): published endpoints; the context of
    the request that a coroutine or thread is in.
  \<^item> \<open>Actors\<close>, \<open>Mailbox\<close> (\<open>src/actor/\<close>): activation of actors; the queue and its one drain coroutine.
  \<^item> \<open>Dispatch\<close> (\<open>InboundDispatcher.cc\<close>): a dispatch is the two steps \<open>dispatch_begin\<close> and \<open>dispatch_end\<close>;
    any number of them interleave.
  \<^item> \<open>TypedCalls\<close> (\<open>CoRpc.hpp\<close>, \<open>RpcMethods.hpp\<close>, \<open>MethodTable.hpp\<close>, \<open>ICoService.hpp\<close>, \<open>RpcWireBridge.cc\<close>): typed
    requests and methods, the handlers that connect bridge and dispatcher, and the whole way of a call.

  The host:
  \<^item> \<open>Lifecycle\<close> (\<open>HostLifecycle.cc\<close>): \<open>Run\<close> with its hooks, the order of the shutdown, the exit code.
  \<^item> \<open>NetHost\<close> (\<open>InfraHttpHost.cc\<close>): creation, start, the gate of the handlers, the wait for them, the
    close; \<open>net_step\<close> interleaves requests, waiters and closers.
  \<^item> \<open>HostApp\<close>, \<open>HostProps\<close> (\<open>CoApp.hpp\<close>, \<open>CoApp.cc\<close>, \<open>CoAppSeam.hpp\<close>, \<open>ServiceContext.hpp\<close>): registration, the
    start of the resources, the binding of the services, and a run inside the lifecycle.
  \<^item> \<open>Resources\<close> (\<open>RedisNetResource.hpp\<close>, \<open>MongoDbResource.hpp\<close>, \<open>ResourceClose.cc\<close>): creation and close; the
    locale \<open>once_closer\<close> is what the two kinds of close have in common.
  \<^item> \<open>Shutdown\<close> (\<open>App.cc\<close>, \<open>HostLifecycle.cc\<close>): the two ways to wait for a shutdown request.

  Managed objects:
  \<^item> \<open>Objects\<close> (\<open>Registry.hpp\<close>, \<open>Registry.cc\<close>, \<open>Object.hpp\<close>, \<open>Address.hpp\<close>): the registry and its sections.
  \<^item> \<open>ObjectProps\<close>, \<open>Borrows\<close>: identities and leases under every history (\<open>obj_step\<close>, invariant \<open>world_ok\<close>).
  \<^item> \<open>Tokens\<close>: the move-only \<open>ComponentBorrow\<close> as a program uses it; locale \<open>move_only\<close>.
  \<^item> \<open>Observers\<close>: dispatching, revoking and draining observers under every interleaving.
  \<^item> \<open>Bounds\<close>: the limits of the registry.
  \<^item> \<open>StartOrder\<close>, \<open>Dependencies\<close>, \<open>Acyclic\<close>: the order of starting components, the search for cycles.
  \<^item> \<open>AppCore\<close>, \<open>AppLife\<close>, \<open>AppInstall\<close>, \<open>AppEntry\<close> (\<open>App.hpp\<close>, \<open>App.cc\<close>, \<open>Object.cc\<close>, \<open>Service.cc\<close>): the operations
    of the application as programs of the state monad.
  \<^item> \<open>AppProps\<close>, \<open>AppMoves\<close>, \<open>AppSafety\<close>: three ways to reason about these programs: the hooks they call
    and their order; that they change the registry by operations of \<open>Borrows\<close> only, so that what those
    keep every program keeps; and, with the locale \<open>shut_object\<close>, rely and guarantee.
\<close>

section \<open>What the theorems show\<close>

text \<open>
  \<^bold>\<open>Ordered streams.\<close> A session issues and sends its sequences without a gap and in order; at most one
  live session exists for a stream. The ingress executes in order and each sequence once, replays only
  what was completed for the same request and digest, stays within its limits, and grants all of a
  stream or nothing; \<open>Admit\<close> implements the abstract decision on the status of a sequence. Through the
  dispatcher, an in-flight sequence always has a dispatch that will complete it, and a retransmission
  gets the same answer.

  \<^bold>\<open>Calls.\<close> Only requests that passed every check enter a method; the calls in flight are counted
  exactly and bounded; every dispatch ends with one answer. A mailbox runs the accepted tasks one at a
  time in their order, and drains. The adapter acts only after all its checks; what a call sends is
  what was asked for; policy and routes gate it. The headers of a request read back as the envelope,
  and a call through adapter, egress, HTTP, bridge and dispatcher is the call of the method in place,
  with errors as the boundary carries them.

  \<^bold>\<open>The host.\<close> The phases of a run come in their order and determine the exit code; a host that could
  not prove its drain keeps its resources; after a proved drain no handler runs again; the first
  reason of a close is final; every resource is closed exactly once; a start that succeeds has
  published exactly what was registered, one that fails names its cause and publishes nothing; a
  coroutine that waits for a shutdown request is always served.

  \<^bold>\<open>Managed objects.\<close> The borrow counters are the live leases, whatever moves the variables that hold
  them; a binding that was unbound and a revoked observer are dead; the application refines the
  registry, stays within its limits and never has a cycle of dependencies; the hooks of a start and of
  a stop come in dependency order; a component is not uninstalled, and as long as nothing sets its
  state back not stopped, while it is lent.

  \<^bold>\<open>Deviations found.\<close> Where the code does not do what it means to, the model has the code's behaviour
  and a lemma shows it: \<open>open_for_test_never_sends\<close>, \<open>stale_completion_replayed\<close> (ordered streams),
  \<open>bound_custom_ambiguous\<close>, \<open>malformed_error_code_throws\<close> (calls), \<open>request_can_be_lost\<close>,
  \<open>waiter_sees_the_reason_first\<close>, \<open>second_returns_early\<close> (host), \<open>drain_erase_breaks_revocation\<close>,
  \<open>stop_leaves_the_gate_open\<close>, \<open>scoped_dependency_stops_first\<close> (managed objects). The properties beside
  them say under which condition the promise does hold.
\<close>

section \<open>Loops, fuel and bounds\<close>

text \<open>
  Most loops of the code run over a container and are structural recursion. The others:
  \<^item> The eviction of cached replies is a \<^theory_text>\<open>partial_function\<close>; \<open>EvictToLimits_total\<close> shows that it
    returns whenever the invariant holds, and \<open>Complete_total\<close> that no completion runs into it.
  \<^item> The two depth-first searches over components recurse through a \<open>std::function\<close>. The one of the
    start order has the number of components as fuel, since every call marks one that was not marked;
    the search for a cycle has one more, for its first call. In both, \<open>None\<close> is running out, and it is
    proved not to happen (\<open>StartOrder\<close>, \<open>Dependencies\<close>).
  \<^item> The polls of \<open>WaitComponentBorrows\<close> and \<open>WaitBindingBorrows\<close> end at a finite deadline: the list of
    rounds is an argument of the wait, of any length, so every number of polls is covered.
  \<^item> The waits for the handlers and for the engine to run (\<open>NetHost\<close>, \<open>Resources\<close>) take the list of what
    they observe until the deadline; \<open>engine_wait_ends\<close> bounds the polls.
  \<^item> \<open>Run\<close> of the lifecycle may block for ever, when nobody requests a shutdown or when it parks; then
    the result is \<open>None\<close>.
\<close>

section \<open>Not modelled\<close>

text \<open>
  \<^item> \<open>bbt::infra\<close>, \<open>bbt::coroutine\<close>, \<open>boost\<close>, the database clients, memory exhaustion, and the memory model
    below the locks; atomics are single steps.
  \<^item> The umbrella headers (\<open>Framework.hpp\<close>, \<open>V2.hpp\<close>, \<open>Route.hpp\<close>, \<open>Result.hpp\<close>), which only include or rename.
  \<^item> Setters and getters of the option builders beyond the fields they store; casts of handles to the
    component's type; the commands of the shipped resources, each one forwarding call to a client.
  \<^item> The example programs, the tests and the documentation, which use the framework and are no part of it.
\<close>

end
